(* ===== verification/Prelude.thy ===== *)
theory Prelude
  imports Complex_Main "HOL-Library.Word" "HOL-Library.Monad_Syntax"
begin

text \<open>
  Shared vocabulary of the development: the machine types of the firmware, checked access to C
  arrays, C strings, and the parts of the C standard library (\<open>strlen\<close>, \<open>strcpy\<close>,
  \<open>strcmp\<close>, \<open>strncmp\<close>, \<open>isspace\<close>, \<open>atoi\<close>, \<open>atoll\<close>) that the sources call.

  A C array is a list whose length is the size of the array. Every read and write of an array
  element is checked: the value \<open>None\<close> of a computation of type \<open>'a option\<close> stands for
  undefined behaviour (an access outside the array, or a C string with no terminator inside its
  array). Error codes that the program itself returns are ordinary values under \<open>Some\<close>.
\<close>

unbundle bit_operations_syntax

section \<open>Types\<close>

type_synonym u8 = "8 word"
type_synonym u16 = "16 word"
type_synonym u32 = "32 word"
type_synonym u64 = "64 word"

lemma unat_of_nat_u8: "n < 256 \<Longrightarrow> unat (of_nat n :: u8) = n"
  by (simp add: unat_of_nat)

text \<open>A byte string without its terminator.\<close>
type_synonym bytes = "8 word list"

text \<open>String literals of the sources as byte strings.\<close>
definition cstr :: "string \<Rightarrow> bytes" where
  "cstr s = map of_char s"

lemma cstr_simps [simp]:
  "cstr [] = []"
  "cstr (c # s) = of_char c # cstr s"
  by (simp_all add: cstr_def)

lemma length_cstr [simp]: "length (cstr s) = length s"
  by (simp add: cstr_def)

section \<open>Checked arrays\<close>

named_theorems mem_simps \<open>reads and writes of arrays that are known to be in range\<close>
named_theorems mem_dests \<open>what a successful read or write implies\<close>

definition rd :: "'a list \<Rightarrow> nat \<Rightarrow> 'a option" where
  "rd xs i = (if i < length xs then Some (xs ! i) else None)"

definition wr :: "'a list \<Rightarrow> nat \<Rightarrow> 'a \<Rightarrow> 'a list option" where
  "wr xs i v = (if i < length xs then Some (xs[i := v]) else None)"

text \<open>Writing a block, as \<open>memcpy\<close> and \<open>memset\<close> do.\<close>
definition wr_block :: "'a list \<Rightarrow> nat \<Rightarrow> 'a list \<Rightarrow> 'a list option" where
  "wr_block xs i vs =
     (if i + length vs \<le> length xs then Some (take i xs @ vs @ drop (i + length vs) xs) else None)"

lemma rd_in [mem_simps]: "i < length xs \<Longrightarrow> rd xs i = Some (xs ! i)"
  by (simp add: rd_def)

lemma rd_out [mem_simps]: "length xs \<le> i \<Longrightarrow> rd xs i = None"
  by (simp add: rd_def)

lemma wr_in [mem_simps]: "i < length xs \<Longrightarrow> wr xs i v = Some (xs[i := v])"
  by (simp add: wr_def)

lemma wr_out [mem_simps]: "length xs \<le> i \<Longrightarrow> wr xs i v = None"
  by (simp add: wr_def)

lemma rd_SomeD [mem_dests]: "rd xs i = Some v \<Longrightarrow> i < length xs \<and> v = xs ! i"
  by (simp add: rd_def split: if_splits)

lemma wr_SomeD [mem_dests]: "wr xs i v = Some ys \<Longrightarrow> i < length xs \<and> ys = xs[i := v]"
  by (auto simp: wr_def split: if_splits)

lemma wr_length [mem_dests]: "wr xs i v = Some ys \<Longrightarrow> length ys = length xs"
  by (auto simp: wr_def split: if_splits)

lemma wr_block_length: "wr_block xs i vs = Some ys \<Longrightarrow> length ys = length xs"
  by (auto simp: wr_block_def split: if_splits)

text \<open>Writing just behind an already written prefix extends the prefix.\<close>
lemma wr_append [mem_simps]:
  "i = length pre \<Longrightarrow> wr (pre @ x # post) i v = Some (pre @ v # post)"
  by (simp add: wr_def)

lemma rd_append [mem_simps]:
  "i = length pre \<Longrightarrow> rd (pre @ x # post) i = Some x"
  by (simp add: rd_def)

lemma list_split_at: "i < length xs \<Longrightarrow> \<exists>pre x post. xs = pre @ x # post \<and> length pre = i"
  by (metis id_take_nth_drop length_take min.absorb4)

text \<open>Reading at an index when the rest of the array from there is known.\<close>
lemma drop_Cons_bound: "drop i xs = y # ys \<Longrightarrow> i < length xs"
  by (metis drop_all list.distinct(1) not_less)

lemma drop_Cons_Suc: "drop i xs = y # ys \<Longrightarrow> drop (Suc i) xs = ys"
  by (metis drop_Suc list.sel(3) tl_drop)

lemma rd_drop_Cons: "drop i xs = y # ys \<Longrightarrow> rd xs i = Some y"
  by (metis drop_Cons_bound hd_drop_conv_nth list.sel(1) rd_in)

lemma drop_self_append: "drop i xs = ys \<Longrightarrow> xs = take i xs @ ys"
  by (metis append_take_drop_id)

lemma drop_behind: "drop i xs = ys @ zs \<Longrightarrow> drop (i + length ys) xs = zs"
  by (metis add.commute append_eq_conv_conj drop_drop)

text \<open>A fixed prefix is found in front of a separator that it does not contain, or not at all.\<close>
lemma take_separated:
  assumes "x \<notin> set p" "length p = n"
  shows "take n (l @ x # r) = p \<longleftrightarrow> take n l = p"
proof (cases "n \<le> length l")
  case False
  then obtain k where k: "n = length l + Suc k" by (metis add_Suc_right less_iff_Suc_add not_le)
  then have "x \<in> set (take n (l @ x # r))" by simp
  moreover have "length (take n l) < n" using k by simp
  ultimately show ?thesis using assms by (metis less_irrefl)
qed simp

lemma list_three: "3 \<le> length xs \<Longrightarrow> \<exists>a b c r. xs = a # b # c # r"
  by (cases xs; cases "tl xs"; cases "tl (tl xs)") auto

section \<open>Postconditions\<close>

text \<open>What holds of the result of a computation, if it has one.\<close>
definition post :: "'a option \<Rightarrow> ('a \<Rightarrow> bool) \<Rightarrow> bool" where
  "post c Q \<longleftrightarrow> (\<forall>x. c = Some x \<longrightarrow> Q x)"

lemma postD: "post c Q \<Longrightarrow> c = Some x \<Longrightarrow> Q x"
  by (simp add: post_def)

lemma post_any: "(\<And>x. c = Some x \<Longrightarrow> Q x) \<Longrightarrow> post c Q"
  by (simp add: post_def)

lemma post_bind: "post c (\<lambda>x. post (f x) Q) \<Longrightarrow> post (Option.bind c f) Q"
  by (auto simp: post_def Option.bind_eq_Some_conv)

lemma post_Some: "Q x \<Longrightarrow> post (Some x) Q"
  by (simp add: post_def)

lemma post_None: "post None Q"
  by (simp add: post_def)

lemma post_if: "(b \<Longrightarrow> post c Q) \<Longrightarrow> (\<not> b \<Longrightarrow> post d Q) \<Longrightarrow> post (if b then c else d) Q"
  by simp

lemma post_prod: "(\<And>a b. p = (a, b) \<Longrightarrow> post (f a b) Q) \<Longrightarrow> post (case p of (a, b) \<Rightarrow> f a b) Q"
  by (cases p) simp

lemma post_option: "(c = None \<Longrightarrow> post f Q) \<Longrightarrow> (\<And>x. c = Some x \<Longrightarrow> post (g x) Q) \<Longrightarrow>
    post (case c of None \<Rightarrow> f | Some x \<Rightarrow> g x) Q"
  by (cases c) simp_all

lemma post_Let: "post (f x) Q \<Longrightarrow> post (Let x f) Q"
  by simp

lemma post_lam: "post c (\<lambda>x. case x of (a, b) \<Rightarrow> Q a b) \<Longrightarrow> post c (\<lambda>(a, b). Q a b)"
  by simp

lemmas post_intros = post_bind post_Some post_None post_if post_prod post_option post_Let

section \<open>C strings\<close>

text \<open>The bytes before the first terminator; \<open>None\<close> when there is none in the array.\<close>
fun c_str :: "bytes \<Rightarrow> bytes option" where
  "c_str [] = None"
| "c_str (b # bs) = (if b = 0 then Some [] else map_option (Cons b) (c_str bs))"

definition c_str_at :: "bytes \<Rightarrow> nat \<Rightarrow> bytes option" where
  "c_str_at buf i = c_str (drop i buf)"

lemma c_str_append [simp]: "0 \<notin> set s \<Longrightarrow> c_str (s @ 0 # rest) = Some s"
  by (induction s) auto

lemma c_str_zeros [simp]: "0 < n \<Longrightarrow> c_str (replicate n 0) = Some []"
  by (cases n) simp_all

lemma c_str_SomeD:
  "c_str bs = Some s \<Longrightarrow> 0 \<notin> set s \<and> (\<exists>rest. bs = s @ 0 # rest)"
proof (induction bs arbitrary: s)
  case (Cons b bs)
  then show ?case by (cases "b = 0") fastforce+
qed simp

lemma c_str_exists: "0 \<in> set bs \<Longrightarrow> \<exists>s. c_str bs = Some s"
  by (induction bs) auto

lemma c_str_at_0 [simp]: "c_str_at buf 0 = c_str buf"
  by (simp add: c_str_at_def)

text \<open>\<open>strcpy\<close> of a string into an array: the string and its terminator must fit.\<close>
definition strcpy :: "bytes \<Rightarrow> bytes \<Rightarrow> bytes option" where
  "strcpy dst s = wr_block dst 0 (s @ [0])"

lemma strcpy_fits: "length s < length dst \<Longrightarrow> strcpy dst s = Some (s @ 0 # drop (Suc (length s)) dst)"
  by (simp add: strcpy_def wr_block_def)

lemma strcpy_overflow: "length dst \<le> length s \<Longrightarrow> strcpy dst s = None"
  by (simp add: strcpy_def wr_block_def)

lemma strcpy_SomeD:
  "strcpy dst s = Some d \<Longrightarrow> length s < length dst \<and> d = s @ 0 # drop (Suc (length s)) dst"
  by (cases "length s < length dst") (auto simp: strcpy_fits strcpy_overflow)

lemma strcpy_str: "strcpy dst s = Some d \<Longrightarrow> 0 \<notin> set s \<Longrightarrow> c_str d = Some s"
  by (auto dest!: strcpy_SomeD)

lemma strcpy_length: "strcpy dst s = Some d \<Longrightarrow> length d = length dst"
  by (auto dest!: strcpy_SomeD)

text \<open>
  \<open>strncmp (a, b, n) == 0\<close> on an array \<open>a\<close> and a literal \<open>b\<close>: bytes are compared up to the
  first difference, the end of the literal or \<open>n\<close> bytes. \<open>None\<close> when the comparison leaves
  the array.
\<close>
fun strncmp_eq :: "bytes \<Rightarrow> bytes \<Rightarrow> nat \<Rightarrow> bool option" where
  "strncmp_eq a b 0 = Some True"
| "strncmp_eq [] b (Suc n) = None"
| "strncmp_eq (x # a) [] (Suc n) = Some (x = 0)"
| "strncmp_eq (x # a) (y # b) (Suc n) =
     (if x \<noteq> y then Some False else if x = 0 then Some True else strncmp_eq a b n)"

lemma strncmp_eq_literal:
  "0 \<notin> set lit \<Longrightarrow> n = length lit \<Longrightarrow> n \<le> length a \<Longrightarrow>
     strncmp_eq a lit n = Some (take n a = lit)"
proof (induction a lit n rule: strncmp_eq.induct)
  case (4 x a y b n)
  then show ?case by auto
qed auto

section \<open>Character classes and numbers\<close>

definition isspace :: "u8 \<Rightarrow> bool" where
  "isspace b \<longleftrightarrow> b = 32 \<or> (9 \<le> b \<and> b \<le> 13)"

definition isdigit :: "u8 \<Rightarrow> bool" where
  "isdigit b \<longleftrightarrow> 48 \<le> b \<and> b \<le> 57"

fun digits_value :: "int \<Rightarrow> bytes \<Rightarrow> int" where
  "digits_value acc [] = acc"
| "digits_value acc (b # bs) =
     (if isdigit b then digits_value (10 * acc + (uint b - 48)) bs else acc)"

text \<open>\<open>strtol (s, NULL, 10)\<close> with the bounds of the result type: the value is clamped.\<close>
definition strto :: "int \<Rightarrow> int \<Rightarrow> bytes \<Rightarrow> int" where
  "strto lo hi s =
     (let t = dropWhile isspace s in
      case t of
        [] \<Rightarrow> 0
      | c # r \<Rightarrow>
          (if c = 45 then max lo (- digits_value 0 r)
           else if c = 43 then min hi (digits_value 0 r)
           else min hi (digits_value 0 t)))"

text \<open>On the target \<open>int\<close> and \<open>long\<close> have 32 bits and \<open>long long\<close> has 64 bits.\<close>
definition atoi :: "bytes \<Rightarrow> int" where
  "atoi s = strto (- (2 ^ 31)) (2 ^ 31 - 1) s"

definition atoll :: "bytes \<Rightarrow> int" where
  "atoll s = strto (- (2 ^ 63)) (2 ^ 63 - 1) s"

lemma digits_value_ge: "0 \<le> acc \<Longrightarrow> 0 \<le> digits_value acc bs"
proof (induction acc bs rule: digits_value.induct)
  case (2 acc b bs)
  have "0 \<le> 10 * acc + (uint b - 48)" if "isdigit b"
  proof -
    have "uint (48 :: u8) \<le> uint b" using that by (simp add: isdigit_def word_le_def)
    with 2(2) show ?thesis by simp
  qed
  with 2 show ?case by simp
qed simp

lemma strto_bounds:
  assumes "lo \<le> 0" "0 \<le> hi"
  shows "lo \<le> strto lo hi s \<and> strto lo hi s \<le> hi"
proof -
  have neg: "lo \<le> max lo (- digits_value 0 r) \<and> max lo (- digits_value 0 r) \<le> hi"
    and pos: "lo \<le> min hi (digits_value 0 r) \<and> min hi (digits_value 0 r) \<le> hi" for r
    using digits_value_ge [of 0 r] assms by linarith+
  show ?thesis
    unfolding strto_def Let_def using neg pos assms by (simp split: list.split del: digits_value.simps)
qed

lemma atoi_bounds: "- (2 ^ 31) \<le> atoi s" "atoi s < 2 ^ 31"
  using strto_bounds [of "- (2 ^ 31)" "2 ^ 31 - 1" s] by (auto simp: atoi_def)

text \<open>The decimal digits of a number, as \<open>sprintf\<close> with \<open>%d\<close> prints them.\<close>
fun dec_digits :: "nat \<Rightarrow> bytes" where
  "dec_digits n =
     (if n < 10 then [48 + of_nat n] else dec_digits (n div 10) @ [48 + of_nat (n mod 10)])"

declare dec_digits.simps [simp del]

definition fmt_d :: "int \<Rightarrow> bytes" where
  "fmt_d i = (if i < 0 then 45 # dec_digits (nat (- i)) else dec_digits (nat i))"

lemma uint_digit: "n < 10 \<Longrightarrow> uint (48 + of_nat n :: u8) = 48 + int n"
  using unat_of_nat_u8 [of "48 + n"] by (simp only: uint_nat of_nat_add of_nat_numeral)

lemma isdigit_iff: "isdigit b \<longleftrightarrow> 48 \<le> uint b \<and> uint b \<le> 57"
  by (simp add: isdigit_def word_le_def)

lemma isdigit_not_special:
  "isdigit b \<Longrightarrow> \<not> isspace b \<and> b \<noteq> 45 \<and> b \<noteq> 43 \<and> b \<noteq> 44 \<and> b \<noteq> 34 \<and> b \<noteq> 0"
  unfolding isdigit_def isspace_def by (auto simp: word_le_nat_alt)

lemma digit_byte:
  assumes "n < 10"
  shows "isdigit (48 + of_nat n)" "uint (48 + of_nat n :: u8) - 48 = int n"
  using uint_digit [OF assms] assms by (simp_all add: isdigit_iff)

lemma dec_digits_all: "\<forall>b \<in> set (dec_digits n). isdigit b"
proof (induction n rule: dec_digits.induct)
  case (1 n)
  then show ?case by (subst dec_digits.simps) (auto simp: digit_byte)
qed

lemma digits_value_append:
  "\<forall>b \<in> set xs. isdigit b \<Longrightarrow> digits_value acc (xs @ ys) = digits_value (digits_value acc xs) ys"
  by (induction acc xs rule: digits_value.induct) auto

lemma digits_value_dec_digits: "digits_value 0 (dec_digits n) = int n"
proof (induction n rule: dec_digits.induct)
  case (1 n)
  show ?case
  proof (cases "n < 10")
    case True
    then show ?thesis by (subst dec_digits.simps) (simp add: digit_byte)
  next
    case False
    have "digits_value 0 (dec_digits n) =
      digits_value (digits_value 0 (dec_digits (n div 10))) [48 + of_nat (n mod 10)]"
      using False by (subst dec_digits.simps) (simp add: digits_value_append dec_digits_all)
    also have "\<dots> = 10 * int (n div 10) + int (n mod 10)"
      using "1.IH" [OF False] by (simp add: digit_byte)
    also have "\<dots> = int n" by (metis mult_div_mod_eq of_nat_add of_nat_mult of_nat_numeral)
    finally show ?thesis .
  qed
qed

lemma dec_digits_nonempty: "dec_digits n \<noteq> []"
  by (subst dec_digits.simps) simp

lemma strto_dec_digits:
  assumes "rest = [] \<or> \<not> isdigit (hd rest)" and "int n \<le> hi"
  shows "strto lo hi (dec_digits n @ rest) = int n"
proof -
  obtain c r where cr: "dec_digits n = c # r" using dec_digits_nonempty [of n] by (cases "dec_digits n") auto
  then have c: "isdigit c" using dec_digits_all [of n] by auto
  have "digits_value 0 (dec_digits n @ rest) = int n"
    using assms(1) by (cases rest) (simp_all add: digits_value_append dec_digits_all digits_value_dec_digits)
  then show ?thesis
    using isdigit_not_special [OF c] assms(2) by (auto simp: strto_def cr)
qed

lemma atoi_dec_digits:
  "n < 2 ^ 31 \<Longrightarrow> rest = [] \<or> \<not> isdigit (hd rest) \<Longrightarrow> atoi (dec_digits n @ rest) = int n"
  unfolding atoi_def by (rule strto_dec_digits) auto

text \<open>
  \<open>atoi\<close> on an array: \<open>None\<close> when the number reaches the end of the array, so that the
  library reads behind it.
\<close>
definition atoi_arr :: "bytes \<Rightarrow> int option" where
  "atoi_arr a =
     (let t = dropWhile isspace a;
          r = (case t of [] \<Rightarrow> [] | c # u \<Rightarrow> if c = 45 \<or> c = 43 then u else t)
      in if dropWhile isdigit r = [] then None else Some (atoi a))"

lemma atoi_arr_dec_digits:
  assumes "n < 2 ^ 31" "rest \<noteq> []" "\<not> isdigit (hd rest)"
  shows "atoi_arr (dec_digits n @ rest) = Some (int n)"
proof -
  obtain c r where cr: "dec_digits n = c # r" using dec_digits_nonempty [of n] by (cases "dec_digits n") auto
  then have c: "isdigit c" "\<forall>b \<in> set r. isdigit b" using dec_digits_all [of n] by auto
  have "dropWhile isdigit (c # r @ rest) \<noteq> []"
    using assms(2,3) c by (cases rest) auto
  then show ?thesis
    using atoi_dec_digits [of n rest] assms isdigit_not_special [OF c(1)]
    by (simp add: atoi_arr_def cr del: dropWhile_eq_Nil_conv)
qed

lemma length_dec_digits: "n < 10 ^ k \<Longrightarrow> 0 < k \<Longrightarrow> length (dec_digits n) \<le> k"
proof (induction n arbitrary: k rule: dec_digits.induct)
  case (1 n)
  show ?case
  proof (cases "n < 10")
    case True
    then show ?thesis using 1(3) by (subst dec_digits.simps) simp
  next
    case False
    obtain j where j: "k = Suc j" using 1(3) by (cases k) auto
    then have "0 < j" using False 1(2) by (cases j) auto
    then have k: "k = Suc j" "0 < j" using j by auto
    then have "n div 10 < 10 ^ j" using 1(2) by (simp add: less_mult_imp_div_less mult.commute)
    then show ?thesis
      using 1(1) [OF False _ k(2)] False k by (subst dec_digits.simps) simp
  qed
qed

lemma not_in_dec_digits: "\<not> isdigit b \<Longrightarrow> b \<notin> set (dec_digits n)"
  using dec_digits_all by blast

section \<open>Hexadecimal\<close>

text \<open>The upper-case hexadecimal digits of bytes, two per byte.\<close>
definition hex_char :: "nat \<Rightarrow> u8" where
  "hex_char n = (if n < 10 then 48 + of_nat n else 55 + of_nat n)"

definition hex_byte :: "u8 \<Rightarrow> bytes" where
  "hex_byte b = [hex_char (unat b div 16), hex_char (unat b mod 16)]"

definition hex_bytes :: "bytes \<Rightarrow> bytes" where
  "hex_bytes bs = concat (map hex_byte bs)"

lemma hex_bytes_simps [simp]:
  "hex_bytes [] = []" "hex_bytes (b # bs) = hex_byte b @ hex_bytes bs"
  by (simp_all add: hex_bytes_def)

lemma unat_u8_less: "unat (x :: u8) < 256"
proof -
  have "unat x < 2 ^ LENGTH(8)" by (rule unsigned_less)
  then show ?thesis by simp
qed

lemma high_nibble_less: "unat (x :: u8) div 16 < 16"
  using unat_u8_less [of x] by linarith

lemma unat_hex_char:
  assumes "n < 16"
  shows "unat (hex_char n) = (if n < 10 then 48 + n else 55 + n)"
  using unat_of_nat_u8 [of "48 + n"] unat_of_nat_u8 [of "55 + n"] assms
  by (simp only: hex_char_def of_nat_add of_nat_numeral split: if_split) simp

lemma low_nibble: "0x0F AND (x :: u8) = of_nat (unat x mod 16)"
proof -
  have m: "0x0F AND x = take_bit 4 x"
    by (simp add: take_bit_eq_mask mask_eq_exp_minus_1 and.commute)
  have "unat (take_bit 4 x) = take_bit 4 (unat x)" by (rule unsigned_take_bit_eq)
  also have "\<dots> = unat x mod 16" by (simp only: take_bit_eq_mod) simp
  finally have "of_nat (unat (take_bit 4 x)) = (of_nat (unat x mod 16) :: u8)" by (rule arg_cong)
  then show ?thesis unfolding m by simp
qed

lemma high_nibble: "drop_bit 4 (0xF0 AND (x :: u8)) = of_nat (unat x div 16)"
proof -
  have "drop_bit 4 (0xF0 AND x) = drop_bit 4 x"
  proof (rule bit_word_eqI)
    fix n
    assume "n < LENGTH(8)"
    have "(0xF0 :: u8) = push_bit 4 (mask 4)" by (simp add: mask_eq_exp_minus_1)
    then have "bit (0xF0 :: u8) (4 + n) \<longleftrightarrow> 4 + n < 8"
      by (simp only: bit_simps) auto
    then show "bit (drop_bit 4 (0xF0 AND x)) n = bit (drop_bit 4 x) n"
      using bit_imp_le_length [of x "4 + n"] by (simp only: bit_drop_bit_eq bit_and_iff o_apply) auto
  qed
  moreover have "unat (drop_bit 4 x) = unat x div 16"
    by (simp only: unat_drop_bit_eq) (simp add: drop_bit_eq_div)
  then have "of_nat (unat (drop_bit 4 x)) = (of_nat (unat x div 16) :: u8)" by (rule arg_cong)
  then have "drop_bit 4 x = of_nat (unat x div 16)" by simp
  ultimately show ?thesis by (rule trans)
qed

text \<open>Writing the digits of a byte into a buffer, as the senders do.\<close>
lemma hex_char_nonzero: "n < 16 \<Longrightarrow> hex_char n \<noteq> 0"
  using unat_hex_char [of n] by (auto split: if_splits)

lemma length_fmt_d: "0 \<le> i \<Longrightarrow> i < 10 ^ k \<Longrightarrow> 0 < k \<Longrightarrow> length (fmt_d i) \<le> k"
  using length_dec_digits [of "nat i" k] by (simp add: fmt_d_def nat_less_iff)

lemma fmt_d_int [simp]: "fmt_d (int n) = dec_digits n"
  by (simp add: fmt_d_def)

lemma zero_not_in_fmt_d: "0 \<notin> set (fmt_d i)"
  by (auto simp: fmt_d_def not_in_dec_digits isdigit_def)

section \<open>Floating point\<close>

text \<open>
  The floating-point arithmetic of the target as a parameter: \<open>'f\<close> is \<open>float\<close>, \<open>'d\<close> is \<open>double\<close>,
  and every conversion and operation that the sources write is an explicit function. Nothing is
  assumed of it except where a theorem says so.
\<close>
record ('f, 'd) fpu =
  f_lit :: "rat \<Rightarrow> 'f"
  d_lit :: "rat \<Rightarrow> 'd"
  f_of_int :: "int \<Rightarrow> 'f"
  d_of_f :: "'f \<Rightarrow> 'd"
  f_of_d :: "'d \<Rightarrow> 'f"
  f_add :: "'f \<Rightarrow> 'f \<Rightarrow> 'f"
  f_mul :: "'f \<Rightarrow> 'f \<Rightarrow> 'f"
  f_div :: "'f \<Rightarrow> 'f \<Rightarrow> 'f"
  f_neg :: "'f \<Rightarrow> 'f"
  f_less :: "'f \<Rightarrow> 'f \<Rightarrow> bool"
  d_mul :: "'d \<Rightarrow> 'd \<Rightarrow> 'd"
  d_div :: "'d \<Rightarrow> 'd \<Rightarrow> 'd"
  atof :: "bytes \<Rightarrow> 'd"

text \<open>Exact rational arithmetic, as an instance; its \<open>atof\<close> reads the integer part only.\<close>
definition rat_fpu :: "(rat, rat) fpu" where
  "rat_fpu = \<lparr>f_lit = (\<lambda>x. x), d_lit = (\<lambda>x. x), f_of_int = of_int, d_of_f = (\<lambda>x. x), f_of_d = (\<lambda>x. x),
     f_add = (+), f_mul = (*), f_div = (/), f_neg = uminus, f_less = (<), d_mul = (*), d_div = (/),
     atof = (\<lambda>s. of_int (strto (- (2 ^ 31)) (2 ^ 31 - 1) s))\<rparr>"

end
