(* ===== verification/Nmealib.thy ===== *)
theory Nmealib
  imports Prelude
begin

text \<open>
  The NMEA sentence parser of \<open>nmealib.c\<close>. \<open>nmea_valid\<close> checks preamble, characters and
  checksum of the sentence in a buffer; \<open>nmea_parse\<close> then splits the sentence in place: it
  overwrites the separators with terminators and records a pointer to each field. A field
  pointer is an offset into the buffer; \<open>fields\<close> holds the initialised entries only, so its
  length is \<open>field_count\<close>.
\<close>

section \<open>Constants and types\<close>

definition MAX_NMEA_BUFFER :: nat where "MAX_NMEA_BUFFER = 254"
definition MAX_NMEA_FIELDS :: nat where "MAX_NMEA_FIELDS = 64"
definition NMEA_PREAMBLE :: u8 where "NMEA_PREAMBLE = 36"
definition NMEA_CHECKSUM :: u8 where "NMEA_CHECKSUM = 42"
definition FIELD_SEPARATOR :: u8 where "FIELD_SEPARATOR = 44"

lemmas nmea_consts = MAX_NMEA_BUFFER_def MAX_NMEA_FIELDS_def NMEA_PREAMBLE_def NMEA_CHECKSUM_def
  FIELD_SEPARATOR_def

record nmea_sentence_t =
  field_ptrs :: "nat list"
  talker :: bytes
  sentence_type :: "nat option"

definition to_hexchar :: "u8 \<Rightarrow> u8" where
  "to_hexchar v = (let v = v AND 0x0F in if v < 10 then 48 + v else 65 + (v - 10))"

section \<open>Validation\<close>

record nmea_scan =
  checksum :: u8
  end_pos :: u8
  checksum_pos :: u8
  has_checksum :: bool
  in_sentence :: bool
  has_preamble :: bool

definition nmea_scan_init :: nmea_scan where
  "nmea_scan_init = \<lparr>checksum = 0, end_pos = 0, checksum_pos = 0, has_checksum = False,
     in_sentence = False, has_preamble = False\<rparr>"

text \<open>The \<open>switch\<close> of the scan; \<open>None\<close> is the early \<open>return false\<close>.\<close>
definition nmea_scan_step :: "u8 \<Rightarrow> nat \<Rightarrow> nmea_scan \<Rightarrow> nmea_scan option" where
  "nmea_scan_step b i s =
     (if b = NMEA_PREAMBLE then
        Some (s\<lparr>checksum := 0, in_sentence := True, has_preamble := True\<rparr>)
      else if b = NMEA_CHECKSUM then
        Some (s\<lparr>has_checksum := True, checksum_pos := of_nat i, end_pos := of_nat i\<rparr>)
      else if b = 13 \<or> b = 10 \<or> b = 0 then Some (s\<lparr>end_pos := of_nat i\<rparr>)
      else if in_sentence s then
        (let s = s\<lparr>checksum := checksum s XOR b\<rparr>
         in if b < 32 \<or> b > 126 then None else Some s)
      else Some s)"

text \<open>What follows the loop: the preamble must exist and a checksum, if any, must match.\<close>
definition nmea_valid_end :: "bytes \<Rightarrow> nmea_scan \<Rightarrow> bool option" where
  "nmea_valid_end buf s =
     (if \<not> has_preamble s then Some False
      else if has_checksum s then do {
        c1 \<leftarrow> rd buf (unat (checksum_pos s) + 1);
        if c1 \<noteq> to_hexchar (drop_bit 4 (0xF0 AND checksum s)) then Some False
        else do {
          c2 \<leftarrow> rd buf (unat (checksum_pos s) + 2);
          Some (c2 = to_hexchar (0x0F AND checksum s)) } }
      else Some True)"

function nmea_valid_loop :: "bytes \<Rightarrow> nat \<Rightarrow> nmea_scan \<Rightarrow> bool option" where
  "nmea_valid_loop buf i s =
     (if end_pos s = 0 \<and> i < MAX_NMEA_BUFFER then
        case rd buf i of
          None \<Rightarrow> None
        | Some b \<Rightarrow>
            (case nmea_scan_step b i s of
               None \<Rightarrow> Some False
             | Some s' \<Rightarrow> nmea_valid_loop buf (i + 1) s')
      else nmea_valid_end buf s)"
  by pat_completeness auto
termination
  by (relation "measure (\<lambda>(buf, i, s). MAX_NMEA_BUFFER - i)") auto

declare nmea_valid_loop.simps [simp del]

definition nmea_valid :: "bytes \<Rightarrow> bool option" where
  "nmea_valid buf = nmea_valid_loop buf 0 nmea_scan_init"

section \<open>Parsing\<close>

record nmea_split =
  buffer :: bytes
  in_field :: bool
  start_of_field :: nat
  complete :: bool
  seen_preamble :: bool
  found :: "nat list"

text \<open>\<open>output->fields[output->field_count++] = p\<close>: the array has 64 entries.\<close>
definition add_field :: "nat list \<Rightarrow> nat \<Rightarrow> nat list option" where
  "add_field fs p = (if length fs < MAX_NMEA_FIELDS then Some (fs @ [p]) else None)"

definition nmea_split_step :: "nat \<Rightarrow> nmea_split \<Rightarrow> nmea_split option" where
  "nmea_split_step i s = do {
     b \<leftarrow> rd (buffer s) i;
     if b = FIELD_SEPARATOR then
       (if in_field s then do {
          buf \<leftarrow> wr (buffer s) i 0;
          fs \<leftarrow> add_field (found s) (start_of_field s);
          Some (s\<lparr>buffer := buf, found := fs, start_of_field := i + 1\<rparr>) }
        else Some (s\<lparr>start_of_field := i + 1\<rparr>))
     else if b = NMEA_PREAMBLE then
       Some (s\<lparr>seen_preamble := True, in_field := True, start_of_field := i + 1\<rparr>)
     else if b = NMEA_CHECKSUM \<or> b = 13 \<or> b = 10 \<or> b = 0 then
       Some (if seen_preamble s then s\<lparr>complete := True\<rparr> else s)
     else Some s
   }"

function nmea_split_loop :: "nat \<Rightarrow> nmea_split \<Rightarrow> (nat \<times> nmea_split) option" where
  "nmea_split_loop i s =
     (if \<not> complete s \<and> i < MAX_NMEA_BUFFER then
        case nmea_split_step i s of
          None \<Rightarrow> None
        | Some s' \<Rightarrow> nmea_split_loop (i + 1) s'
      else Some (i, s))"
  by pat_completeness auto
termination
  by (relation "measure (\<lambda>(i, s). MAX_NMEA_BUFFER - i)") auto

declare nmea_split_loop.simps [simp del]

text \<open>The last field and the split of the first field into talker and type.\<close>
definition nmea_finish :: "nat \<times> nmea_split \<Rightarrow> nmea_sentence_t \<Rightarrow> (bytes \<times> nmea_sentence_t) option" where
  "nmea_finish r output = (case r of (i, s) \<Rightarrow> do {
     (buf, fs) \<leftarrow>
       (if seen_preamble s \<and> start_of_field s < i then do {
          buf \<leftarrow> wr (buffer s) (i - 1) 0;
          fs \<leftarrow> add_field (found s) (start_of_field s);
          Some (buf, fs) }
        else Some (buffer s, found s));
     let output = output\<lparr>field_ptrs := fs\<rparr>;
     case fs of
       [] \<Rightarrow> Some (buf, output)
     | f0 # _ \<Rightarrow> do {
         c0 \<leftarrow> rd buf f0;
         if c0 = 80 then
           Some (buf, output\<lparr>talker := (talker output)[0 := 80, 1 := 0], sentence_type := Some (f0 + 1)\<rparr>)
         else do {
           c1 \<leftarrow> rd buf (f0 + 1);
           Some (buf, output\<lparr>talker := (talker output)[0 := c0, 1 := c1, 2 := 0],
                             sentence_type := Some (f0 + 2)\<rparr>) } } })"

definition nmea_parse ::
  "bytes \<Rightarrow> nmea_sentence_t \<Rightarrow> (bool \<times> bytes \<times> nmea_sentence_t) option" where
  "nmea_parse buf output = do {
     ok \<leftarrow> nmea_valid buf;
     if \<not> ok then Some (False, buf, output)
     else do {
       let output = output\<lparr>field_ptrs := [], talker := (talker output)[0 := 0], sentence_type := None\<rparr>;
       r \<leftarrow> nmea_split_loop 0 \<lparr>buffer = buf, in_field = False, start_of_field = 0,
              complete = False, seen_preamble = False, found = []\<rparr>;
       (buf, output) \<leftarrow> nmea_finish r output;
       Some (True, buf, output) } }"

section \<open>Sentences\<close>

text \<open>A character that stands for itself inside a field, and one that may stand in a sentence.\<close>
definition field_char :: "u8 \<Rightarrow> bool" where
  "field_char b \<longleftrightarrow> 32 \<le> b \<and> b \<le> 126 \<and> b \<noteq> NMEA_PREAMBLE \<and> b \<noteq> NMEA_CHECKSUM \<and> b \<noteq> FIELD_SEPARATOR"

definition body_char :: "u8 \<Rightarrow> bool" where
  "body_char b \<longleftrightarrow> field_char b \<or> b = FIELD_SEPARATOR"

fun join_fields :: "bytes list \<Rightarrow> bytes" where
  "join_fields [] = []"
| "join_fields [f] = f"
| "join_fields (f # g # fs) = f @ FIELD_SEPARATOR # join_fields (g # fs)"

definition xor_sum :: "bytes \<Rightarrow> u8" where
  "xor_sum bs = foldl (XOR) 0 bs"

definition ends_sentence :: "u8 \<Rightarrow> bool" where
  "ends_sentence b \<longleftrightarrow> b = NMEA_CHECKSUM \<or> b = 13 \<or> b = 10 \<or> b = 0"

lemma body_charD:
  assumes "body_char b"
  shows "b \<noteq> NMEA_PREAMBLE \<and> b \<noteq> NMEA_CHECKSUM \<and> b \<noteq> 13 \<and> b \<noteq> 10 \<and> b \<noteq> 0 \<and> \<not> b < 32 \<and> \<not> b > 126"
proof -
  have r: "32 \<le> b" "b \<le> 126" and ne: "b \<noteq> NMEA_PREAMBLE" "b \<noteq> NMEA_CHECKSUM"
    using assms by (auto simp: body_char_def field_char_def nmea_consts)
  have "b \<noteq> 13" "b \<noteq> 10" "b \<noteq> 0" using r(1) by auto
  with r ne show ?thesis by (simp add: not_less)
qed

lemma field_charD:
  assumes "field_char b"
  shows "b \<noteq> FIELD_SEPARATOR \<and> b \<noteq> NMEA_PREAMBLE \<and> b \<noteq> NMEA_CHECKSUM \<and> b \<noteq> 13 \<and> b \<noteq> 10 \<and> b \<noteq> 0"
proof -
  have "body_char b" "b \<noteq> FIELD_SEPARATOR" using assms by (simp_all add: body_char_def field_char_def)
  with body_charD show ?thesis by blast
qed

lemma ends_sentenceD: "ends_sentence b \<Longrightarrow> b \<noteq> FIELD_SEPARATOR \<and> b \<noteq> NMEA_PREAMBLE"
  by (auto simp: ends_sentence_def nmea_consts)

lemma join_fields_body: "\<forall>f \<in> set fs. \<forall>b \<in> set f. field_char b \<Longrightarrow> \<forall>b \<in> set (join_fields fs). body_char b"
  by (induction fs rule: join_fields.induct) (auto simp: body_char_def)

section \<open>The scan\<close>

lemma foldl_xor: "foldl (XOR) (a :: u8) bs = a XOR xor_sum bs"
proof (induction bs arbitrary: a)
  case (Cons b bs)
  show ?case using Cons.IH [of "a XOR b"] Cons.IH [of b]
    by (simp add: xor_sum_def xor.assoc)
qed (simp add: xor_sum_def)

lemma xor_sum_simps [simp]: "xor_sum [] = 0" "xor_sum (b # bs) = b XOR xor_sum bs"
  by (simp add: xor_sum_def) (simp add: xor_sum_def foldl_xor [of b, unfolded xor_sum_def])

lemma xor_sum_append: "xor_sum (xs @ ys) = xor_sum xs XOR xor_sum ys"
  by (induction xs) (simp_all add: xor.assoc)

lemma xor_sum_changed:
  assumes "a \<noteq> b"
  shows "xor_sum (xs @ a # ys) \<noteq> xor_sum (xs @ b # ys)"
proof
  assume "xor_sum (xs @ a # ys) = xor_sum (xs @ b # ys)"
  then have "xor_sum xs XOR (xor_sum xs XOR (a XOR xor_sum ys)) =
      xor_sum xs XOR (xor_sum xs XOR (b XOR xor_sum ys))"
    by (simp only: xor_sum_append xor_sum_simps)
  then have "(a XOR xor_sum ys) XOR xor_sum ys = (b XOR xor_sum ys) XOR xor_sum ys"
    by (simp only: xor.assoc [symmetric] xor_self_eq xor.left_neutral)
  then show False using assms by (simp only: xor.assoc xor_self_eq xor.right_neutral)
qed

text \<open>Inside a sentence the scan only accumulates the checksum.\<close>
lemma nmea_valid_loop_body:
  assumes "drop i buf = body @ rest" "\<forall>b \<in> set body. body_char b" "i + length body \<le> MAX_NMEA_BUFFER"
    "end_pos s = 0" "in_sentence s"
  shows "nmea_valid_loop buf i s =
     nmea_valid_loop buf (i + length body) (s\<lparr>checksum := checksum s XOR xor_sum body\<rparr>)"
  using assms
proof (induction body arbitrary: i s)
  case (Cons b body)
  have d: "drop i buf = b # body @ rest" using Cons.prems(1) by simp
  have "nmea_scan_step b i s = Some (s\<lparr>checksum := checksum s XOR b\<rparr>)"
    using body_charD [of b] Cons.prems(2,5) by (simp add: nmea_scan_step_def Let_def)
  then have "nmea_valid_loop buf i s = nmea_valid_loop buf (i + 1) (s\<lparr>checksum := checksum s XOR b\<rparr>)"
    using Cons.prems rd_drop_Cons [OF d] by (subst nmea_valid_loop.simps) simp
  then show ?case
    using Cons.IH [of "i + 1" "s\<lparr>checksum := checksum s XOR b\<rparr>"] drop_Cons_Suc [OF d] Cons.prems
    by (simp add: xor.assoc)
qed simp

text \<open>A sentence that starts the buffer: after preamble and body the scan state is known.\<close>
lemma nmea_valid_sentence:
  assumes "buf = NMEA_PREAMBLE # body @ rest" "\<forall>b \<in> set body. body_char b"
    "length body + 1 \<le> MAX_NMEA_BUFFER"
  shows "nmea_valid buf = nmea_valid_loop buf (length body + 1)
     (nmea_scan_init\<lparr>checksum := xor_sum body, in_sentence := True, has_preamble := True\<rparr>)"
proof -
  let ?s = "nmea_scan_init\<lparr>in_sentence := True, has_preamble := True\<rparr>"
  have "nmea_valid_loop buf 0 nmea_scan_init = nmea_valid_loop buf 1 ?s"
    using assms(1) by (subst nmea_valid_loop.simps)
      (simp add: nmea_scan_init_def nmea_scan_step_def rd_def nmea_consts)
  moreover have "nmea_valid_loop buf 1 ?s = nmea_valid_loop buf (1 + length body)
      (?s\<lparr>checksum := checksum ?s XOR xor_sum body\<rparr>)"
    using assms by (intro nmea_valid_loop_body [where rest = rest]) (simp_all add: nmea_scan_init_def)
  ultimately show ?thesis by (simp add: nmea_valid_def nmea_scan_init_def add.commute)
qed

lemma nmea_valid_checksum_iff:
  assumes "buf = NMEA_PREAMBLE # body @ NMEA_CHECKSUM # h # l # rest" "\<forall>b \<in> set body. body_char b"
    "length body + 2 \<le> MAX_NMEA_BUFFER"
  shows "nmea_valid buf = Some (h = to_hexchar (drop_bit 4 (0xF0 AND xor_sum body)) \<and>
                                l = to_hexchar (0x0F AND xor_sum body))"
proof -
  let ?i = "length body + 1"
  let ?s = "nmea_scan_init\<lparr>checksum := xor_sum body, in_sentence := True, has_preamble := True\<rparr>"
  let ?t = "?s\<lparr>has_checksum := True, checksum_pos := of_nat ?i, end_pos := of_nat ?i\<rparr>"
  have i: "unat (of_nat ?i :: u8) = ?i"
    by (rule unat_of_nat_u8) (use assms(3) in \<open>simp add: nmea_consts\<close>)
  then have nz: "(of_nat ?i :: u8) \<noteq> 0" by (metis Suc_eq_plus1 nat.simps(3) unat_0)
  have d: "drop ?i buf = NMEA_CHECKSUM # h # l # rest" using assms(1) by simp
  have step: "nmea_scan_step NMEA_CHECKSUM ?i ?s = Some ?t"
    by (simp add: nmea_scan_step_def nmea_consts)
  have "nmea_valid buf = nmea_valid_loop buf ?i ?s"
    using nmea_valid_sentence [OF assms(1,2)] assms(3) by simp
  also have "\<dots> = nmea_valid_loop buf (?i + 1) ?t"
    using assms(3) rd_drop_Cons [OF d] step
    by (subst nmea_valid_loop.simps) (simp add: nmea_scan_init_def)
  also have "\<dots> = nmea_valid_end buf ?t"
    using nz by (subst nmea_valid_loop.simps) simp
  also have "\<dots> = Some (h = to_hexchar (drop_bit 4 (0xF0 AND xor_sum body)) \<and>
                                l = to_hexchar (0x0F AND xor_sum body))"
  proof -
    have "rd buf (?i + 1) = Some h" "rd buf (?i + 2) = Some l"
      using assms(1) by (simp_all add: rd_def nth_append)
    then show ?thesis using i unfolding nmea_valid_end_def by simp
  qed
  finally show ?thesis .
qed

text \<open>A sentence that ends without a checksum field is accepted.\<close>
lemma nmea_valid_no_checksum:
  assumes "buf = NMEA_PREAMBLE # body @ e # rest" "\<forall>b \<in> set body. body_char b"
    "e = 13 \<or> e = 10 \<or> e = 0" "length body + 2 \<le> MAX_NMEA_BUFFER"
  shows "nmea_valid buf = Some True"
proof -
  let ?i = "length body + 1"
  let ?s = "nmea_scan_init\<lparr>checksum := xor_sum body, in_sentence := True, has_preamble := True\<rparr>"
  let ?t = "?s\<lparr>end_pos := of_nat ?i\<rparr>"
  have "unat (of_nat ?i :: u8) = ?i"
    by (rule unat_of_nat_u8) (use assms(4) in \<open>simp add: nmea_consts\<close>)
  then have nz: "(of_nat ?i :: u8) \<noteq> 0" by (metis Suc_eq_plus1 nat.simps(3) unat_0)
  have d: "drop ?i buf = e # rest" using assms(1) by simp
  have step: "nmea_scan_step e ?i ?s = Some ?t"
    using assms(3) by (auto simp: nmea_scan_step_def nmea_consts)
  have "nmea_valid buf = nmea_valid_loop buf ?i ?s"
    using nmea_valid_sentence [OF assms(1,2)] assms(4) by simp
  also have "\<dots> = nmea_valid_loop buf (?i + 1) ?t"
    using assms(4) rd_drop_Cons [OF d] step
    by (subst nmea_valid_loop.simps) (simp add: nmea_scan_init_def)
  also have "\<dots> = nmea_valid_end buf ?t"
    using nz by (subst nmea_valid_loop.simps) simp
  also have "\<dots> = Some True" by (simp add: nmea_valid_end_def nmea_scan_init_def)
  finally show ?thesis .
qed

section \<open>The split\<close>

text \<open>The offsets of the fields of a sentence whose first field starts at \<open>p\<close>.\<close>
fun field_offsets :: "nat \<Rightarrow> bytes list \<Rightarrow> nat list" where
  "field_offsets p [] = []"
| "field_offsets p (f # fs) = p # field_offsets (p + length f + 1) fs"

lemma length_field_offsets [simp]: "length (field_offsets p fs) = length fs"
  by (induction fs arbitrary: p) auto

text \<open>The bytes of terminated fields, one behind the other.\<close>
definition terminated :: "bytes list \<Rightarrow> bytes" where
  "terminated fs = concat (map (\<lambda>f. f @ [0]) fs)"

lemma terminated_simps [simp]:
  "terminated [] = []" "terminated (f # fs) = f @ 0 # terminated fs"
  by (simp_all add: terminated_def)

lemma length_join_terminated: "fs \<noteq> [] \<Longrightarrow> length (terminated fs) = length (join_fields fs) + 1"
  by (induction fs rule: join_fields.induct) auto

text \<open>Field characters leave the state of the split alone.\<close>
lemma nmea_split_loop_field:
  assumes "drop i (buffer s) = f @ rest" "\<forall>b \<in> set f. field_char b" "i + length f \<le> MAX_NMEA_BUFFER"
    "\<not> complete s"
  shows "nmea_split_loop i s = nmea_split_loop (i + length f) s"
  using assms
proof (induction f arbitrary: i)
  case (Cons b f)
  have d: "drop i (buffer s) = b # f @ rest" using Cons.prems(1) by simp
  have "nmea_split_step i s = Some s"
    using field_charD [of b] Cons.prems(2) rd_drop_Cons [OF d] by (simp add: nmea_split_step_def)
  then have "nmea_split_loop i s = nmea_split_loop (i + 1) s"
    using Cons.prems by (subst nmea_split_loop.simps) simp
  then show ?case using Cons.IH [of "i + 1"] drop_Cons_Suc [OF d] Cons.prems by simp
qed simp

text \<open>One separator: the field in front of it is recorded and terminated.\<close>
lemma nmea_split_loop_separator:
  assumes "drop i (buffer s) = FIELD_SEPARATOR # rest" "i < MAX_NMEA_BUFFER" "\<not> complete s" "in_field s"
  shows "nmea_split_loop i s =
     (case add_field (found s) (start_of_field s) of
        None \<Rightarrow> None
      | Some fs \<Rightarrow> nmea_split_loop (i + 1)
          (s\<lparr>buffer := take i (buffer s) @ 0 # rest, found := fs, start_of_field := i + 1\<rparr>))"
proof -
  have i: "i < length (buffer s)" by (rule drop_Cons_bound [OF assms(1)])
  then have "(buffer s)[i := 0] = take i (buffer s) @ 0 # rest"
    using drop_Cons_Suc [OF assms(1)] by (simp add: upd_conv_take_nth_drop)
  then show ?thesis
    using assms rd_drop_Cons [OF assms(1)] i
    by (subst nmea_split_loop.simps) (simp add: nmea_split_step_def wr_in split: option.split)
qed

lemma nmea_split_loop_end:
  assumes "drop i (buffer s) = e # rest" "i < MAX_NMEA_BUFFER" "\<not> complete s" "seen_preamble s"
    "ends_sentence e"
  shows "nmea_split_loop i s = Some (i + 1, s\<lparr>complete := True\<rparr>)"
proof -
  have "nmea_split_step i s = Some (s\<lparr>complete := True\<rparr>)"
    using assms ends_sentenceD [OF assms(5)] rd_drop_Cons [OF assms(1)]
    by (simp add: nmea_split_step_def ends_sentence_def)
  then show ?thesis using assms(2,3)
    by (subst nmea_split_loop.simps) (simp add: nmea_split_loop.simps)
qed

text \<open>
  The whole split of a list of fields: every field is recorded at its offset and terminated. The
  statement is about the rest of the buffer and any fields found before.
\<close>
lemma nmea_split_finish:
  assumes "fs \<noteq> []" "drop i (buffer s) = join_fields fs @ e # rest" "i \<le> length (buffer s)"
    "\<forall>f \<in> set fs. \<forall>b \<in> set f. field_char b" "ends_sentence e"
    "i + length (join_fields fs) < MAX_NMEA_BUFFER"
    "\<not> complete s" "in_field s" "seen_preamble s" "start_of_field s = i"
    "length (found s) + length fs \<le> MAX_NMEA_FIELDS"
  shows "\<exists>j t. nmea_split_loop i s = Some (j, t) \<and> seen_preamble t \<and> start_of_field t < j \<and>
     wr (buffer t) (j - 1) 0 = Some (take i (buffer s) @ terminated fs @ rest) \<and>
     add_field (found t) (start_of_field t) = Some (found s @ field_offsets i fs)"
  using assms
proof (induction fs arbitrary: i s rule: join_fields.induct)
  case (2 f)
  let ?j = "i + length f"
  have d: "drop ?j (buffer s) = e # rest" using drop_behind 2(2) by simp
  have "nmea_split_loop i s = Some (?j + 1, s\<lparr>complete := True\<rparr>)"
    using nmea_split_loop_field [of i s f "e # rest"] nmea_split_loop_end [OF d] 2 by simp
  moreover have "wr (buffer s) ?j 0 = Some (take i (buffer s) @ f @ 0 # rest)"
  proof -
    have "buffer s = take i (buffer s) @ f @ e # rest" using 2(2,3) by (simp add: drop_self_append)
    moreover have "length (take i (buffer s) @ f) = ?j" using 2(3) by simp
    ultimately show ?thesis by (metis append_assoc wr_append)
  qed
  ultimately show ?case using 2(10,9,11) by (intro exI) (auto simp: add_field_def)
next
  case (3 f g fs)
  let ?j = "i + length f" and ?rest = "join_fields (g # fs) @ e # rest"
  let ?s = "s\<lparr>buffer := take ?j (buffer s) @ 0 # ?rest, found := found s @ [i], start_of_field := ?j + 1\<rparr>"
  have d: "drop i (buffer s) = f @ FIELD_SEPARATOR # ?rest" using 3(3) by simp
  have dj: "drop ?j (buffer s) = FIELD_SEPARATOR # ?rest" by (rule drop_behind [OF d])
  have j: "?j < length (buffer s)" by (rule drop_Cons_bound [OF dj])
  have "nmea_split_loop i s = nmea_split_loop ?j s"
    using nmea_split_loop_field [OF d] 3 by simp
  also have "\<dots> = nmea_split_loop (?j + 1) ?s"
    using nmea_split_loop_separator [OF dj] 3 by (simp add: add_field_def)
  finally have loop: "nmea_split_loop i s = nmea_split_loop (?j + 1) ?s" .
  have dr: "drop (?j + 1) (buffer ?s) = ?rest" using j by simp
  have "take ?j (buffer s) = take i (buffer s) @ f"
    using d by (simp add: take_add)
  then have pre: "take (?j + 1) (buffer ?s) = take i (buffer s) @ f @ [0]" using j by simp
  have "\<exists>k t. nmea_split_loop (?j + 1) ?s = Some (k, t) \<and> seen_preamble t \<and> start_of_field t < k \<and>
     wr (buffer t) (k - 1) 0 = Some ((take i (buffer s) @ f @ [0]) @ terminated (g # fs) @ rest) \<and>
     add_field (found t) (start_of_field t) = Some (found ?s @ field_offsets (?j + 1) (g # fs))"
    unfolding pre [symmetric]
  proof (rule 3(1))
    show "drop (?j + 1) (buffer ?s) = join_fields (g # fs) @ e # rest" by (rule dr)
  qed (use 3 j in auto)
  then show ?case unfolding loop by simp
qed simp

text \<open>More fields than the array holds: the parser writes behind the array.\<close>
lemma nmea_split_overflow:
  assumes "fs \<noteq> []" "drop i (buffer s) = join_fields fs @ e # rest"
    "\<forall>f \<in> set fs. \<forall>b \<in> set f. field_char b" "ends_sentence e"
    "i + length (join_fields fs) < MAX_NMEA_BUFFER"
    "\<not> complete s" "in_field s" "seen_preamble s" "start_of_field s = i"
    "MAX_NMEA_FIELDS < length (found s) + length fs"
  shows "nmea_split_loop i s = None \<or>
    (\<exists>j t. nmea_split_loop i s = Some (j, t) \<and> seen_preamble t \<and> start_of_field t < j \<and>
       add_field (found t) (start_of_field t) = None)"
  using assms
proof (induction fs arbitrary: i s rule: join_fields.induct)
  case (2 f)
  let ?j = "i + length f"
  have d: "drop ?j (buffer s) = e # rest" using drop_behind 2(2) by simp
  have "nmea_split_loop i s = Some (?j + 1, s\<lparr>complete := True\<rparr>)"
    using nmea_split_loop_field [of i s f "e # rest"] nmea_split_loop_end [OF d] 2 by simp
  then show ?case using 2(8,9,10) by (auto simp: add_field_def)
next
  case (3 f g fs)
  let ?j = "i + length f" and ?rest = "join_fields (g # fs) @ e # rest"
  let ?s = "s\<lparr>buffer := take ?j (buffer s) @ 0 # ?rest, found := found s @ [i], start_of_field := ?j + 1\<rparr>"
  have d: "drop i (buffer s) = f @ FIELD_SEPARATOR # ?rest" using 3(3) by simp
  have dj: "drop ?j (buffer s) = FIELD_SEPARATOR # ?rest" by (rule drop_behind [OF d])
  have j: "?j < length (buffer s)" by (rule drop_Cons_bound [OF dj])
  have field: "nmea_split_loop i s = nmea_split_loop ?j s"
    using nmea_split_loop_field [OF d] 3 by simp
  show ?case
  proof (cases "length (found s) < MAX_NMEA_FIELDS")
    case False
    then show ?thesis
      using field nmea_split_loop_separator [OF dj] 3 by (simp add: add_field_def)
  next
    case True
    then have loop: "nmea_split_loop i s = nmea_split_loop (?j + 1) ?s"
      using field nmea_split_loop_separator [OF dj] 3 by (simp add: add_field_def)
    show ?thesis unfolding loop
    proof (rule 3(1))
      show "drop (?j + 1) (buffer ?s) = join_fields (g # fs) @ e # rest" using j by simp
    qed (use 3 in auto)
  qed
qed simp

section \<open>Hexadecimal digits\<close>

lemma to_hexchar_of_nat:
  assumes "n < 16"
  shows "to_hexchar (of_nat n) = (if n < 10 then 48 + of_nat n else 55 + of_nat n)"
proof -
  have "\<forall>n \<in> set [0..<16]. to_hexchar (of_nat n) = (if n < 10 then 48 + of_nat n else 55 + of_nat n)"
    by (simp del: set_upt add: upt_rec to_hexchar_def)
  with assms show ?thesis by simp
qed

lemma unat_to_hexchar:
  assumes "k < 16"
  shows "unat (to_hexchar (of_nat k)) = (if k < 10 then 48 + k else 55 + k)"
proof (cases "k < 10")
  case True
  have "to_hexchar (of_nat k) = of_nat (48 + k)" using assms True by (simp add: to_hexchar_of_nat)
  then show ?thesis using True unat_of_nat_u8 [of "48 + k"] by (simp del: of_nat_add)
next
  case False
  have "to_hexchar (of_nat k) = of_nat (55 + k)" using assms False by (simp add: to_hexchar_of_nat)
  then show ?thesis using assms False unat_of_nat_u8 [of "55 + k"] by (simp del: of_nat_add)
qed

lemma to_hexchar_inj:
  assumes "m < 16" "n < 16" "to_hexchar (of_nat m) = to_hexchar (of_nat n)"
  shows "m = n"
proof -
  have "(if m < 10 then 48 + m else 55 + m) = (if n < 10 then 48 + n else 55 + n)"
    using unat_to_hexchar [OF assms(1)] unat_to_hexchar [OF assms(2)] assms(3) by metis
  then show ?thesis by (simp split: if_split_asm)
qed

text \<open>The two checksum characters determine the checksum.\<close>
lemma hexchars_inj:
  assumes "to_hexchar (drop_bit 4 (0xF0 AND x)) = to_hexchar (drop_bit 4 (0xF0 AND y))"
    "to_hexchar (0x0F AND x) = to_hexchar (0x0F AND (y :: u8))"
  shows "x = y"
proof -
  have b: "unat z div 16 < 16" for z :: u8 using unat_u8_less [of z] by linarith
  have "unat x div 16 = unat y div 16"
    by (rule to_hexchar_inj [OF b b]) (rule assms(1) [unfolded high_nibble])
  moreover have "unat x mod 16 = unat y mod 16"
    by (rule to_hexchar_inj [OF _ _ assms(2) [unfolded low_nibble]]) simp_all
  ultimately have "unat x = unat y" by (metis div_mult_mod_eq)
  then show ?thesis by (simp add: word_unat_eq_iff)
qed

text \<open>A sentence with its fields and correct checksum, as a receiver sends it.\<close>
definition nmea_print :: "bytes list \<Rightarrow> bytes" where
  "nmea_print fs = (let c = xor_sum (join_fields fs) in
     NMEA_PREAMBLE # join_fields fs @
     [NMEA_CHECKSUM, to_hexchar (drop_bit 4 (0xF0 AND c)), to_hexchar (0x0F AND c)])"

lemma field_offsets_read:
  assumes "k < length fs" "\<forall>f \<in> set fs. 0 \<notin> set f" "length pre = p"
  shows "c_str_at (pre @ terminated fs @ rest) (field_offsets p fs ! k) = Some (fs ! k)"
  using assms
proof (induction fs arbitrary: k p pre)
  case (Cons f fs)
  show ?case
  proof (cases k)
    case 0
    then show ?thesis using Cons.prems by (simp add: c_str_at_def)
  next
    case (Suc j)
    then show ?thesis
      using Cons.IH [of j "pre @ f @ [0]" "p + length f + 1"] Cons.prems by simp
  qed
qed simp

text \<open>The first two steps of \<open>nmea_parse\<close> on a printed sentence.\<close>
lemma nmea_split_print:
  assumes "\<forall>f \<in> set fs. \<forall>b \<in> set f. field_char b" "length (join_fields fs) + 2 \<le> MAX_NMEA_BUFFER"
  shows "nmea_valid (nmea_print fs @ rest) = Some True"
    "nmea_split_loop 0 \<lparr>buffer = nmea_print fs @ rest, in_field = False, start_of_field = 0,
       complete = False, seen_preamble = False, found = []\<rparr> =
     nmea_split_loop 1 \<lparr>buffer = nmea_print fs @ rest, in_field = True, start_of_field = 1,
       complete = False, seen_preamble = True, found = []\<rparr>"
proof -
  show "nmea_valid (nmea_print fs @ rest) = Some True"
    using nmea_valid_checksum_iff [OF _ join_fields_body [OF assms(1)] assms(2)]
    by (simp add: nmea_print_def Let_def)
qed (subst nmea_split_loop.simps, simp add: nmea_split_step_def nmea_print_def Let_def rd_def nmea_consts)

text \<open>The result of parsing a printed sentence, with the buffer it leaves.\<close>
lemma nmea_parse_printed:
  assumes "fs \<noteq> []" "length fs \<le> MAX_NMEA_FIELDS" "\<forall>f \<in> set fs. \<forall>b \<in> set f. field_char b"
    "length (join_fields fs) + 2 \<le> MAX_NMEA_BUFFER"
  shows "\<exists>h l out. nmea_parse (nmea_print fs @ rest) output =
       Some (True, NMEA_PREAMBLE # terminated fs @ h # l # rest, out) \<and>
     field_ptrs out = field_offsets 1 fs \<and>
     sentence_type out = Some (if hd (hd fs @ [0]) = 80 then 2 else 3)"
proof -
  let ?buf = "nmea_print fs @ rest"
  let ?s = "\<lparr>buffer = ?buf, in_field = True, start_of_field = 1, complete = False,
    seen_preamble = True, found = []\<rparr>"
  obtain h l where p: "?buf = NMEA_PREAMBLE # join_fields fs @ NMEA_CHECKSUM # h # l # rest"
    by (simp add: nmea_print_def Let_def)
  let ?fin = "NMEA_PREAMBLE # terminated fs @ h # l # rest"
  obtain j t where jt: "nmea_split_loop 1 ?s = Some (j, t)" "seen_preamble t" "start_of_field t < j"
    "wr (buffer t) (j - 1) 0 = Some ?fin"
    "add_field (found t) (start_of_field t) = Some (field_offsets 1 fs)"
    using nmea_split_finish [of fs 1 ?s NMEA_CHECKSUM "h # l # rest"] assms p
    by (auto simp: ends_sentence_def)
  obtain f gs where fs: "fs = f # gs" using assms(1) by (cases fs) auto
  have "rd ?fin 1 = Some (hd (f @ [0]))" by (cases f) (simp_all add: fs rd_def)
  moreover have "rd ?fin (Suc 1) \<noteq> None" by (auto simp: rd_def)
  ultimately have fin: "\<exists>out. nmea_finish (j, t) output' = Some (?fin, out) \<and> field_ptrs out = field_offsets 1 fs \<and>
      sentence_type out = Some (if hd (hd fs @ [0]) = 80 then 2 else 3)"
    for output' using jt unfolding nmea_finish_def by (auto simp: Let_def fs eval_nat_numeral)
  let ?out = "output\<lparr>field_ptrs := [], talker := (talker output)[0 := 0], sentence_type := None\<rparr>"
  obtain out where out: "nmea_finish (j, t) ?out = Some (?fin, out)" "field_ptrs out = field_offsets 1 fs"
      "sentence_type out = Some (if hd (hd fs @ [0]) = 80 then 2 else 3)"
    using fin [of ?out] by blast
  moreover have "nmea_parse ?buf output = Some (True, ?fin, out)"
    using nmea_split_print [OF assms(3,4), of rest] jt(1) out(1) by (simp add: nmea_parse_def Let_def)
  ultimately show ?thesis by blast
qed

section \<open>Properties\<close>

text \<open>For a sentence at the start of the buffer whose body has printable characters other
  than the special ones, validation succeeds exactly when the two characters behind the asterisk
  are the upper-case hexadecimal digits of the exclusive or of the body.\<close>
theorem nmea_checksum_exact:
  assumes "\<forall>b \<in> set body. body_char b" "length body + 2 \<le> MAX_NMEA_BUFFER"
  shows "nmea_valid (NMEA_PREAMBLE # body @ NMEA_CHECKSUM # h # l # rest) =
     Some (h = to_hexchar (of_nat (unat (xor_sum body) div 16)) \<and>
           l = to_hexchar (of_nat (unat (xor_sum body) mod 16)))"
  using nmea_valid_checksum_iff [OF refl assms] by (simp only: high_nibble low_nibble)

theorem nmea_checksum_exact_witness:
  "nmea_valid (NMEA_PREAMBLE # [71, 80] @ NMEA_CHECKSUM # 49 # 55 # [13, 10]) = Some True"
  using nmea_checksum_exact [of "[71, 80]" 49 55 "[13, 10]"]
  by (simp add: body_char_def field_char_def nmea_consts to_hexchar_def)

text \<open>C34: A valid sentence with a checksum behind its body (an asterisk and two characters) is refused after any single body character has been
  replaced by a different body character: the checksum detects every single-character
  corruption of such a sentence. A sentence without a checksum is accepted whatever its body is (\<open>nmea_valid_no_checksum\<close>).\<close>
theorem nmea_single_corruption_detected:
  assumes "nmea_valid (NMEA_PREAMBLE # (xs @ a # ys) @ NMEA_CHECKSUM # h # l # rest) = Some True"
    "\<forall>c \<in> set (xs @ a # ys). body_char c" "body_char b" "a \<noteq> b"
    "length xs + length ys + 3 \<le> MAX_NMEA_BUFFER"
  shows "nmea_valid (NMEA_PREAMBLE # (xs @ b # ys) @ NMEA_CHECKSUM # h # l # rest) = Some False"
proof -
  let ?a = "xs @ a # ys" and ?b = "xs @ b # ys"
  have len: "length ?a + 2 \<le> MAX_NMEA_BUFFER" "length ?b + 2 \<le> MAX_NMEA_BUFFER"
    using assms(5) by simp_all
  have bodies: "\<forall>c \<in> set ?b. body_char c" using assms(2,3) by simp
  have h: "h = to_hexchar (drop_bit 4 (0xF0 AND xor_sum ?a))" and l: "l = to_hexchar (0x0F AND xor_sum ?a)"
    using assms(1) unfolding nmea_valid_checksum_iff [OF refl assms(2) len(1)] by simp_all
  show ?thesis
    unfolding nmea_valid_checksum_iff [OF refl bodies len(2)] option.inject
    unfolding h l using hexchars_inj [of "xor_sum ?a" "xor_sum ?b"] xor_sum_changed [OF assms(4)]
    by metis
qed

theorem nmea_single_corruption_detected_witness:
  "nmea_valid (NMEA_PREAMBLE # ([71] @ 81 # []) @ NMEA_CHECKSUM # 49 # 55 # [13]) = Some False"
  by (rule nmea_single_corruption_detected [of "[71]" 80 "[]"])
     (use nmea_checksum_exact_witness nmea_valid_checksum_iff [OF refl, of "[71, 80]" 49 55 "[13]"] in
      \<open>simp_all add: body_char_def field_char_def nmea_consts to_hexchar_def\<close>)

text \<open>C33: Parsing a printed sentence gives the fields back: for one to 64 fields of ordinary
  characters that fit the buffer, the parser succeeds, records one pointer per field, and the C
  string at the k-th pointer is the k-th field.\<close>
theorem nmea_parse_print:
  assumes "fs \<noteq> []" "length fs \<le> MAX_NMEA_FIELDS" "\<forall>f \<in> set fs. \<forall>b \<in> set f. field_char b"
    "length (join_fields fs) + 2 \<le> MAX_NMEA_BUFFER"
  shows "\<exists>buf out. nmea_parse (nmea_print fs @ rest) output = Some (True, buf, out) \<and>
     length (field_ptrs out) = length fs \<and>
     (\<forall>k < length fs. c_str_at buf (field_ptrs out ! k) = Some (fs ! k))"
proof -
  obtain h l out where out: "nmea_parse (nmea_print fs @ rest) output =
      Some (True, NMEA_PREAMBLE # terminated fs @ h # l # rest, out)" "field_ptrs out = field_offsets 1 fs"
    using nmea_parse_printed [OF assms, of rest "output"] by blast
  have "c_str_at (NMEA_PREAMBLE # terminated fs @ h # l # rest) (field_offsets 1 fs ! k) = Some (fs ! k)"
    if "k < length fs" for k
    using field_offsets_read [of k fs "[NMEA_PREAMBLE]" 1 "h # l # rest"] that assms(3) field_charD
    by fastforce
  then show ?thesis using out by simp
qed

theorem nmea_parse_print_witness:
  "\<exists>buf out. nmea_parse (nmea_print [[71, 80, 82, 77, 67], [], [65]] @ [13, 10])
     \<lparr>field_ptrs = [], talker = [0, 0, 0], sentence_type = None\<rparr> = Some (True, buf, out) \<and>
     length (field_ptrs out) = 3 \<and> c_str_at buf (field_ptrs out ! 1) = Some [] \<and>
     c_str_at buf (field_ptrs out ! 2) = Some [65]"
proof -
  have "\<forall>f \<in> set [[71, 80, 82, 77, 67], [], [65]]. \<forall>b \<in> set f. field_char b"
    by (simp add: field_char_def nmea_consts)
  then obtain buf out where
    "nmea_parse (nmea_print [[71, 80, 82, 77, 67], [], [65]] @ [13, 10])
     \<lparr>field_ptrs = [], talker = [0, 0, 0], sentence_type = None\<rparr> = Some (True, buf, out)"
    "length (field_ptrs out) = length [[71, 80, 82, 77, 67], [], [65 :: u8]]"
    "\<forall>k < length [[71, 80, 82, 77, 67], [], [65 :: u8]].
       c_str_at buf (field_ptrs out ! k) = Some ([[71, 80, 82, 77, 67], [], [65]] ! k)"
    using nmea_parse_print [of "[[71, 80, 82, 77, 67], [], [65]]" "[13, 10]"
      "\<lparr>field_ptrs = [], talker = [0, 0, 0], sentence_type = None\<rparr>"]
    by (auto simp: nmea_consts)
  then show ?thesis by (intro exI [of _ buf] exI [of _ out]) simp
qed

text \<open>A sentence with more than 64 fields and a correct checksum makes the parser write
  behind its array of 64 field pointers.\<close>
theorem nmea_parse_field_overflow:
  assumes "MAX_NMEA_FIELDS < length fs" "\<forall>f \<in> set fs. \<forall>b \<in> set f. field_char b"
    "length (join_fields fs) + 2 \<le> MAX_NMEA_BUFFER"
  shows "nmea_parse (nmea_print fs @ rest) output = None"
proof -
  let ?buf = "nmea_print fs @ rest"
  let ?s = "\<lparr>buffer = ?buf, in_field = True, start_of_field = 1, complete = False,
    seen_preamble = True, found = []\<rparr>"
  obtain h l where p: "?buf = NMEA_PREAMBLE # join_fields fs @ NMEA_CHECKSUM # h # l # rest"
    by (simp add: nmea_print_def Let_def)
  have "fs \<noteq> []" using assms(1) by auto
  then have "nmea_split_loop 1 ?s = None \<or> (\<exists>j t. nmea_split_loop 1 ?s = Some (j, t) \<and>
      seen_preamble t \<and> start_of_field t < j \<and> add_field (found t) (start_of_field t) = None)"
    using nmea_split_overflow [of fs 1 ?s NMEA_CHECKSUM "h # l # rest"] assms p
    by (auto simp: ends_sentence_def)
  then show ?thesis
    using nmea_split_print [OF assms(2,3), of rest]
    by (auto simp: nmea_parse_def nmea_finish_def Let_def split: Option.bind_split)
qed

theorem nmea_parse_field_overflow_witness:
  "nmea_parse (nmea_print (replicate 65 []) @ [13, 10])
     \<lparr>field_ptrs = [], talker = [0, 0, 0], sentence_type = None\<rparr> = None"
proof -
  have "length (join_fields (replicate (Suc n) [])) = n" for n
    by (induction n) simp_all
  from this [of 64] have "length (join_fields (replicate 65 [])) = 64"
    by (simp only: numeral_eq_Suc) simp
  then show ?thesis
    by (intro nmea_parse_field_overflow) (simp_all add: nmea_consts)
qed

end
