(* ===== verification/Gps_Std.thy ===== *)
theory Gps_Std
  imports Nmealib
begin

text \<open>
  The decoders of \<open>gps_std.c\<close>: they read the fields of a parsed sentence through the field
  pointers, which are offsets into the sentence buffer. Every access to the array of pointers and
  to the buffer is checked. The structures they fill are passed in with the content they had
  before the call, because a decoder that returns early leaves them as they were.
\<close>

section \<open>Types\<close>

definition MAX_GSA_PRNS :: nat where "MAX_GSA_PRNS = 12"
definition FIX_Q_INVALID :: u8 where "FIX_Q_INVALID = 0"
definition PI_LIT :: rat where "PI_LIT = 314159265359 / 100000000000"

record 'f gps_gga_t =
  gga_timestamp :: 'f
  gga_latitude :: 'f
  gga_longitude :: 'f
  gga_fix_quality :: u8
  gga_num_svs :: u8
  gga_hdop :: 'f
  gga_alt :: 'f
  gga_geoid_height :: 'f

record 'f gps_gsa_t =
  gsa_auto_selection :: u8
  gsa_fix_type :: u8
  gsa_prns :: "u8 list"
  gsa_pdop :: 'f
  gsa_vdop :: 'f

record 'f gps_rmc_t =
  rmc_speed :: 'f
  rmc_active :: bool
  rmc_moving :: bool
  rmc_track_angle :: 'f

record 'f gps_vtg_t =
  vtg_true_track :: 'f
  vtg_magnetic_track :: 'f
  vtg_ground_speed_kts :: 'f
  vtg_ground_speed_kmh :: 'f

section \<open>Numbers\<close>

text \<open>The C string at a pointer, without the leading zeroes that both conversions skip.\<close>
definition skip_zeroes :: "bytes \<Rightarrow> bytes" where
  "skip_zeroes s = dropWhile (\<lambda>b. b = 48) s"

definition nmea_atof :: "('f, 'd) fpu \<Rightarrow> bytes \<Rightarrow> nat \<Rightarrow> 'f option" where
  "nmea_atof fp buf p = do {
     s \<leftarrow> c_str_at buf p;
     Some (if s = [] then f_lit fp 0 else f_of_d fp (atof fp (skip_zeroes s))) }"

definition nmea_atoi :: "bytes \<Rightarrow> nat \<Rightarrow> int option" where
  "nmea_atoi buf p = do {
     s \<leftarrow> c_str_at buf p;
     Some (if s = [] then 0 else atoi (skip_zeroes s)) }"

definition DEG_TO_RAD :: "('f, 'd) fpu \<Rightarrow> 'f \<Rightarrow> 'd" where
  "DEG_TO_RAD fp x = d_mul fp (d_of_f fp x) (d_div fp (d_lit fp PI_LIT) (d_of_f fp (f_lit fp 180)))"

definition nmea_deg_min_to_rad :: "('f, 'd) fpu \<Rightarrow> 'f \<Rightarrow> 'f \<Rightarrow> 'f" where
  "nmea_deg_min_to_rad fp deg mins =
     (let mins = f_div fp mins (f_lit fp 60) in f_of_d fp (DEG_TO_RAD fp (f_add fp deg mins)))"

text \<open>\<open>(str[k] - '0') * w\<close>: an \<open>int\<close> converted to \<open>float\<close>.\<close>
definition digit_times :: "('f, 'd) fpu \<Rightarrow> u8 \<Rightarrow> rat \<Rightarrow> 'f" where
  "digit_times fp b w = f_mul fp (f_of_int fp (uint b - 48)) (f_lit fp w)"

definition nmea_latof :: "('f, 'd) fpu \<Rightarrow> bytes \<Rightarrow> nat \<Rightarrow> 'f option" where
  "nmea_latof fp buf p = do {
     c0 \<leftarrow> rd buf p;
     if c0 = 0 then Some (f_lit fp 0)
     else do {
       c1 \<leftarrow> rd buf (p + 1);
       let degrees = f_add fp (digit_times fp c0 10) (digit_times fp c1 1);
       minutes \<leftarrow> nmea_atof fp buf (p + 2);
       Some (nmea_deg_min_to_rad fp degrees minutes) } }"

definition nmea_lotof :: "('f, 'd) fpu \<Rightarrow> bytes \<Rightarrow> nat \<Rightarrow> 'f option" where
  "nmea_lotof fp buf p = do {
     c0 \<leftarrow> rd buf p;
     if c0 = 0 then Some (f_lit fp 0)
     else do {
       c1 \<leftarrow> rd buf (p + 1);
       c2 \<leftarrow> rd buf (p + 2);
       let degrees = f_add fp (f_add fp (digit_times fp c0 100) (digit_times fp c1 10)) (digit_times fp c2 1);
       minutes \<leftarrow> nmea_atof fp buf (p + 3);
       Some (nmea_deg_min_to_rad fp degrees minutes) } }"

section \<open>Decoders\<close>

text \<open>\<open>param->fields[k]\<close>; the entries from \<open>field_count\<close> on are not initialised.\<close>
definition field_at :: "nmea_sentence_t \<Rightarrow> nat \<Rightarrow> nat option" where
  "field_at param k = rd (field_ptrs param) k"

definition field_atof :: "('f, 'd) fpu \<Rightarrow> bytes \<Rightarrow> nmea_sentence_t \<Rightarrow> nat \<Rightarrow> 'f option" where
  "field_atof fp buf param k = do { p \<leftarrow> field_at param k; nmea_atof fp buf p }"

definition field_atoi :: "bytes \<Rightarrow> nmea_sentence_t \<Rightarrow> nat \<Rightarrow> int option" where
  "field_atoi buf param k = do { p \<leftarrow> field_at param k; nmea_atoi buf p }"

definition field_char0 :: "bytes \<Rightarrow> nmea_sentence_t \<Rightarrow> nat \<Rightarrow> u8 option" where
  "field_char0 buf param k = do { p \<leftarrow> field_at param k; rd buf p }"

definition nmea_decode_rmc ::
  "('f, 'd) fpu \<Rightarrow> bytes \<Rightarrow> nmea_sentence_t \<Rightarrow> 'f gps_rmc_t \<Rightarrow> 'f gps_rmc_t option" where
  "nmea_decode_rmc fp buf param output = do {
     c \<leftarrow> field_char0 buf param 3;
     let output = output\<lparr>rmc_active := (c = 65)\<rparr>;
     if rmc_active output then do {
       kts \<leftarrow> field_atof fp buf param 6;
       let speed = f_of_d fp (d_mul fp (d_of_f fp kts) (d_lit fp (1852 / 1000)));
       track \<leftarrow> field_atof fp buf param 7;
       Some (output\<lparr>rmc_speed := speed, rmc_moving := f_less fp (f_of_int fp 3) speed, rmc_track_angle := track\<rparr>) }
     else Some output }"

definition nmea_decode_gga ::
  "('f, 'd) fpu \<Rightarrow> bytes \<Rightarrow> nmea_sentence_t \<Rightarrow> 'f gps_gga_t \<Rightarrow> 'f gps_gga_t option" where
  "nmea_decode_gga fp buf param output =
     (if length (field_ptrs param) < 13 then Some output
      else do {
        time \<leftarrow> field_atof fp buf param 1;
        p2 \<leftarrow> field_at param 2;
        lat \<leftarrow> nmea_latof fp buf p2;
        ns \<leftarrow> field_char0 buf param 3;
        let lat = (if ns = 83 then f_neg fp lat else lat);
        p4 \<leftarrow> field_at param 4;
        lon \<leftarrow> nmea_lotof fp buf p4;
        ew \<leftarrow> field_char0 buf param 5;
        let lon = (if ew = 87 then f_neg fp lon else lon);
        q \<leftarrow> field_atoi buf param 6;
        svs \<leftarrow> field_atoi buf param 7;
        hdop \<leftarrow> field_atof fp buf param 8;
        alt \<leftarrow> field_atof fp buf param 9;
        geoid \<leftarrow> field_atof fp buf param 11;
        Some (output\<lparr>gga_timestamp := time, gga_latitude := lat, gga_longitude := lon,
          gga_fix_quality := of_int q, gga_num_svs := of_int svs, gga_hdop := hdop, gga_alt := alt,
          gga_geoid_height := geoid\<rparr>) })"

text \<open>The loop over the satellite fields.\<close>
fun decode_prns :: "bytes \<Rightarrow> nmea_sentence_t \<Rightarrow> nat \<Rightarrow> nat \<Rightarrow> u8 list \<Rightarrow> u8 list option" where
  "decode_prns buf param i 0 prns = Some prns"
| "decode_prns buf param i (Suc n) prns = do {
     v \<leftarrow> field_atoi buf param i;
     prns \<leftarrow> wr prns (i - 3) (of_int v);
     decode_prns buf param (i + 1) n prns }"

definition nmea_decode_gsa ::
  "('f, 'd) fpu \<Rightarrow> bytes \<Rightarrow> nmea_sentence_t \<Rightarrow> 'f gps_gsa_t \<Rightarrow> 'f gps_gsa_t option" where
  "nmea_decode_gsa fp buf param output =
     (if length (field_ptrs param) < 18 then Some output
      else do {
        auto \<leftarrow> field_char0 buf param 1;
        fix_ty \<leftarrow> field_atoi buf param 2;
        prns \<leftarrow> decode_prns buf param 3 MAX_GSA_PRNS (gsa_prns output);
        pdop \<leftarrow> field_atof fp buf param 15;
        vdop \<leftarrow> field_atof fp buf param 16;
        Some (output\<lparr>gsa_auto_selection := auto, gsa_fix_type := of_int fix_ty, gsa_prns := prns,
          gsa_pdop := pdop, gsa_vdop := vdop\<rparr>) })"

definition nmea_decode_vtg ::
  "('f, 'd) fpu \<Rightarrow> bytes \<Rightarrow> nmea_sentence_t \<Rightarrow> 'f gps_vtg_t \<Rightarrow> 'f gps_vtg_t option" where
  "nmea_decode_vtg fp buf param output =
     (if length (field_ptrs param) < 8 then Some output
      else do {
        t \<leftarrow> field_atof fp buf param 1;
        m \<leftarrow> field_atof fp buf param 3;
        kts \<leftarrow> field_atof fp buf param 5;
        kmh \<leftarrow> field_atof fp buf param 7;
        Some (output\<lparr>vtg_true_track := t, vtg_magnetic_track := m, vtg_ground_speed_kts := kts,
          vtg_ground_speed_kmh := kmh\<rparr>) })"

section \<open>Decoding the fields of a sentence\<close>

text \<open>The sentence record describes these fields in the buffer.\<close>
definition holds_fields :: "bytes \<Rightarrow> nmea_sentence_t \<Rightarrow> bytes list \<Rightarrow> bool" where
  "holds_fields buf param fs \<longleftrightarrow> length (field_ptrs param) = length fs \<and>
     (\<forall>k < length fs. c_str_at buf (field_ptrs param ! k) = Some (fs ! k))"

text \<open>The same conversions on the text of a field.\<close>
definition str_atof :: "('f, 'd) fpu \<Rightarrow> bytes \<Rightarrow> 'f" where
  "str_atof fp s = (if s = [] then f_lit fp 0 else f_of_d fp (atof fp (skip_zeroes s)))"

definition str_atoi :: "bytes \<Rightarrow> int" where
  "str_atoi s = (if s = [] then 0 else atoi (skip_zeroes s))"

definition str_latof :: "('f, 'd) fpu \<Rightarrow> bytes \<Rightarrow> 'f" where
  "str_latof fp s = (if s = [] then f_lit fp 0
     else nmea_deg_min_to_rad fp (f_add fp (digit_times fp (s ! 0) 10) (digit_times fp (s ! 1) 1)) (str_atof fp (drop 2 s)))"

definition str_lotof :: "('f, 'd) fpu \<Rightarrow> bytes \<Rightarrow> 'f" where
  "str_lotof fp s = (if s = [] then f_lit fp 0
     else nmea_deg_min_to_rad fp
       (f_add fp (f_add fp (digit_times fp (s ! 0) 100) (digit_times fp (s ! 1) 10)) (digit_times fp (s ! 2) 1))
       (str_atof fp (drop 3 s)))"

text \<open>The sign that a hemisphere field gives.\<close>
definition signed_by :: "('f, 'd) fpu \<Rightarrow> u8 \<Rightarrow> bytes \<Rightarrow> 'f \<Rightarrow> 'f" where
  "signed_by fp c s x = (if s \<noteq> [] \<and> s ! 0 = c then f_neg fp x else x)"

lemma c_str_at_shift:
  assumes "c_str_at buf p = Some s" "j \<le> length s"
  shows "rd buf (p + j) = Some ((s @ [0]) ! j)" "c_str_at buf (p + j) = Some (drop j s)"
proof -
  obtain rest where d: "drop p buf = s @ 0 # rest" "0 \<notin> set s"
    using c_str_SomeD [of "drop p buf" s] assms(1) by (auto simp: c_str_at_def)
  then have "drop (p + j) buf = drop j s @ 0 # rest"
    using assms(2) by (simp add: add.commute flip: drop_drop)
  moreover have "0 \<notin> set (drop j s)" using d(2) in_set_dropD by fast
  ultimately show "c_str_at buf (p + j) = Some (drop j s)" by (simp add: c_str_at_def)
  have "length buf - p = length s + 1 + length rest" using arg_cong [OF d(1), of length] by simp
  then have "p + j < length buf" using assms(2) by linarith
  moreover have "buf ! (p + j) = (s @ 0 # rest) ! j"
    using d(1) \<open>p + j < length buf\<close> by (metis add_leD1 less_imp_le_nat nth_drop)
  ultimately show "rd buf (p + j) = Some ((s @ [0]) ! j)"
    using assms(2) by (simp add: rd_in nth_append)
qed

lemma c_str_at_head: "c_str_at buf p = Some s \<Longrightarrow> rd buf p = Some ((s @ [0]) ! 0)"
  using c_str_at_shift(1) [of buf p s 0] by simp

lemma field_conversions:
  assumes "holds_fields buf param fs" "k < length fs"
  shows "field_at param k = Some (field_ptrs param ! k)"
    "field_atof fp buf param k = Some (str_atof fp (fs ! k))"
    "field_atoi buf param k = Some (str_atoi (fs ! k))"
    "field_char0 buf param k = Some ((fs ! k @ [0]) ! 0)"
    "c_str_at buf (field_ptrs param ! k) = Some (fs ! k)"
  using assms c_str_at_head
  by (auto simp: holds_fields_def field_at_def field_atof_def field_atoi_def field_char0_def rd_in
      nmea_atof_def nmea_atoi_def str_atof_def str_atoi_def)

lemma nmea_latof_str:
  assumes "c_str_at buf p = Some s" "length s \<noteq> 1"
  shows "nmea_latof fp buf p = Some (str_latof fp s)"
proof (cases s)
  case Nil
  then show ?thesis using c_str_at_head [OF assms(1)] by (simp add: nmea_latof_def str_latof_def)
next
  case (Cons a t)
  with assms(2) obtain b u where s: "s = a # b # u" by (cases t) auto
  have "0 \<notin> set s" using assms(1) c_str_SomeD by (fastforce simp: c_str_at_def)
  then show ?thesis
    using c_str_at_head [OF assms(1)] c_str_at_shift [OF assms(1), of 1] c_str_at_shift [OF assms(1), of 2]
    by (simp add: nmea_latof_def str_latof_def nmea_atof_def str_atof_def s)
qed

lemma nmea_lotof_str:
  assumes "c_str_at buf p = Some s" "s = [] \<or> 3 \<le> length s"
  shows "nmea_lotof fp buf p = Some (str_lotof fp s)"
proof (cases "s = []")
  case True
  then show ?thesis using c_str_at_head [OF assms(1)] by (simp add: nmea_lotof_def str_lotof_def)
next
  case False
  then obtain a b c u where s: "s = a # b # c # u" using list_three assms(2) by blast
  have "0 \<notin> set s" using assms(1) c_str_SomeD by (fastforce simp: c_str_at_def)
  then show ?thesis
    using c_str_at_head [OF assms(1)] c_str_at_shift [OF assms(1), of 1] c_str_at_shift [OF assms(1), of 2]
      c_str_at_shift [OF assms(1), of 3]
    by (simp add: nmea_lotof_def str_lotof_def nmea_atof_def str_atof_def s)
qed

text \<open>What a GGA sentence of at least 13 fields says.\<close>
definition gga_of :: "('f, 'd) fpu \<Rightarrow> bytes list \<Rightarrow> 'f gps_gga_t" where
  "gga_of fp fs = \<lparr>gga_timestamp = str_atof fp (fs ! 1),
     gga_latitude = signed_by fp 83 (fs ! 3) (str_latof fp (fs ! 2)),
     gga_longitude = signed_by fp 87 (fs ! 5) (str_lotof fp (fs ! 4)),
     gga_fix_quality = of_int (str_atoi (fs ! 6)), gga_num_svs = of_int (str_atoi (fs ! 7)),
     gga_hdop = str_atof fp (fs ! 8), gga_alt = str_atof fp (fs ! 9), gga_geoid_height = str_atof fp (fs ! 11)\<rparr>"

lemma first_char: "(s @ [0]) ! 0 = (c :: u8) \<longleftrightarrow> s \<noteq> [] \<and> s ! 0 = c" if "c \<noteq> 0"
  using that by (cases s) auto

lemma decode_gga:
  assumes "holds_fields buf param fs" "13 \<le> length fs" "length (fs ! 2) \<noteq> 1" "fs ! 4 = [] \<or> 3 \<le> length (fs ! 4)"
  shows "nmea_decode_gga fp buf param output = Some (gga_of fp fs)"
proof -
  have len: "\<not> length (field_ptrs param) < 13" using assms(1,2) by (simp add: holds_fields_def)
  have k: "k < length fs" if "k < 13" for k using that assms(2) by simp
  have "nmea_latof fp buf (field_ptrs param ! 2) = Some (str_latof fp (fs ! 2))"
    "nmea_lotof fp buf (field_ptrs param ! 4) = Some (str_lotof fp (fs ! 4))"
    using field_conversions(5) [OF assms(1) k] assms(3,4) by (auto intro!: nmea_latof_str nmea_lotof_str)
  then show ?thesis
    using len by (simp add: nmea_decode_gga_def gga_of_def field_conversions [OF assms(1) k] Let_def first_char signed_by_def)
qed

lemma decode_gga_short: "length (field_ptrs param) < 13 \<Longrightarrow> nmea_decode_gga fp buf param output = Some output"
  by (simp add: nmea_decode_gga_def)

end
