(* ===== verification/Gps_Cache.thy ===== *)
theory Gps_Cache
  imports Gps_Std
begin

text \<open>
  The cache of \<open>gps_cache.c\<close>: the latest fix, the statistics of fixes and the readings of the
  motion sensor. Every operation holds the mutex of the file for its whole effect, so it is one
  step on the cache.
\<close>

section \<open>State\<close>

record 'f gps_fix_t =
  timestamp :: 'f
  latitude :: 'f
  longitude :: 'f
  altitude :: 'f
  hdop :: 'f
  vdop :: 'f
  pdop :: 'f
  fix_quality :: u8
  gps_svs :: u8
  glo_svs :: u8
  waas_svs :: u8
  moving :: bool
  track_angle :: 'f

record gps_fix_stats_t =
  max_time :: u8
  min_time :: u8
  last_time :: u8
  timeouts :: u16
  samples :: u16
  total_time :: u32

record 'f imu_data_t =
  accel_x :: 'f
  accel_y :: 'f
  accel_z :: 'f
  mag_x :: 'f
  mag_y :: 'f
  mag_z :: 'f
  temperature :: 'f

record 'f gps_cache =
  gps_fix :: "'f gps_fix_t"
  stats :: gps_fix_stats_t
  imu_data :: "'f imu_data_t"

definition initial_fix :: "('f, 'd) fpu \<Rightarrow> 'f gps_fix_t" where
  "initial_fix fp = \<lparr>timestamp = f_lit fp 0, latitude = f_lit fp 0, longitude = f_lit fp 0,
     altitude = f_lit fp 0, hdop = f_lit fp 0, vdop = f_lit fp 0, pdop = f_lit fp 0,
     fix_quality = FIX_Q_INVALID, gps_svs = 0, glo_svs = 0, waas_svs = 0, moving = False,
     track_angle = f_lit fp 0\<rparr>"

definition initial_stats :: gps_fix_stats_t where
  "initial_stats = \<lparr>max_time = 0, min_time = 0xFF, last_time = 0, timeouts = 0, samples = 0, total_time = 0\<rparr>"

definition initial_imu :: "('f, 'd) fpu \<Rightarrow> 'f imu_data_t" where
  "initial_imu fp = \<lparr>accel_x = f_lit fp 0, accel_y = f_lit fp 0, accel_z = f_lit fp 0,
     mag_x = f_lit fp 0, mag_y = f_lit fp 0, mag_z = f_lit fp 0, temperature = f_lit fp 0\<rparr>"

section \<open>The fix\<close>

definition gps_fix_is_valid :: "'f gps_fix_t \<Rightarrow> bool" where
  "gps_fix_is_valid fix \<longleftrightarrow> fix_quality fix \<noteq> FIX_Q_INVALID"

text \<open>The copy of the fix and whether it is valid.\<close>
definition gps_get_fix :: "'f gps_cache \<Rightarrow> bool \<times> 'f gps_fix_t" where
  "gps_get_fix c = (gps_fix_is_valid (gps_fix c), gps_fix c)"

definition set_fix :: "('f gps_fix_t \<Rightarrow> 'f gps_fix_t) \<Rightarrow> 'f gps_cache \<Rightarrow> 'f gps_cache" where
  "set_fix f c = c\<lparr>gps_fix := f (gps_fix c)\<rparr>"

definition gps_update_gga :: "'f gps_gga_t \<Rightarrow> 'f gps_cache \<Rightarrow> 'f gps_cache" where
  "gps_update_gga gga c =
     (if gga_fix_quality gga = FIX_Q_INVALID then c
      else set_fix (\<lambda>f. f\<lparr>timestamp := gga_timestamp gga, latitude := gga_latitude gga,
        longitude := gga_longitude gga, altitude := gga_alt gga, fix_quality := gga_fix_quality gga,
        hdop := gga_hdop gga\<rparr>) c)"

definition gps_update_rmc :: "'f gps_rmc_t \<Rightarrow> 'f gps_cache \<Rightarrow> 'f gps_cache" where
  "gps_update_rmc rmc c =
     (if rmc_active rmc then set_fix (\<lambda>f. f\<lparr>moving := rmc_moving rmc, track_angle := rmc_track_angle rmc\<rparr>) c
      else c)"

text \<open>The loop that counts satellites by number: GPS, WAAS and GLONASS, in \<open>uint8_t\<close> counters.\<close>
fun count_prns :: "u8 list \<Rightarrow> u8 \<times> u8 \<times> u8 \<Rightarrow> u8 \<times> u8 \<times> u8" where
  "count_prns [] (g, w, l) = (g, w, l)"
| "count_prns (p # ps) (g, w, l) =
     (if p = 0 then count_prns ps (g, w, l)
      else if p \<le> 32 then count_prns ps (g + 1, w, l)
      else if p \<le> 64 then count_prns ps (g, w + 1, l)
      else if p \<le> 96 then count_prns ps (g, w, l + 1)
      else count_prns ps (g, w, l))"

definition gps_update_gsa :: "'f gps_gsa_t \<Rightarrow> 'f gps_cache \<Rightarrow> 'f gps_cache" where
  "gps_update_gsa gsa c =
     (let c = set_fix (\<lambda>f. f\<lparr>vdop := gsa_vdop gsa, pdop := gsa_pdop gsa\<rparr>) c;
          (gps_prns, waas_prns, glo_prns) = count_prns (gsa_prns gsa) (0, 0, 0);
          c = (if 0 < gps_prns then set_fix (\<lambda>f. f\<lparr>gps_svs := gps_prns\<rparr>) c else c);
          c = (if 0 < waas_prns then set_fix (\<lambda>f. f\<lparr>waas_svs := waas_prns\<rparr>) c else c)
      in if 0 < glo_prns then set_fix (\<lambda>f. f\<lparr>glo_svs := glo_prns\<rparr>) c else c)"

definition gps_update_vtg :: "'f gps_vtg_t \<Rightarrow> 'f gps_cache \<Rightarrow> 'f gps_cache" where
  "gps_update_vtg vtg c = c"

definition gps_reset_cache :: "('f, 'd) fpu \<Rightarrow> 'f gps_cache \<Rightarrow> 'f gps_cache" where
  "gps_reset_cache fp = set_fix (\<lambda>f. f\<lparr>timestamp := f_of_int fp 0, latitude := f_of_int fp 0,
     longitude := f_of_int fp 0, fix_quality := FIX_Q_INVALID\<rparr>)"

section \<open>Statistics\<close>

text \<open>The comparisons promote the stored byte to \<open>int\<close>; the assignments truncate.\<close>
definition gps_add_fix_stat :: "int \<Rightarrow> 'f gps_cache \<Rightarrow> 'f gps_cache" where
  "gps_add_fix_stat secs c =
     (let s = stats c;
          s = (if secs < uint (min_time s) then s\<lparr>min_time := of_int secs\<rparr> else s);
          s = (if uint (max_time s) < secs then s\<lparr>max_time := of_int secs\<rparr> else s);
          s = s\<lparr>samples := samples s + 1\<rparr>;
          s = s\<lparr>total_time := total_time s + of_int secs\<rparr>;
          s = s\<lparr>last_time := of_int secs\<rparr>
      in c\<lparr>stats := s\<rparr>)"

definition gps_add_timeout_stat :: "'f gps_cache \<Rightarrow> 'f gps_cache" where
  "gps_add_timeout_stat c = c\<lparr>stats := (stats c)\<lparr>timeouts := timeouts (stats c) + 1\<rparr>\<rparr>"

definition gps_get_fix_stat :: "'f gps_cache \<Rightarrow> gps_fix_stats_t" where
  "gps_get_fix_stat c = stats c"

section \<open>Motion sensor\<close>

definition imu_update_accel :: "'f \<Rightarrow> 'f \<Rightarrow> 'f \<Rightarrow> 'f gps_cache \<Rightarrow> 'f gps_cache" where
  "imu_update_accel x y z c = c\<lparr>imu_data := (imu_data c)\<lparr>accel_x := x, accel_y := y, accel_z := z\<rparr>\<rparr>"

definition imu_update_temp :: "'f \<Rightarrow> 'f gps_cache \<Rightarrow> 'f gps_cache" where
  "imu_update_temp t c = c\<lparr>imu_data := (imu_data c)\<lparr>temperature := t\<rparr>\<rparr>"

definition imu_update_mag :: "'f \<Rightarrow> 'f \<Rightarrow> 'f \<Rightarrow> 'f gps_cache \<Rightarrow> 'f gps_cache" where
  "imu_update_mag x y z c = c\<lparr>imu_data := (imu_data c)\<lparr>mag_x := x, mag_y := y, mag_z := z\<rparr>\<rparr>"

definition imu_get_data :: "'f gps_cache \<Rightarrow> 'f imu_data_t" where
  "imu_get_data c = imu_data c"

section \<open>Counting satellites\<close>

definition in_range :: "nat \<Rightarrow> nat \<Rightarrow> u8 list \<Rightarrow> nat" where
  "in_range lo hi ps = length (filter (\<lambda>p. lo \<le> unat p \<and> unat p \<le> hi) ps)"

lemma in_range_simps [simp]:
  "in_range lo hi [] = 0"
  "in_range lo hi (p # ps) = (if lo \<le> unat p \<and> unat p \<le> hi then 1 else 0) + in_range lo hi ps"
  by (simp_all add: in_range_def)

lemma in_range_le: "in_range lo hi ps \<le> length ps"
  by (simp add: in_range_def)

lemma count_prns_counts:
  "count_prns ps (g, w, l) = (g + of_nat (in_range 1 32 ps), w + of_nat (in_range 33 64 ps), l + of_nat (in_range 65 96 ps))"
proof (induction ps arbitrary: g w l)
  case (Cons p ps)
  have "p = 0 \<longleftrightarrow> unat p = 0" "p \<le> 32 \<longleftrightarrow> unat p \<le> 32" "p \<le> 64 \<longleftrightarrow> unat p \<le> 64" "p \<le> 96 \<longleftrightarrow> unat p \<le> 96"
    by (simp_all add: word_le_nat_alt unat_eq_zero)
  then show ?case using Cons.IH by (auto simp: algebra_simps)
qed simp

text \<open>With at most 255 satellites the counters do not wrap.\<close>
lemma unat_count: "length ps < 256 \<Longrightarrow> unat (of_nat (in_range lo hi ps) :: u8) = in_range lo hi ps"
  using in_range_le [of lo hi ps] by (intro unat_of_nat_u8) simp

section \<open>Properties\<close>

text \<open>A GSA report of at most twelve satellites sets the count of GPS, WAAS and GLONASS
  satellites to the number of its satellite numbers in the range of each system, and keeps the
  former count of a system that has none; position, quality and horizontal precision stay.\<close>
theorem gsa_counts:
  assumes "length (gsa_prns gsa) = MAX_GSA_PRNS"
  shows "\<exists>g w l. gps_fix (gps_update_gsa gsa c) = (gps_fix c)\<lparr>vdop := gsa_vdop gsa, pdop := gsa_pdop gsa,
       gps_svs := g, waas_svs := w, glo_svs := l\<rparr> \<and>
     unat g = (if in_range 1 32 (gsa_prns gsa) = 0 then unat (gps_svs (gps_fix c)) else in_range 1 32 (gsa_prns gsa)) \<and>
     unat w = (if in_range 33 64 (gsa_prns gsa) = 0 then unat (waas_svs (gps_fix c)) else in_range 33 64 (gsa_prns gsa)) \<and>
     unat l = (if in_range 65 96 (gsa_prns gsa) = 0 then unat (glo_svs (gps_fix c)) else in_range 65 96 (gsa_prns gsa))"
proof -
  let ?n = "\<lambda>lo hi. of_nat (in_range lo hi (gsa_prns gsa)) :: u8"
  have u: "unat (?n lo hi) = in_range lo hi (gsa_prns gsa)" for lo hi
    using assms by (intro unat_count) (simp add: MAX_GSA_PRNS_def)
  have pos: "0 < ?n lo hi \<longleftrightarrow> in_range lo hi (gsa_prns gsa) \<noteq> 0" for lo hi
    using u [of lo hi] by (metis unat_0 word_gt_0 unat_eq_zero)
  let ?pick = "\<lambda>lo hi old. if in_range lo hi (gsa_prns gsa) = 0 then old else ?n lo hi"
  have "gps_fix (gps_update_gsa gsa c) = (gps_fix c)\<lparr>vdop := gsa_vdop gsa, pdop := gsa_pdop gsa,
      gps_svs := ?pick 1 32 (gps_svs (gps_fix c)), waas_svs := ?pick 33 64 (waas_svs (gps_fix c)),
      glo_svs := ?pick 65 96 (glo_svs (gps_fix c))\<rparr>"
    unfolding gps_update_gsa_def count_prns_counts Let_def by (simp add: set_fix_def pos)
  then show ?thesis
    by (intro exI [of _ "?pick 1 32 (gps_svs (gps_fix c))"] exI [of _ "?pick 33 64 (waas_svs (gps_fix c))"]
        exI [of _ "?pick 65 96 (glo_svs (gps_fix c))"]) (simp add: u)
qed

theorem gsa_counts_witness:
  "\<exists>g w l. gps_fix (gps_update_gsa \<lparr>gsa_auto_selection = 65, gsa_fix_type = 3,
      gsa_prns = [4, 5, 70, 0, 0, 0, 40, 0, 0, 0, 0, 200], gsa_pdop = 2, gsa_vdop = 1\<rparr>
      \<lparr>gps_fix = initial_fix rat_fpu, stats = initial_stats, imu_data = initial_imu rat_fpu\<rparr>) =
     (initial_fix rat_fpu)\<lparr>vdop := 1, pdop := 2, gps_svs := g, waas_svs := w, glo_svs := l\<rparr> \<and>
     unat g = 2 \<and> unat w = 1 \<and> unat l = 1"
  using gsa_counts [of "\<lparr>gsa_auto_selection = 65, gsa_fix_type = 3,
      gsa_prns = [4, 5, 70, 0, 0, 0, 40, 0, 0, 0, 0, 200], gsa_pdop = 2, gsa_vdop = 1\<rparr>"
      "\<lparr>gps_fix = initial_fix rat_fpu, stats = initial_stats, imu_data = initial_imu rat_fpu\<rparr>"]
  by (simp add: MAX_GSA_PRNS_def) (simp add: numeral_2_eq_2)

text \<open>After any number of fixes that took 0 to 255 seconds, the statistics hold the longest, the
  shortest, the last and the total time and the number of fixes, the last two up to the width of
  their counters.\<close>
theorem fix_statistics:
  assumes "\<forall>x \<in> set xs. 0 \<le> x \<and> x < 256" "stats c = initial_stats"
  shows "\<exists>s. stats (fold gps_add_fix_stat xs c) = s \<and>
     uint (max_time s) = fold max xs 0 \<and> uint (min_time s) = fold min xs 255 \<and>
     uint (total_time s) = sum_list xs mod 2 ^ 32 \<and> uint (samples s) = int (length xs) mod 2 ^ 16 \<and>
     uint (last_time s) = (if xs = [] then 0 else last xs) \<and> timeouts s = 0"
  using assms(1)
proof (induction xs rule: rev_induct)
  case Nil
  then show ?case using assms(2) by (simp add: initial_stats_def)
next
  case (snoc x xs)
  define s where "s = stats (fold gps_add_fix_stat xs c)"
  have s: "uint (max_time s) = fold max xs 0" "uint (min_time s) = fold min xs 255"
    "uint (total_time s) = sum_list xs mod 2 ^ 32" "uint (samples s) = int (length xs) mod 2 ^ 16" "timeouts s = 0"
    using snoc by (simp_all add: s_def)
  have x: "uint (of_int x :: u8) = x" using snoc.prems by (simp add: uint_word_of_int take_bit_eq_mod)
  have t: "uint (total_time s + of_int x) = (sum_list xs + x) mod 2 ^ 32"
    by (simp add: uint_word_ariths uint_word_of_int s(3) mod_simps take_bit_eq_mod)
  have n: "uint (samples s + 1) = (int (length xs) + 1) mod 2 ^ 16"
    by (simp add: uint_word_ariths s(4) mod_simps)
  let ?s' = "stats (gps_add_fix_stat x (fold gps_add_fix_stat xs c))"
  have "uint (max_time ?s') = max x (fold max xs 0)" "uint (min_time ?s') = min x (fold min xs 255)"
    "uint (total_time ?s') = (sum_list xs + x) mod 2 ^ 32" "uint (samples ?s') = (int (length xs) + 1) mod 2 ^ 16"
    "uint (last_time ?s') = x" "timeouts ?s' = 0"
    using x t n s by (auto simp: gps_add_fix_stat_def Let_def simp flip: s_def)
  then show ?case by (simp add: add.commute)
qed

theorem fix_statistics_witness:
  "\<exists>s. stats (fold gps_add_fix_stat [40, 12, 90]
       \<lparr>gps_fix = initial_fix rat_fpu, stats = initial_stats, imu_data = initial_imu rat_fpu\<rparr>) = s \<and>
     uint (max_time s) = 90 \<and> uint (min_time s) = 12 \<and> uint (total_time s) = 142 \<and>
     uint (samples s) = 3 \<and> uint (last_time s) = 90 \<and> timeouts s = 0"
  using fix_statistics [of "[40, 12, 90]"
      "\<lparr>gps_fix = initial_fix rat_fpu, stats = initial_stats, imu_data = initial_imu rat_fpu\<rparr>"]
  by simp

end
