(* ===== verification/Gps.thy ===== *)
theory Gps
  imports Gps_Cache
begin

text \<open>
  The GPS reader of \<open>gps.c\<close>: the interrupt handler collects the bytes of a line, and a complete
  line is parsed, decoded and stored in the cache; a thread copies the fix every five seconds and
  resets the receiver when it has had none for too long. The local structures that the handler
  declares are not initialised; \<open>locals\<close> holds their content. The order of interrupts and steps of the thread is in \<open>Gps_Thread\<close>.
\<close>

section \<open>State\<close>

definition GPS_FIX_RETRY_LIMIT :: int where "GPS_FIX_RETRY_LIMIT = 120"
definition GPS_LOOP_SLEEP :: int where "GPS_LOOP_SLEEP = 5000"

record 'f gps =
  nmea_buffer :: bytes
  nmea_pos :: u8
  cache :: "'f gps_cache"
  gps_retries_before_fix :: int
  current :: "'f gps_fix_t"
  resets :: nat

record 'f locals =
  l_sentence :: nmea_sentence_t
  l_gga :: "'f gps_gga_t"
  l_gsa :: "'f gps_gsa_t"
  l_rmc :: "'f gps_rmc_t"
  l_vtg :: "'f gps_vtg_t"

section \<open>Operations\<close>

text \<open>\<open>sentence.type[k] == c\<close>, and the short-circuit conjunction of such tests.\<close>
definition type_is :: "bytes \<Rightarrow> nmea_sentence_t \<Rightarrow> nat \<Rightarrow> u8 \<Rightarrow> bool option" where
  "type_is buf s k c = do { p \<leftarrow> sentence_type s; b \<leftarrow> rd buf (p + k); Some (b = c) }"

fun type_all :: "bytes \<Rightarrow> nmea_sentence_t \<Rightarrow> (nat \<times> u8) list \<Rightarrow> bool option" where
  "type_all buf s [] = Some True"
| "type_all buf s ((k, c) # r) = do {
     ok \<leftarrow> type_is buf s k c;
     if ok then type_all buf s r else Some False }"

definition gps_sentence ::
  "('f, 'd) fpu \<Rightarrow> 'f locals \<Rightarrow> bytes \<Rightarrow> nmea_sentence_t \<Rightarrow> 'f gps_cache \<Rightarrow> 'f gps_cache option" where
  "gps_sentence fp l buf s c = do {
     ga \<leftarrow> type_all buf s [(0, 71), (2, 65)];
     if ga then do {
       gga \<leftarrow> type_is buf s 1 71;
       if gga then do {
         g \<leftarrow> nmea_decode_gga fp buf s (l_gga l);
         Some (gps_update_gga g c) }
       else do {
         gsa \<leftarrow> type_is buf s 1 83;
         if gsa then do {
           g \<leftarrow> nmea_decode_gsa fp buf s (l_gsa l);
           Some (gps_update_gsa g c) }
         else Some c } }
     else do {
       rmc \<leftarrow> type_all buf s [(0, 82), (1, 77), (2, 67)];
       if rmc then do {
         r \<leftarrow> nmea_decode_rmc fp buf s (l_rmc l);
         Some (gps_update_rmc r c) }
       else do {
         gsv \<leftarrow> type_all buf s [(0, 71), (1, 83), (2, 86)];
         if gsv then Some c
         else do {
           vtg \<leftarrow> type_all buf s [(0, 86), (1, 84), (2, 71)];
           if vtg then do {
             v \<leftarrow> nmea_decode_vtg fp buf s (l_vtg l);
             Some (gps_update_vtg v c) }
           else Some c } } } }"

definition rxData :: "('f, 'd) fpu \<Rightarrow> 'f locals \<Rightarrow> u8 \<Rightarrow> 'f gps \<Rightarrow> (int \<times> 'f gps) option" where
  "rxData fp l data st = do {
     buf \<leftarrow> wr (nmea_buffer st) (unat (nmea_pos st)) data;
     let st = st\<lparr>nmea_buffer := buf, nmea_pos := nmea_pos st + 1\<rparr>;
     if of_nat MAX_NMEA_BUFFER \<le> nmea_pos st then Some (-1, st\<lparr>nmea_pos := 0\<rparr>)
     else if data = 10 then do {
       buf \<leftarrow> wr (nmea_buffer st) (unat (nmea_pos st)) 0;
       (ok, buf, s) \<leftarrow> nmea_parse buf (l_sentence l);
       c \<leftarrow> (if ok then gps_sentence fp l buf s (cache st) else Some (cache st));
       Some (0, st\<lparr>nmea_buffer := replicate MAX_NMEA_BUFFER 0, nmea_pos := 0, cache := c\<rparr>) }
     else Some (0, st) }"

text \<open>The interrupt: the result of \<open>uart_irq_update\<close>, and the byte when one is ready.\<close>
definition uart_fifo_callback ::
  "('f, 'd) fpu \<Rightarrow> 'f locals \<Rightarrow> int \<Rightarrow> u8 option \<Rightarrow> 'f gps \<Rightarrow> 'f gps option" where
  "uart_fifo_callback fp l err byte st =
     (if err \<noteq> 1 then Some st
      else case byte of None \<Rightarrow> Some st | Some b \<Rightarrow> map_option snd (rxData fp l b st))"

text \<open>
  A round of the thread, between two pauses of \<open>GPS_LOOP_SLEEP\<close>, in two parts: the copy of the fix (under the mutex of
  the cache), and behind it the test of the copy with the count of rounds without a fix.
\<close>
definition gps_copy :: "'f gps \<Rightarrow> 'f gps" where
  "gps_copy st = st\<lparr>current := snd (gps_get_fix (cache st))\<rparr>"

definition gps_retry :: "'f gps \<Rightarrow> 'f gps" where
  "gps_retry st =
     (if gps_fix_is_valid (current st) then st
      else (let st = st\<lparr>gps_retries_before_fix := gps_retries_before_fix st + 1\<rparr>
        in if GPS_FIX_RETRY_LIMIT < gps_retries_before_fix st
           then st\<lparr>gps_retries_before_fix := 0, resets := resets st + 1\<rparr>
           else st))"

definition gps_round :: "'f gps \<Rightarrow> 'f gps" where
  "gps_round st = gps_retry (gps_copy st)"

definition gps_get_sample :: "'f gps \<Rightarrow> 'f gps_fix_t" where
  "gps_get_sample st = current st"

text \<open>The bytes of several interrupts.\<close>
fun rx_all :: "('f, 'd) fpu \<Rightarrow> 'f locals \<Rightarrow> bytes \<Rightarrow> 'f gps \<Rightarrow> 'f gps option" where
  "rx_all fp l [] st = Some st"
| "rx_all fp l (b # bs) st = do { (_, st) \<leftarrow> rxData fp l b st; rx_all fp l bs st }"

section \<open>The line buffer\<close>

lemma rx_all_append: "rx_all fp l (xs @ ys) st = Option.bind (rx_all fp l xs st) (rx_all fp l ys)"
proof (induction xs arbitrary: st)
  case (Cons b xs)
  then show ?case by (cases "rxData fp l b st") (auto split: prod.split)
qed simp

text \<open>Bytes of a line are collected behind those already there.\<close>
lemma rx_all_collect:
  assumes "nmea_buffer st = pre @ junk" "unat (nmea_pos st) = length pre" "length (nmea_buffer st) = MAX_NMEA_BUFFER"
    "10 \<notin> set bs" "length pre + length bs < MAX_NMEA_BUFFER"
  shows "rx_all fp l bs st = Some (st\<lparr>nmea_buffer := pre @ bs @ drop (length bs) junk,
     nmea_pos := of_nat (length pre + length bs)\<rparr>)"
  using assms
proof (induction bs arbitrary: st pre junk)
  case Nil
  then have "nmea_pos st = of_nat (length pre)" by (metis of_nat_unat ucast_id)
  then show ?case using Nil by simp
next
  case (Cons b bs)
  from Cons.prems have jn: "junk \<noteq> []" by auto
  then obtain x j where j: "junk = x # j" by (cases junk) auto
  have pos: "unat (nmea_pos st + 1) = length pre + 1"
    using Cons.prems(2,5) by (simp add: unat_word_ariths MAX_NMEA_BUFFER_def)
  then have small: "\<not> of_nat MAX_NMEA_BUFFER \<le> nmea_pos st + 1"
    using Cons.prems(5) by (simp add: word_le_nat_alt MAX_NMEA_BUFFER_def)
  let ?st = "st\<lparr>nmea_buffer := pre @ b # j, nmea_pos := nmea_pos st + 1\<rparr>"
  have "rxData fp l b st = Some (0, ?st)"
    using Cons.prems j small by (simp add: rxData_def mem_simps)
  moreover have "rx_all fp l bs ?st = Some (?st\<lparr>nmea_buffer := (pre @ [b]) @ bs @ drop (length bs) j,
      nmea_pos := of_nat (length (pre @ [b]) + length bs)\<rparr>)"
    using Cons.prems j pos by (intro Cons.IH) auto
  ultimately show ?case using j by simp
qed

text \<open>The end of a line that was collected from its start: it is parsed and the buffer cleared.\<close>
definition line_end ::
  "('f, 'd) fpu \<Rightarrow> 'f locals \<Rightarrow> bytes \<Rightarrow> 'f gps \<Rightarrow> 'f gps option" where
  "line_end fp l buf st = do {
     (ok, buf, s) \<leftarrow> nmea_parse buf (l_sentence l);
     c \<leftarrow> (if ok then gps_sentence fp l buf s (cache st) else Some (cache st));
     Some (st\<lparr>nmea_buffer := replicate MAX_NMEA_BUFFER 0, nmea_pos := 0, cache := c\<rparr>) }"

lemma rx_line:
  assumes "nmea_pos st = 0" "length (nmea_buffer st) = MAX_NMEA_BUFFER" "10 \<notin> set bs"
    "length bs + 1 < MAX_NMEA_BUFFER"
  shows "\<exists>junk. rx_all fp l (bs @ [10]) st = line_end fp l (bs @ 10 # 0 # junk) st"
proof -
  let ?n = "length bs"
  let ?st = "st\<lparr>nmea_buffer := bs @ drop ?n (nmea_buffer st), nmea_pos := of_nat ?n\<rparr>"
  have 1: "rx_all fp l bs st = Some ?st"
    using rx_all_collect [of st "[]" "nmea_buffer st" bs fp l] assms by simp
  have "2 \<le> length (drop ?n (nmea_buffer st))" using assms by simp
  then obtain x y junk where d: "drop ?n (nmea_buffer st) = x # y # junk"
    by (cases "drop ?n (nmea_buffer st)"; cases "tl (drop ?n (nmea_buffer st))") auto
  have n: "unat (of_nat ?n :: u8) = ?n" "unat (of_nat ?n + 1 :: u8) = ?n + 1"
    using assms(4) by (simp_all add: unat_word_ariths unat_of_nat MAX_NMEA_BUFFER_def)
  have small: "\<not> of_nat MAX_NMEA_BUFFER \<le> (of_nat ?n :: u8) + 1"
    using assms(4) n(2) by (simp add: word_le_nat_alt MAX_NMEA_BUFFER_def)
  have w1: "wr (bs @ x # y # junk) ?n 10 = Some (bs @ 10 # y # junk)" by (simp add: mem_simps)
  have w2: "wr (bs @ 10 # y # junk) (?n + 1) 0 = Some (bs @ 10 # 0 # junk)"
    using wr_append [of "?n + 1" "bs @ [10]" y junk 0] by simp
  have "rx_all fp l [10] ?st = line_end fp l (bs @ 10 # 0 # junk) st"
    using n small w1 w2 d
    by (auto simp: rxData_def line_end_def Let_def Option.bind_eq_None_conv
        split: prod.split option.split bind_split intro!: option.expand)
  then show ?thesis using 1 by (intro exI [of _ junk]) (simp add: rx_all_append)
qed

section \<open>Sentences\<close>

definition idle :: "'f gps \<Rightarrow> bool" where
  "idle st \<longleftrightarrow> nmea_pos st = 0 \<and> length (nmea_buffer st) = MAX_NMEA_BUFFER"

definition with_cache :: "'f gps \<Rightarrow> 'f gps_cache \<Rightarrow> 'f gps" where
  "with_cache st c = st\<lparr>nmea_buffer := replicate MAX_NMEA_BUFFER 0, nmea_pos := 0, cache := c\<rparr>"

lemma idle_with_cache: "idle (with_cache st c)"
  by (simp add: idle_def with_cache_def)

text \<open>A sentence that fits the buffer with its line end.\<close>
definition printable :: "bytes list \<Rightarrow> bool" where
  "printable fs \<longleftrightarrow> fs \<noteq> [] \<and> length fs \<le> MAX_NMEA_FIELDS \<and> (\<forall>f \<in> set fs. \<forall>b \<in> set f. field_char b) \<and>
     length (join_fields fs) + 6 < MAX_NMEA_BUFFER"

lemma to_hexchar_not_newline: "to_hexchar v \<noteq> 10"
proof -
  have "v AND 0x0F \<le> 15" by (simp add: word_and_le1)
  then have "unat (v AND 0x0F) < 16" by (simp add: word_le_nat_alt)
  then have "unat (to_hexchar v) \<noteq> 10"
    by (auto simp: to_hexchar_def Let_def unat_word_ariths word_less_nat_alt unat_sub_if_size word_size split: if_splits)
  then show ?thesis by auto
qed

lemma print_no_newline:
  assumes "printable fs"
  shows "10 \<notin> set (nmea_print fs @ [13])"
proof -
  have "10 \<notin> set (join_fields fs)"
    using join_fields_body [of fs] body_charD assms unfolding printable_def by blast
  then show ?thesis
    using to_hexchar_not_newline by (auto simp: nmea_print_def Let_def nmea_consts dest: sym)
qed

text \<open>Reading a printed sentence from an idle state: the decoders see its fields and its type.\<close>
lemma rx_printed:
  assumes "idle st" "printable fs" "hd fs = t0 # t1 # ty" "t0 \<noteq> 80"
  shows "\<exists>buf s p. rx_all fp l (nmea_print fs @ [13, 10]) st =
       Option.bind (gps_sentence fp l buf s (cache st)) (\<lambda>c. Some (with_cache st c)) \<and>
     holds_fields buf s fs \<and> sentence_type s = Some p \<and> c_str_at buf p = Some ty"
proof -
  have fs: "fs \<noteq> []" "length fs \<le> MAX_NMEA_FIELDS" "\<forall>f \<in> set fs. \<forall>b \<in> set f. field_char b"
    "length (join_fields fs) + 2 \<le> MAX_NMEA_BUFFER" "length (join_fields fs) + 6 < MAX_NMEA_BUFFER"
    using assms(2) by (auto simp: printable_def)
  have len: "length (nmea_print fs @ [13]) + 1 < MAX_NMEA_BUFFER"
    using fs(5) by (simp add: nmea_print_def Let_def)
  obtain junk where rx: "rx_all fp l ((nmea_print fs @ [13]) @ [10]) st = line_end fp l ((nmea_print fs @ [13]) @ 10 # 0 # junk) st"
    using rx_line [OF _ _ print_no_newline [OF assms(2)] len, of st fp l] assms(1) by (auto simp: idle_def)
  obtain h k out where out: "nmea_parse (nmea_print fs @ 13 # 10 # 0 # junk) (l_sentence l) =
      Some (True, NMEA_PREAMBLE # terminated fs @ h # k # 13 # 10 # 0 # junk, out)"
    "field_ptrs out = field_offsets 1 fs" "sentence_type out = Some 3"
    using nmea_parse_printed [OF fs(1-4), of "13 # 10 # 0 # junk" "l_sentence l"] assms(3,4) by auto
  let ?buf = "NMEA_PREAMBLE # terminated fs @ h # k # 13 # 10 # 0 # junk"
  have str: "c_str_at ?buf (field_offsets 1 fs ! n) = Some (fs ! n)" if "n < length fs" for n
    using field_offsets_read [of n fs "[NMEA_PREAMBLE]" 1 "h # k # 13 # 10 # 0 # junk"] that fs(3) field_charD
    by fastforce
  have "c_str_at ?buf 1 = Some (t0 # t1 # ty)"
    using str [of 0] fs(1) assms(3) by (cases fs) simp_all
  then have ty: "c_str_at ?buf 3 = Some ty" using c_str_at_shift(2) [of ?buf 1 "t0 # t1 # ty" 2] by (simp add: numeral_3_eq_3)
  have "holds_fields ?buf out fs" using out(2) str by (simp add: holds_fields_def)
  then show ?thesis
    using rx out ty by (intro exI [of _ ?buf] exI [of _ out]) (simp add: line_end_def with_cache_def)
qed

lemma type_is_str:
  assumes "sentence_type s = Some p" "c_str_at buf p = Some ty" "k \<le> length ty"
  shows "type_is buf s k c = Some ((ty @ [0]) ! k = c)"
  using c_str_at_shift(1) [OF assms(2,3)] assms(1) by (simp add: type_is_def)

text \<open>The dispatch on a three-letter type.\<close>
lemma gps_sentence_type:
  assumes "sentence_type s = Some p" "c_str_at buf p = Some [x, y, z]"
  shows "gps_sentence fp l buf s c =
    (if [x, y, z] = [71, 71, 65] then Option.bind (nmea_decode_gga fp buf s (l_gga l)) (\<lambda>g. Some (gps_update_gga g c))
     else if [x, y, z] = [71, 83, 65] then Option.bind (nmea_decode_gsa fp buf s (l_gsa l)) (\<lambda>g. Some (gps_update_gsa g c))
     else if [x, y, z] = [82, 77, 67] then Option.bind (nmea_decode_rmc fp buf s (l_rmc l)) (\<lambda>r. Some (gps_update_rmc r c))
     else if [x, y, z] = [86, 84, 71] then Option.bind (nmea_decode_vtg fp buf s (l_vtg l)) (\<lambda>v. Some (gps_update_vtg v c))
     else Some c)"
  using type_is_str [OF assms] 
  by (simp add: gps_sentence_def)

lemma rx_gga:
  assumes "idle st" "printable fs" "hd fs = [t0, t1, 71, 71, 65]" "t0 \<noteq> 80"
  shows "\<exists>buf s. rx_all fp l (nmea_print fs @ [13, 10]) st =
       Option.bind (nmea_decode_gga fp buf s (l_gga l)) (\<lambda>g. Some (with_cache st (gps_update_gga g (cache st)))) \<and>
     holds_fields buf s fs"
proof -
  obtain buf s p where "rx_all fp l (nmea_print fs @ [13, 10]) st =
      Option.bind (gps_sentence fp l buf s (cache st)) (\<lambda>c. Some (with_cache st c))"
    "holds_fields buf s fs" "sentence_type s = Some p" "c_str_at buf p = Some [71, 71, 65]"
    using rx_printed [OF assms] by blast
  then show ?thesis by (intro exI [of _ buf] exI [of _ s]) (simp add: gps_sentence_type)
qed

lemma gps_rounds_without_fix:
  assumes "\<not> gps_fix_is_valid (gps_fix (cache st))" "gps_retries_before_fix st = 0"
  shows "(gps_round ^^ n) st = (if n = 0 then st else st\<lparr>current := gps_fix (cache st),
     gps_retries_before_fix := int (n mod 121), resets := resets st + n div 121\<rparr>)"
proof (induction n)
  case (Suc n)
  let ?r = "int (n mod 121) + 1"
  have "(gps_round ^^ Suc n) st = st\<lparr>current := gps_fix (cache st),
      gps_retries_before_fix := (if 120 < ?r then 0 else ?r),
      resets := resets st + n div 121 + (if 120 < ?r then 1 else 0)\<rparr>"
    using assms by (auto simp: Suc.IH gps_round_def gps_copy_def gps_retry_def gps_get_fix_def GPS_FIX_RETRY_LIMIT_def Let_def)
  moreover have r: "120 < ?r \<longleftrightarrow> n mod 121 = 120" using mod_less_divisor [of 121 n] by linarith
  moreover have "(if 120 < ?r then 0 else ?r) = int (Suc n mod 121)"
    unfolding r by (simp add: mod_Suc)
  moreover have "n div 121 + (if 120 < ?r then 1 else 0) = Suc n div 121"
    unfolding r by (simp add: div_Suc mod_Suc)
  ultimately show ?case by (simp add: add.assoc)
qed simp

section \<open>Properties\<close>

text \<open>A GGA sentence of 13 to 64 fields with a correct checksum, received byte by byte from an
  idle reader, stores exactly the time, position, quality, precision and altitude of its fields in
  the fix (unless its quality says that there is none), and leaves the reader idle again.\<close>
theorem gga_sentence_updates_fix:
  assumes "idle st" "printable fs" "hd fs = [t0, t1, 71, 71, 65]" "t0 \<noteq> 80" "13 \<le> length fs"
    "length (fs ! 2) \<noteq> 1" "fs ! 4 = [] \<or> 3 \<le> length (fs ! 4)"
  shows "rx_all fp l (nmea_print fs @ [13, 10]) st =
     Some (with_cache st (gps_update_gga (gga_of fp fs) (cache st)))"
proof -
  obtain buf s where rx: "rx_all fp l (nmea_print fs @ [13, 10]) st =
      Option.bind (nmea_decode_gga fp buf s (l_gga l)) (\<lambda>g. Some (with_cache st (gps_update_gga g (cache st))))"
    "holds_fields buf s fs"
    using rx_gga [OF assms(1-4)] by blast
  show ?thesis unfolding rx(1) by (simp add: decode_gga [OF rx(2) assms(5-7)])
qed

definition empty_gps :: "rat gps" where
  "empty_gps = \<lparr>nmea_buffer = replicate MAX_NMEA_BUFFER 0, nmea_pos = 0,
     cache = \<lparr>gps_fix = initial_fix rat_fpu, stats = initial_stats, imu_data = initial_imu rat_fpu\<rparr>,
     gps_retries_before_fix = 0, current = initial_fix rat_fpu, resets = 0\<rparr>"

definition some_locals :: "rat locals" where
  "some_locals = \<lparr>l_sentence = \<lparr>field_ptrs = [], talker = [0, 0, 0], sentence_type = None\<rparr>,
     l_gga = \<lparr>gga_timestamp = 1, gga_latitude = 2, gga_longitude = 3, gga_fix_quality = 4, gga_num_svs = 5,
       gga_hdop = 6, gga_alt = 7, gga_geoid_height = 8\<rparr>,
     l_gsa = \<lparr>gsa_auto_selection = 0, gsa_fix_type = 0, gsa_prns = replicate 12 0, gsa_pdop = 0, gsa_vdop = 0\<rparr>,
     l_rmc = \<lparr>rmc_speed = 0, rmc_active = False, rmc_moving = False, rmc_track_angle = 0\<rparr>,
     l_vtg = \<lparr>vtg_true_track = 0, vtg_magnetic_track = 0, vtg_ground_speed_kts = 0, vtg_ground_speed_kmh = 0\<rparr>\<rparr>"

lemma empty_gps_idle: "idle empty_gps"
  by (simp add: idle_def empty_gps_def)

text \<open>A sentence at 63 degrees south with quality 1; the number fields that do not matter are empty.\<close>
definition gga_example :: "bytes list" where
  "gga_example = [[71, 80, 71, 71, 65], [49, 50], [54, 51, 48, 48], [83], [48, 49, 48, 51, 48], [69], [49], [48, 56],
     [49], [53, 48], [77], [], []]"

lemma gga_example_printable: "printable gga_example"
  by (simp add: printable_def gga_example_def field_char_def nmea_consts)

theorem gga_sentence_updates_fix_witness:
  "rx_all rat_fpu some_locals (nmea_print gga_example @ [13, 10]) empty_gps =
     Some (with_cache empty_gps (gps_update_gga (gga_of rat_fpu gga_example) (cache empty_gps)))"
  by (rule gga_sentence_updates_fix [OF empty_gps_idle gga_example_printable, of 71 80])
     (simp_all add: gga_example_def)

text \<open>A GGA sentence with fewer than 13 fields and a correct checksum stores the content of
  the uninitialised local structure in the fix.\<close>
theorem short_gga_stores_garbage:
  assumes "idle st" "printable fs" "hd fs = [t0, t1, 71, 71, 65]" "t0 \<noteq> 80" "length fs < 13"
  shows "rx_all fp l (nmea_print fs @ [13, 10]) st =
     Some (with_cache st (gps_update_gga (l_gga l) (cache st)))"
proof -
  obtain buf s where rx: "rx_all fp l (nmea_print fs @ [13, 10]) st =
      Option.bind (nmea_decode_gga fp buf s (l_gga l)) (\<lambda>g. Some (with_cache st (gps_update_gga g (cache st))))"
    "holds_fields buf s fs"
    using rx_gga [OF assms(1-4)] by blast
  then have "length (field_ptrs s) < 13" using assms(5) by (simp add: holds_fields_def)
  then show ?thesis unfolding rx(1) by (simp add: decode_gga_short)
qed

theorem short_gga_stores_garbage_witness:
  "\<exists>st'. rx_all rat_fpu some_locals (nmea_print [[71, 80, 71, 71, 65]] @ [13, 10]) empty_gps = Some st' \<and>
     altitude (gps_fix (cache st')) = 7"
  using short_gga_stores_garbage [OF empty_gps_idle, of "[[71, 80, 71, 71, 65]]" 71 80 rat_fpu some_locals]
  by (simp add: printable_def field_char_def nmea_consts some_locals_def with_cache_def gps_update_gga_def set_fix_def
      FIX_Q_INVALID_def)

text \<open>C31: A sentence whose checksum characters do not match its body changes nothing: the cache
  keeps its fix, statistics and sensor data, and the reader is idle for the next sentence.\<close>
theorem corrupt_sentence_ignored:
  assumes "idle st" "\<forall>b \<in> set body. body_char b" "length body + 6 < MAX_NMEA_BUFFER" "h \<noteq> 10" "k \<noteq> 10"
    "h \<noteq> to_hexchar (of_nat (unat (xor_sum body) div 16)) \<or> k \<noteq> to_hexchar (of_nat (unat (xor_sum body) mod 16))"
  shows "rx_all fp l (NMEA_PREAMBLE # body @ [NMEA_CHECKSUM, h, k, 13, 10]) st = Some (with_cache st (cache st))"
proof -
  let ?bs = "NMEA_PREAMBLE # body @ [NMEA_CHECKSUM, h, k, 13]"
  have "10 \<notin> set body" using assms(2) body_charD by blast
  then have nl: "10 \<notin> set ?bs" using assms(4,5) by (auto simp: nmea_consts)
  obtain junk where rx: "rx_all fp l (?bs @ [10]) st = line_end fp l (?bs @ 10 # 0 # junk) st"
    using rx_line [OF _ _ nl, of st fp l] assms(1,3) by (auto simp: idle_def)
  have "nmea_valid (?bs @ 10 # 0 # junk) = Some False"
  proof -
    have "nmea_valid (NMEA_PREAMBLE # body @ NMEA_CHECKSUM # h # k # 13 # 10 # 0 # junk) =
        Some (h = to_hexchar (of_nat (unat (xor_sum body) div 16)) \<and> k = to_hexchar (of_nat (unat (xor_sum body) mod 16)))"
      using nmea_valid_checksum_iff [OF refl assms(2), of h k "13 # 10 # 0 # junk"] assms(3)
      by (simp only: high_nibble low_nibble)
    then show ?thesis using assms(6) by auto
  qed
  then show ?thesis using rx by (simp add: line_end_def nmea_parse_def with_cache_def)
qed

theorem corrupt_sentence_ignored_witness:
  "rx_all rat_fpu some_locals (NMEA_PREAMBLE # [71, 80] @ [NMEA_CHECKSUM, 48, 48, 13, 10]) empty_gps =
     Some (with_cache empty_gps (cache empty_gps))"
  by (rule corrupt_sentence_ignored [OF empty_gps_idle])
     (simp_all add: body_char_def field_char_def nmea_consts to_hexchar_def)

text \<open>While there is no fix, the reader thread resets the receiver exactly once in every 121
  rounds of five seconds.\<close>
theorem receiver_reset_period:
  assumes "\<not> gps_fix_is_valid (gps_fix (cache st))" "gps_retries_before_fix st = 0"
  shows "resets ((gps_round ^^ n) st) = resets st + n div 121 \<and>
     gps_retries_before_fix ((gps_round ^^ n) st) = int (n mod 121) \<and> cache ((gps_round ^^ n) st) = cache st"
  using assms by (simp add: gps_rounds_without_fix)

theorem receiver_reset_period_witness:
  "resets ((gps_round ^^ 300) empty_gps) = 2 \<and> gps_retries_before_fix ((gps_round ^^ 300) empty_gps) = 58 \<and>
     cache ((gps_round ^^ 300) empty_gps) = cache empty_gps"
  using receiver_reset_period [of empty_gps 300]
  by (simp add: empty_gps_def gps_fix_is_valid_def initial_fix_def)

end
