(* ===== verification/Gps_Thread.thy ===== *)
theory Gps_Thread
  imports Gps
begin

text \<open>
  The GPS reader as it runs: the thread of \<open>gps.c\<close> binds the serial line, and then the interrupts and the steps of the
  thread come in any order. A round of the thread is three steps (it takes the mutex of the cache; it copies the fix
  and gives the mutex back; it looks at its copy), and an interrupt can come before and behind each of them: \<open>k_sched_lock\<close>
  keeps other threads out of a round, not the interrupts. The handler runs in interrupt context and waits for the same mutex,
  when its sentence changes the cache, without a limit; an interrupt that finds the mutex taken has no result in the model.
\<close>

section \<open>The mutex in the interrupt\<close>

text \<open>Whether the handler locks the mutex for a sentence: for a GGA sentence with a fix, for GSA, and for an active RMC sentence.\<close>
definition sentence_locks :: "('f, 'd) fpu \<Rightarrow> 'f locals \<Rightarrow> bytes \<Rightarrow> nmea_sentence_t \<Rightarrow> bool option" where
  "sentence_locks fp l buf s = do {
     ga \<leftarrow> type_all buf s [(0, 71), (2, 65)];
     if ga then do {
       gga \<leftarrow> type_is buf s 1 71;
       if gga then do {
         g \<leftarrow> nmea_decode_gga fp buf s (l_gga l);
         Some (gga_fix_quality g \<noteq> FIX_Q_INVALID) }
       else type_is buf s 1 83 }
     else do {
       rmc \<leftarrow> type_all buf s [(0, 82), (1, 77), (2, 67)];
       if rmc then do {
         r \<leftarrow> nmea_decode_rmc fp buf s (l_rmc l);
         Some (rmc_active r) }
       else Some False } }"

definition interrupt_locks :: "('f, 'd) fpu \<Rightarrow> 'f locals \<Rightarrow> int \<Rightarrow> u8 option \<Rightarrow> 'f gps \<Rightarrow> bool option" where
  "interrupt_locks fp l err byte st =
     (if err \<noteq> 1 then Some False
      else case byte of
        None \<Rightarrow> Some False
      | Some b \<Rightarrow>
          if of_nat MAX_NMEA_BUFFER \<le> nmea_pos st + 1 \<or> b \<noteq> 10 then Some False
          else do {
            buf \<leftarrow> wr (nmea_buffer st) (unat (nmea_pos st)) b;
            buf \<leftarrow> wr buf (unat (nmea_pos st + 1)) 0;
            (ok, buf, s) \<leftarrow> nmea_parse buf (l_sentence l);
            if ok then sentence_locks fp l buf s else Some False })"

section \<open>The thread and the interrupts\<close>

datatype phase = Asleep | Locked | Copied

fun thread_step :: "phase \<Rightarrow> 'f gps \<Rightarrow> phase \<times> 'f gps" where
  "thread_step Asleep st = (Locked, st)"
| "thread_step Locked st = (Copied, gps_copy st)"
| "thread_step Copied st = (Asleep, gps_retry st)"

datatype gps_event = Interrupt int "u8 option" | Thread_Step

fun take_event :: "('f, 'd) fpu \<Rightarrow> 'f locals \<Rightarrow> gps_event \<Rightarrow> phase \<times> 'f gps \<Rightarrow> (phase \<times> 'f gps) option" where
  "take_event fp l (Interrupt err byte) (ph, st) = do {
     locks \<leftarrow> interrupt_locks fp l err byte st;
     if ph = Locked \<and> locks then None
     else map_option (Pair ph) (uart_fifo_callback fp l err byte st) }"
| "take_event fp l Thread_Step (ph, st) = Some (thread_step ph st)"

fun gps_events :: "('f, 'd) fpu \<Rightarrow> 'f locals \<Rightarrow> gps_event list \<Rightarrow> phase \<times> 'f gps \<Rightarrow> (phase \<times> 'f gps) option" where
  "gps_events fp l [] s = Some s"
| "gps_events fp l (e # es) s = do { s \<leftarrow> take_event fp l e s; gps_events fp l es s }"

text \<open>Without the device the thread ends, and no interrupt is ever enabled.\<close>
definition GPS_entry_point :: "('f, 'd) fpu \<Rightarrow> 'f locals \<Rightarrow> bool \<Rightarrow> gps_event list \<Rightarrow> 'f gps \<Rightarrow> (phase \<times> 'f gps) option" where
  "GPS_entry_point fp l uart_dev es st = (if \<not> uart_dev then Some (Asleep, st) else gps_events fp l es (Asleep, st))"

text \<open>A round that no interrupt breaks into.\<close>
lemma undisturbed_round: "gps_events fp l [Thread_Step, Thread_Step, Thread_Step] (Asleep, st) = Some (Asleep, gps_round st)"
  by (simp add: gps_round_def)

text \<open>The bytes that reach the reader: those of the interrupts whose update succeeds and that have one ready.\<close>
fun delivered :: "gps_event list \<Rightarrow> bytes" where
  "delivered [] = []"
| "delivered (Interrupt err byte # es) = (if err = 1 then (case byte of None \<Rightarrow> [] | Some b \<Rightarrow> [b]) else []) @ delivered es"
| "delivered (Thread_Step # es) = delivered es"

text \<open>No line ends while the thread holds the mutex.\<close>
fun calm :: "phase \<Rightarrow> gps_event list \<Rightarrow> bool" where
  "calm ph [] = True"
| "calm ph (Interrupt err byte # es) = ((ph = Locked \<longrightarrow> byte \<noteq> Some 10) \<and> calm ph es)"
| "calm ph (Thread_Step # es) = calm (case ph of Asleep \<Rightarrow> Locked | Locked \<Rightarrow> Copied | Copied \<Rightarrow> Asleep) es"

text \<open>A sentence that changes the cache blocks in the interrupt while the thread holds the mutex.\<close>
lemma blocked_interrupt: "interrupt_locks fp l err byte st = Some True \<Longrightarrow> take_event fp l (Interrupt err byte) (Locked, st) = None"
  by simp

section \<open>The order of interrupts and steps\<close>

text \<open>Two states of the reader that agree on what the interrupts read and write.\<close>
definition same_line :: "'f gps \<Rightarrow> 'f gps \<Rightarrow> bool" where
  "same_line a b \<longleftrightarrow> nmea_buffer a = nmea_buffer b \<and> nmea_pos a = nmea_pos b \<and> cache a = cache b"

lemma same_line_step: "same_line a b \<Longrightarrow> same_line (snd (thread_step ph a)) b"
  by (cases ph) (auto simp: same_line_def gps_copy_def gps_retry_def Let_def)

lemma step_phase: "fst (thread_step ph st) = (case ph of Asleep \<Rightarrow> Locked | Locked \<Rightarrow> Copied | Copied \<Rightarrow> Asleep)"
  by (cases ph) simp_all

text \<open>The handler decodes the sentence before it takes the mutex, so the mutex question has an answer whenever the handler has a result.\<close>
lemma sentence_locks_result:
  assumes "gps_sentence fp l buf s c = Some c'"
  shows "\<exists>b. sentence_locks fp l buf s = Some b"
proof -
  obtain ga where ga: "type_all buf s [(0, 71), (2, 65)] = Some ga" using assms by (cases "type_all buf s [(0, 71), (2, 65)]") (simp_all add: gps_sentence_def del: type_all.simps)
  show ?thesis
  proof (cases ga)
    case True
    obtain gga where gga: "type_is buf s 1 71 = Some gga" using assms ga True by (cases "type_is buf s 1 71") (simp_all add: gps_sentence_def del: type_all.simps)
    show ?thesis
    proof (cases gga)
      case t: True
      obtain g where "nmea_decode_gga fp buf s (l_gga l) = Some g"
        using assms ga True gga t by (cases "nmea_decode_gga fp buf s (l_gga l)") (simp_all add: gps_sentence_def del: type_all.simps)
      then show ?thesis using ga True gga t by (simp add: sentence_locks_def del: type_all.simps)
    next
      case f: False
      obtain gsa where "type_is buf s 1 83 = Some gsa" using assms ga True gga f by (cases "type_is buf s 1 83") (simp_all add: gps_sentence_def del: type_all.simps)
      then show ?thesis using ga True gga f by (simp add: sentence_locks_def del: type_all.simps)
    qed
  next
    case False
    let ?rmc = "type_all buf s [(0, 82), (1, 77), (2, 67)]"
    obtain rmc where rmc: "?rmc = Some rmc" using assms ga False by (cases ?rmc) (simp_all add: gps_sentence_def del: type_all.simps)
    show ?thesis
    proof (cases rmc)
      case t: True
      obtain r where "nmea_decode_rmc fp buf s (l_rmc l) = Some r"
        using assms ga False rmc t by (cases "nmea_decode_rmc fp buf s (l_rmc l)") (simp_all add: gps_sentence_def del: type_all.simps)
      then show ?thesis using ga False rmc t by (simp add: sentence_locks_def del: type_all.simps)
    next
      case f: False
      then have "sentence_locks fp l buf s = Some False" using ga False rmc by (simp add: sentence_locks_def del: type_all.simps)
      then show ?thesis by blast
    qed
  qed
qed

lemma interrupt_locks_result:
  assumes "rxData fp l x st = Some (r, st')"
  shows "\<exists>b. interrupt_locks fp l 1 (Some x) st = Some b"
proof (cases "of_nat MAX_NMEA_BUFFER \<le> nmea_pos st + 1 \<or> x \<noteq> 10")
  case True
  then show ?thesis by (auto simp: interrupt_locks_def)
next
  case False
  then obtain b1 b2 ok buf s where "wr (nmea_buffer st) (unat (nmea_pos st)) x = Some b1" "wr b1 (unat (nmea_pos st + 1)) 0 = Some b2"
    "nmea_parse b2 (l_sentence l) = Some (ok, buf, s)" "ok \<longrightarrow> (\<exists>c'. gps_sentence fp l buf s (cache st) = Some c')"
    using assms by (auto simp: rxData_def Let_def Option.bind_eq_Some_conv split: if_splits)
  then show ?thesis using False sentence_locks_result by (cases ok) (auto simp: interrupt_locks_def)
qed

lemma interrupt_locks_none:
  "err \<noteq> 1 \<or> byte = None \<or> byte \<noteq> Some 10 \<Longrightarrow> interrupt_locks fp l err byte st = Some False"
  by (auto simp: interrupt_locks_def split: option.split)

lemma rxData_frame:
  "rxData fp l x (b\<lparr>gps_retries_before_fix := k, current := c, resets := n\<rparr>) =
     map_option (\<lambda>(r, b'). (r, b'\<lparr>gps_retries_before_fix := k, current := c, resets := n\<rparr>)) (rxData fp l x b)"
proof (cases "wr (nmea_buffer b) (unat (nmea_pos b)) x")
  case None
  then show ?thesis by (simp add: rxData_def)
next
  case buf: (Some buf)
  show ?thesis
  proof (cases "of_nat MAX_NMEA_BUFFER \<le> nmea_pos b + 1 \<or> x \<noteq> 10")
    case True
    then show ?thesis using buf by (auto simp: rxData_def Let_def)
  next
    case False
    then show ?thesis
      using buf by (simp add: rxData_def Let_def) (auto split: bind_splits prod.split)
  qed
qed

lemma same_line_byte:
  assumes "same_line a b" "rxData fp l x b = Some (r, b')"
  shows "\<exists>a'. rxData fp l x a = Some (r, a') \<and> same_line a' b'"
proof -
  have "a = b\<lparr>gps_retries_before_fix := gps_retries_before_fix a, current := current a, resets := resets a\<rparr>"
    using assms(1) by (simp add: same_line_def)
  then show ?thesis
    using rxData_frame [where b = b and k = "gps_retries_before_fix a" and c = "current a" and n = "resets a", of fp l x] assms(2) by (simp add: same_line_def)
qed

lemma same_line_events:
  assumes "same_line a b" "rx_all fp l (delivered es) b = Some b'" "calm ph es"
  shows "\<exists>ph' a'. gps_events fp l es (ph, a) = Some (ph', a') \<and> same_line a' b'"
  using assms
proof (induction es arbitrary: a b ph)
  case (Cons e es)
  show ?case
  proof (cases e)
    case Thread_Step
    obtain ph1 a1 where s: "thread_step ph a = (ph1, a1)" by fastforce
    have "same_line a1 b" "calm ph1 es"
      using same_line_step [OF Cons.prems(1), of ph] step_phase [of ph a] s Cons.prems(3) Thread_Step by simp_all
    then show ?thesis using Cons.IH Cons.prems(2) s Thread_Step by simp
  next
    case (Interrupt err byte)
    have calm: "calm ph es" "ph = Locked \<longrightarrow> byte \<noteq> Some 10" using Cons.prems(3) Interrupt by simp_all
    show ?thesis
    proof (cases "err = 1 \<and> byte \<noteq> None")
      case False
      then have "uart_fifo_callback fp l err byte a = Some a" "delivered (e # es) = delivered es"
        using Interrupt by (auto simp: uart_fifo_callback_def)
      moreover have "interrupt_locks fp l err byte a = Some False" using interrupt_locks_none False by blast
      ultimately show ?thesis using Cons.IH [OF Cons.prems(1) _ calm(1)] Cons.prems(2) Interrupt by simp
    next
      case True
      then obtain x where x: "byte = Some x" "err = 1" by blast
      then obtain r b1 where b1: "rxData fp l x b = Some (r, b1)" "rx_all fp l (delivered es) b1 = Some b'"
        using Cons.prems(2) Interrupt by (auto simp: Option.bind_eq_Some_conv)
      from same_line_byte [OF Cons.prems(1) b1(1)] obtain a1 where a1: "rxData fp l x a = Some (r, a1)" "same_line a1 b1" by blast
      obtain locks where locks: "interrupt_locks fp l err byte a = Some locks" using interrupt_locks_result [OF a1(1)] x by blast
      have "\<not> (ph = Locked \<and> locks)"
        using calm(2) interrupt_locks_none [of err byte fp l a] locks by auto
      then have "take_event fp l e (ph, a) = Some (ph, a1)" using locks a1(1) x Interrupt by (simp add: uart_fifo_callback_def)
      then show ?thesis using Cons.IH [OF a1(2) b1(2) calm(1)] by simp
    qed
  qed
qed simp

lemma gps_events_append: "gps_events fp l (xs @ ys) s = Option.bind (gps_events fp l xs s) (gps_events fp l ys)"
  by (induction fp l xs s rule: gps_events.induct) (auto split: bind_splits)

text \<open>What three steps of the thread copy for the sample, wherever it stands.\<close>
lemma sample_after_round:
  "\<exists>ph' st'. gps_events fp l [Thread_Step, Thread_Step, Thread_Step] (ph, st) = Some (ph', st') \<and>
     gps_get_sample st' = gps_fix (cache st) \<and> same_line st' st"
  by (cases ph) (auto simp: gps_get_sample_def gps_copy_def gps_retry_def gps_get_fix_def same_line_def Let_def)

section \<open>Properties\<close>

text \<open>C30: From received bytes to the sample, in any order of events. The bytes of a GGA sentence with a
  correct checksum arrive at an idle reader, and steps of the thread and interrupts without a byte come between them in any order. Then nothing leaves an
  array, and behind the next three steps of the thread the sample of the position has the time, position, altitude, quality and precision
  that the fields 1 to 6, 8 and 9 of the sentence say, each converted as its field requires; when the quality is 0 (no fix) it is the fix
  from before. The reader is idle again. The conditions: the sentence has a talker that is not proprietary and 13 to 64 fields of ordinary characters, fits the buffer,
  has a latitude that is not a single character and a longitude that is empty or has three; and its line does not end while the thread holds the mutex
  of the cache, where the handler would wait for the mutex in interrupt context, which \<open>k_sched_lock\<close> does not prevent.\<close>
theorem position_reaches_sample:
  assumes "idle st" "printable fs" "hd fs = [t0, t1, 71, 71, 65]" "t0 \<noteq> 80" "13 \<le> length fs"
    "length (fs ! 2) \<noteq> 1" "fs ! 4 = [] \<or> 3 \<le> length (fs ! 4)" "delivered es = nmea_print fs @ [13, 10]" "calm Asleep es"
    "quality = of_int (str_atoi (fs ! 6))"
  shows "\<exists>ph st'. GPS_entry_point fp l True (es @ [Thread_Step, Thread_Step, Thread_Step]) st = Some (ph, st') \<and> idle st' \<and>
     gps_get_sample st' =
       (if quality = 0 then gps_fix (cache st)
        else (gps_fix (cache st))\<lparr>timestamp := str_atof fp (fs ! 1),
          latitude := signed_by fp 83 (fs ! 3) (str_latof fp (fs ! 2)),
          longitude := signed_by fp 87 (fs ! 5) (str_lotof fp (fs ! 4)),
          altitude := str_atof fp (fs ! 9), fix_quality := quality, hdop := str_atof fp (fs ! 8)\<rparr>)"
proof -
  obtain ph a where a: "gps_events fp l es (Asleep, st) = Some (ph, a)"
    "same_line a (with_cache st (gps_update_gga (gga_of fp fs) (cache st)))"
    using same_line_events [OF _ _ assms(9), of st st fp l] gga_sentence_updates_fix [OF assms(1-7), of fp l] assms(8)
    by (metis same_line_def)
  obtain ph' st' where st': "gps_events fp l [Thread_Step, Thread_Step, Thread_Step] (ph, a) = Some (ph', st')"
    "gps_get_sample st' = gps_fix (cache a)" "same_line st' a"
    using sample_after_round by blast
  have "idle st'" using a(2) st'(3) by (simp add: idle_def same_line_def with_cache_def)
  moreover have "gps_fix (cache a) = gps_fix (gps_update_gga (gga_of fp fs) (cache st))"
    using a(2) by (simp add: same_line_def with_cache_def)
  ultimately show ?thesis
    using a(1) st'(1,2) assms(10)
    by (simp add: GPS_entry_point_def gps_events_append gps_update_gga_def set_fix_def gga_of_def FIX_Q_INVALID_def)
qed

text \<open>The bytes of the example with a step of the thread and an interrupt without a byte behind each.\<close>
definition interleaved :: "bytes \<Rightarrow> gps_event list" where
  "interleaved bs = concat (map (\<lambda>b. [Interrupt 1 (Some b), Thread_Step, Interrupt 0 None]) bs)"

lemma delivered_interleaved: "delivered (interleaved bs) = bs"
  by (induction bs) (simp_all add: interleaved_def)

lemma interleaved_calm: "calm Asleep (interleaved (nmea_print gga_example @ [13, 10]))"
  by code_simp

theorem position_reaches_sample_witness:
  "\<exists>ph st'. GPS_entry_point rat_fpu some_locals True (interleaved (nmea_print gga_example @ [13, 10]) @
       [Thread_Step, Thread_Step, Thread_Step]) empty_gps = Some (ph, st') \<and> idle st' \<and>
     fix_quality (gps_get_sample st') = 1 \<and> latitude (gps_get_sample st') = signed_by rat_fpu 83 [83] (str_latof rat_fpu [54, 51, 48, 48])"
proof -
  have "str_atoi (gga_example ! 6) = 1" by code_simp
  moreover have "\<exists>ph st'. GPS_entry_point rat_fpu some_locals True (interleaved (nmea_print gga_example @ [13, 10]) @
       [Thread_Step, Thread_Step, Thread_Step]) empty_gps = Some (ph, st') \<and> idle st' \<and>
     gps_get_sample st' =
       (if (of_int (str_atoi (gga_example ! 6)) :: u8) = 0 then gps_fix (cache empty_gps)
        else (gps_fix (cache empty_gps))\<lparr>timestamp := str_atof rat_fpu (gga_example ! 1),
          latitude := signed_by rat_fpu 83 (gga_example ! 3) (str_latof rat_fpu (gga_example ! 2)),
          longitude := signed_by rat_fpu 87 (gga_example ! 5) (str_lotof rat_fpu (gga_example ! 4)),
          altitude := str_atof rat_fpu (gga_example ! 9), fix_quality := of_int (str_atoi (gga_example ! 6)),
          hdop := str_atof rat_fpu (gga_example ! 8)\<rparr>)"
    by (rule position_reaches_sample [OF empty_gps_idle gga_example_printable, of 71 80])
       (simp_all add: gga_example_def delivered_interleaved interleaved_calm [unfolded gga_example_def])
  moreover have "gga_example ! 2 = [54, 51, 48, 48]" "gga_example ! 3 = [83]" by (simp_all add: gga_example_def)
  ultimately show ?thesis by fastforce
qed

end
