(* ===== verification/At_Commands.thy ===== *)
theory At_Commands
  imports Prelude
begin

text \<open>
  The decoders of modem responses (\<open>at_commands.c\<close>). The outcomes of successive calls of
  \<open>modem_read\<close> are a list: \<open>Some b\<close> is a byte that arrives in time, \<open>None\<close> a timeout; after
  the end of the list nothing arrives any more. Every decoder returns its result code, its
  context (with the out-parameters it points to) and the outcomes it has not consumed.
\<close>

section \<open>Constants and the line buffer\<close>

type_synonym rx_script = "u8 option list"

definition AT_OK :: int where "AT_OK = 0"
definition AT_ERROR :: int where "AT_ERROR = -1"
definition AT_TIMEOUT :: int where "AT_TIMEOUT = -2"
definition B_SIZE :: nat where "B_SIZE = 10"

lemmas at_results = AT_OK_def AT_ERROR_def AT_TIMEOUT_def

record buf =
  b_data :: bytes
  b_index :: nat
  b_size :: u16

definition b_reset :: buf where
  "b_reset = \<lparr>b_data = replicate B_SIZE 0, b_index = 0, b_size = 0\<rparr>"

definition b_add :: "buf \<Rightarrow> u8 \<Rightarrow> buf" where
  "b_add rb b =
     (let rb = (if b_index rb < B_SIZE
                then rb\<lparr>b_data := (b_data rb)[b_index rb := b], b_index := b_index rb + 1\<rparr> else rb)
      in rb\<lparr>b_size := b_size rb + 1\<rparr>)"

definition b_is :: "buf \<Rightarrow> bytes \<Rightarrow> nat \<Rightarrow> bool option" where
  "b_is rb str len = strncmp_eq (b_data rb) str len"

definition b_is_urc :: "buf \<Rightarrow> bool" where
  "b_is_urc rb \<longleftrightarrow> 0 < b_size rb \<and> b_data rb ! 0 = 43"

section \<open>The decoding loop\<close>

type_synonym 'c char_callback = "'c \<Rightarrow> buf \<Rightarrow> u8 \<Rightarrow> bool \<Rightarrow> bool \<Rightarrow> 'c option"
type_synonym 'c eol_callback = "'c \<Rightarrow> buf \<Rightarrow> bool \<Rightarrow> 'c option"

definition OK_LINE :: bytes where "OK_LINE = [79, 75, 13, 10]"
definition ERROR_LINE :: bytes where "ERROR_LINE = [69, 82, 82, 79, 82, 13, 10]"

text \<open>A callback that is not given (\<open>NULL\<close>) leaves the context alone.\<close>
definition no_char :: "'c char_callback" where "no_char ctx rb b is_urc sp = Some ctx"
definition no_eol :: "'c eol_callback" where "no_eol ctx rb is_urc = Some ctx"

fun decode_loop ::
  "'c char_callback \<Rightarrow> 'c eol_callback \<Rightarrow> 'c \<Rightarrow> buf \<Rightarrow> u8 \<Rightarrow> bool \<Rightarrow> rx_script \<Rightarrow> (int \<times> 'c \<times> rx_script) option" where
  "decode_loop char_cb eol_cb ctx rb prev is_urc [] = Some (AT_TIMEOUT, ctx, [])"
| "decode_loop char_cb eol_cb ctx rb prev is_urc (None # rx) = Some (AT_TIMEOUT, ctx, rx)"
| "decode_loop char_cb eol_cb ctx rb prev is_urc (Some b # rx) = do {
     let is_urc = (if b = 43 \<and> b_size rb = 0 then True else is_urc);
     let rb = b_add rb b;
     ctx \<leftarrow> char_cb ctx rb b is_urc (isspace b);
     ok \<leftarrow> (if 4 \<le> b_size rb then b_is rb OK_LINE 4 else Some False);
     if ok then Some (AT_OK, ctx, rx)
     else do {
       err \<leftarrow> (if 4 \<le> b_size rb then b_is rb ERROR_LINE 7 else Some False);
       if err then Some (AT_ERROR, ctx, rx)
       else if prev = 13 \<and> b = 10 then do {
         ctx \<leftarrow> eol_cb ctx rb is_urc;
         decode_loop char_cb eol_cb ctx b_reset b False rx }
       else decode_loop char_cb eol_cb ctx rb b is_urc rx } }"

definition decode_input ::
  "'c char_callback \<Rightarrow> 'c eol_callback \<Rightarrow> 'c \<Rightarrow> rx_script \<Rightarrow> (int \<times> 'c \<times> rx_script) option" where
  "decode_input char_cb eol_cb ctx rx = decode_loop char_cb eol_cb ctx b_reset 32 False rx"

definition at_decode :: "rx_script \<Rightarrow> (int \<times> rx_script) option" where
  "at_decode rx = map_option (\<lambda>(r, _, rx). (r, rx)) (decode_input no_char no_eol () rx)"

definition atnrb_decode :: "rx_script \<Rightarrow> (int \<times> rx_script) option" where
  "atnrb_decode rx = map_option (\<lambda>(r, _, rx). (r, rx)) (decode_input no_char no_eol () rx)"

definition atnsocl_decode :: "rx_script \<Rightarrow> (int \<times> rx_script) option" where
  "atnsocl_decode rx = at_decode rx"

definition atcpsms_decode :: "rx_script \<Rightarrow> (int \<times> rx_script) option" where
  "atcpsms_decode rx = at_decode rx"

definition at_generic_decode :: "rx_script \<Rightarrow> (int \<times> rx_script) option" where
  "at_generic_decode rx = at_decode rx"

section \<open>AT+CGPADDR\<close>

record cgp_ctx =
  in_address :: bool
  cgp_address :: bytes
  cgp_buffer :: bytes
  cgp_len :: nat
  cgp_i :: nat

text \<open>The copying loop of the callback; the buffer is read up to \<open>c->i\<close>.\<close>
fun cgp_copy :: "bytes \<Rightarrow> bool \<Rightarrow> nat \<Rightarrow> bytes \<Rightarrow> (nat \<times> bytes) option" where
  "cgp_copy [] in_str n address = Some (n, address)"
| "cgp_copy (b # bs) in_str n address = do {
     let in_str = (if in_str \<and> b = 34 then False else in_str);
     (n, address) \<leftarrow> (if in_str then do { a \<leftarrow> wr address n b; Some (n + 1, a) }
                       else Some (n, address));
     let in_str = (if \<not> in_str \<and> b = 34 then True else in_str);
     cgp_copy bs in_str n address }"

definition cgpaddr_eol :: "cgp_ctx eol_callback" where
  "cgpaddr_eol c rb is_urc =
     (if in_address c then do {
        (n, address) \<leftarrow> cgp_copy (take (cgp_i c) (cgp_buffer c)) False 0 (cgp_address c);
        address \<leftarrow> wr address n 0;
        Some (c\<lparr>cgp_address := address, cgp_len := n, in_address := False\<rparr>) }
      else Some (c\<lparr>in_address := False\<rparr>))"

definition CGPADDR_PREFIX :: bytes where
  "CGPADDR_PREFIX = [43, 67, 71, 80, 65, 68, 68, 82, 58]"

definition cgpaddr_char :: "cgp_ctx char_callback" where
  "cgpaddr_char c rb b is_urc is_space = do {
     c \<leftarrow> (if in_address c \<and> \<not> is_space then do {
             buf \<leftarrow> wr (cgp_buffer c) (cgp_i c) b;
             Some (c\<lparr>cgp_buffer := buf, cgp_i := cgp_i c + 1\<rparr>) }
           else Some c);
     hit \<leftarrow> (if is_urc \<and> b_size rb = 9 then b_is rb CGPADDR_PREFIX 9 else Some False);
     Some (if hit then c\<lparr>in_address := True\<rparr> else c) }"

definition atcgpaddr_decode :: "bytes \<Rightarrow> nat \<Rightarrow> rx_script \<Rightarrow> (int \<times> bytes \<times> nat \<times> rx_script) option" where
  "atcgpaddr_decode address len rx = do {
     (r, c, rx) \<leftarrow> decode_input cgpaddr_char cgpaddr_eol
       \<lparr>in_address = False, cgp_address = address, cgp_buffer = replicate 20 0, cgp_len = len, cgp_i = 0\<rparr> rx;
     Some (r, cgp_address c, cgp_len c, rx) }"

section \<open>AT+NSOCR and AT+NSOST\<close>

definition nsocr_eol :: "int eol_callback" where
  "nsocr_eol sockfd rb is_urc =
     (if \<not> is_urc \<and> 2 < b_size rb then atoi_arr (b_data rb) else Some sockfd)"

definition atnsocr_decode :: "rx_script \<Rightarrow> (int \<times> int \<times> rx_script) option" where
  "atnsocr_decode rx = decode_input no_char nsocr_eol (-2) rx"

record nsost_ctx =
  nsost_fd :: int
  nsost_len :: u32

definition nsost_eol :: "nsost_ctx eol_callback" where
  "nsost_eol c rb is_urc =
     (if \<not> is_urc \<and> nsost_len c = 0 \<and> 2 < b_size rb \<and> b_data rb ! 1 = 44 then do {
        let c = c\<lparr>nsost_fd := uint (b_data rb ! 0) - 48\<rparr>;
        n \<leftarrow> atoi_arr (drop 2 (b_data rb));
        Some (c\<lparr>nsost_len := word_of_int n\<rparr>) }
      else Some c)"

definition atnsost_decode :: "int \<Rightarrow> u32 \<Rightarrow> rx_script \<Rightarrow> (int \<times> nsost_ctx \<times> rx_script) option" where
  "atnsost_decode sock_fd sent rx =
     decode_input no_char nsost_eol \<lparr>nsost_fd = sock_fd, nsost_len = sent\<rparr> rx"

section \<open>AT+NSORF\<close>

definition FROM_HEX :: "u8 \<Rightarrow> int" where
  "FROM_HEX x = (if uint x - 48 > 9 then uint x - 65 + 10 else uint x - 48)"

definition MAX_FIELD_SIZE :: nat where "MAX_FIELD_SIZE = 16"

record nsorf_ctx =
  rf_sockfd :: int
  rf_ip :: bytes
  rf_port :: int
  rf_data :: bytes
  rf_remaining :: nat
  rf_received :: nat
  rf_fieldno :: int
  rf_fieldindex :: nat
  rf_field :: bytes
  rf_dataidx :: nat
  rf_complete :: bool

definition nsorf_eol :: "nsorf_ctx eol_callback" where
  "nsorf_eol c rb is_urc = Some (if rf_complete c then c\<lparr>rf_remaining := 0\<rparr> else c)"

text \<open>The comma: the field in front of it is stored.\<close>
definition nsorf_comma :: "nsorf_ctx \<Rightarrow> nsorf_ctx option" where
  "nsorf_comma c = do {
     let c = c\<lparr>rf_fieldindex := 0\<rparr>;
     let next = (\<lambda>c. c\<lparr>rf_field := replicate MAX_FIELD_SIZE 0, rf_fieldno := rf_fieldno c + 1\<rparr>);
     if rf_fieldno c = 0 then do {
       v \<leftarrow> atoi_arr (rf_field c); Some (next (c\<lparr>rf_sockfd := v\<rparr>)) }
     else if rf_fieldno c = 1 then do {
       s \<leftarrow> c_str (rf_field c); ip \<leftarrow> strcpy (rf_ip c) s; Some (next (c\<lparr>rf_ip := ip\<rparr>)) }
     else if rf_fieldno c = 2 then do {
       v \<leftarrow> atoi_arr (rf_field c); Some (next (c\<lparr>rf_port := v\<rparr>)) }
     else if rf_fieldno c = 3 then Some (next c)
     else if rf_fieldno c = 4 then Some (c\<lparr>rf_complete := True\<rparr>)
     else Some c }"

definition nsorf_other :: "nsorf_ctx \<Rightarrow> u8 \<Rightarrow> nsorf_ctx option" where
  "nsorf_other c b = do {
     fld \<leftarrow> wr (rf_field c) (rf_fieldindex c) b;
     let c = c\<lparr>rf_field := fld, rf_fieldindex := rf_fieldindex c + 1\<rparr>;
     if rf_fieldno c = 4 \<and> rf_fieldindex c = 2 then do {
       d \<leftarrow> wr (rf_data c) (rf_dataidx c)
              (word_of_int (push_bit 4 (FROM_HEX (fld ! 0)) OR FROM_HEX (fld ! 1)));
       Some (c\<lparr>rf_data := d, rf_dataidx := rf_dataidx c + 1, rf_received := rf_received c + 1,
               rf_fieldindex := 0\<rparr>) }
     else Some c }"

definition nsorf_char :: "nsorf_ctx char_callback" where
  "nsorf_char c rb b is_urc is_space =
     (if is_urc \<or> is_space then Some c
      else if rf_complete c then Some c
      else if b = 44 then nsorf_comma c
      else if b = 34 then Some c
      else nsorf_other c b)"

definition atnsorf_decode ::
  "int \<Rightarrow> bytes \<Rightarrow> int \<Rightarrow> bytes \<Rightarrow> nat \<Rightarrow> nat \<Rightarrow> rx_script \<Rightarrow> (int \<times> nsorf_ctx \<times> rx_script) option" where
  "atnsorf_decode sockfd ip port data received remaining rx =
     decode_input nsorf_char nsorf_eol
       \<lparr>rf_sockfd = sockfd, rf_ip = ip, rf_port = port, rf_data = data, rf_remaining = remaining,
        rf_received = received, rf_fieldno = 0, rf_fieldindex = 0,
        rf_field = replicate MAX_FIELD_SIZE 0, rf_dataidx = 0, rf_complete = False\<rparr> rx"

section \<open>AT+CIMI and AT+CGSN\<close>

record id_ctx =
  id_str :: bytes
  id_index :: nat
  id_done :: bool

definition cimi_char :: "id_ctx char_callback" where
  "cimi_char c rb b is_urc is_space =
     (if \<not> id_done c \<and> \<not> is_urc \<and> \<not> is_space then do {
        s \<leftarrow> wr (id_str c) (id_index c) b;
        Some (c\<lparr>id_str := s, id_index := id_index c + 1\<rparr>) }
      else Some c)"

definition cimi_eol :: "id_ctx eol_callback" where
  "cimi_eol c rb is_urc =
     (if \<not> id_done c \<and> 0 < id_index c then do {
        s \<leftarrow> wr (id_str c) (id_index c) 0;
        Some (c\<lparr>id_str := s, id_done := True\<rparr>) }
      else Some c)"

definition cgsn_char :: "id_ctx char_callback" where
  "cgsn_char c rb b is_urc is_space =
     (if \<not> id_done c \<and> \<not> is_space then do {
        s \<leftarrow> wr (id_str c) (id_index c) b;
        Some (c\<lparr>id_str := s, id_index := id_index c + 1\<rparr>) }
      else Some c)"

definition cgsn_eol :: "id_ctx eol_callback" where
  "cgsn_eol c rb is_urc =
     (if \<not> id_done c \<and> 0 < id_index c then do {
        s \<leftarrow> wr (id_str c) (id_index c) 0;
        Some (c\<lparr>id_str := s, id_done := True\<rparr>) }
      else Some c)"

definition atcimi_decode :: "bytes \<Rightarrow> rx_script \<Rightarrow> (int \<times> bytes \<times> rx_script) option" where
  "atcimi_decode imsi rx = do {
     (r, c, rx) \<leftarrow> decode_input cimi_char cimi_eol \<lparr>id_str = imsi, id_index = 0, id_done = False\<rparr> rx;
     Some (r, id_str c, rx) }"

definition atcgsn_decode :: "bytes \<Rightarrow> rx_script \<Rightarrow> (int \<times> bytes \<times> rx_script) option" where
  "atcgsn_decode imei rx = do {
     (r, c, rx) \<leftarrow> decode_input cgsn_char cgsn_eol \<lparr>id_str = imei, id_index = 0, id_done = False\<rparr> rx;
     Some (r, id_str c, rx) }"

section \<open>Lines\<close>

text \<open>The line buffer after the characters of a line so far.\<close>
definition rb_of :: "bytes \<Rightarrow> buf" where
  "rb_of cs = \<lparr>b_data = take B_SIZE cs @ replicate (B_SIZE - length cs) 0,
     b_index = min B_SIZE (length cs), b_size = of_nat (length cs)\<rparr>"

definition urc_line :: "bytes \<Rightarrow> bool" where
  "urc_line cs \<longleftrightarrow> cs \<noteq> [] \<and> hd cs = 43"

lemma rb_of_Nil [simp]: "rb_of [] = b_reset"
  by (simp add: rb_of_def b_reset_def)

lemma b_add_rb_of: "b_add (rb_of cs) b = rb_of (cs @ [b])"
proof (cases "length cs < B_SIZE")
  case True
  then obtain k where k: "B_SIZE - length cs = Suc k" by (metis Suc_diff_Suc)
  then have "k = B_SIZE - Suc (length cs)" by simp
  then show ?thesis using True k by (simp add: b_add_def rb_of_def min_def list_update_append)
next
  case False
  then show ?thesis by (simp add: b_add_def rb_of_def min_def)
qed

lemma b_size_rb_of: "length cs < 65536 \<Longrightarrow> unat (b_size (rb_of cs)) = length cs"
  by (simp add: rb_of_def unat_of_nat)

lemma b_size_rb_of_0: "length cs < 65536 \<Longrightarrow> b_size (rb_of cs) = 0 \<longleftrightarrow> cs = []"
  using b_size_rb_of [of cs] by (metis length_0_conv unat_0 unsigned_0 rb_of_Nil unat_eq_zero)

lemma b_is_rb_of:
  assumes "0 \<notin> set lit" "n = length lit" "n \<le> B_SIZE"
  shows "b_is (rb_of cs) lit n = Some (take n cs = lit)"
proof -
  have "b_is (rb_of cs) lit n = Some (take n (b_data (rb_of cs)) = lit)"
    unfolding b_is_def using assms by (intro strncmp_eq_literal) (simp_all add: rb_of_def)
  moreover have "take n (b_data (rb_of cs)) = lit \<longleftrightarrow> take n cs = lit"
  proof (cases "n \<le> length cs")
    case True
    then show ?thesis using assms(3) by (simp add: rb_of_def min_def)
  next
    case False
    then have "0 \<in> set (take n (b_data (rb_of cs)))" using assms(3) by (auto simp: rb_of_def min_def)
    moreover have "take n cs \<noteq> lit" using False assms(2) by auto
    ultimately show ?thesis using assms(1) by metis
  qed
  ultimately show ?thesis by simp
qed

lemma b_is_OK: "b_is (rb_of cs) OK_LINE 4 = Some (take 4 cs = OK_LINE)"
  by (rule b_is_rb_of) (simp_all add: OK_LINE_def B_SIZE_def)

lemma b_is_ERROR: "b_is (rb_of cs) ERROR_LINE 7 = Some (take 7 cs = ERROR_LINE)"
  by (rule b_is_rb_of) (simp_all add: ERROR_LINE_def B_SIZE_def)

lemma b_is_CGPADDR: "b_is (rb_of cs) CGPADDR_PREFIX 9 = Some (take 9 cs = CGPADDR_PREFIX)"
  by (rule b_is_rb_of) (simp_all add: CGPADDR_PREFIX_def B_SIZE_def)

text \<open>What the character callback does to the context over a piece of a line.\<close>
fun run_chars :: "'c char_callback \<Rightarrow> 'c \<Rightarrow> bytes \<Rightarrow> bytes \<Rightarrow> 'c option" where
  "run_chars cc ctx pre [] = Some ctx"
| "run_chars cc ctx pre (b # bs) =
     Option.bind (cc ctx (rb_of (pre @ [b])) b (urc_line (pre @ [b])) (isspace b))
       (\<lambda>ctx. run_chars cc ctx (pre @ [b]) bs)"

lemma run_chars_append:
  "run_chars cc ctx pre (xs @ ys) = Option.bind (run_chars cc ctx pre xs) (\<lambda>ctx. run_chars cc ctx (pre @ xs) ys)"
  by (induction xs arbitrary: ctx pre) (simp_all split: Option.bind_split)

lemma run_chars_no_char [simp]: "run_chars no_char ctx pre bs = Some ctx"
  by (induction bs arbitrary: pre) (simp_all add: no_char_def)

lemma urc_flag:
  assumes "length pre < 65536"
  shows "(if b = 43 \<and> b_size (rb_of pre) = 0 then True else urc_line pre) = urc_line (pre @ [b])"
  using b_size_rb_of_0 [OF assms] by (cases pre) (auto simp: urc_line_def)

lemma take_no_newline: "10 \<notin> set cs \<Longrightarrow> take 4 cs \<noteq> OK_LINE \<and> take 7 cs \<noteq> ERROR_LINE"
  by (auto simp: OK_LINE_def ERROR_LINE_def dest: arg_cong [where f = set] in_set_takeD)
     (metis in_set_takeD insertI1 list.simps(15) insert_iff)+

text \<open>One character that does not finish a line.\<close>
lemma decode_loop_char:
  assumes "length pre < 65536" "take 4 (pre @ [b]) \<noteq> OK_LINE" "take 7 (pre @ [b]) \<noteq> ERROR_LINE"
  shows "decode_loop cc ec ctx (rb_of pre) prev (urc_line pre) (Some b # rx) =
     Option.bind (cc ctx (rb_of (pre @ [b])) b (urc_line (pre @ [b])) (isspace b)) (\<lambda>ctx.
       if prev = 13 \<and> b = 10 then
         Option.bind (ec ctx (rb_of (pre @ [b])) (urc_line (pre @ [b])))
           (\<lambda>ctx. decode_loop cc ec ctx b_reset b False rx)
       else decode_loop cc ec ctx (rb_of (pre @ [b])) b (urc_line (pre @ [b])) rx)"
  using assms urc_flag [OF assms(1), of b]
  by (simp add: b_add_rb_of b_is_OK b_is_ERROR Let_def cong: if_cong)

lemma decode_loop_chars:
  assumes "10 \<notin> set (pre @ cs)" "length (pre @ cs) < 65536"
  shows "decode_loop cc ec ctx (rb_of pre) prev (urc_line pre) (map Some cs @ rx) =
     Option.bind (run_chars cc ctx pre cs)
       (\<lambda>ctx. decode_loop cc ec ctx (rb_of (pre @ cs)) (last (prev # cs)) (urc_line (pre @ cs)) rx)"
  using assms
proof (induction cs arbitrary: ctx pre prev)
  case (Cons b cs)
  have n: "10 \<notin> set (pre @ [b])" and l: "length pre < 65536" "b \<noteq> 10" using Cons.prems by simp_all
  have IH: "decode_loop cc ec ctx (rb_of (pre @ [b])) b (urc_line (pre @ [b])) (map Some cs @ rx) =
     Option.bind (run_chars cc ctx (pre @ [b]) cs)
       (\<lambda>ctx. decode_loop cc ec ctx (rb_of (pre @ b # cs)) (last (b # cs)) (urc_line (pre @ b # cs)) rx)" for ctx
    using Cons.IH [of "pre @ [b]" ctx b] Cons.prems by simp
  show ?case
    using decode_loop_char [OF l(1) conjunct1 [OF take_no_newline [OF n]] conjunct2 [OF take_no_newline [OF n]],
      of cc ec ctx prev "map Some cs @ rx"] l(2) IH by (simp del: decode_loop.simps)
qed simp

text \<open>A line that is neither of the two final results.\<close>
definition plain_line :: "bytes \<Rightarrow> bool" where
  "plain_line cs \<longleftrightarrow> 10 \<notin> set cs \<and> 13 \<notin> set cs \<and> length cs < 65534 \<and>
     cs \<noteq> [79, 75] \<and> cs \<noteq> [69, 82, 82, 79, 82]"

text \<open>What one line does to the context.\<close>
definition line_ctx :: "'c char_callback \<Rightarrow> 'c eol_callback \<Rightarrow> 'c \<Rightarrow> bytes \<Rightarrow> 'c option" where
  "line_ctx cc ec ctx cs =
     Option.bind (run_chars cc ctx [] (cs @ [13, 10]))
       (\<lambda>ctx. ec ctx (rb_of (cs @ [13, 10])) (urc_line cs))"

lemma take_snoc_whole: "b \<notin> set l \<Longrightarrow> b \<in> set (take n (l @ [b])) \<Longrightarrow> take n (l @ [b]) = l @ [b]"
  by (cases "n \<le> length l") (auto dest: in_set_takeD)

lemma decode_line:
  assumes "plain_line cs"
  shows "decode_loop cc ec ctx b_reset prev False (map Some (cs @ [13, 10]) @ rx) =
     Option.bind (line_ctx cc ec ctx cs) (\<lambda>ctx. decode_loop cc ec ctx b_reset 10 False rx)"
proof -
  let ?l = "cs @ [13]"
  have l: "10 \<notin> set ([] @ ?l)" "length ([] @ ?l) < 65536" "length ?l < 65536"
    using assms by (simp_all add: plain_line_def)
  have "take 4 (?l @ [10]) \<noteq> OK_LINE"
  proof
    assume t: "take 4 (?l @ [10]) = OK_LINE"
    then have "10 \<in> set (take 4 (?l @ [10]))" by (simp add: OK_LINE_def)
    then have "take 4 (?l @ [10]) = ?l @ [10]" using l(1) by (intro take_snoc_whole) simp_all
    then show False using t assms by (simp add: OK_LINE_def plain_line_def append_eq_Cons_conv)
  qed
  moreover have "take 7 (?l @ [10]) \<noteq> ERROR_LINE"
  proof
    assume t: "take 7 (?l @ [10]) = ERROR_LINE"
    then have "10 \<in> set (take 7 (?l @ [10]))" by (simp add: ERROR_LINE_def)
    then have "take 7 (?l @ [10]) = ?l @ [10]" using l(1) by (intro take_snoc_whole) simp_all
    then show False using t assms by (simp add: ERROR_LINE_def plain_line_def append_eq_Cons_conv)
  qed
  ultimately have nl: "decode_loop cc ec ctx (rb_of ?l) 13 (urc_line ?l) (Some 10 # rx) =
     Option.bind (run_chars cc ctx ?l [10]) (\<lambda>ctx.
         Option.bind (ec ctx (rb_of (?l @ [10])) (urc_line (?l @ [10])))
           (\<lambda>ctx. decode_loop cc ec ctx b_reset 10 False rx))" for ctx
    using decode_loop_char [OF l(3), of 10 cc ec ctx 13 rx] by (simp del: decode_loop.simps)
  have u: "urc_line (?l @ [10]) = urc_line cs" "urc_line [] = False"
    by (cases cs; simp add: urc_line_def)+
  have "decode_loop cc ec ctx b_reset prev False (map Some (cs @ [13, 10]) @ rx) =
     Option.bind (run_chars cc ctx [] ?l)
       (\<lambda>ctx. decode_loop cc ec ctx (rb_of ?l) 13 (urc_line ?l) (Some 10 # rx))"
    using decode_loop_chars [OF l(1,2), of cc ec ctx prev "Some 10 # rx"] u(2)
    by (simp del: decode_loop.simps)
  also have "\<dots> = Option.bind (run_chars cc ctx [] (?l @ [10])) (\<lambda>ctx.
         Option.bind (ec ctx (rb_of (?l @ [10])) (urc_line cs))
           (\<lambda>ctx. decode_loop cc ec ctx b_reset 10 False rx))"
    unfolding nl u run_chars_append by (simp del: run_chars.simps)
  finally show ?thesis by (simp add: line_ctx_def del: run_chars.simps decode_loop.simps)
qed

text \<open>The lines that end a response.\<close>
lemma decode_OK:
  "decode_loop cc ec ctx b_reset prev False (map Some OK_LINE @ rx) =
     Option.bind (run_chars cc ctx [] OK_LINE) (\<lambda>ctx. Some (AT_OK, ctx, rx))"
proof -
  have "decode_loop cc ec ctx (rb_of [79, 75, 13]) 13 (urc_line [79, 75, 13]) (Some 10 # rx) =
     Option.bind (run_chars cc ctx [79, 75, 13] [10]) (\<lambda>ctx. Some (AT_OK, ctx, rx))" for ctx
    using b_size_rb_of [of "[79, 75, 13, 10]"]
    by (simp add: b_add_rb_of b_is_OK Let_def urc_line_def word_le_nat_alt) (simp add: OK_LINE_def)
  then show ?thesis
    using decode_loop_chars [of "[]" "[79, 75, 13]" cc ec ctx prev "Some 10 # rx"]
      run_chars_append [of cc ctx "[]" "[79, 75, 13]" "[10]"]
    by (simp add: OK_LINE_def urc_line_def del: decode_loop.simps run_chars.simps)
qed

lemma decode_ERROR:
  "decode_loop cc ec ctx b_reset prev False (map Some ERROR_LINE @ rx) =
     Option.bind (run_chars cc ctx [] ERROR_LINE) (\<lambda>ctx. Some (AT_ERROR, ctx, rx))"
proof -
  have no: "b_is (rb_of [69, 82, 82, 79, 82, 13, 10]) OK_LINE 4 = Some False"
    "b_is (rb_of [69, 82, 82, 79, 82, 13, 10]) ERROR_LINE 7 = Some True"
    unfolding b_is_OK b_is_ERROR by (simp_all add: OK_LINE_def ERROR_LINE_def)
  have "decode_loop cc ec ctx (rb_of [69, 82, 82, 79, 82, 13]) 13 (urc_line [69, 82, 82, 79, 82, 13]) (Some 10 # rx) =
     Option.bind (run_chars cc ctx [69, 82, 82, 79, 82, 13] [10]) (\<lambda>ctx. Some (AT_ERROR, ctx, rx))" for ctx
    using b_size_rb_of [of "[69, 82, 82, 79, 82, 13, 10]"]
    by (simp add: b_add_rb_of no Let_def urc_line_def word_le_nat_alt)
  then show ?thesis
    using decode_loop_chars [of "[]" "[69, 82, 82, 79, 82, 13]" cc ec ctx prev "Some 10 # rx"]
      run_chars_append [of cc ctx "[]" "[69, 82, 82, 79, 82, 13]" "[10]"]
    by (simp add: ERROR_LINE_def urc_line_def del: decode_loop.simps run_chars.simps)
qed

text \<open>A response: complete lines, one behind the other.\<close>
definition wire :: "bytes list \<Rightarrow> bytes" where
  "wire ls = concat (map (\<lambda>l. l @ [13, 10]) ls)"

fun lines_ctx :: "'c char_callback \<Rightarrow> 'c eol_callback \<Rightarrow> 'c \<Rightarrow> bytes list \<Rightarrow> 'c option" where
  "lines_ctx cc ec ctx [] = Some ctx"
| "lines_ctx cc ec ctx (l # ls) = Option.bind (line_ctx cc ec ctx l) (\<lambda>ctx. lines_ctx cc ec ctx ls)"

lemma decode_lines:
  assumes "\<forall>l \<in> set ls. plain_line l"
  shows "decode_loop cc ec ctx b_reset prev False (map Some (wire ls) @ rx) =
     Option.bind (lines_ctx cc ec ctx ls)
       (\<lambda>ctx. decode_loop cc ec ctx b_reset (if ls = [] then prev else 10) False rx)"
  using assms
proof (induction ls arbitrary: ctx prev)
  case (Cons l ls)
  have "decode_loop cc ec ctx b_reset prev False (map Some (l @ [13, 10]) @ map Some (wire ls) @ rx) =
     Option.bind (line_ctx cc ec ctx l)
       (\<lambda>ctx. decode_loop cc ec ctx b_reset 10 False (map Some (wire ls) @ rx))"
    using Cons.prems by (intro decode_line) simp
  then show ?case using Cons by (simp add: wire_def if_distrib cong: if_cong)
qed (simp add: wire_def)

text \<open>The three ways a response can end.\<close>
definition final_bytes :: "int \<Rightarrow> rx_script" where
  "final_bytes r = (if r = AT_OK then map Some OK_LINE
     else if r = AT_ERROR then map Some ERROR_LINE else [None])"

definition final_chars :: "int \<Rightarrow> bytes" where
  "final_chars r = (if r = AT_OK then OK_LINE else if r = AT_ERROR then ERROR_LINE else [])"

lemma decode_response:
  assumes "\<forall>l \<in> set ls. plain_line l" "r \<in> {AT_OK, AT_ERROR, AT_TIMEOUT}"
  shows "decode_input cc ec ctx (map Some (wire ls) @ final_bytes r @ rx) =
     Option.bind (lines_ctx cc ec ctx ls)
       (\<lambda>ctx. Option.bind (run_chars cc ctx [] (final_chars r)) (\<lambda>ctx. Some (r, ctx, rx)))"
  using assms(2)
  unfolding decode_input_def decode_lines [OF assms(1)]
  by (auto simp: final_bytes_def final_chars_def at_results
      decode_OK [unfolded at_results] decode_ERROR [unfolded at_results])

section \<open>What every response decoder promises\<close>

text \<open>
  The lines of a response that are not its answer (empty lines and unsolicited result codes) must
  leave the context of a decoder alone, and so must the characters of the final result. A
  decoder for which this holds delivers the effect of its answer line, wherever the line stands
  in the response, and reports how the response ended.
\<close>
locale response_decoder =
  fixes cc :: "'c char_callback" and ec :: "'c eol_callback"
    and quiet :: "'c \<Rightarrow> bytes \<Rightarrow> bool" and settled :: "'c \<Rightarrow> bool"
  assumes quiet_line: "quiet c l \<Longrightarrow> plain_line l \<Longrightarrow> line_ctx cc ec c l = Some c"
    and settled_final: "settled c \<Longrightarrow> run_chars cc c [] (final_chars r) = Some c"
begin

lemma quiet_lines:
  "\<forall>l \<in> set ls. plain_line l \<and> quiet c l \<Longrightarrow> lines_ctx cc ec c (ls @ ms) = lines_ctx cc ec c ms"
  by (induction ls) (simp_all add: quiet_line)

lemma answer:
  assumes "\<forall>l \<in> set before. plain_line l \<and> quiet c l" "plain_line l" "line_ctx cc ec c l = Some c'"
    "\<forall>l \<in> set after. plain_line l \<and> quiet c' l" "settled c'" "r \<in> {AT_OK, AT_ERROR, AT_TIMEOUT}"
  shows "decode_input cc ec c (map Some (wire (before @ l # after)) @ final_bytes r @ rx) =
     Some (r, c', rx)"
proof -
  have "lines_ctx cc ec c (before @ l # after) = Some c'"
    using quiet_lines [OF assms(1), of "l # after"] quiet_lines [OF assms(4), of "[]"] assms(3) by simp
  moreover have "\<forall>l \<in> set (before @ l # after). plain_line l" using assms by auto
  ultimately show ?thesis
    using assms(6) settled_final [OF assms(5)] by (simp add: decode_response)
qed

end

lemma final_chars_cases: "final_chars r \<in> {[79, 75, 13, 10], [69, 82, 82, 79, 82, 13, 10], []}"
  by (simp add: final_chars_def OK_LINE_def ERROR_LINE_def)

interpretation silent: response_decoder no_char no_eol "\<lambda>c l. True" "\<lambda>c. True"
  by unfold_locales (simp_all add: line_ctx_def no_eol_def)

section \<open>The IP address\<close>

text \<open>The text between the quotes of the answer, as the copying loop understands it.\<close>
definition quoted :: "bytes \<Rightarrow> bytes" where
  "quoted t = filter (\<lambda>b. b \<noteq> 34) (drop 1 (dropWhile (\<lambda>b. b \<noteq> 34) t))"

lemma cgp_copy_in:
  assumes "n + length (filter (\<lambda>b. b \<noteq> 34) t) \<le> length address"
  shows "cgp_copy t True n address =
     Some (n + length (filter (\<lambda>b. b \<noteq> 34) t),
           take n address @ filter (\<lambda>b. b \<noteq> 34) t @ drop (n + length (filter (\<lambda>b. b \<noteq> 34) t)) address)"
  using assms
proof (induction t arbitrary: n address)
  case (Cons b t)
  show ?case
  proof (cases "b = 34")
    case False
    then have "n < length address" using Cons.prems by simp
    then show ?thesis
      using Cons False by (simp add: wr_in take_Suc_conv_app_nth)
  qed (use Cons in simp)
qed simp

lemma cgp_copy_out:
  assumes "length (quoted t) \<le> length address"
  shows "cgp_copy t False 0 address =
     Some (length (quoted t), quoted t @ drop (length (quoted t)) address)"
  using assms
proof (induction t)
  case (Cons b t)
  then show ?case using cgp_copy_in [of 0 t address] by (cases "b = 34") (simp_all add: quoted_def)
qed (simp add: quoted_def)

lemma cgp_hit:
  assumes "length cs < 65536"
  shows "(if urc_line cs \<and> b_size (rb_of cs) = 9 then b_is (rb_of cs) CGPADDR_PREFIX 9 else Some False) =
     Some (cs = CGPADDR_PREFIX)"
proof -
  have "b_size (rb_of cs) = 9 \<longleftrightarrow> length cs = 9"
    using b_size_rb_of [OF assms] by (simp add: word_unat_eq_iff)
  moreover have "cs = CGPADDR_PREFIX \<Longrightarrow> urc_line cs \<and> length cs = 9"
    by (simp add: urc_line_def CGPADDR_PREFIX_def)
  ultimately show ?thesis
    by (cases "urc_line cs \<and> length cs = 9") (auto simp: b_is_CGPADDR)
qed

lemma cgpaddr_char_line:
  assumes "length cs < 65536"
  shows "cgpaddr_char c (rb_of cs) b (urc_line cs) sp = do {
     c \<leftarrow> (if in_address c \<and> \<not> sp then do {
             buf \<leftarrow> wr (cgp_buffer c) (cgp_i c) b;
             Some (c\<lparr>cgp_buffer := buf, cgp_i := cgp_i c + 1\<rparr>) }
           else Some c);
     Some (if cs = CGPADDR_PREFIX then c\<lparr>in_address := True\<rparr> else c) }"
  unfolding cgpaddr_char_def cgp_hit [OF assms] by simp

lemma cgp_quiet_chars:
  assumes "\<not> in_address c" "take 9 (pre @ cs) \<noteq> CGPADDR_PREFIX" "length (pre @ cs) < 65536"
  shows "run_chars cgpaddr_char c pre cs = Some c"
  using assms(2,3)
proof (induction cs arbitrary: pre)
  case (Cons b cs)
  have "pre @ [b] \<noteq> CGPADDR_PREFIX"
  proof
    assume p: "pre @ [b] = CGPADDR_PREFIX"
    then have "pre @ b # cs = CGPADDR_PREFIX @ cs" by (simp flip: p)
    moreover have "take 9 (CGPADDR_PREFIX @ cs) = CGPADDR_PREFIX" by (simp add: CGPADDR_PREFIX_def)
    ultimately show False using Cons.prems(1) by metis
  qed
  then show ?case
    using Cons.IH [of "pre @ [b]"] Cons.prems assms(1) by (simp add: cgpaddr_char_line)
qed simp

lemma cgp_in_chars:
  assumes "in_address c" "9 \<le> length pre" "length (pre @ t) < 65536"
    "cgp_i c + length (filter (\<lambda>b. \<not> isspace b) t) \<le> length (cgp_buffer c)"
  shows "run_chars cgpaddr_char c pre t = Some (c\<lparr>
     cgp_buffer := take (cgp_i c) (cgp_buffer c) @ filter (\<lambda>b. \<not> isspace b) t @
       drop (cgp_i c + length (filter (\<lambda>b. \<not> isspace b) t)) (cgp_buffer c),
     cgp_i := cgp_i c + length (filter (\<lambda>b. \<not> isspace b) t)\<rparr>)"
  using assms
proof (induction t arbitrary: c pre)
  case (Cons b t)
  have np: "pre @ [b] \<noteq> CGPADDR_PREFIX" using Cons.prems(2) by (auto simp: CGPADDR_PREFIX_def dest: arg_cong [where f = length])
  have IH: "in_address d \<Longrightarrow> cgp_i d + length (filter (\<lambda>b. \<not> isspace b) t) \<le> length (cgp_buffer d) \<Longrightarrow>
     run_chars cgpaddr_char d (pre @ [b]) t = Some (d\<lparr>
     cgp_buffer := take (cgp_i d) (cgp_buffer d) @ filter (\<lambda>b. \<not> isspace b) t @
       drop (cgp_i d + length (filter (\<lambda>b. \<not> isspace b) t)) (cgp_buffer d),
     cgp_i := cgp_i d + length (filter (\<lambda>b. \<not> isspace b) t)\<rparr>)" for d
    using Cons.IH [of d "pre @ [b]"] Cons.prems by simp
  show ?case
  proof (cases "isspace b")
    case True
    then show ?thesis using IH [of c] Cons.prems np by (simp add: cgpaddr_char_line)
  next
    case False
    then have i: "cgp_i c < length (cgp_buffer c)" using Cons.prems(4) by simp
    let ?d = "c\<lparr>cgp_buffer := (cgp_buffer c)[cgp_i c := b], cgp_i := cgp_i c + 1\<rparr>"
    have "run_chars cgpaddr_char c pre (b # t) = run_chars cgpaddr_char ?d (pre @ [b]) t"
      using False Cons.prems np i by (simp add: cgpaddr_char_line wr_in)
    then show ?thesis
      using IH [of ?d] False Cons.prems i by (simp add: take_Suc_conv_app_nth)
  qed
qed simp

text \<open>Reading the prefix starts the address.\<close>
lemma cgp_prefix:
  assumes "\<not> in_address c"
  shows "run_chars cgpaddr_char c [] CGPADDR_PREFIX = Some (c\<lparr>in_address := True\<rparr>)"
proof -
  let ?p = "take 8 CGPADDR_PREFIX"
  have p: "?p @ [58] = CGPADDR_PREFIX" "length CGPADDR_PREFIX = 9" "length ?p = 8"
    by (simp_all add: CGPADDR_PREFIX_def)
  have "run_chars cgpaddr_char c [] ?p = Some c"
    using assms by (intro cgp_quiet_chars) (simp_all add: CGPADDR_PREFIX_def)
  moreover have "run_chars cgpaddr_char c ?p [58] = Some (c\<lparr>in_address := True\<rparr>)"
    using assms by (simp add: cgpaddr_char_line p del: take_Suc_Cons)
  ultimately show ?thesis
    using run_chars_append [of cgpaddr_char c "[]" ?p "[58]"] by (simp add: p del: run_chars.simps)
qed

text \<open>The effect of the answer line of AT+CGPADDR.\<close>
lemma cgp_answer_line:
  assumes "\<not> in_address c" "cgp_i c = 0" "text = filter (\<lambda>b. \<not> isspace b) t"
    "length text \<le> length (cgp_buffer c)" "length t < 65000" "length (quoted text) < length (cgp_address c)"
  shows "\<exists>buf. line_ctx cgpaddr_char cgpaddr_eol c (CGPADDR_PREFIX @ t) = Some (c\<lparr>
     cgp_address := quoted text @ 0 # drop (length (quoted text) + 1) (cgp_address c),
     cgp_len := length (quoted text), cgp_buffer := buf, cgp_i := length text\<rparr>)"
proof -
  let ?b = "text @ drop (length text) (cgp_buffer c)"
  have p: "length CGPADDR_PREFIX = 9" by (simp add: CGPADDR_PREFIX_def)
  have "run_chars cgpaddr_char c [] CGPADDR_PREFIX = Some (c\<lparr>in_address := True\<rparr>)"
    using assms(1) by (rule cgp_prefix)
  moreover have "run_chars cgpaddr_char (c\<lparr>in_address := True\<rparr>) CGPADDR_PREFIX (t @ [13, 10]) =
     Some (c\<lparr>in_address := True, cgp_buffer := ?b, cgp_i := length text\<rparr>)"
    using cgp_in_chars [of "c\<lparr>in_address := True\<rparr>" CGPADDR_PREFIX "t @ [13, 10]"] assms p
    by (simp add: isspace_def)
  ultimately have "run_chars cgpaddr_char c [] (CGPADDR_PREFIX @ t @ [13, 10]) =
     Some (c\<lparr>in_address := True, cgp_buffer := ?b, cgp_i := length text\<rparr>)"
    by (simp add: run_chars_append)
  moreover have "wr (quoted text @ drop (length (quoted text)) (cgp_address c)) (length (quoted text)) 0 =
      Some (quoted text @ 0 # drop (length (quoted text) + 1) (cgp_address c))"
    using assms(6) by (simp add: wr_def list_update_append flip: Cons_nth_drop_Suc)
  ultimately show ?thesis
    using assms(1,6) cgp_copy_out [of "text" "cgp_address c"]
    by (intro exI [of _ ?b], cases c) (simp add: line_ctx_def cgpaddr_eol_def)
qed

lemma take_line_prefix:
  "take n l \<noteq> p \<Longrightarrow> length p = n \<Longrightarrow> 13 \<notin> set p \<Longrightarrow> take n (l @ [13, 10]) \<noteq> p"
  by (simp add: take_separated del: take_append)

interpretation cgp: response_decoder cgpaddr_char cgpaddr_eol
  "\<lambda>c l. \<not> in_address c \<and> take 9 l \<noteq> CGPADDR_PREFIX" "\<lambda>c. \<not> in_address c"
proof unfold_locales
  fix c :: cgp_ctx and l
  assume q: "\<not> in_address c \<and> take 9 l \<noteq> CGPADDR_PREFIX" and "plain_line l"
  then have "run_chars cgpaddr_char c [] (l @ [13, 10]) = Some c"
    using take_line_prefix [of 9 l CGPADDR_PREFIX]
    by (intro cgp_quiet_chars) (simp_all add: plain_line_def CGPADDR_PREFIX_def)
  then show "line_ctx cgpaddr_char cgpaddr_eol c l = Some c"
    using q by (simp add: line_ctx_def cgpaddr_eol_def)
next
  fix c :: cgp_ctx and r
  assume "\<not> in_address c"
  then show "run_chars cgpaddr_char c [] (final_chars r) = Some c"
    using final_chars_cases [of r] by (intro cgp_quiet_chars) (auto simp: CGPADDR_PREFIX_def)
qed

section \<open>Socket numbers and lengths\<close>

lemma run_no_char_line: "line_ctx no_char ec c l = ec c (rb_of (l @ [13, 10])) (urc_line l)"
  by (simp add: line_ctx_def)

lemma size_small_line: "length l < 65534 \<Longrightarrow> 2 < b_size (rb_of (l @ [13, 10])) \<longleftrightarrow> l \<noteq> []"
  using b_size_rb_of [of "l @ [13, 10]"] by (cases l) (simp_all add: word_less_nat_alt)

lemma b_data_short_line:
  "length l < 10 \<Longrightarrow> \<exists>rest. b_data (rb_of (l @ [13, 10])) = l @ 13 # rest"
  by (simp add: rb_of_def B_SIZE_def take_Cons split: nat.split)

interpretation nsocr: response_decoder no_char nsocr_eol "\<lambda>c l. l = [] \<or> urc_line l" "\<lambda>c. True"
  by unfold_locales (auto simp: run_no_char_line nsocr_eol_def plain_line_def size_small_line)

interpretation nsost: response_decoder no_char nsost_eol
  "\<lambda>c l. l = [] \<or> urc_line l \<or> nsost_len c \<noteq> 0" "\<lambda>c. True"
  by unfold_locales (auto simp: run_no_char_line nsost_eol_def plain_line_def size_small_line)

lemma dec_digits_line:
  assumes "n < 10 ^ 9"
  shows "length (dec_digits n) < 10" "plain_line (dec_digits n)" "\<not> urc_line (dec_digits n)"
proof -
  show len: "length (dec_digits n) < 10" using length_dec_digits [of n 9] assms by simp
  have "b \<notin> set (dec_digits n)" if "b \<in> {10, 13, 43, 79, 82}" for b
    using that by (intro not_in_dec_digits) (auto simp: isdigit_def)
  then have no: "10 \<notin> set (dec_digits n)" "13 \<notin> set (dec_digits n)" "43 \<notin> set (dec_digits n)"
    "79 \<notin> set (dec_digits n)" "82 \<notin> set (dec_digits n)" by blast+
  then show "plain_line (dec_digits n)" using len by (auto simp: plain_line_def)
  show "\<not> urc_line (dec_digits n)" using no(3) by (cases "dec_digits n") (auto simp: urc_line_def)
qed

lemma nsocr_answer_line:
  assumes "n < 10 ^ 9"
  shows "line_ctx no_char nsocr_eol c (dec_digits n) = Some (int n)"
proof -
  obtain rest where "b_data (rb_of (dec_digits n @ [13, 10])) = dec_digits n @ 13 # rest"
    using b_data_short_line dec_digits_line(1) [OF assms] by blast
  moreover have "2 < b_size (rb_of (dec_digits n @ [13, 10]))"
    using size_small_line [of "dec_digits n"] dec_digits_line(1) [OF assms] dec_digits_nonempty [of n] by simp
  ultimately show ?thesis
    using dec_digits_line [OF assms] assms
    by (simp add: run_no_char_line nsocr_eol_def atoi_arr_dec_digits isdigit_def)
qed

text \<open>The answer of AT+NSOST: a one-digit socket number, a comma, the length.\<close>
lemma nsost_answer_line:
  assumes "fd < 10" "n < 10 ^ 7" "nsost_len c = 0"
  shows "line_ctx no_char nsost_eol c ((48 + of_nat fd) # 44 # dec_digits n) =
     Some \<lparr>nsost_fd = int fd, nsost_len = of_nat n\<rparr>"
proof -
  let ?l = "(48 + of_nat fd) # 44 # dec_digits n"
  have "length ?l < 10" using length_dec_digits [of n 7] assms(2) by simp
  then obtain rest where d: "b_data (rb_of (?l @ [13, 10])) = ?l @ 13 # rest"
    using b_data_short_line by blast
  have "\<not> urc_line ?l" using isdigit_not_special [OF digit_byte(1) [OF assms(1)]] by (simp add: urc_line_def)
  moreover have "2 < b_size (rb_of (?l @ [13, 10]))"
    using size_small_line [of ?l] \<open>length ?l < 10\<close> by simp
  moreover have "atoi_arr (dec_digits n @ 13 # rest) = Some (int n)"
    using assms(2) by (intro atoi_arr_dec_digits) (simp_all add: isdigit_def)
  ultimately show ?thesis
    using assms(3) d digit_byte(2) [OF assms(1)] by (simp add: run_no_char_line nsost_eol_def)
qed

section \<open>Received data\<close>

fun rf_run :: "nsorf_ctx \<Rightarrow> bytes \<Rightarrow> nsorf_ctx option" where
  "rf_run c [] = Some c"
| "rf_run c (b # bs) = Option.bind (nsorf_char c b_reset b False (isspace b)) (\<lambda>c. rf_run c bs)"

lemma rf_run_append: "rf_run c (xs @ ys) = Option.bind (rf_run c xs) (\<lambda>c. rf_run c ys)"
  by (induction xs arbitrary: c) (simp_all split: Option.bind_split)

lemma rf_run_then: "rf_run c xs = Some d \<Longrightarrow> rf_run c (xs @ ys) = rf_run d ys"
  by (simp add: rf_run_append)

lemma nsorf_char_rb: "nsorf_char c rb b u sp = (if u then Some c else nsorf_char c b_reset b False sp)"
  by (simp add: nsorf_char_def)

lemma run_nsorf:
  "pre @ bs \<noteq> [] \<Longrightarrow> run_chars nsorf_char c pre bs = (if hd (pre @ bs) = 43 then Some c else rf_run c bs)"
proof (induction bs arbitrary: c pre)
  case (Cons b bs)
  have u: "urc_line (pre @ [b]) \<longleftrightarrow> hd (pre @ b # bs) = 43" by (cases pre) (simp_all add: urc_line_def)
  show ?case using Cons.IH [of "pre @ [b]"] u by (simp add: nsorf_char_rb [of _ "rb_of _"])
qed simp

text \<open>Characters that a field collects.\<close>
definition rf_char :: "u8 \<Rightarrow> bool" where
  "rf_char b \<longleftrightarrow> b \<noteq> 44 \<and> b \<noteq> 34 \<and> \<not> isspace b"

definition zero_field :: bytes where
  "zero_field = replicate MAX_FIELD_SIZE 0"

lemma rf_text_from:
  assumes "\<forall>b \<in> set f. rf_char b" "rf_fieldno c \<noteq> 4" "\<not> rf_complete c" "rf_fieldindex c = length p"
    "rf_field c = p @ replicate (MAX_FIELD_SIZE - length p) 0" "length p + length f \<le> MAX_FIELD_SIZE"
  shows "rf_run c f = Some (c\<lparr>rf_fieldindex := length (p @ f),
     rf_field := (p @ f) @ replicate (MAX_FIELD_SIZE - length (p @ f)) 0\<rparr>)"
  using assms
proof (induction f arbitrary: c p)
  case Nil
  then show ?case by (cases c) simp
next
  case (Cons b f)
  obtain k where k: "MAX_FIELD_SIZE - length p = Suc k" using Cons.prems(6) by (cases "MAX_FIELD_SIZE - length p") auto
  let ?d = "c\<lparr>rf_field := (p @ [b]) @ replicate (MAX_FIELD_SIZE - length (p @ [b])) 0,
     rf_fieldindex := length (p @ [b])\<rparr>"
  have "nsorf_char c b_reset b False (isspace b) = Some ?d"
    using Cons.prems k by (simp add: nsorf_char_def nsorf_other_def rf_char_def wr_append)
  then show ?case using Cons.IH [of ?d "p @ [b]"] Cons.prems by simp
qed

lemma rf_text:
  assumes "\<forall>b \<in> set f. rf_char b" "rf_fieldno c \<noteq> 4" "\<not> rf_complete c" "rf_fieldindex c = 0"
    "rf_field c = zero_field" "length f \<le> MAX_FIELD_SIZE"
  shows "rf_run c f = Some (c\<lparr>rf_fieldindex := length f,
     rf_field := f @ replicate (MAX_FIELD_SIZE - length f) 0\<rparr>)"
  using rf_text_from [of f c "[]"] assms by (simp add: zero_field_def)

lemma rf_char_digits: "b \<in> set (dec_digits n) \<Longrightarrow> rf_char b"
  using isdigit_not_special dec_digits_all [of n] by (auto simp: rf_char_def)

lemma isspace_newline: "isspace 13" "isspace 10"
  by (simp_all add: isspace_def)

lemma isspace_quote [simp]: "\<not> isspace 34" "\<not> isspace 44"
  by (simp_all add: isspace_def)

text \<open>A numeric field and its comma.\<close>
lemma rf_number:
  assumes "n < 10 ^ 9" "rf_fieldno c = 0 \<or> rf_fieldno c = 2" "\<not> rf_complete c" "rf_fieldindex c = 0"
    "rf_field c = zero_field"
  shows "rf_run c (dec_digits n @ [44]) = Some ((if rf_fieldno c = 0 then c\<lparr>rf_sockfd := int n\<rparr> else c\<lparr>rf_port := int n\<rparr>)
     \<lparr>rf_fieldindex := 0, rf_field := zero_field, rf_fieldno := rf_fieldno c + 1\<rparr>)"
proof -
  let ?f = "dec_digits n"
  have len: "length ?f < 10" using dec_digits_line(1) [OF assms(1)] .
  then obtain k where k: "MAX_FIELD_SIZE - length ?f = Suc k" by (cases "MAX_FIELD_SIZE - length ?f") (auto simp: MAX_FIELD_SIZE_def)
  have "rf_run c ?f = Some (c\<lparr>rf_fieldindex := length ?f, rf_field := ?f @ 0 # replicate k 0\<rparr>)"
    using rf_text [of ?f c] rf_char_digits assms len k by (auto simp: MAX_FIELD_SIZE_def)
  moreover have "atoi_arr (?f @ 0 # replicate k 0) = Some (int n)"
    using assms(1) by (intro atoi_arr_dec_digits) (simp_all add: isdigit_def)
  ultimately show ?thesis
    using assms(2,3) by (cases c) (auto simp: rf_run_append nsorf_char_def nsorf_comma_def Let_def zero_field_def)
qed

text \<open>The quoted address and its comma.\<close>
lemma rf_address:
  assumes "\<forall>b \<in> set ip. rf_char b \<and> b \<noteq> 0" "length ip < MAX_FIELD_SIZE" "length ip < length (rf_ip c)"
    "rf_fieldno c = 1" "\<not> rf_complete c" "rf_fieldindex c = 0" "rf_field c = zero_field"
  shows "rf_run c (34 # ip @ [34, 44]) = Some (c\<lparr>rf_ip := ip @ 0 # drop (Suc (length ip)) (rf_ip c),
     rf_fieldindex := 0, rf_field := zero_field, rf_fieldno := 2\<rparr>)"
proof -
  obtain k where k: "MAX_FIELD_SIZE - length ip = Suc k" using assms(2) by (cases "MAX_FIELD_SIZE - length ip") auto
  have "rf_run c ip = Some (c\<lparr>rf_fieldindex := length ip, rf_field := ip @ 0 # replicate k 0\<rparr>)"
    using rf_text [of ip c] assms k by auto
  moreover have "c_str (ip @ 0 # replicate k 0) = Some ip" using assms(1) by (intro c_str_append) auto
  ultimately show ?thesis
    using assms(3-7) strcpy_fits [OF assms(3)]
    by (cases c) (simp add: rf_run_append nsorf_char_def nsorf_comma_def Let_def zero_field_def)
qed

lemma from_hex_pair:
  "(word_of_int (push_bit 4 (FROM_HEX (hex_char (unat b div 16))) OR FROM_HEX (hex_char (unat b mod 16))) :: u8) = b"
proof -
  have F: "FROM_HEX (hex_char n) = int n" if "n < 16" for n
    using unat_hex_char [OF that] that by (simp add: FROM_HEX_def uint_nat)
  let ?h = "int (unat b div 16)" and ?l = "int (unat b mod 16)"
  have "push_bit 4 ?h OR ?l = concat_bit 4 ?l ?h"
    by (simp add: concat_bit_def take_bit_eq_mod or.commute)
  also have "\<dots> = ?h * 16 + ?l"
    by (simp add: concat_bit_eq take_bit_eq_mod push_bit_eq_mult)
  also have "\<dots> = uint b" by (metis div_mult_mod_eq of_nat_add of_nat_mult of_nat_numeral uint_nat)
  finally have v: "push_bit 4 ?h OR ?l = uint b" .
  have "unat b div 16 < 16" "unat b mod 16 < 16" using unat_u8_less [of b] by auto
  then show ?thesis by (simp only: F v word_of_int_uint)
qed

lemma rf_char_hex: "n < 16 \<Longrightarrow> rf_char (hex_char n)"
  using unat_hex_char [of n] by (auto simp: rf_char_def isspace_def word_le_nat_alt split: if_splits)

lemma rf_hex_byte:
  assumes "rf_fieldno c = 4" "\<not> rf_complete c" "rf_fieldindex c = 0" "length (rf_field c) = MAX_FIELD_SIZE"
    "rf_dataidx c < length (rf_data c)"
  shows "rf_run c (hex_byte b) = Some (c\<lparr>rf_data := (rf_data c)[rf_dataidx c := b],
     rf_dataidx := rf_dataidx c + 1, rf_received := rf_received c + 1, rf_fieldindex := 0,
     rf_field := (rf_field c)[0 := hex_char (unat b div 16), 1 := hex_char (unat b mod 16)]\<rparr>)"
proof -
  have "unat b div 16 < 16" using unat_u8_less [of b] by simp
  then have "rf_char (hex_char (unat b div 16))" "rf_char (hex_char (unat b mod 16))"
    by (simp_all add: rf_char_hex)
  then show ?thesis
    using assms from_hex_pair [of b]
    by (cases c) (simp add: hex_byte_def nsorf_char_def nsorf_other_def rf_char_def wr_in MAX_FIELD_SIZE_def Let_def)
qed

text \<open>The data field.\<close>
lemma rf_hex:
  assumes "rf_fieldno c = 4" "\<not> rf_complete c" "rf_fieldindex c = 0" "length (rf_field c) = MAX_FIELD_SIZE"
    "rf_dataidx c + length d \<le> length (rf_data c)"
  shows "\<exists>fld. length fld = MAX_FIELD_SIZE \<and> rf_run c (hex_bytes d) = Some (c\<lparr>
     rf_data := take (rf_dataidx c) (rf_data c) @ d @ drop (rf_dataidx c + length d) (rf_data c),
     rf_dataidx := rf_dataidx c + length d, rf_received := rf_received c + length d, rf_field := fld\<rparr>)"
  using assms
proof (induction d arbitrary: c)
  case Nil
  then show ?case by (intro exI [of _ "rf_field c"], cases c) simp
next
  case (Cons b d)
  let ?c = "c\<lparr>rf_data := (rf_data c)[rf_dataidx c := b],
     rf_dataidx := rf_dataidx c + 1, rf_received := rf_received c + 1, rf_fieldindex := 0,
     rf_field := (rf_field c)[0 := hex_char (unat b div 16), 1 := hex_char (unat b mod 16)]\<rparr>"
  have i: "rf_dataidx c < length (rf_data c)" using Cons.prems(5) by simp
  obtain fld where fld: "length fld = MAX_FIELD_SIZE" "rf_run ?c (hex_bytes d) = Some (?c\<lparr>
     rf_data := take (rf_dataidx ?c) (rf_data ?c) @ d @ drop (rf_dataidx ?c + length d) (rf_data ?c),
     rf_dataidx := rf_dataidx ?c + length d, rf_received := rf_received ?c + length d, rf_field := fld\<rparr>)"
    using Cons.IH [of ?c] Cons.prems by auto
  have "rf_run c (hex_bytes (b # d)) = rf_run ?c (hex_bytes d)"
    using rf_hex_byte [OF Cons.prems(1-4) i] by (simp add: rf_run_append)
  moreover have "take (rf_dataidx ?c) (rf_data ?c) = take (rf_dataidx c) (rf_data c) @ [b]"
    using i by (simp add: take_Suc_conv_app_nth)
  moreover have "drop (rf_dataidx ?c + length d) (rf_data ?c) = drop (rf_dataidx c + length (b # d)) (rf_data c)"
    by simp
  ultimately show ?case using fld Cons.prems(3) by (intro exI [of _ fld], cases c) simp
qed

text \<open>The answer line of AT+NSORF, as the modem sends it.\<close>
definition nsorf_line :: "nat \<Rightarrow> bytes \<Rightarrow> nat \<Rightarrow> nat \<Rightarrow> bytes \<Rightarrow> bytes \<Rightarrow> bytes" where
  "nsorf_line fd ip port len d remaining =
     (dec_digits fd @ [44]) @ (34 # ip @ [34, 44]) @ (dec_digits port @ [44]) @ (dec_digits len @ [44]) @
     (34 # hex_bytes d @ [34, 44]) @ remaining"

lemma rf_complete_run: "rf_complete c \<Longrightarrow> rf_run c bs = Some c"
  by (induction bs) (simp_all add: nsorf_char_def)

lemma rf_length_field:
  assumes "n < 10 ^ 9" "rf_fieldno c = 3" "\<not> rf_complete c" "rf_fieldindex c = 0" "rf_field c = zero_field"
  shows "rf_run c (dec_digits n @ [44]) = Some (c\<lparr>rf_fieldno := 4\<rparr>)"
proof -
  have len: "length (dec_digits n) < 10" using dec_digits_line(1) [OF assms(1)] .
  have "rf_run c (dec_digits n) = Some (c\<lparr>rf_fieldindex := length (dec_digits n),
      rf_field := dec_digits n @ replicate (MAX_FIELD_SIZE - length (dec_digits n)) 0\<rparr>)"
    using rf_text [of "dec_digits n" c] rf_char_digits assms len by (auto simp: MAX_FIELD_SIZE_def)
  then show ?thesis
    using assms(2-5) by (cases c) (auto simp: rf_run_append nsorf_char_def nsorf_comma_def Let_def zero_field_def)
qed

lemma nsorf_fields:
  assumes "fd < 10 ^ 9" "port < 10 ^ 9" "len < 10 ^ 9" "\<forall>b \<in> set ip. rf_char b \<and> b \<noteq> 0"
    "length ip < MAX_FIELD_SIZE" "length ip < length (rf_ip c)" "length d \<le> length (rf_data c)"
    "\<not> rf_complete c" "rf_fieldno c = 0" "rf_fieldindex c = 0" "rf_field c = zero_field" "rf_dataidx c = 0"
  shows "\<exists>fld. rf_run c (nsorf_line fd ip port len d remaining) = Some (c\<lparr>rf_sockfd := int fd,
     rf_ip := ip @ 0 # drop (Suc (length ip)) (rf_ip c), rf_port := int port,
     rf_data := d @ drop (length d) (rf_data c), rf_dataidx := length d,
     rf_received := rf_received c + length d, rf_fieldno := 4, rf_fieldindex := 0, rf_field := fld,
     rf_complete := True\<rparr>)"
proof -
  let ?c1 = "c\<lparr>rf_sockfd := int fd, rf_fieldno := 1\<rparr>"
  let ?c2 = "?c1\<lparr>rf_ip := ip @ 0 # drop (Suc (length ip)) (rf_ip c), rf_fieldno := 2\<rparr>"
  let ?c3 = "?c2\<lparr>rf_port := int port, rf_fieldno := 3\<rparr>"
  let ?c4 = "?c3\<lparr>rf_fieldno := 4\<rparr>"
  have 1: "rf_run c (dec_digits fd @ [44]) = Some ?c1"
    using rf_number [of fd c] assms by (cases c) simp
  have 2: "rf_run ?c1 (34 # ip @ [34, 44]) = Some ?c2"
    using rf_address [of ip ?c1] assms by (cases c) simp
  have 3: "rf_run ?c2 (dec_digits port @ [44]) = Some ?c3"
    using rf_number [of port ?c2] assms by (cases c) simp
  have 4: "rf_run ?c3 (dec_digits len @ [44]) = Some ?c4"
    using rf_length_field [of len ?c3] assms by simp
  obtain fld where 5: "rf_run ?c4 (hex_bytes d) = Some (?c4\<lparr>rf_data := d @ drop (length d) (rf_data c),
      rf_dataidx := length d, rf_received := rf_received c + length d, rf_field := fld\<rparr>)"
    using rf_hex [of ?c4 d] assms by (auto simp: zero_field_def)
  have 6: "rf_run ?c4 (34 # hex_bytes d @ [34, 44]) = Some (?c4\<lparr>rf_data := d @ drop (length d) (rf_data c),
      rf_dataidx := length d, rf_received := rf_received c + length d, rf_field := fld,
      rf_fieldindex := 0, rf_complete := True\<rparr>)" (is "_ = Some ?c6")
    using 5 assms(8) by (simp add: rf_run_append nsorf_char_def nsorf_comma_def Let_def)
  have "rf_run ?c6 remaining = Some ?c6" by (rule rf_complete_run) simp
  then have "rf_run c (nsorf_line fd ip port len d remaining) = Some ?c6"
    by (simp only: nsorf_line_def rf_run_then [OF 1] rf_run_then [OF 2] rf_run_then [OF 3]
        rf_run_then [OF 4] rf_run_then [OF 6])
  then show ?thesis by (intro exI [of _ fld], cases c) simp
qed

text \<open>A line of blanks, or an unsolicited result code, changes nothing before the answer; after it nothing does.\<close>
definition blank_line :: "bytes \<Rightarrow> bool" where
  "blank_line l \<longleftrightarrow> (\<forall>b \<in> set l. isspace b)"

lemma rf_blank_run: "\<forall>b \<in> set bs. isspace b \<Longrightarrow> rf_run c bs = Some c"
  by (induction bs) (simp_all add: nsorf_char_def)

interpretation nsorf: response_decoder nsorf_char nsorf_eol
  "\<lambda>c l. if rf_complete c then rf_remaining c = 0 else blank_line l \<or> urc_line l" rf_complete
proof unfold_locales
  fix c :: nsorf_ctx and l
  assume q: "if rf_complete c then rf_remaining c = 0 else blank_line l \<or> urc_line l"
  have "run_chars nsorf_char c [] (l @ [13, 10]) = Some c"
  proof (cases "urc_line l")
    case True
    then have "hd (l @ [13, 10]) = 43" by (cases l) (simp_all add: urc_line_def)
    then show ?thesis by (simp add: run_nsorf)
  next
    case False
    then have "rf_run c (l @ [13, 10]) = Some c"
      using q rf_complete_run [of c] rf_blank_run [of "l @ [13, 10]" c]
      by (cases "rf_complete c") (simp_all add: blank_line_def isspace_def)
    then show ?thesis by (simp add: run_nsorf)
  qed
  moreover have "c\<lparr>rf_remaining := 0\<rparr> = c" if "rf_remaining c = 0" using that by (cases c) simp
  ultimately show "line_ctx nsorf_char nsorf_eol c l = Some c"
    using q by (simp add: line_ctx_def nsorf_eol_def split: if_splits)
next
  fix c :: nsorf_ctx and r
  assume "rf_complete c"
  then show "run_chars nsorf_char c [] (final_chars r) = Some c"
    by (cases "final_chars r") (simp_all add: run_nsorf rf_complete_run del: run_chars.simps(2) rf_run.simps(2))
qed

section \<open>Identifiers\<close>

lemma id_text:
  assumes "\<And>c rb b u sp. cc c rb b u sp = (if id_done c \<or> skip u \<or> sp then Some c
      else do { s \<leftarrow> wr (id_str c) (id_index c) b; Some (c\<lparr>id_str := s, id_index := id_index c + 1\<rparr>) })"
    "\<not> id_done c" "\<not> skip (hd (pre @ bs) = 43)" "pre @ bs \<noteq> []"
    "id_index c + length (filter (\<lambda>b. \<not> isspace b) bs) \<le> length (id_str c)"
  shows "run_chars cc c pre bs = Some (c\<lparr>
     id_str := take (id_index c) (id_str c) @ filter (\<lambda>b. \<not> isspace b) bs @
       drop (id_index c + length (filter (\<lambda>b. \<not> isspace b) bs)) (id_str c),
     id_index := id_index c + length (filter (\<lambda>b. \<not> isspace b) bs)\<rparr>)"
  using assms(2-)
proof (induction bs arbitrary: c pre)
  case Nil
  then show ?case by (cases c) simp
next
  case (Cons b bs)
  have u: "\<not> skip (urc_line (pre @ [b]))" using Cons.prems(2) by (cases pre) (simp_all add: urc_line_def)
  show ?case
  proof (cases "isspace b")
    case True
    then show ?thesis using Cons.IH [of c "pre @ [b]"] Cons.prems by (simp add: assms(1))
  next
    case False
    then have i: "id_index c < length (id_str c)" using Cons.prems(4) by simp
    let ?d = "c\<lparr>id_str := (id_str c)[id_index c := b], id_index := id_index c + 1\<rparr>"
    have "run_chars cc c pre (b # bs) = run_chars cc ?d (pre @ [b]) bs"
      using False u Cons.prems(1) i by (simp add: assms(1) wr_in)
    then show ?thesis
      using Cons.IH [of ?d "pre @ [b]"] False Cons.prems i by (simp add: take_Suc_conv_app_nth)
  qed
qed

lemma cimi_char_alt: "cimi_char c rb b u sp = (if id_done c \<or> u \<or> sp then Some c
    else do { s \<leftarrow> wr (id_str c) (id_index c) b; Some (c\<lparr>id_str := s, id_index := id_index c + 1\<rparr>) })"
  by (simp add: cimi_char_def)

lemma cgsn_char_alt: "cgsn_char c rb b u sp = (if id_done c \<or> False \<or> sp then Some c
    else do { s \<leftarrow> wr (id_str c) (id_index c) b; Some (c\<lparr>id_str := s, id_index := id_index c + 1\<rparr>) })"
  by (simp add: cgsn_char_def)

lemma cimi_quiet_chars:
  assumes "id_done c \<or> hd (pre @ bs) = 43 \<or> (\<forall>b \<in> set bs. isspace b)" "pre @ bs \<noteq> []"
  shows "run_chars cimi_char c pre bs = Some c"
  using assms
proof (induction bs arbitrary: pre)
  case (Cons b bs)
  have "urc_line (pre @ [b]) \<longleftrightarrow> hd (pre @ b # bs) = 43" by (cases pre) (simp_all add: urc_line_def)
  then show ?case using Cons.IH [of "pre @ [b]"] Cons.prems by (auto simp: cimi_char_alt)
qed simp

lemma cgsn_quiet_chars:
  "id_done c \<or> (\<forall>b \<in> set bs. isspace b) \<Longrightarrow> run_chars cgsn_char c pre bs = Some c"
  by (induction bs arbitrary: pre) (auto simp: cgsn_char_alt)

interpretation cimi: response_decoder cimi_char cimi_eol
  "\<lambda>c l. id_done c \<or> id_index c = 0 \<and> (blank_line l \<or> urc_line l)" id_done
proof unfold_locales
  fix c :: id_ctx and l
  assume q: "id_done c \<or> id_index c = 0 \<and> (blank_line l \<or> urc_line l)"
  have "urc_line l \<Longrightarrow> hd (l @ [13, 10]) = 43" by (cases l) (simp_all add: urc_line_def)
  then have "run_chars cimi_char c [] (l @ [13, 10]) = Some c"
    using q by (intro cimi_quiet_chars) (auto simp: blank_line_def isspace_def)
  then show "line_ctx cimi_char cimi_eol c l = Some c"
    using q by (auto simp: line_ctx_def cimi_eol_def)
next
  fix c :: id_ctx and r
  assume "id_done c"
  then show "run_chars cimi_char c [] (final_chars r) = Some c"
    by (cases "final_chars r") (simp_all add: cimi_quiet_chars del: run_chars.simps(2))
qed

interpretation cgsn: response_decoder cgsn_char cgsn_eol
  "\<lambda>c l. id_done c \<or> id_index c = 0 \<and> blank_line l" id_done
proof unfold_locales
  fix c :: id_ctx and l
  assume q: "id_done c \<or> id_index c = 0 \<and> blank_line l"
  have "run_chars cgsn_char c [] (l @ [13, 10]) = Some c"
    by (rule cgsn_quiet_chars) (use q in \<open>auto simp: blank_line_def isspace_def\<close>)
  then show "line_ctx cgsn_char cgsn_eol c l = Some c"
    using q by (auto simp: line_ctx_def cgsn_eol_def)
qed (simp add: cgsn_quiet_chars)

text \<open>The answer line of both: its characters without blanks become the identifier.\<close>
lemma id_answer_line:
  assumes "t = filter (\<lambda>b. \<not> isspace b) l" "t \<noteq> []" "length t < length (id_str c)" "\<not> id_done c" "id_index c = 0"
  shows "\<not> urc_line l \<Longrightarrow> line_ctx cimi_char cimi_eol c l = Some (c\<lparr>id_str := t @ 0 # drop (Suc (length t)) (id_str c),
      id_index := length t, id_done := True\<rparr>)"
    and "line_ctx cgsn_char cgsn_eol c l = Some (c\<lparr>id_str := t @ 0 # drop (Suc (length t)) (id_str c),
      id_index := length t, id_done := True\<rparr>)"
proof -
  have nl: "isspace 13" "isspace 10" by (simp_all add: isspace_def)
  have h: "\<not> urc_line l \<Longrightarrow> hd (l @ [13, 10]) \<noteq> 43" by (cases l) (simp_all add: urc_line_def)
  have w: "wr (t @ drop (length t) (id_str c)) (length t) 0 = Some (t @ 0 # drop (Suc (length t)) (id_str c))"
    using assms(3) by (simp add: wr_def list_update_append flip: Cons_nth_drop_Suc)
  show "line_ctx cimi_char cimi_eol c l = Some (c\<lparr>id_str := t @ 0 # drop (Suc (length t)) (id_str c),
      id_index := length t, id_done := True\<rparr>)" if "\<not> urc_line l"
    using id_text [of cimi_char "\<lambda>u. u" c "[]" "l @ [13, 10]", OF cimi_char_alt] assms w nl h [OF that]
    by (simp add: line_ctx_def cimi_eol_def del: run_chars.simps)
  show "line_ctx cgsn_char cgsn_eol c l = Some (c\<lparr>id_str := t @ 0 # drop (Suc (length t)) (id_str c),
      id_index := length t, id_done := True\<rparr>)"
    using id_text [of cgsn_char "\<lambda>u. False" c "[]" "l @ [13, 10]", OF cgsn_char_alt] assms w nl
    by (simp add: line_ctx_def cgsn_eol_def del: run_chars.simps)
qed

lemma decode_loop_total:
  "length (b_data rb) = B_SIZE \<Longrightarrow> decode_loop no_char no_eol ctx rb prev u rx \<noteq> None"
proof (induction rx arbitrary: rb prev u)
  case (Cons x rx)
  show ?case
  proof (cases x)
    case (Some b)
    let ?rb = "b_add rb b"
    have l: "length (b_data ?rb) = B_SIZE" "length (b_data b_reset) = B_SIZE"
      using Cons.prems by (simp_all add: b_add_def b_reset_def Let_def)
    have lits: "b_is ?rb OK_LINE 4 = Some (take 4 (b_data ?rb) = OK_LINE)"
      "b_is ?rb ERROR_LINE 7 = Some (take 7 (b_data ?rb) = ERROR_LINE)"
      unfolding b_is_def using l(1)
      by (intro strncmp_eq_literal; simp add: OK_LINE_def ERROR_LINE_def B_SIZE_def)+
    obtain ok err where
      "(if 4 \<le> b_size ?rb then b_is ?rb OK_LINE 4 else Some False) = Some ok"
      "(if 4 \<le> b_size ?rb then b_is ?rb ERROR_LINE 7 else Some False) = Some err"
      using lits by (cases "4 \<le> b_size ?rb") auto
    then show ?thesis
      using Cons.IH [OF l(1)] Cons.IH [OF l(2)] Some by (simp add: Let_def no_char_def no_eol_def)
  qed simp
qed simp

text \<open>Waiting for a result always ends: the decoder without callbacks has no undefined behaviour.\<close>
lemma at_decode_total: "\<exists>r rx'. at_decode rx = Some (r, rx')"
  using decode_loop_total [of b_reset "()" 32 False rx]
  by (force simp: at_decode_def decode_input_def b_reset_def)

lemma generic_total: "\<exists>r rx'. at_generic_decode rx = Some (r, rx')" "\<exists>r rx'. atnrb_decode rx = Some (r, rx')"
  "\<exists>r rx'. atnsocl_decode rx = Some (r, rx')"
  using at_decode_total [of rx]
  by (simp_all add: at_generic_decode_def atnsocl_decode_def atnrb_decode_def flip: at_decode_def)

lemma cgpaddr_decodes:
  assumes "\<forall>l \<in> set before \<union> set after. plain_line l \<and> take 9 l \<noteq> CGPADDR_PREFIX"
    "10 \<notin> set t" "13 \<notin> set t" "length t < 65000" "ans = filter (\<lambda>b. \<not> isspace b) t" "length ans \<le> 20"
    "length (quoted ans) < length address" "r \<in> {AT_OK, AT_ERROR, AT_TIMEOUT}"
  shows "atcgpaddr_decode address len (map Some (wire (before @ (CGPADDR_PREFIX @ t) # after)) @ final_bytes r @ rx) =
     Some (r, quoted ans @ 0 # drop (length (quoted ans) + 1) address, length (quoted ans), rx)"
proof -
  let ?c = "\<lparr>in_address = False, cgp_address = address, cgp_buffer = replicate 20 0, cgp_len = len, cgp_i = 0\<rparr>"
  have p: "plain_line (CGPADDR_PREFIX @ t)"
    using assms(2-4) by (simp add: plain_line_def CGPADDR_PREFIX_def)
  obtain buf where "line_ctx cgpaddr_char cgpaddr_eol ?c (CGPADDR_PREFIX @ t) = Some (?c\<lparr>
     cgp_address := quoted ans @ 0 # drop (length (quoted ans) + 1) address,
     cgp_len := length (quoted ans), cgp_buffer := buf, cgp_i := length ans\<rparr>)" (is "_ = Some ?d")
    using cgp_answer_line [of ?c ans t] assms(4-7) by auto
  then have "decode_input cgpaddr_char cgpaddr_eol ?c
      (map Some (wire (before @ (CGPADDR_PREFIX @ t) # after)) @ final_bytes r @ rx) = Some (r, ?d, rx)"
    using assms(1,8) p by (intro cgp.answer) auto
  then show ?thesis by (simp add: atcgpaddr_decode_def)
qed

lemma nsorf_decodes:
  assumes "\<forall>l \<in> set before. plain_line l \<and> (blank_line l \<or> urc_line l)" "\<forall>l \<in> set after. plain_line l"
    "fd < 10 ^ 9" "p < 10 ^ 9" "len < 10 ^ 9" "\<forall>b \<in> set addr. rf_char b \<and> b \<noteq> 0" "length addr < 16"
    "length addr < length ip" "length d \<le> length data" "length d \<le> 512"
    "plain_line rest" "length rest \<le> 512" "r \<in> {AT_OK, AT_ERROR, AT_TIMEOUT}"
  shows "\<exists>c. atnsorf_decode sockfd ip port data received remaining
       (map Some (wire (before @ nsorf_line fd addr p len d rest # after)) @ final_bytes r @ rx) = Some (r, c, rx) \<and>
     rf_sockfd c = int fd \<and> rf_port c = int p \<and> c_str (rf_ip c) = Some addr \<and>
     rf_data c = d @ drop (length d) data \<and> rf_received c = received + length d \<and> rf_remaining c = 0"
proof -
  let ?l = "nsorf_line fd addr p len d rest"
  let ?c = "\<lparr>rf_sockfd = sockfd, rf_ip = ip, rf_port = port, rf_data = data, rf_remaining = remaining,
     rf_received = received, rf_fieldno = 0, rf_fieldindex = 0, rf_field = replicate MAX_FIELD_SIZE 0,
     rf_dataidx = 0, rf_complete = False\<rparr>"
  have hex: "b \<notin> set (hex_bytes d)" if "isspace b" for b
  proof -
    have "\<forall>x \<in> set (hex_bytes d). rf_char x"
      by (auto simp: hex_bytes_def hex_byte_def high_nibble_less intro!: rf_char_hex)
    then show ?thesis using that by (auto simp: rf_char_def)
  qed
  have lens: "length (hex_bytes d) = 2 * length d" by (induction d) (simp_all add: hex_byte_def)
  have sp: "isspace 13" "isspace 10" by (simp_all add: isspace_def)
  have noaddr: "10 \<notin> set addr" "13 \<notin> set addr" using assms(6) sp by (auto simp: rf_char_def)
  have nodig: "10 \<notin> set (dec_digits n)" "13 \<notin> set (dec_digits n)" for n
    by (simp_all add: not_in_dec_digits isdigit_def)
  have plain: "plain_line ?l"
    using hex [of 10] hex [of 13] sp noaddr nodig assms(7,10-12) lens
      dec_digits_line(1) [OF assms(3)] dec_digits_line(1) [OF assms(4)] dec_digits_line(1) [OF assms(5)]
    by (auto simp: plain_line_def nsorf_line_def dest!: arg_cong [where f = "\<lambda>l. (44 :: u8) \<in> set l"])
  have nurc: "hd (?l @ [13, 10]) \<noteq> 43" "\<not> urc_line ?l"
    using dec_digits_line(3) [OF assms(3)] dec_digits_nonempty [of fd]
    by (simp_all add: nsorf_line_def urc_line_def)
  obtain fld where "rf_run ?c ?l = Some (?c\<lparr>rf_sockfd := int fd,
     rf_ip := addr @ 0 # drop (Suc (length addr)) ip, rf_port := int p,
     rf_data := d @ drop (length d) data, rf_dataidx := length d,
     rf_received := received + length d, rf_fieldno := 4, rf_fieldindex := 0, rf_field := fld,
     rf_complete := True\<rparr>)" (is "_ = Some ?d")
    using nsorf_fields [of fd p len addr ?c d rest] assms(3-9) by (auto simp: zero_field_def MAX_FIELD_SIZE_def)
  then have "run_chars nsorf_char ?c [] (?l @ [13, 10]) = Some ?d"
    using nurc(1) by (simp add: run_nsorf rf_run_then rf_complete_run del: rf_run.simps)
  then have "line_ctx nsorf_char nsorf_eol ?c ?l = Some (?d\<lparr>rf_remaining := 0\<rparr>)"
    by (simp add: line_ctx_def nsorf_eol_def)
  then have "decode_input nsorf_char nsorf_eol ?c (map Some (wire (before @ ?l # after)) @ final_bytes r @ rx) =
      Some (r, ?d\<lparr>rf_remaining := 0\<rparr>, rx)"
    using assms(1,2,13) plain by (intro nsorf.answer) auto
  moreover have "c_str (addr @ 0 # drop (Suc (length addr)) ip) = Some addr"
    using assms(6) by (intro c_str_append) auto
  ultimately show ?thesis by (simp add: atnsorf_decode_def)
qed

lemma nsocr_decodes:
  assumes "\<forall>l \<in> set before \<union> set after. plain_line l \<and> (l = [] \<or> urc_line l)" "n < 10 ^ 9"
    "r \<in> {AT_OK, AT_ERROR, AT_TIMEOUT}"
  shows "atnsocr_decode (map Some (wire (before @ dec_digits n # after)) @ final_bytes r @ rx) = Some (r, int n, rx)"
  unfolding atnsocr_decode_def
  using assms dec_digits_line(2) [OF assms(2)] nsocr_answer_line [OF assms(2)]
  by (intro nsocr.answer) auto

text \<open>There are only three results.\<close>
lemma decode_loop_result:
  "decode_loop cc ec ctx rb prev u rx = Some (r, c, rx') \<Longrightarrow> r \<in> {AT_OK, AT_ERROR, AT_TIMEOUT}"
proof (induction rx arbitrary: ctx rb prev u)
  case (Cons x rx)
  then show ?case
    by (cases x) (auto simp: Let_def Option.bind_eq_Some_conv split: if_split_asm dest!: Cons.IH)
qed simp

section \<open>Properties\<close>

text \<open>C29: Whatever other lines a response has, the generic decoder consumes the bytes up to its
  end exactly and reports whether it ended with OK, with ERROR or with a timeout.\<close>
theorem at_result_exact:
  assumes "\<forall>l \<in> set ls. plain_line l" "r \<in> {AT_OK, AT_ERROR, AT_TIMEOUT}"
  shows "at_generic_decode (map Some (wire ls) @ final_bytes r @ rx) = Some (r, rx)"
proof -
  have "lines_ctx no_char no_eol () ls = Some ()"
    using silent.quiet_lines [of ls "()" "[]"] assms(1) by simp
  then show ?thesis
    using assms by (simp add: at_generic_decode_def at_decode_def decode_response)
qed

theorem at_result_exact_witness:
  "at_generic_decode (map Some (wire [[43, 78], [], [79, 75, 33]]) @ final_bytes AT_ERROR @ [Some 7]) =
     Some (AT_ERROR, [Some 7])"
  by (rule at_result_exact) (simp_all add: plain_line_def)

text \<open>C28: In a response to AT+CGPADDR with any other lines around the answer, the decoder stores
  the quoted address of the answer line as a C string and its length, whatever the result, provided
  that the text of the answer has at most 20 characters and the address fits its array.\<close>
theorem cgpaddr_answer:
  assumes "\<forall>l \<in> set before \<union> set after. plain_line l \<and> take 9 l \<noteq> CGPADDR_PREFIX"
    "10 \<notin> set t" "13 \<notin> set t" "length t < 65000" "ans = filter (\<lambda>b. \<not> isspace b) t" "length ans \<le> 20"
    "length (quoted ans) < length address" "r \<in> {AT_OK, AT_ERROR, AT_TIMEOUT}"
  shows "atcgpaddr_decode address len (map Some (wire (before @ (CGPADDR_PREFIX @ t) # after)) @ final_bytes r @ rx) =
     Some (r, quoted ans @ 0 # drop (length (quoted ans) + 1) address, length (quoted ans), rx)"
  by (rule cgpaddr_decodes [OF assms])

theorem cgpaddr_answer_witness:
  "atcgpaddr_decode (replicate 16 7) 0 (map Some (wire ([[]] @
     (CGPADDR_PREFIX @ [32, 48, 44, 34, 49, 46, 50, 34]) # [[]])) @ final_bytes AT_OK @ []) =
   Some (AT_OK, [49, 46, 50, 0] @ replicate 12 7, 3, [])"
  using cgpaddr_answer [of "[[]]" "[[]]" "[32, 48, 44, 34, 49, 46, 50, 34]" "[48, 44, 34, 49, 46, 50, 34]"
      "replicate 16 7" AT_OK 0 "[]"]
  by (simp add: plain_line_def CGPADDR_PREFIX_def quoted_def isspace_def drop_replicate)

text \<open>C27: A response to AT+NSORF delivers the data bytes that the modem has printed as upper-case
  hexadecimal digits, with the socket, the address and the port of the sender, whatever blank or
  unsolicited lines come before the answer and whatever lines come behind it. The result is the status of the response (0 for OK), not the number of bytes that
  \<open>at_commands.h\<close> documents, and the remaining length is set to 0 whatever the last field of the answer says.\<close>
theorem nsorf_answer:
  assumes "\<forall>l \<in> set before. plain_line l \<and> (blank_line l \<or> urc_line l)" "\<forall>l \<in> set after. plain_line l"
    "fd < 10 ^ 9" "p < 10 ^ 9" "len < 10 ^ 9" "\<forall>b \<in> set addr. rf_char b \<and> b \<noteq> 0" "length addr < 16"
    "length addr < length ip" "length d \<le> length data" "length d \<le> 512"
    "plain_line rest" "length rest \<le> 512" "r \<in> {AT_OK, AT_ERROR, AT_TIMEOUT}"
  shows "\<exists>c. atnsorf_decode sockfd ip port data received remaining
       (map Some (wire (before @ nsorf_line fd addr p len d rest # after)) @ final_bytes r @ rx) = Some (r, c, rx) \<and>
     rf_sockfd c = int fd \<and> rf_port c = int p \<and> c_str (rf_ip c) = Some addr \<and>
     rf_data c = d @ drop (length d) data \<and> rf_received c = received + length d \<and> rf_remaining c = 0"
  by (rule nsorf_decodes [OF assms])

theorem nsorf_answer_witness:
  "\<exists>c. atnsorf_decode 0 (replicate 16 0) 0 (replicate 512 9) 0 7
       (map Some (wire ([[]] @ nsorf_line 1 [49, 46, 50] 5683 3 [1, 0xAB, 0xFF] [48] # [[]])) @ final_bytes AT_OK @ []) =
     Some (AT_OK, c, []) \<and> rf_sockfd c = 1 \<and> rf_port c = 5683 \<and> c_str (rf_ip c) = Some [49, 46, 50] \<and>
     rf_data c = [1, 0xAB, 0xFF] @ replicate 509 9 \<and> rf_received c = 3 \<and> rf_remaining c = 0"
  using nsorf_answer [of "[[]]" "[[]]" 1 5683 3 "[49, 46, 50]" "replicate 16 0" "[1, 0xAB, 0xFF]"
      "replicate 512 9" "[48]" AT_OK 0 0 0 7 "[]"]
  by (simp add: plain_line_def blank_line_def rf_char_def isspace_def drop_replicate numeral_3_eq_3)

text \<open>A response to AT+NSOCR with a socket number of at most nine digits gives that number,
  whatever empty or unsolicited lines stand around it.\<close>
theorem nsocr_answer:
  assumes "\<forall>l \<in> set before \<union> set after. plain_line l \<and> (l = [] \<or> urc_line l)" "n < 10 ^ 9"
    "r \<in> {AT_OK, AT_ERROR, AT_TIMEOUT}"
  shows "atnsocr_decode (map Some (wire (before @ dec_digits n # after)) @ final_bytes r @ rx) = Some (r, int n, rx)"
  by (rule nsocr_decodes [OF assms])

theorem nsocr_answer_witness:
  "atnsocr_decode (map Some (wire ([[]] @ dec_digits 3 # [[43, 65]])) @ final_bytes AT_OK @ []) = Some (AT_OK, 3, [])"
  using nsocr_answer [of "[[]]" "[[43, 65]]" 3 AT_OK "[]"] by (simp add: plain_line_def urc_line_def)

text \<open>A response to AT+NSOST gives the socket number and the number of bytes sent, of its
  first answer line.\<close>
theorem nsost_answer:
  assumes "\<forall>l \<in> set before. plain_line l \<and> (l = [] \<or> urc_line l)" "\<forall>l \<in> set after. plain_line l"
    "fd < 10" "0 < n" "n < 10 ^ 7" "r \<in> {AT_OK, AT_ERROR, AT_TIMEOUT}"
  shows "atnsost_decode f 0 (map Some (wire (before @ ((48 + of_nat fd) # 44 # dec_digits n) # after)) @ final_bytes r @ rx) =
     Some (r, \<lparr>nsost_fd = int fd, nsost_len = of_nat n\<rparr>, rx)"
proof -
  have "unat (of_nat n :: u32) = n" using assms(5) by (simp add: unat_of_nat)
  then have nz: "(of_nat n :: u32) \<noteq> 0" using assms(4) by (metis less_irrefl unat_0 unsigned_0)
  have l: "10 \<notin> set (dec_digits n)" "13 \<notin> set (dec_digits n)" by (simp_all add: not_in_dec_digits isdigit_def)
  have "\<not> isspace (48 + of_nat fd)" using isdigit_not_special [OF digit_byte(1) [OF assms(3)]] by blast
  then have d: "(48 + of_nat fd :: u8) \<noteq> 10" "(48 + of_nat fd :: u8) \<noteq> 13" 
    by (metis isspace_newline)+
  have "length (dec_digits n) \<le> 7" using length_dec_digits [of n 7] assms(5) by simp
  then have plain: "plain_line ((48 + of_nat fd) # 44 # dec_digits n)" using l d by (auto simp: plain_line_def)
  show ?thesis
    unfolding atnsost_decode_def
    using assms plain nsost_answer_line [of fd n "\<lparr>nsost_fd = f, nsost_len = 0\<rparr>"] nz
    by (intro nsost.answer) auto
qed

theorem nsost_answer_witness:
  "atnsost_decode (-1) 0 (map Some (wire ([[]] @ ((48 + of_nat 2) # 44 # dec_digits 512) # [[]])) @ final_bytes AT_OK @ []) =
     Some (AT_OK, \<lparr>nsost_fd = 2, nsost_len = 512\<rparr>, [])"
  using nsost_answer [of "[[]]" "[[]]" 2 512 AT_OK "-1" "[]"] by (simp add: plain_line_def)

text \<open>The answer to AT+CIMI or AT+CGSN is stored as a C string without its blanks, whatever
  lines follow, as long as it is shorter than the array.\<close>
theorem identifier_answer:
  assumes "\<forall>l \<in> set before. plain_line l \<and> blank_line l" "\<forall>l \<in> set after. plain_line l" "plain_line l"
    "t = filter (\<lambda>b. \<not> isspace b) l" "t \<noteq> []" "length t < length str" "r \<in> {AT_OK, AT_ERROR, AT_TIMEOUT}"
  shows "atcgsn_decode str (map Some (wire (before @ l # after)) @ final_bytes r @ rx) =
      Some (r, t @ 0 # drop (Suc (length t)) str, rx) \<and>
    (\<not> urc_line l \<longrightarrow> atcimi_decode str (map Some (wire (before @ l # after)) @ final_bytes r @ rx) =
      Some (r, t @ 0 # drop (Suc (length t)) str, rx))"
proof (intro conjI impI)
  let ?c = "\<lparr>id_str = str, id_index = 0, id_done = False\<rparr>"
  let ?d = "\<lparr>id_str = t @ 0 # drop (Suc (length t)) str, id_index = length t, id_done = True\<rparr>"
  have "decode_input cgsn_char cgsn_eol ?c (map Some (wire (before @ l # after)) @ final_bytes r @ rx) = Some (r, ?d, rx)"
    using assms id_answer_line(2) [of t l ?c] by (intro cgsn.answer) auto
  then show "atcgsn_decode str (map Some (wire (before @ l # after)) @ final_bytes r @ rx) =
      Some (r, t @ 0 # drop (Suc (length t)) str, rx)"
    by (simp add: atcgsn_decode_def)
  assume "\<not> urc_line l"
  then have "decode_input cimi_char cimi_eol ?c (map Some (wire (before @ l # after)) @ final_bytes r @ rx) = Some (r, ?d, rx)"
    using assms id_answer_line(1) [of t l ?c] by (intro cimi.answer) auto
  then show "atcimi_decode str (map Some (wire (before @ l # after)) @ final_bytes r @ rx) =
      Some (r, t @ 0 # drop (Suc (length t)) str, rx)"
    by (simp add: atcimi_decode_def)
qed

theorem identifier_answer_witness:
  "atcgsn_decode (replicate 24 0) (map Some (wire ([[]] @ [43, 67, 58, 32, 49] # [[]])) @ final_bytes AT_OK @ []) =
      Some (AT_OK, [43, 67, 58, 49, 0] @ replicate 19 0, [])"
  using identifier_answer [of "[[]]" "[[]]" "[43, 67, 58, 32, 49]" "[43, 67, 58, 49]" "replicate 24 0" AT_OK "[]"]
  by (simp add: plain_line_def blank_line_def isspace_def drop_replicate)

lemma cgp_overflow_chars:
  assumes "in_address c" "9 \<le> length pre" "length (pre @ t) < 65536" "cgp_i c \<le> length (cgp_buffer c)"
    "length (cgp_buffer c) < cgp_i c + length (filter (\<lambda>b. \<not> isspace b) t)"
  shows "run_chars cgpaddr_char c pre t = None"
  using assms
proof (induction t arbitrary: c pre)
  case (Cons b t)
  have np: "pre @ [b] \<noteq> CGPADDR_PREFIX"
    using Cons.prems(2) by (auto simp: CGPADDR_PREFIX_def dest: arg_cong [where f = length])
  show ?case
  proof (cases "isspace b \<or> length (cgp_buffer c) \<le> cgp_i c")
    case True
    then show ?thesis
      using Cons.IH [of c "pre @ [b]"] Cons.prems np by (auto simp: cgpaddr_char_line wr_out split: if_splits)
  next
    case False
    let ?d = "c\<lparr>cgp_buffer := (cgp_buffer c)[cgp_i c := b], cgp_i := cgp_i c + 1\<rparr>"
    show ?thesis
      using Cons.IH [of ?d "pre @ [b]"] Cons.prems False np by (simp add: cgpaddr_char_line wr_in)
  qed
qed simp

text \<open>An answer to AT+CGPADDR with more than 20 characters behind its prefix makes the decoder
  write outside its 20-byte buffer.\<close>
theorem cgpaddr_overflow:
  assumes "\<forall>l \<in> set before. plain_line l \<and> take 9 l \<noteq> CGPADDR_PREFIX" "10 \<notin> set t" "length t < 65000"
    "20 < length (filter (\<lambda>b. \<not> isspace b) t)"
  shows "atcgpaddr_decode address len (map Some (wire before @ CGPADDR_PREFIX @ t) @ rx) = None"
proof -
  let ?c = "\<lparr>in_address = False, cgp_address = address, cgp_buffer = replicate 20 0, cgp_len = len, cgp_i = 0\<rparr>"
  have "lines_ctx cgpaddr_char cgpaddr_eol ?c before = Some ?c"
    using cgp.quiet_lines [of before ?c "[]"] assms(1) by simp
  then have "decode_input cgpaddr_char cgpaddr_eol ?c (map Some (wire before @ CGPADDR_PREFIX @ t) @ rx) =
      decode_loop cgpaddr_char cgpaddr_eol ?c b_reset (if before = [] then 32 else 10) False
        (map Some (CGPADDR_PREFIX @ t) @ rx)"
    using decode_lines [of before cgpaddr_char cgpaddr_eol ?c 32 "map Some (CGPADDR_PREFIX @ t) @ rx"] assms(1)
    by (simp add: decode_input_def)
  also have "\<dots> = None"
  proof -
    have p: "10 \<notin> set CGPADDR_PREFIX" "length CGPADDR_PREFIX = 9" by (simp_all add: CGPADDR_PREFIX_def)
    have "run_chars cgpaddr_char (?c\<lparr>in_address := True\<rparr>) CGPADDR_PREFIX t = None"
      using assms(3,4) p(2) by (intro cgp_overflow_chars) simp_all
    then have "run_chars cgpaddr_char ?c [] (CGPADDR_PREFIX @ t) = None"
      by (simp add: run_chars_append cgp_prefix)
    then show ?thesis
      using decode_loop_chars [of "[]" "CGPADDR_PREFIX @ t" cgpaddr_char cgpaddr_eol ?c
        "if before = [] then 32 else 10" rx] assms(2,3) p
      by (simp add: urc_line_def del: run_chars.simps decode_loop.simps)
  qed
  finally show ?thesis by (simp add: atcgpaddr_decode_def)
qed

theorem cgpaddr_overflow_witness:
  "atcgpaddr_decode (replicate 64 0) 0
     (map Some (wire [[]] @ CGPADDR_PREFIX @ 32 # replicate 21 65) @ [None]) = None"
  by (rule cgpaddr_overflow) (simp_all add: plain_line_def CGPADDR_PREFIX_def isspace_def)

end
