(* ===== verification/Comms.thy ===== *)
theory Comms
  imports At_Commands
begin

text \<open>
  Modem communication (\<open>comms.c\<close>). The first part is the byte path: the interrupt-side callback
  \<open>comms_handle_char\<close>, the thread that looks for +NSONMI notifications, and \<open>modem_read\<close>. The
  ring buffers and semaphores belong to the kernel; they are parameters, with the documented
  behaviour stated as a contract. The second part are the command sequences, which write commands
  and wait for results: their effect is a trace of events, their input a script of arrivals.
\<close>

section \<open>The kernel objects\<close>

text \<open>Ring buffers in byte mode and counting semaphores, as parameters.\<close>
record ('r, 's) kernel =
  ring_put :: "'r \<Rightarrow> u8 \<Rightarrow> nat \<times> 'r"
  ring_get :: "'r \<Rightarrow> u8 option \<times> 'r"
  sem_give :: "'s \<Rightarrow> 's"
  sem_take :: "'s \<Rightarrow> int \<times> 's"

text \<open>
  What the documentation promises: a ring buffer is a queue with a capacity of its own whose put reports the
  number of bytes stored; \<open>k_sem_give\<close> counts up to the limit of the semaphore, \<open>k_sem_take\<close> returns 0 exactly
  when it could count down.
\<close>
definition ring_contract :: "('r, 's) kernel \<Rightarrow> ('r \<Rightarrow> bytes) \<Rightarrow> ('r \<Rightarrow> nat) \<Rightarrow> bool" where
  "ring_contract k content cap \<longleftrightarrow>
     (\<forall>r b. cap (snd (ring_put k r b)) = cap r \<and>
           (if length (content r) < cap r
            then fst (ring_put k r b) = 1 \<and> content (snd (ring_put k r b)) = content r @ [b]
            else fst (ring_put k r b) = 0 \<and> content (snd (ring_put k r b)) = content r)) \<and>
     (\<forall>r. cap (snd (ring_get k r)) = cap r \<and>
          (case content r of
            [] \<Rightarrow> fst (ring_get k r) = None \<and> content (snd (ring_get k r)) = []
          | b # bs \<Rightarrow> fst (ring_get k r) = Some b \<and> content (snd (ring_get k r)) = bs))"

definition sem_contract :: "('r, 's) kernel \<Rightarrow> ('s \<Rightarrow> nat) \<Rightarrow> ('s \<Rightarrow> nat) \<Rightarrow> bool" where
  "sem_contract k count limit \<longleftrightarrow>
     (\<forall>s. limit (sem_give k s) = limit s \<and> count (sem_give k s) = min (limit s) (count s + 1)) \<and>
     (\<forall>s. limit (snd (sem_take k s)) = limit s \<and>
          (if count s = 0 then fst (sem_take k s) \<noteq> 0 \<and> count (snd (sem_take k s)) = 0
           else fst (sem_take k s) = 0 \<and> count (snd (sem_take k s)) = count s - 1))"

section \<open>The byte path\<close>

definition RB_SIZE :: nat where "RB_SIZE = 255"
definition URC_SIZE :: nat where "URC_SIZE = 64"

record ('r, 's) comms =
  rx_rb :: 'r
  rx_sem :: 's
  urc_rb :: 'r
  urc_sem :: 's
  prev_char :: u8
  in_urc :: bool

definition comms_handle_char :: "('r, 's) kernel \<Rightarrow> u8 \<Rightarrow> ('r, 's) comms \<Rightarrow> ('r, 's) comms" where
  "comms_handle_char k data s =
     (let s = (if prev_char s = 10 \<and> data = 43 then s\<lparr>in_urc := True\<rparr> else s);
          s = (if in_urc s
               then s\<lparr>urc_rb := snd (ring_put k (urc_rb s) data), urc_sem := sem_give k (urc_sem s)\<rparr> else s);
          s = (if in_urc s \<and> data = 13 then s\<lparr>in_urc := False\<rparr> else s);
          r = ring_put k (rx_rb s) data;
          s = s\<lparr>rx_rb := snd r\<rparr>
      in if fst r \<noteq> 1 then s
         else s\<lparr>prev_char := data, rx_sem := sem_give k (rx_sem s)\<rparr>)"

text \<open>\<open>modem_read\<close>: \<open>Some b\<close> is the result true with the byte.\<close>
definition modem_read :: "('r, 's) kernel \<Rightarrow> ('r, 's) comms \<Rightarrow> u8 option \<times> ('r, 's) comms" where
  "modem_read k s =
     (let t = sem_take k (rx_sem s); s = s\<lparr>rx_sem := snd t\<rparr>
      in if fst t = 0 then
           (let g = ring_get k (rx_rb s) in (fst g, s\<lparr>rx_rb := snd g\<rparr>))
         else (None, s))"

section \<open>Notifications\<close>

record urc_state =
  urc_buf :: bytes
  urc_index :: nat

definition NSONMI :: bytes where "NSONMI = [43, 78, 83, 79, 78, 77, 73, 58]"

text \<open>The loop that cuts the line at its commas; the last comma gives the position of the count.\<close>
fun urc_commas :: "nat \<Rightarrow> nat \<Rightarrow> nat option \<Rightarrow> bytes \<Rightarrow> nat option \<times> bytes" where
  "urc_commas i 0 count buf = (count, buf)"
| "urc_commas i (Suc n) count buf =
     (if buf ! i = 44 then urc_commas (i + 1) n (Some (i + 1)) (buf[i := 0])
      else urc_commas (i + 1) n count buf)"

text \<open>
  One byte in the thread. The result is the new state and the call of the callback, if any.
  \<open>None\<close>: a write outside \<open>buf\<close>, or \<open>atoi\<close> of a null pointer when the line has no comma.
\<close>
definition urc_byte :: "bool \<Rightarrow> u8 \<Rightarrow> urc_state \<Rightarrow> ((int \<times> int) option \<times> urc_state) option" where
  "urc_byte has_cb b s =
     (if b = 13 then do {
        buf \<leftarrow> wr (urc_buf s) (urc_index s) 0;
        hit \<leftarrow> (if 0 < urc_index s \<and> has_cb then strncmp_eq buf NSONMI 8 else Some False);
        if hit then do {
          let (count, buf) = urc_commas 0 (urc_index s) None buf;
          fd \<leftarrow> atoi_arr (drop 9 buf);
          c \<leftarrow> count;
          n \<leftarrow> atoi_arr (drop c buf);
          Some (Some (fd, n), \<lparr>urc_buf = buf, urc_index = 0\<rparr>) }
        else Some (None, \<lparr>urc_buf = buf, urc_index = 0\<rparr>) }
      else if b = 10 then Some (None, s)
      else do {
        buf \<leftarrow> wr (urc_buf s) (urc_index s) b;
        Some (None, \<lparr>urc_buf = buf, urc_index = urc_index s + 1\<rparr>) })"

text \<open>The thread over a sequence of bytes, with the calls it makes.\<close>
fun urc_threadproc :: "bool \<Rightarrow> bytes \<Rightarrow> urc_state \<Rightarrow> ((int \<times> int) list \<times> urc_state) option" where
  "urc_threadproc has_cb [] s = Some ([], s)"
| "urc_threadproc has_cb (b # bs) s = do {
     (call, s) \<leftarrow> urc_byte has_cb b s;
     (calls, s) \<leftarrow> urc_threadproc has_cb bs s;
     Some ((case call of None \<Rightarrow> calls | Some c \<Rightarrow> c # calls), s) }"

section \<open>Commands\<close>

text \<open>What the command sequences do to the outside world, in order.\<close>
datatype event = Write bytes | Sleep int | Take | Give

record modem =
  script :: rx_script
  trace :: "event list"

definition emit :: "event \<Rightarrow> modem \<Rightarrow> modem" where
  "emit e m = m\<lparr>trace := trace m @ [e]\<rparr>"

definition modem_write :: "bytes \<Rightarrow> modem \<Rightarrow> modem" where
  "modem_write cmd m = emit (Write cmd) m"

text \<open>Running a decoder that returns only a result code.\<close>
definition await :: "(rx_script \<Rightarrow> (int \<times> rx_script) option) \<Rightarrow> modem \<Rightarrow> (int \<times> modem) option" where
  "await d m = do { (r, rx) \<leftarrow> d (script m); Some (r, m\<lparr>script := rx\<rparr>) }"

definition APN_QUERY_RETRY_COUNT :: nat where "APN_QUERY_RETRY_COUNT = 30"
definition APN_RETRY_DELAY_MS :: int where "APN_RETRY_DELAY_MS = 3000"
definition NEXT_FREE_PORT :: int where "NEXT_FREE_PORT = 6000"

text \<open>The local array \<open>ip\<close> is not initialised; \<open>ip0\<close> is its content.\<close>
definition modem_is_ready :: "bytes \<Rightarrow> modem \<Rightarrow> (bool \<times> modem) option" where
  "modem_is_ready ip0 m = do {
     let m = modem_write (cstr ''AT+CGPADDR'' @ [13]) m;
     (r, ip, len, rx) \<leftarrow> atcgpaddr_decode ip0 0 (script m);
     let m = m\<lparr>script := rx\<rparr>;
     Some (r = AT_OK \<and> 1 < len, m) }"

text \<open>\<open>sprintf\<close> of the context definition into its array.\<close>
definition define_context :: "bytes \<Rightarrow> bytes" where
  "define_context apn = cstr ''AT+CGDCONT=0,'' @ [34] @ cstr ''IP'' @ [34, 44, 34] @ apn @ [34, 13]"

definition modem_configure :: "bytes \<Rightarrow> bytes \<Rightarrow> modem \<Rightarrow> (bytes \<times> modem) option" where
  "modem_configure current_apn define_ctx m = do {
     apn \<leftarrow> c_str current_apn;
     define_ctx \<leftarrow> strcpy define_ctx (define_context apn);
     cmd \<leftarrow> c_str define_ctx;
     (_, m) \<leftarrow> await at_generic_decode (modem_write cmd m);
     (_, m) \<leftarrow> await at_generic_decode
       (modem_write (cstr ''AT+NCONFIG='' @ [34] @ cstr ''AUTOCONNECT'' @ [34, 44, 34] @ cstr ''TRUE'' @ [34, 13]) m);
     Some (define_ctx, emit (Sleep 1000) m) }"

text \<open>The new value of \<open>next_free_port\<close> is returned.\<close>
definition modem_restart :: "modem \<Rightarrow> (int \<times> modem) option" where
  "modem_restart m = do {
     (_, m) \<leftarrow> await atnrb_decode (modem_write (cstr ''AT+NRB'' @ [13]) m);
     Some (NEXT_FREE_PORT, m) }"

text \<open>
  \<open>while (!modem_is_ready() & (retries++ < APN_QUERY_RETRY_COUNT))\<close>: the query is made before
  the counter is compared, and both are evaluated in every turn.
\<close>
function wait_until_ready :: "bytes \<Rightarrow> nat \<Rightarrow> modem \<Rightarrow> modem option" where
  "wait_until_ready ip0 retries m =
     (case modem_is_ready ip0 m of
        None \<Rightarrow> None
      | Some (ready, m) \<Rightarrow>
          (if \<not> ready \<and> retries < APN_QUERY_RETRY_COUNT
           then wait_until_ready ip0 (retries + 1) (emit (Sleep APN_RETRY_DELAY_MS) m)
           else Some m))"
  by pat_completeness auto
termination
  by (relation "measure (\<lambda>(ip0, retries, m). APN_QUERY_RETRY_COUNT - retries)") auto

declare wait_until_ready.simps [simp del]

definition modem_restart_friendly :: "bytes \<Rightarrow> modem \<Rightarrow> (int \<times> modem) option" where
  "modem_restart_friendly ip0 m = do {
     let m = modem_write (cstr ''AT+NRB'' @ [13]) m;
     let m = modem_write (cstr ''AT+CFUN=0'' @ [13]) m;
     (_, m) \<leftarrow> await atnrb_decode m;
     let m = modem_write (cstr ''AT+NRB'' @ [13]) m;
     let m = modem_write (cstr ''AT+CFUN=1'' @ [13]) m;
     (_, m) \<leftarrow> await atnrb_decode m;
     m \<leftarrow> wait_until_ready ip0 0 m;
     Some (NEXT_FREE_PORT, m) }"

definition IMEI_IMSI_BUF_SIZE :: nat where "IMEI_IMSI_BUF_SIZE = 24"

record modem_ids =
  imsi :: bytes
  imei :: bytes
  imei_unparsed :: bytes

text \<open>
  The sequence of \<open>modem_init\<close> behind the creation of the kernel objects and of the thread:
  wait for the reset, configure, restart, wait for an address, read the identifiers.
\<close>
definition modem_init ::
  "bytes \<Rightarrow> bytes \<Rightarrow> bytes \<Rightarrow> modem_ids \<Rightarrow> modem \<Rightarrow> (modem_ids \<times> bytes \<times> int \<times> modem) option" where
  "modem_init ip0 current_apn define_ctx ids m = do {
     (_, m) \<leftarrow> await atnrb_decode m;
     (define_ctx, m) \<leftarrow> modem_configure current_apn define_ctx m;
     (port, m) \<leftarrow> modem_restart m;
     m \<leftarrow> wait_until_ready ip0 0 m;
     let m = modem_write (cstr ''AT+CIMI'' @ [13]) m;
     (r, imsi', rx) \<leftarrow> atcimi_decode (replicate IMEI_IMSI_BUF_SIZE 0) (script m);
     let m = m\<lparr>script := rx\<rparr>;
     let ids = ids\<lparr>imsi := imsi'\<rparr>;
     let m = modem_write (cstr ''AT+CGSN=1'' @ [13]) m;
     (r, unparsed, rx) \<leftarrow> atcgsn_decode (replicate IMEI_IMSI_BUF_SIZE 0) (script m);
     let m = m\<lparr>script := rx\<rparr>;
     let ids = ids\<lparr>imei := replicate IMEI_IMSI_BUF_SIZE 0, imei_unparsed := unparsed\<rparr>;
     if r \<noteq> AT_OK then Some (ids, define_ctx, port, m)
     else do {
       s \<leftarrow> c_str_at unparsed 6;
       i \<leftarrow> strcpy (imei ids) s;
       Some (ids\<lparr>imei := i\<rparr>, define_ctx, port, m) } }"

section \<open>The byte path is a queue\<close>

text \<open>As many tokens in the semaphore as bytes in the buffer, which the semaphore can count.\<close>
definition comms_ok :: "('r \<Rightarrow> bytes) \<Rightarrow> ('r \<Rightarrow> nat) \<Rightarrow> ('s \<Rightarrow> nat) \<Rightarrow> ('s \<Rightarrow> nat) \<Rightarrow> ('r, 's) comms \<Rightarrow> bool" where
  "comms_ok content cap count limit s \<longleftrightarrow>
     count (rx_sem s) = length (content (rx_rb s)) \<and> length (content (rx_rb s)) \<le> cap (rx_rb s) \<and> cap (rx_rb s) \<le> limit (rx_sem s)"

lemma ring_put_room:
  "ring_contract k content cap \<Longrightarrow> length (content r) < cap r \<Longrightarrow>
     fst (ring_put k r b) = 1 \<and> content (snd (ring_put k r b)) = content r @ [b]"
  by (simp add: ring_contract_def)

lemma ring_put_full:
  "ring_contract k content cap \<Longrightarrow> cap r \<le> length (content r) \<Longrightarrow>
     fst (ring_put k r b) = 0 \<and> content (snd (ring_put k r b)) = content r"
  by (simp add: ring_contract_def)

lemma ring_cap:
  "ring_contract k content cap \<Longrightarrow> cap (snd (ring_put k r b)) = cap r"
  "ring_contract k content cap \<Longrightarrow> cap (snd (ring_get k r)) = cap r"
  by (simp_all add: ring_contract_def)

lemma ring_get_any:
  "ring_contract k content cap \<Longrightarrow> case content r of [] \<Rightarrow> fst (ring_get k r) = None \<and> content (snd (ring_get k r)) = []
      | b # bs \<Rightarrow> fst (ring_get k r) = Some b \<and> content (snd (ring_get k r)) = bs"
  unfolding ring_contract_def by blast

lemma ring_get_empty:
  "ring_contract k content cap \<Longrightarrow> content r = [] \<Longrightarrow> fst (ring_get k r) = None \<and> content (snd (ring_get k r)) = []"
  using ring_get_any [of k content cap r] by simp

lemma ring_get_head:
  "ring_contract k content cap \<Longrightarrow> content r = b # bs \<Longrightarrow> fst (ring_get k r) = Some b \<and> content (snd (ring_get k r)) = bs"
  using ring_get_any [of k content cap r] by simp

lemma sem_give_room: "sem_contract k count limit \<Longrightarrow> count s < limit s \<Longrightarrow> count (sem_give k s) = count s + 1"
  by (simp add: sem_contract_def)

lemma sem_limit:
  "sem_contract k count limit \<Longrightarrow> limit (sem_give k s) = limit s"
  "sem_contract k count limit \<Longrightarrow> limit (snd (sem_take k s)) = limit s"
  by (simp_all add: sem_contract_def)

lemma sem_take_none: "sem_contract k count limit \<Longrightarrow> count s = 0 \<Longrightarrow>
    fst (sem_take k s) \<noteq> 0 \<and> count (snd (sem_take k s)) = 0"
  by (simp add: sem_contract_def)

lemma sem_take_some: "sem_contract k count limit \<Longrightarrow> 0 < count s \<Longrightarrow>
    fst (sem_take k s) = 0 \<and> count (snd (sem_take k s)) = count s - 1"
  by (simp add: sem_contract_def)

lemmas kernel_facts = ring_put_room ring_put_full ring_get_empty ring_get_head sem_give_room sem_take_none sem_take_some ring_cap sem_limit

text \<open>The fields of the state behind the callback.\<close>
definition urc_now :: "u8 \<Rightarrow> ('r, 's) comms \<Rightarrow> bool" where
  "urc_now b s \<longleftrightarrow> in_urc s \<or> prev_char s = 10 \<and> b = 43"

lemma handle_char_fields:
  "rx_rb (comms_handle_char k b s) = snd (ring_put k (rx_rb s) b)"
  "prev_char (comms_handle_char k b s) = (if fst (ring_put k (rx_rb s) b) = 1 then b else prev_char s)"
  "rx_sem (comms_handle_char k b s) =
     (if fst (ring_put k (rx_rb s) b) = 1 then sem_give k (rx_sem s) else rx_sem s)"
  "urc_rb (comms_handle_char k b s) = (if urc_now b s then snd (ring_put k (urc_rb s) b) else urc_rb s)"
  "in_urc (comms_handle_char k b s) \<longleftrightarrow> urc_now b s \<and> b \<noteq> 13"
  by (auto simp: comms_handle_char_def Let_def urc_now_def)

text \<open>The callback on the receive side.\<close>
lemma handle_char_rx:
  assumes "ring_contract k content cap" "sem_contract k count limit" "comms_ok content cap count limit s"
  shows "comms_ok content cap count limit (comms_handle_char k b s)"
    "length (content (rx_rb s)) < cap (rx_rb s) \<Longrightarrow>
       content (rx_rb (comms_handle_char k b s)) = content (rx_rb s) @ [b] \<and> prev_char (comms_handle_char k b s) = b"
    "cap (rx_rb s) \<le> length (content (rx_rb s)) \<Longrightarrow>
       content (rx_rb (comms_handle_char k b s)) = content (rx_rb s) \<and>
       prev_char (comms_handle_char k b s) = prev_char s"
  using assms(3) ring_put_room [OF assms(1), of "rx_rb s" b] ring_put_full [OF assms(1), of "rx_rb s" b]
    sem_give_room [OF assms(2), of "rx_sem s"]
  by (cases "length (content (rx_rb s)) < cap (rx_rb s)";
      simp add: handle_char_fields comms_ok_def ring_cap [OF assms(1)] sem_limit [OF assms(2)])+

lemma handle_char_caps:
  assumes "ring_contract k content cap"
  shows "cap (rx_rb (comms_handle_char k b s)) = cap (rx_rb s)" "cap (urc_rb (comms_handle_char k b s)) = cap (urc_rb s)"
  by (simp_all add: handle_char_fields ring_cap [OF assms])

lemma handle_chars_caps:
  assumes "ring_contract k content cap"
  shows "cap (rx_rb (fold (comms_handle_char k) bs s)) = cap (rx_rb s) \<and> cap (urc_rb (fold (comms_handle_char k) bs s)) = cap (urc_rb s)"
  by (induction bs arbitrary: s) (simp_all add: handle_char_caps [OF assms])

lemma modem_read_rx:
  assumes "ring_contract k content cap" "sem_contract k count limit" "comms_ok content cap count limit s"
  shows "comms_ok content cap count limit (snd (modem_read k s))"
    "content (rx_rb s) = [] \<Longrightarrow> fst (modem_read k s) = None \<and> content (rx_rb (snd (modem_read k s))) = []"
    "content (rx_rb s) = b # bs \<Longrightarrow> fst (modem_read k s) = Some b \<and> content (rx_rb (snd (modem_read k s))) = bs"
    "cap (rx_rb (snd (modem_read k s))) = cap (rx_rb s)"
proof -
  have e: "content (rx_rb s) = [] \<Longrightarrow> comms_ok content cap count limit (snd (modem_read k s)) \<and>
      fst (modem_read k s) = None \<and> content (rx_rb (snd (modem_read k s))) = []"
    using assms(3) sem_take_none [OF assms(2), of "rx_sem s"]
    by (simp add: modem_read_def Let_def comms_ok_def sem_limit [OF assms(2)])
  have c: "content (rx_rb s) = b # bs \<Longrightarrow> comms_ok content cap count limit (snd (modem_read k s)) \<and>
      fst (modem_read k s) = Some b \<and> content (rx_rb (snd (modem_read k s))) = bs" for b bs
    using assms(3) sem_take_some [OF assms(2), of "rx_sem s"] ring_get_head [OF assms(1), of "rx_rb s" b bs]
    by (simp add: modem_read_def Let_def comms_ok_def sem_limit [OF assms(2)] ring_cap [OF assms(1)])
  show "comms_ok content cap count limit (snd (modem_read k s))" using e c by (cases "content (rx_rb s)") auto
  show "content (rx_rb s) = [] \<Longrightarrow> fst (modem_read k s) = None \<and> content (rx_rb (snd (modem_read k s))) = []"
    using e by blast
  show "content (rx_rb s) = b # bs \<Longrightarrow> fst (modem_read k s) = Some b \<and> content (rx_rb (snd (modem_read k s))) = bs"
    using c by blast
  show "cap (rx_rb (snd (modem_read k s))) = cap (rx_rb s)" by (simp add: modem_read_def Let_def ring_cap [OF assms(1)])
qed

text \<open>Successive calls of \<open>modem_read\<close>: the script that a decoder sees.\<close>
fun modem_reads :: "('r, 's) kernel \<Rightarrow> nat \<Rightarrow> ('r, 's) comms \<Rightarrow> rx_script" where
  "modem_reads k 0 s = []"
| "modem_reads k (Suc n) s = fst (modem_read k s) # modem_reads k n (snd (modem_read k s))"

lemma handle_chars_rx:
  assumes "ring_contract k content cap" "sem_contract k count limit"
    "comms_ok content cap count limit s" "length (content (rx_rb s)) + length bs \<le> cap (rx_rb s)"
  shows "comms_ok content cap count limit (fold (comms_handle_char k) bs s) \<and>
     content (rx_rb (fold (comms_handle_char k) bs s)) = content (rx_rb s) @ bs"
  using assms(3,4)
proof (induction bs arbitrary: s)
  case (Cons b bs)
  then show ?case
    using handle_char_rx [OF assms(1,2), of s b] Cons.IH [of "comms_handle_char k b s"] handle_char_caps [OF assms(1)] by simp
qed simp

lemma modem_reads_content:
  assumes "ring_contract k content cap" "sem_contract k count limit" "comms_ok content cap count limit s"
  shows "modem_reads k (length (content (rx_rb s)) + n) s = map Some (content (rx_rb s)) @ replicate n None"
  using assms(3)
proof (induction "content (rx_rb s)" arbitrary: s n)
  case Nil
  have "modem_reads k n s = replicate n None" if "content (rx_rb s) = []" "comms_ok content cap count limit s" for n s
    using that
  proof (induction n arbitrary: s)
    case (Suc n)
    then show ?case using modem_read_rx [OF assms(1,2) Suc.prems(2)] by simp
  qed simp
  then show ?case using Nil by simp
next
  case (Cons b bs)
  note r = modem_read_rx(1) [OF assms(1,2) Cons.prems] modem_read_rx(3) [OF assms(1,2) Cons.prems Cons.hyps(2) [symmetric]]
  then show ?case
    using Cons.hyps(1) [of "snd (modem_read k s)" n] by (simp flip: Cons.hyps(2))
qed

section \<open>Notifications are routed to the thread\<close>

text \<open>The bytes that the callback puts aside for the thread, while none is dropped.\<close>
fun urc_stream :: "u8 \<Rightarrow> bool \<Rightarrow> bytes \<Rightarrow> bytes" where
  "urc_stream prev u [] = []"
| "urc_stream prev u (b # bs) =
     (let u = (u \<or> prev = 10 \<and> b = 43) in (if u then [b] else []) @ urc_stream b (u \<and> b \<noteq> 13) bs)"

lemma handle_char_urc:
  assumes "ring_contract k content cap" "length (content (urc_rb s)) < cap (urc_rb s)"
  shows "content (urc_rb (comms_handle_char k b s)) = content (urc_rb s) @ (if urc_now b s then [b] else [])"
  using ring_put_room [OF assms(1,2), of b] by (simp add: handle_char_fields)

lemma urc_stream_inside: "13 \<notin> set cs \<Longrightarrow> 10 \<notin> set cs \<Longrightarrow> prev \<noteq> 10 \<Longrightarrow> urc_stream prev u (cs @ 13 # bs) =
    (if u then cs @ [13] else []) @ urc_stream 13 False bs"
  by (induction cs arbitrary: prev) auto

text \<open>A whole line: an unsolicited result code reaches the thread with its carriage return, any other line does not.\<close>
lemma urc_stream_line:
  assumes "13 \<notin> set l" "10 \<notin> set l"
  shows "urc_stream 10 False (l @ 13 # 10 # bs) = (if urc_line l then l @ [13] else []) @ urc_stream 10 False bs"
proof (cases l)
  case (Cons b cs)
  then show ?thesis using assms urc_stream_inside [of cs b "b = 43" "10 # bs"] by (auto simp: urc_line_def)
qed (simp add: urc_line_def)

lemma urc_stream_lines:
  "\<forall>l \<in> set ls. 13 \<notin> set l \<and> 10 \<notin> set l \<Longrightarrow> urc_stream 10 False (wire ls) = concat (map (\<lambda>l. l @ [13]) (filter urc_line ls))"
proof (induction ls)
  case (Cons l ls)
  have "wire (l # ls) = l @ 13 # 10 # wire ls" by (simp add: wire_def)
  then show ?case using Cons urc_stream_line [of l "wire ls"] by simp
qed (simp add: wire_def)

lemma handle_chars_urc:
  assumes "ring_contract k content cap" "sem_contract k count limit"
    "comms_ok content cap count limit s" "length (content (rx_rb s)) + length bs \<le> cap (rx_rb s)"
    "length (content (urc_rb s)) + length bs \<le> cap (urc_rb s)"
  shows "content (urc_rb (fold (comms_handle_char k) bs s)) = content (urc_rb s) @ urc_stream (prev_char s) (in_urc s) bs"
  using assms(3-)
proof (induction bs arbitrary: s)
  case (Cons b bs)
  let ?s = "comms_handle_char k b s"
  note rx = handle_char_rx [OF assms(1,2) Cons.prems(1), of b] and caps = handle_char_caps [OF assms(1), of b s]
  have u: "content (urc_rb ?s) = content (urc_rb s) @ (if urc_now b s then [b] else [])" "in_urc ?s = (urc_now b s \<and> b \<noteq> 13)"
    using handle_char_urc [OF assms(1), of s b] Cons.prems(3) by (simp_all add: handle_char_fields)
  have "content (urc_rb (fold (comms_handle_char k) bs ?s)) = content (urc_rb ?s) @ urc_stream (prev_char ?s) (in_urc ?s) bs"
    using rx caps u(1) Cons.prems by (intro Cons.IH) auto
  then show ?case using u rx(2) Cons.prems(2) by (simp add: urc_now_def Let_def)
qed simp

section \<open>The thread\<close>

lemma urc_threadproc_append:
  "urc_threadproc cb (xs @ ys) s = do {
     (c1, s) \<leftarrow> urc_threadproc cb xs s; (c2, s) \<leftarrow> urc_threadproc cb ys s; Some (c1 @ c2, s) }"
  by (induction xs arbitrary: s)
     (auto split: Option.bind_split option.split simp: Option.bind_eq_Some_conv)

lemma urc_collect:
  assumes "13 \<notin> set l" "10 \<notin> set l" "urc_index s + length l \<le> length (urc_buf s)"
  shows "urc_threadproc cb l s = Some ([], \<lparr>urc_buf = take (urc_index s) (urc_buf s) @ l @
     drop (urc_index s + length l) (urc_buf s), urc_index = urc_index s + length l\<rparr>)"
  using assms
proof (induction l arbitrary: s)
  case (Cons b l)
  have i: "urc_index s < length (urc_buf s)" using Cons.prems(3) by simp
  let ?s = "\<lparr>urc_buf = (urc_buf s)[urc_index s := b], urc_index = urc_index s + 1\<rparr>"
  have "urc_byte cb b s = Some (None, ?s)" using Cons.prems i by (simp add: urc_byte_def wr_in)
  then show ?case using Cons.IH [of ?s] Cons.prems i by (simp add: take_Suc_conv_app_nth)
qed simp

lemma urc_line_end:
  assumes "13 \<notin> set l" "10 \<notin> set l" "length l < length (urc_buf s)" "urc_index s = 0"
    "take 8 l \<noteq> NSONMI \<or> \<not> cb" "8 \<le> length (urc_buf s)"
  shows "\<exists>s'. urc_threadproc cb (l @ [13]) s = Some ([], s') \<and> urc_index s' = 0 \<and>
     length (urc_buf s') = length (urc_buf s)"
proof -
  let ?buf = "l @ 0 # drop (Suc (length l)) (urc_buf s)"
  have w: "wr (l @ drop (length l) (urc_buf s)) (length l) 0 = Some ?buf"
    using assms(3) by (simp add: wr_def list_update_append flip: Cons_nth_drop_Suc)
  have len: "length ?buf = length (urc_buf s)" using assms(3) by simp
  have "strncmp_eq ?buf NSONMI 8 = Some (take 8 ?buf = NSONMI)"
    using assms(6) len by (intro strncmp_eq_literal) (simp_all add: NSONMI_def)
  moreover have "take 8 ?buf = NSONMI \<longleftrightarrow> take 8 l = NSONMI"
    by (rule take_separated) (simp_all add: NSONMI_def)
  ultimately have "(if 0 < length l \<and> cb then strncmp_eq ?buf NSONMI 8 else Some False) = Some False"
    using assms(5) by auto
  then have "urc_byte cb 13 \<lparr>urc_buf = l @ drop (length l) (urc_buf s), urc_index = length l\<rparr> =
      Some (None, \<lparr>urc_buf = ?buf, urc_index = 0\<rparr>)"
    using w by (simp add: urc_byte_def)
  then show ?thesis
    using urc_collect [OF assms(1,2), of s cb] assms(3,4) len by (simp add: urc_threadproc_append)
qed

text \<open>The notification line of the modem.\<close>
definition nsonmi_line :: "nat \<Rightarrow> nat \<Rightarrow> bytes" where
  "nsonmi_line fd n = (NSONMI @ 32 # dec_digits fd) @ 44 # dec_digits n"

lemma urc_commas_none:
  "44 \<notin> set (take n (drop i buf)) \<Longrightarrow> i + n \<le> length buf \<Longrightarrow> urc_commas i n c buf = (c, buf)"
proof (induction n arbitrary: i)
  case (Suc n)
  then have "drop i buf = buf ! i # drop (Suc i) buf" by (simp add: Cons_nth_drop_Suc)
  then show ?case using Suc by simp
qed simp

lemma urc_commas_one:
  assumes "44 \<notin> set p" "44 \<notin> set q"
  shows "urc_commas 0 (length p + 1 + length q) None (p @ 44 # q @ r) = (Some (length p + 1), p @ 0 # q @ r)"
proof -
  have skip: "urc_commas i (n + m) c buf = urc_commas (i + n) m c buf"
    if "44 \<notin> set (take n (drop i buf))" "i + n \<le> length buf" for i n m c buf
    using that
  proof (induction n arbitrary: i)
    case (Suc n)
    then have "drop i buf = buf ! i # drop (Suc i) buf" by (simp add: Cons_nth_drop_Suc)
    then show ?case using Suc by simp
  qed simp
  let ?b = "p @ 44 # q @ r" and ?b' = "p @ 0 # q @ r"
  have "urc_commas 0 (length p + Suc (length q)) None ?b = urc_commas (length p) (Suc (length q)) None ?b"
    using skip [of "length p" 0 ?b "Suc (length q)" None] assms(1) by simp
  also have "\<dots> = urc_commas (length p + 1) (length q) (Some (length p + 1)) ?b'" by simp
  also have "\<dots> = (Some (length p + 1), ?b')"
    using assms(2) by (intro urc_commas_none) simp_all
  finally show ?thesis by (simp add: add.assoc)
qed

lemma urc_notification:
  assumes "fd < 10 ^ 9" "n < 10 ^ 9" "length (urc_buf s) = URC_SIZE" "urc_index s = 0"
  shows "\<exists>s'. urc_threadproc True (nsonmi_line fd n @ [13]) s = Some ([(int fd, int n)], s') \<and>
     urc_index s' = 0 \<and> length (urc_buf s') = URC_SIZE"
proof -
  let ?p = "NSONMI @ 32 # dec_digits fd" and ?q = "dec_digits n"
  let ?l = "nsonmi_line fd n"
  have dl: "length (dec_digits fd) < 10" "length (dec_digits n) < 10" using dec_digits_line(1) assms(1,2) by auto
  then have len: "length ?l < URC_SIZE" by (simp add: nsonmi_line_def NSONMI_def URC_SIZE_def)
  have nosep: "b \<notin> set (dec_digits m)" if "b \<in> {10, 13, 44}" for b m
    using that by (intro not_in_dec_digits) (auto simp: isdigit_def)
  have chars: "13 \<notin> set ?l" "10 \<notin> set ?l" using nosep by (simp_all add: nsonmi_line_def NSONMI_def)
  let ?r = "0 # drop (Suc (length ?l)) (urc_buf s)"
  have w: "wr (?l @ drop (length ?l) (urc_buf s)) (length ?l) 0 = Some (?l @ ?r)"
    using len assms(3) by (simp add: wr_def list_update_append flip: Cons_nth_drop_Suc)
  have t8: "take 8 (?l @ ?r) = NSONMI" "8 \<le> length (?l @ ?r)" by (simp_all add: nsonmi_line_def NSONMI_def)
  have "strncmp_eq (?l @ ?r) NSONMI 8 = Some (take 8 (?l @ ?r) = NSONMI)"
    by (rule strncmp_eq_literal) (use t8(2) in \<open>simp_all add: NSONMI_def\<close>)
  then have hit: "strncmp_eq (?l @ ?r) NSONMI 8 = Some True" by (simp only: t8(1) refl simp_thms)
  have commas: "urc_commas 0 (length ?l) None (?l @ ?r) = (Some (length ?p + 1), ?p @ 0 # ?q @ ?r)"
    using urc_commas_one [of ?p ?q ?r] nosep by (simp add: nsonmi_line_def NSONMI_def)
  have "drop 9 (?p @ 0 # ?q @ ?r) = dec_digits fd @ 0 # ?q @ ?r" by (simp add: NSONMI_def)
  then have fd: "atoi_arr (drop 9 (?p @ 0 # ?q @ ?r)) = Some (int fd)"
    using assms(1) by (simp only:) (intro atoi_arr_dec_digits, simp_all add: isdigit_def)
  have "drop (length ?p + 1) (?p @ 0 # ?q @ ?r) = ?q @ ?r" by simp
  then have n: "atoi_arr (drop (length ?p + 1) (?p @ 0 # ?q @ ?r)) = Some (int n)"
    using assms(2) by (simp only:) (intro atoi_arr_dec_digits, simp_all add: isdigit_def)
  have ne: "0 < length ?l" by (simp add: nsonmi_line_def)
  have b: "urc_byte True 13 \<lparr>urc_buf = ?l @ drop (length ?l) (urc_buf s), urc_index = length ?l\<rparr> =
      Some (Some (int fd, int n), \<lparr>urc_buf = ?p @ 0 # ?q @ ?r, urc_index = 0\<rparr>)"
    unfolding urc_byte_def using w hit commas fd n ne by (simp add: Let_def)
  have "length (?p @ 0 # ?q @ ?r) = URC_SIZE" using len assms(3) by (simp add: nsonmi_line_def)
  moreover have "urc_threadproc True ?l s = Some ([], \<lparr>urc_buf = ?l @ drop (length ?l) (urc_buf s), urc_index = length ?l\<rparr>)"
    using urc_collect [OF chars, of s True] assms(3,4) len by simp
  ultimately show ?thesis
    using b by (simp add: urc_threadproc_append)
qed

text \<open>Lines of the modem as the thread distinguishes them: a line that is put aside for the thread has to fit its buffer; others have any length.\<close>
datatype modem_line = Notify nat nat | Other bytes

fun line_bytes :: "modem_line \<Rightarrow> bytes" where
  "line_bytes (Notify fd n) = nsonmi_line fd n"
| "line_bytes (Other l) = l"

fun line_ok :: "modem_line \<Rightarrow> bool" where
  "line_ok (Notify fd n) \<longleftrightarrow> fd < 10 ^ 9 \<and> n < 10 ^ 9"
| "line_ok (Other l) \<longleftrightarrow> 13 \<notin> set l \<and> 10 \<notin> set l \<and> (urc_line l \<longrightarrow> length l < URC_SIZE \<and> take 8 l \<noteq> NSONMI)"

fun line_calls :: "modem_line \<Rightarrow> (int \<times> int) list" where
  "line_calls (Notify fd n) = [(int fd, int n)]"
| "line_calls (Other l) = []"

lemma line_bytes_plain: "line_ok l \<Longrightarrow> 13 \<notin> set (line_bytes l) \<and> 10 \<notin> set (line_bytes l)"
  by (cases l) (auto simp: nsonmi_line_def NSONMI_def not_in_dec_digits isdigit_def)

lemma urc_thread_line:
  assumes "line_ok l" "urc_line (line_bytes l)" "length (urc_buf s) = URC_SIZE" "urc_index s = 0"
  shows "\<exists>s'. urc_threadproc True (line_bytes l @ [13]) s = Some (line_calls l, s') \<and>
     urc_index s' = 0 \<and> length (urc_buf s') = URC_SIZE"
proof (cases l)
  case (Notify fd n)
  then show ?thesis using urc_notification [of fd n s] assms by simp
next
  case (Other l')
  then show ?thesis using urc_line_end [of l' s True] assms by (simp add: URC_SIZE_def)
qed

lemma urc_thread_lines:
  assumes "\<forall>l \<in> set ls. line_ok l \<and> urc_line (line_bytes l)" "length (urc_buf s) = URC_SIZE" "urc_index s = 0"
  shows "\<exists>s'. urc_threadproc True (concat (map (\<lambda>l. line_bytes l @ [13]) ls)) s = Some (concat (map line_calls ls), s') \<and>
     urc_index s' = 0 \<and> length (urc_buf s') = URC_SIZE"
  using assms
proof (induction ls arbitrary: s)
  case (Cons l ls)
  obtain s' where s': "urc_threadproc True (line_bytes l @ [13]) s = Some (line_calls l, s')"
    "urc_index s' = 0" "length (urc_buf s') = URC_SIZE"
    using urc_thread_line [of l s] Cons.prems by auto
  obtain s'' where "urc_threadproc True (concat (map (\<lambda>l. line_bytes l @ [13]) ls)) s' = Some (concat (map line_calls ls), s'')"
    "urc_index s'' = 0" "length (urc_buf s'') = URC_SIZE"
    using Cons.IH [of s'] Cons.prems(1) s' by auto
  then show ?case
    using s' urc_threadproc_append [of True "line_bytes l @ [13]" "concat (map (\<lambda>l. line_bytes l @ [13]) ls)" s]
    by simp
qed simp

section \<open>Command sequences\<close>

lemma await_total:
  assumes "\<And>rx. \<exists>r rx'. d rx = Some (r, rx')"
  shows "\<exists>r rx'. await d m = Some (r, m\<lparr>script := rx'\<rparr>)"
  using assms [of "script m"] by (auto simp: await_def)

lemma await_cases:
  "\<exists>r rx. await at_generic_decode m = Some (r, m\<lparr>script := rx\<rparr>)"
  "\<exists>r rx. await atnrb_decode m = Some (r, m\<lparr>script := rx\<rparr>)"
  "\<exists>r rx. await atnsocl_decode m = Some (r, m\<lparr>script := rx\<rparr>)"
  by (rule await_total; rule generic_total)+

lemma c_str_exact: "0 \<notin> set s \<Longrightarrow> c_str (s @ 0 # r) = Some s"
  by simp

text \<open>One query for the address, with the two kinds of answer that matter.\<close>
definition cgpaddr_query :: event where
  "cgpaddr_query = Write (cstr ''AT+CGPADDR'' @ [13])"

definition address_reply :: "bytes \<Rightarrow> rx_script" where
  "address_reply t = map Some (wire [[], CGPADDR_PREFIX @ t, []]) @ final_bytes AT_OK"

definition addr_text :: "bytes \<Rightarrow> bool" where
  "addr_text t \<longleftrightarrow> 10 \<notin> set t \<and> 13 \<notin> set t \<and> length t < 65000 \<and> length (filter (\<lambda>b. \<not> isspace b) t) \<le> 20 \<and>
     length (quoted (filter (\<lambda>b. \<not> isspace b) t)) < 16"

lemma ready_reply:
  assumes "script m = address_reply t @ rx" "addr_text t" "length ip0 = 16"
  shows "modem_is_ready ip0 m = Some (1 < length (quoted (filter (\<lambda>b. \<not> isspace b) t)),
     m\<lparr>script := rx, trace := trace m @ [cgpaddr_query]\<rparr>)"
proof -
  have "atcgpaddr_decode ip0 0 (map Some (wire ([[]] @ (CGPADDR_PREFIX @ t) # [[]])) @ final_bytes AT_OK @ rx) =
    Some (AT_OK, quoted (filter (\<lambda>b. \<not> isspace b) t) @ 0 # drop (length (quoted (filter (\<lambda>b. \<not> isspace b) t)) + 1) ip0,
      length (quoted (filter (\<lambda>b. \<not> isspace b) t)), rx)"
    using assms(2,3) by (intro cgpaddr_decodes) (auto simp: addr_text_def plain_line_def CGPADDR_PREFIX_def)
  then show ?thesis
    using assms(1) by (simp add: modem_is_ready_def modem_write_def emit_def address_reply_def cgpaddr_query_def)
qed

lemma ready_silent:
  assumes "script m = None # rx"
  shows "modem_is_ready ip0 m = Some (False, m\<lparr>script := rx, trace := trace m @ [cgpaddr_query]\<rparr>)"
  using assms by (simp add: modem_is_ready_def modem_write_def emit_def cgpaddr_query_def atcgpaddr_decode_def
      decode_input_def at_results)

definition poll :: "event list" where
  "poll = [cgpaddr_query, Sleep APN_RETRY_DELAY_MS]"

text \<open>What the modem says as long as it has no address: nothing, or an answer without one.\<close>
definition no_address :: "rx_script \<Rightarrow> bool" where
  "no_address r \<longleftrightarrow> r = [None] \<or>
     (\<exists>t. r = address_reply t \<and> addr_text t \<and> length (quoted (filter (\<lambda>b. \<not> isspace b) t)) \<le> 1)"

lemma not_ready:
  assumes "script m = r @ rx" "no_address r" "length ip0 = 16"
  shows "modem_is_ready ip0 m = Some (False, m\<lparr>script := rx, trace := trace m @ [cgpaddr_query]\<rparr>)"
  using assms(2) ready_silent [of m rx ip0] ready_reply [OF _ _ assms(3), of m _ rx] assms(1)
  unfolding no_address_def by auto

lemma wait_until_ready_polls:
  assumes "script m = concat rs @ rx" "\<forall>r \<in> set rs. no_address r" "length ip0 = 16"
    "retries + length rs \<le> APN_QUERY_RETRY_COUNT"
  shows "wait_until_ready ip0 retries m =
     wait_until_ready ip0 (retries + length rs)
       (m\<lparr>script := rx, trace := trace m @ concat (replicate (length rs) poll)\<rparr>)"
  using assms
proof (induction rs arbitrary: m retries)
  case Nil
  then show ?case by (cases m) simp
next
  case (Cons r rs)
  let ?m = "m\<lparr>script := concat rs @ rx, trace := trace m @ poll\<rparr>"
  have "modem_is_ready ip0 m = Some (False, m\<lparr>script := concat rs @ rx, trace := trace m @ [cgpaddr_query]\<rparr>)"
    using not_ready [of m r "concat rs @ rx" ip0] Cons.prems by simp
  then have "wait_until_ready ip0 retries m = wait_until_ready ip0 (retries + 1) ?m"
    using Cons.prems(4) by (subst wait_until_ready.simps) (simp add: emit_def poll_def)
  then show ?case using Cons.IH [of ?m "retries + 1"] Cons.prems by simp
qed

lemma wait_until_ready_address:
  assumes "length ip0 = 16" "length rs \<le> 30" "\<forall>r \<in> set rs. no_address r"
    "addr_text t" "1 < length (quoted (filter (\<lambda>b. \<not> isspace b) t))"
    "script m = concat rs @ address_reply t @ rx"
  shows "wait_until_ready ip0 0 m =
    Some (m\<lparr>script := rx, trace := trace m @ concat (replicate (length rs) poll) @ [cgpaddr_query]\<rparr>)"
proof -
  let ?m = "m\<lparr>script := address_reply t @ rx, trace := trace m @ concat (replicate (length rs) poll)\<rparr>"
  have "wait_until_ready ip0 0 m = wait_until_ready ip0 (length rs) ?m"
    using wait_until_ready_polls [of m rs "address_reply t @ rx" ip0 0] assms
    by (simp add: APN_QUERY_RETRY_COUNT_def)
  also have "\<dots> = Some (m\<lparr>script := rx, trace := trace m @ concat (replicate (length rs) poll) @ [cgpaddr_query]\<rparr>)"
    using ready_reply [of ?m t rx ip0] assms(1,4,5) by (subst wait_until_ready.simps) simp
  finally show ?thesis .
qed

lemma wait_until_ready_no_address:
  assumes "length ip0 = 16" "length rs = 31" "\<forall>r \<in> set rs. no_address r" "script m = concat rs @ rx"
  shows "wait_until_ready ip0 0 m =
    Some (m\<lparr>script := rx, trace := trace m @ concat (replicate 30 poll) @ [cgpaddr_query]\<rparr>)"
proof -
  obtain qs r where rs: "rs = qs @ [r]" "length qs = 30" using assms(2)
    by (cases rs rule: rev_cases) auto
  let ?m = "m\<lparr>script := r @ rx, trace := trace m @ concat (replicate 30 poll)\<rparr>"
  have "wait_until_ready ip0 0 m = wait_until_ready ip0 30 ?m"
    using wait_until_ready_polls [of m qs "r @ rx" ip0 0] assms rs
    by (simp add: APN_QUERY_RETRY_COUNT_def)
  also have "\<dots> = Some (m\<lparr>script := rx, trace := trace m @ concat (replicate 30 poll) @ [cgpaddr_query]\<rparr>)"
    using not_ready [of ?m r rx ip0] assms(1,3) rs
    by (subst wait_until_ready.simps) (simp add: APN_QUERY_RETRY_COUNT_def)
  finally show ?thesis .
qed

definition autoconnect :: bytes where
  "autoconnect = cstr ''AT+NCONFIG='' @ [34] @ cstr ''AUTOCONNECT'' @ [34, 44, 34] @ cstr ''TRUE'' @ [34, 13]"

text \<open>The command buffer is large enough for every name in its array.\<close>
lemma modem_configure_commands:
  assumes "length current_apn = 64" "c_str current_apn = Some apn" "length ctx = 85"
  shows "\<exists>ctx'. length ctx' = 85 \<and> modem_configure current_apn ctx m =
      Option.bind (await at_generic_decode (modem_write (define_context apn) m)) (\<lambda>(_, m).
      Option.bind (await at_generic_decode (modem_write autoconnect m)) (\<lambda>(_, m). Some (ctx', emit (Sleep 1000) m)))"
proof -
  obtain r where r: "current_apn = apn @ 0 # r" "0 \<notin> set apn" using c_str_SomeD [OF assms(2)] by blast
  then have "length apn < 64" using assms(1) by (metis length_append length_Cons add_Suc_right less_add_Suc1)
  then have fits: "length (define_context apn) < length ctx" using assms(3) by (simp add: define_context_def)
  have nz: "0 \<notin> set (define_context apn)" using r(2) by (simp add: define_context_def)
  obtain ctx' where "strcpy ctx (define_context apn) = Some ctx'" "c_str ctx' = Some (define_context apn)"
    "length ctx' = 85"
    using strcpy_fits [OF fits] strcpy_str [OF _ nz] strcpy_length assms(3) by metis
  then show ?thesis using assms(2)
    by (intro exI [of _ ctx']) (simp add: modem_configure_def autoconnect_def del: cstr_simps)
qed

section \<open>Properties\<close>

text \<open>The byte path is a queue without loss: as long as the received bytes fit the ring
  buffer, calls of \<open>modem_read\<close> deliver them in their order, and time out behind the last one.\<close>
theorem comms_fifo:
  assumes "ring_contract k content cap" "sem_contract k count limit"
    "comms_ok content cap count limit s" "length (content (rx_rb s)) + length bs \<le> cap (rx_rb s)"
  shows "modem_reads k (length (content (rx_rb s)) + length bs + n) (fold (comms_handle_char k) bs s) =
     map Some (content (rx_rb s) @ bs) @ replicate n None"
  using handle_chars_rx [OF assms] modem_reads_content [OF assms(1,2), of _ n]
  by (metis length_append)

text \<open>Kernel objects as values: a ring is its capacity and its bytes, a semaphore its limit and its count.\<close>
definition list_kernel :: "(nat \<times> bytes, nat \<times> nat) kernel" where
  "list_kernel = \<lparr>
     ring_put = (\<lambda>(c, r) b. if length r < c then (1, c, r @ [b]) else (0, c, r)),
     ring_get = (\<lambda>(c, r). case r of [] \<Rightarrow> (None, c, []) | b # bs \<Rightarrow> (Some b, c, bs)),
     sem_give = (\<lambda>(l, n). (l, min l (n + 1))), sem_take = (\<lambda>(l, n). if n = 0 then (-11, l, 0) else (0, l, n - 1))\<rparr>"

lemma list_kernel_contracts: "ring_contract list_kernel snd fst" "sem_contract list_kernel snd fst"
  by (auto simp: ring_contract_def sem_contract_def list_kernel_def split: list.splits)

text \<open>The objects as \<open>modem_init\<close> makes them.\<close>
definition idle_comms :: "(nat \<times> bytes, nat \<times> nat) comms" where
  "idle_comms = \<lparr>rx_rb = (RB_SIZE, []), rx_sem = (RB_SIZE, 0), urc_rb = (URC_SIZE, []), urc_sem = (URC_SIZE, 0),
     prev_char = 10, in_urc = False\<rparr>"

lemma idle_comms_ok: "comms_ok snd fst snd fst idle_comms"
  by (simp add: comms_ok_def idle_comms_def)

theorem comms_fifo_witness:
  "modem_reads list_kernel 3 (fold (comms_handle_char list_kernel) [79, 75] idle_comms) = [Some 79, Some 75, None]"
  using comms_fifo [OF list_kernel_contracts idle_comms_ok, of "[79, 75]" 1]
  by (simp add: idle_comms_def RB_SIZE_def numeral_3_eq_3)

text \<open>A queue of bounded capacity that drops what does not fit: the results of its reads and what is left.\<close>
fun queue_run :: "nat \<Rightarrow> u8 option list \<Rightarrow> bytes \<Rightarrow> u8 option list \<times> bytes" where
  "queue_run cap [] q = ([], q)"
| "queue_run cap (Some b # ops) q = queue_run cap ops (if length q < cap then q @ [b] else q)"
| "queue_run cap (None # ops) q =
     (let (out, q') = queue_run cap ops (tl q) in ((case q of [] \<Rightarrow> None | b # _ \<Rightarrow> Some b) # out, q'))"

text \<open>The same operations on the model: a received byte, or a read.\<close>
fun comms_run :: "('r, 's) kernel \<Rightarrow> u8 option list \<Rightarrow> ('r, 's) comms \<Rightarrow> u8 option list \<times> ('r, 's) comms" where
  "comms_run k [] s = ([], s)"
| "comms_run k (Some b # ops) s = comms_run k ops (comms_handle_char k b s)"
| "comms_run k (None # ops) s =
     (let (r, s') = modem_read k s; (out, s'') = comms_run k ops s' in (r # out, s''))"

text \<open>C18: The byte path refines a bounded queue: in every interleaving of received bytes and reads,
  also when the buffer is full or empty, each read returns what the queue returns, and the
  semaphore keeps counting exactly the bytes in the buffer.\<close>
theorem comms_refines_queue:
  assumes "ring_contract k content cap" "sem_contract k count limit"
    "comms_ok content cap count limit s" "comms_run k ops s = (out, s')"
  shows "comms_ok content cap count limit s' \<and> queue_run (cap (rx_rb s)) ops (content (rx_rb s)) = (out, content (rx_rb s'))"
  using assms(3,4)
proof (induction ops arbitrary: s out)
  case (Cons op ops)
  show ?case
  proof (cases op)
    case (Some b)
    note rx = handle_char_rx [OF assms(1,2) Cons.prems(1), of b] and caps = handle_char_caps [OF assms(1), of b s]
    show ?thesis
      using Cons.IH [OF rx(1), of out] Cons.prems(2) rx(2,3) Some caps
      by (cases "length (content (rx_rb s)) < cap (rx_rb s)") simp_all
  next
    case None
    note rd = modem_read_rx [OF assms(1,2) Cons.prems(1)]
    obtain r t out' where r: "modem_read k s = (r, t)" "comms_run k ops t = (out', s')" "out = r # out'"
      using Cons.prems(2) None by (auto split: prod.splits)
    show ?thesis
      using Cons.IH [OF _ r(2)] r(1,3) rd None by (cases "content (rx_rb s)") auto
  qed
qed simp

theorem comms_refines_queue_witness:
  "\<exists>out s'. comms_run list_kernel [Some 65, Some 66, None, None, None] idle_comms = (out, s') \<and>
     queue_run 255 [Some 65, Some 66, None, None, None] [] = (out, [])"
proof -
  obtain out s' where r: "comms_run list_kernel [Some 65, Some 66, None, None, None] idle_comms = (out, s')" by fastforce
  have q: "queue_run 255 [Some 65, Some 66, None, None, None] [] = ([Some 65, Some 66, None], [])" by simp
  show ?thesis
    using comms_refines_queue [OF list_kernel_contracts idle_comms_ok r] r q by (simp add: idle_comms_def RB_SIZE_def)
qed

text \<open>In every sequence of received bytes and reads the semaphore counts exactly the bytes in
  the ring buffer, also when bytes are dropped because the buffer is full.\<close>
theorem comms_invariant:
  assumes "ring_contract k content cap" "sem_contract k count limit" "comms_ok content cap count limit s"
  shows "comms_ok content cap count limit
     (fold (\<lambda>op s. case op of Some b \<Rightarrow> comms_handle_char k b s | None \<Rightarrow> snd (modem_read k s)) ops s)"
  using assms(3)
proof (induction ops arbitrary: s)
  case (Cons op ops)
  then show ?case
    using handle_char_rx(1) [OF assms(1,2)] modem_read_rx(1) [OF assms(1,2)] by (cases op) simp_all
qed simp

text \<open>The calls that the lines of the modem lead to, from the bytes put aside.\<close>
lemma urc_stream_calls:
  assumes "\<forall>l \<in> set ls. line_ok l" "length (urc_buf u) = URC_SIZE" "urc_index u = 0"
  shows "\<exists>u'. urc_threadproc True (urc_stream 10 False (wire (map line_bytes ls))) u = Some (concat (map line_calls ls), u') \<and>
     urc_index u' = 0 \<and> length (urc_buf u') = URC_SIZE"
proof -
  let ?urcs = "filter (\<lambda>l. urc_line (line_bytes l)) ls"
  have "urc_stream 10 False (wire (map line_bytes ls)) = concat (map (\<lambda>l. line_bytes l @ [13]) ?urcs)"
    using urc_stream_lines [of "map line_bytes ls"] assms(1) line_bytes_plain by (simp add: filter_map o_def)
  moreover have "concat (map line_calls ?urcs) = concat (map line_calls ls)"
  proof (induction ls)
    case (Cons l ls)
    then show ?case by (cases l) (simp_all add: nsonmi_line_def NSONMI_def urc_line_def)
  qed simp
  ultimately show ?thesis
    using urc_thread_lines [of ?urcs u] assms by auto
qed

text \<open>End to end, every +NSONMI notification among the lines of the modem leads to exactly one
  call of the receive callback, in order and with the socket and the byte count of its line; other
  lines lead to none. The lines must fit the ring buffers.\<close>
theorem notifications_delivered:
  assumes "ring_contract k content cap" "sem_contract k count limit"
    "comms_ok content cap count limit s" "length (content (rx_rb s)) + length (wire (map line_bytes ls)) \<le> cap (rx_rb s)"
    "length (wire (map line_bytes ls)) \<le> cap (urc_rb s)" "\<forall>l \<in> set ls. line_ok l"
    "prev_char s = 10" "\<not> in_urc s" "content (urc_rb s) = []"
    "length (urc_buf u) = URC_SIZE" "urc_index u = 0"
  shows "\<exists>u'. urc_threadproc True (content (urc_rb (fold (comms_handle_char k) (wire (map line_bytes ls)) s))) u =
     Some (concat (map line_calls ls), u')"
  using handle_chars_urc [OF assms(1-4)] urc_stream_calls [OF assms(6,10,11)] assms(5,7-9) by auto

theorem notifications_delivered_witness:
  "\<exists>u'. urc_threadproc True (snd (urc_rb (fold (comms_handle_char list_kernel)
      (wire (map line_bytes [Other [79, 75], Notify 2 17])) idle_comms))) \<lparr>urc_buf = replicate 64 0, urc_index = 0\<rparr> =
     Some ([(2, 17)], u')"
proof -
  have "length (dec_digits 2) \<le> 9" "length (dec_digits 17) \<le> 9" by (simp_all add: length_dec_digits)
  then show ?thesis
    using notifications_delivered [OF list_kernel_contracts idle_comms_ok, of "[Other [79, 75], Notify 2 17]"
        "\<lparr>urc_buf = replicate 64 0, urc_index = 0\<rparr>"]
    by (simp add: idle_comms_def RB_SIZE_def URC_SIZE_def NSONMI_def wire_def nsonmi_line_def)
qed

text \<open>Waiting for the network makes one query more than there were timeouts or answers
  without an address before the first answer with one, pauses three seconds between two queries,
  and leaves the rest of the input unread, if there were at most 30 of them.\<close>
theorem wait_until_ready_exact:
  assumes "length ip0 = 16" "length rs \<le> 30" "\<forall>r \<in> set rs. no_address r"
    "addr_text t" "1 < length (quoted (filter (\<lambda>b. \<not> isspace b) t))"
    "script m = concat rs @ address_reply t @ rx"
  shows "wait_until_ready ip0 0 m =
    Some (m\<lparr>script := rx, trace := trace m @ concat (replicate (length rs) poll) @ [cgpaddr_query]\<rparr>)"
  by (rule wait_until_ready_address [OF assms])

lemma addr_text_example: "addr_text [32, 48, 44, 34, 49, 46, 50, 34]"
  "quoted (filter (\<lambda>b. \<not> isspace b) [32, 48, 44, 34, 49, 46, 50, 34]) = [49, 46, 50]"
  by (simp_all add: addr_text_def quoted_def isspace_def)

theorem wait_until_ready_exact_witness:
  "wait_until_ready (replicate 16 0) 0 \<lparr>script = concat [[None], [None]] @ address_reply [32, 48, 44, 34, 49, 46, 50, 34] @ [None],
       trace = []\<rparr> =
     Some \<lparr>script = [None], trace = [cgpaddr_query, Sleep APN_RETRY_DELAY_MS, cgpaddr_query, Sleep APN_RETRY_DELAY_MS,
       cgpaddr_query]\<rparr>"
  using wait_until_ready_exact [of "replicate 16 0" "[[None], [None]]" "[32, 48, 44, 34, 49, 46, 50, 34]"
      "\<lparr>script = concat [[None], [None]] @ address_reply [32, 48, 44, 34, 49, 46, 50, 34] @ [None], trace = []\<rparr>" "[None]"]
  by (simp add: addr_text_def quoted_def isspace_def no_address_def poll_def)

text \<open>Waiting for the network always ends: without an address in the first 31 answers it
  gives up after 31 queries, with 30 pauses between them.\<close>
theorem wait_until_ready_gives_up:
  assumes "length ip0 = 16" "length rs = 31" "\<forall>r \<in> set rs. no_address r" "script m = concat rs @ rx"
  shows "wait_until_ready ip0 0 m =
    Some (m\<lparr>script := rx, trace := trace m @ concat (replicate 30 poll) @ [cgpaddr_query]\<rparr>)"
  by (rule wait_until_ready_no_address [OF assms])

theorem wait_until_ready_gives_up_witness:
  "wait_until_ready (replicate 16 0) 0 \<lparr>script = concat (replicate 31 [None]), trace = []\<rparr> =
     Some \<lparr>script = [], trace = concat (replicate 30 poll) @ [cgpaddr_query]\<rparr>"
  using wait_until_ready_gives_up [of "replicate 16 0" "replicate 31 [None]"
      "\<lparr>script = concat (replicate 31 [None]), trace = []\<rparr>" "[]"]
  by (simp add: no_address_def)

text \<open>For every access point name that is a string in its 64-byte buffer, configuring the
  modem does not overflow the 85-byte command buffer, whatever the modem answers, and sends exactly
  the context definition with that name and the auto-connect setting.\<close>
theorem modem_configure_sends:
  assumes "length current_apn = 64" "c_str current_apn = Some apn" "length ctx = 85"
  shows "\<exists>ctx' rx. modem_configure current_apn ctx m = Some (ctx', m\<lparr>script := rx, trace := trace m @
     [Write (define_context apn),
      Write (cstr ''AT+NCONFIG='' @ [34] @ cstr ''AUTOCONNECT'' @ [34, 44, 34] @ cstr ''TRUE'' @ [34, 13]),
      Sleep 1000]\<rparr>) \<and> length ctx' = 85"
proof -
  obtain ctx' where c: "length ctx' = 85" "modem_configure current_apn ctx m =
      Option.bind (await at_generic_decode (modem_write (define_context apn) m)) (\<lambda>(_, m).
      Option.bind (await at_generic_decode (modem_write autoconnect m)) (\<lambda>(_, m). Some (ctx', emit (Sleep 1000) m)))"
    using modem_configure_commands [OF assms] by blast
  let ?m1 = "modem_write (define_context apn) m"
  obtain r1 rx1 where 1: "await at_generic_decode ?m1 = Some (r1, ?m1\<lparr>script := rx1\<rparr>)"
    using await_cases(1) by blast
  let ?m2 = "modem_write autoconnect (?m1\<lparr>script := rx1\<rparr>)"
  obtain r2 rx2 where 2: "await at_generic_decode ?m2 = Some (r2, ?m2\<lparr>script := rx2\<rparr>)"
    using await_cases(1) by blast
  show ?thesis
    using 1 2 c by (simp add: modem_write_def emit_def autoconnect_def) (rule exI [of _ rx2], rule refl)
qed

theorem modem_configure_sends_witness:
  "\<exists>ctx' rx. modem_configure (cstr ''mda.ee'' @ replicate 58 0) (replicate 85 0) \<lparr>script = [], trace = []\<rparr> =
     Some (ctx', \<lparr>script = rx, trace = [Write (define_context (cstr ''mda.ee'')),
      Write (cstr ''AT+NCONFIG='' @ [34] @ cstr ''AUTOCONNECT'' @ [34, 44, 34] @ cstr ''TRUE'' @ [34, 13]),
      Sleep 1000]\<rparr>)"
  using modem_configure_sends [of "cstr ''mda.ee'' @ replicate 58 0" "cstr ''mda.ee''" "replicate 85 0"
      "\<lparr>script = [], trace = []\<rparr>"]
  by auto

end
