(* ===== verification/Max14830.thy ===== *)
theory Max14830
  imports Comms
begin

text \<open>
  The UART expander of \<open>max14830.c\<close>, through which the modem is connected: register access over
  I2C, the divider of the baud rate, sending, and the thread that hands received bytes to
  \<open>comms_handle_char\<close>. What is done on the bus is a trace; the results of register reads are a
  script, in which \<open>None\<close> (and the end of the script) is a failed transfer, which reads as 0.
\<close>

section \<open>Registers\<close>

definition CLOCK_FREQUENCY :: u32 where "CLOCK_FREQUENCY = 3686400"
definition LCR_REGISTER :: u8 where "LCR_REGISTER = 0x0B"
definition BRGCONFIG_REGISTER :: u8 where "BRGCONFIG_REGISTER = 0x1B"
definition DIVLSB_REGISTER :: u8 where "DIVLSB_REGISTER = 0x1C"
definition DIVMSB_REGISTER :: u8 where "DIVMSB_REGISTER = 0x1D"
definition CLKSOURCE_REGISTER :: u8 where "CLKSOURCE_REGISTER = 0x1E"
definition RxFIFOLvl_REGISTER :: u8 where "RxFIFOLvl_REGISTER = 0x12"
definition TxFIFOLvl_REGISTER :: u8 where "TxFIFOLvl_REGISTER = 0x11"
definition MODE1_REGISTER :: u8 where "MODE1_REGISTER = 0x09"
definition RXTIMEOUT_REGISTER :: u8 where "RXTIMEOUT_REGISTER = 0x0C"
definition MODE2XBIT :: u32 where "MODE2XBIT = 0b00010000"
definition MODE4XBIT :: u32 where "MODE4XBIT = 0b00100000"
definition THR_REGISTER :: u8 where "THR_REGISTER = 0x00"
definition RHR_REGISTER :: u8 where "RHR_REGISTER = 0x00"
definition NO_PARITY :: u8 where "NO_PARITY = 0"
definition EVEN_PARITY :: u8 where "EVEN_PARITY = 1"
definition ODD_PARITY :: u8 where "ODD_PARITY = 2"
definition EE_NBIOT_01_ADDRESS :: u8 where "EE_NBIOT_01_ADDRESS = 0x61"

lemmas max_registers = LCR_REGISTER_def BRGCONFIG_REGISTER_def DIVLSB_REGISTER_def DIVMSB_REGISTER_def CLKSOURCE_REGISTER_def
  RxFIFOLvl_REGISTER_def TxFIFOLvl_REGISTER_def MODE1_REGISTER_def RXTIMEOUT_REGISTER_def THR_REGISTER_def RHR_REGISTER_def
  EE_NBIOT_01_ADDRESS_def

datatype i2c_event = RegWrite u8 u8 u8 | RegRead u8 u8 | Pause int

record i2c =
  reg_script :: "u8 option list"
  i2c_log :: "i2c_event list"

definition log_i2c :: "i2c_event \<Rightarrow> i2c \<Rightarrow> i2c" where
  "log_i2c e m = m\<lparr>i2c_log := i2c_log m @ [e]\<rparr>"

text \<open>The result is only used by callers that ignore it.\<close>
definition max_write :: "u8 \<Rightarrow> u8 \<Rightarrow> u8 \<Rightarrow> i2c \<Rightarrow> i2c" where
  "max_write address reg dat = log_i2c (RegWrite address reg dat)"

definition max_read :: "u8 \<Rightarrow> u8 \<Rightarrow> i2c \<Rightarrow> u8 \<times> i2c" where
  "max_read address reg m =
     (let m' = log_i2c (RegRead address reg) m in
      case reg_script m of
        [] \<Rightarrow> (0, m')
      | None # rs \<Rightarrow> (0, m'\<lparr>reg_script := rs\<rparr>)
      | Some v # rs \<Rightarrow> (v, m'\<lparr>reg_script := rs\<rparr>))"

section \<open>Configuration\<close>

text \<open>Divider and mode of the baud rate generator.\<close>
definition uart_divider :: "u32 \<Rightarrow> u32 \<times> u32" where
  "uart_divider baud =
     (let clk = CLOCK_FREQUENCY;
          d = clk div baud;
          d = (if d < 16 then 16 else d)
      in if clk mod baud \<noteq> 0 \<and> d div 16 < 0x8000 then
           (let clk = CLOCK_FREQUENCY * 2;
                d = clk div baud
            in if clk mod baud \<noteq> 0 \<and> d div 16 < 0x8000 then ((CLOCK_FREQUENCY * 4) div baud, MODE4XBIT)
               else (d, MODE2XBIT))
         else (d, 0))"

text \<open>Word length, parity and stop bits; other values leave the bits alone.\<close>
definition uart_lcr :: "u8 \<Rightarrow> u8 \<Rightarrow> u8 \<Rightarrow> u8" where
  "uart_lcr wordlength parity stopBits =
     (let lcr = (0 :: u8);
          lcr = (if parity = EVEN_PARITY then lcr OR 0b00011000 else if parity = ODD_PARITY then lcr OR 0b00001000 else lcr);
          lcr = (if wordlength = 6 then lcr OR 0b00000001 else if wordlength = 7 then lcr OR 0b00000010
                 else if wordlength = 8 then lcr OR 0b00000011 else lcr)
      in if stopBits \<noteq> 0 then lcr AND 0b11111011 else lcr)"

definition init_uart :: "u8 \<Rightarrow> u32 \<Rightarrow> u8 \<Rightarrow> u8 \<Rightarrow> u8 \<Rightarrow> i2c \<Rightarrow> i2c" where
  "init_uart address baud wordlength parity stopBits m =
     (let (d, mode) = uart_divider baud;
          m = max_write address DIVLSB_REGISTER (ucast (d div 16)) m;
          m = max_write address DIVMSB_REGISTER (ucast (drop_bit 8 (d div 16))) m;
          m = max_write address BRGCONFIG_REGISTER (ucast (d mod 16 OR mode)) m;
          m = max_write address LCR_REGISTER (uart_lcr wordlength parity stopBits) m;
          m = max_write address CLKSOURCE_REGISTER 0b00001010 m
      in max_write address RXTIMEOUT_REGISTER 0b00000100 m)"

text \<open>
  The wait for the interrupt pin to go high: the levels that successive reads deliver. \<open>None\<close>: the
  pin is still low at the end of the levels, and the wait goes on.
\<close>
fun wait_for_reset :: "u32 list \<Rightarrow> u32 list option" where
  "wait_for_reset [] = None"
| "wait_for_reset (v # vs) = (if v = 0 then wait_for_reset vs else Some vs)"

text \<open>The kernel objects that are created here have no state of their own.\<close>
definition max_init :: "u32 list \<Rightarrow> i2c \<Rightarrow> i2c option" where
  "max_init levels m = do {
     _ \<leftarrow> wait_for_reset levels;
     Some (init_uart EE_NBIOT_01_ADDRESS 9600 8 NO_PARITY 1 m) }"

section \<open>Sending\<close>

definition enable_rx_mode :: "u8 \<Rightarrow> i2c \<Rightarrow> i2c" where
  "enable_rx_mode address m =
     (let (mode1, m) = max_read address MODE1_REGISTER m in max_write address MODE1_REGISTER (mode1 OR 0b10000010) m)"

definition enable_tx_mode :: "u8 \<Rightarrow> i2c \<Rightarrow> i2c" where
  "enable_tx_mode address m =
     (let (mode1, m) = max_read address MODE1_REGISTER m in max_write address MODE1_REGISTER (mode1 AND 0b10000001) m)"

text \<open>Every read uses up the script, and behind its end delivers 0.\<close>
lemma max_read_shorter:
  "max_read a r m = (v, m') \<Longrightarrow> length (reg_script m') + (if v = 0 then 0 else 1) \<le> length (reg_script m)"
  by (auto simp: max_read_def log_i2c_def Let_def split: list.splits option.splits)

text \<open>The wait ends at the latest when a read fails.\<close>
function wait_for_tx :: "u8 \<Rightarrow> i2c \<Rightarrow> i2c" where
  "wait_for_tx address m =
     (case max_read address TxFIFOLvl_REGISTER m of
        (level, m) \<Rightarrow> if level \<noteq> 0 then wait_for_tx address (log_i2c (Pause 1) m) else m)"
  by pat_completeness auto
termination
  by (relation "measure (\<lambda>(a, m). length (reg_script m))") (auto simp: log_i2c_def dest!: max_read_shorter [OF sym])

declare wait_for_tx.simps [simp del]

fun send_bytes :: "bytes \<Rightarrow> i2c \<Rightarrow> i2c" where
  "send_bytes [] m = m"
| "send_bytes (b # bs) m = send_bytes bs (max_write EE_NBIOT_01_ADDRESS THR_REGISTER b m)"

text \<open>The length is a byte; \<open>None\<close> is a read behind the end of the buffer.\<close>
definition max_send :: "bytes \<Rightarrow> u8 \<Rightarrow> i2c \<Rightarrow> (int \<times> i2c) option" where
  "max_send buf len m =
     (if unat len \<le> length buf then
        (let m = enable_tx_mode EE_NBIOT_01_ADDRESS m;
             m = send_bytes (take (unat len) buf) m;
             m = wait_for_tx EE_NBIOT_01_ADDRESS m
         in Some (0, enable_rx_mode EE_NBIOT_01_ADDRESS m))
      else None)"

section \<open>Receiving\<close>

text \<open>The callback, if one is set, with the state it works on.\<close>
function read_from_rx_fifo :: "(u8 \<Rightarrow> 'c \<Rightarrow> 'c) option \<Rightarrow> u8 \<Rightarrow> i2c \<Rightarrow> 'c \<Rightarrow> i2c \<times> 'c" where
  "read_from_rx_fifo cb address m c =
     (case max_read address RxFIFOLvl_REGISTER m of
        (fifo_level, m) \<Rightarrow>
          if fifo_level = 0 then (m, c)
          else (case max_read address RHR_REGISTER m of
            (ch, m) \<Rightarrow> read_from_rx_fifo cb address m (case cb of None \<Rightarrow> c | Some f \<Rightarrow> f ch c)))"
  by pat_completeness auto
termination
  by (relation "measure (\<lambda>(cb, a, m, c). length (reg_script m))")
    (auto dest!: max_read_shorter [OF sym] split: if_splits)

declare read_from_rx_fifo.simps [simp del]

text \<open>One round of the receiving thread.\<close>
definition max_proc :: "(u8 \<Rightarrow> 'c \<Rightarrow> 'c) option \<Rightarrow> i2c \<Rightarrow> 'c \<Rightarrow> i2c \<times> 'c" where
  "max_proc cb m c = (let (m, c) = read_from_rx_fifo cb EE_NBIOT_01_ADDRESS m c in (log_i2c (Pause 10) m, c))"


section \<open>Lemmas\<close>

lemma max_read_some:
  "reg_script m = Some v # rs \<Longrightarrow> max_read a r m = (v, \<lparr>reg_script = rs, i2c_log = i2c_log m @ [RegRead a r]\<rparr>)"
  by (simp add: max_read_def log_i2c_def)

lemma max_write_fields [simp]:
  "reg_script (max_write a r v m) = reg_script m" "i2c_log (max_write a r v m) = i2c_log m @ [RegWrite a r v]"
  "reg_script (log_i2c e m) = reg_script m" "i2c_log (log_i2c e m) = i2c_log m @ [e]"
  by (simp_all add: max_write_def log_i2c_def)

lemma send_bytes_fields [simp]:
  "reg_script (send_bytes bs m) = reg_script m"
  "i2c_log (send_bytes bs m) = i2c_log m @ map (RegWrite EE_NBIOT_01_ADDRESS THR_REGISTER) bs"
  by (induction bs arbitrary: m) simp_all

lemma wait_for_tx_polls:
  assumes "0 \<notin> set levels" "reg_script m = map Some levels @ Some 0 # rs"
  shows "reg_script (wait_for_tx a m) = rs \<and> i2c_log (wait_for_tx a m) =
     i2c_log m @ concat (map (\<lambda>_. [RegRead a TxFIFOLvl_REGISTER, Pause 1]) levels) @ [RegRead a TxFIFOLvl_REGISTER]"
  using assms
proof (induction levels arbitrary: m)
  case Nil
  then show ?case by (subst (1 2) wait_for_tx.simps) (simp add: max_read_some)
next
  case (Cons l ls)
  let ?m = "log_i2c (Pause 1) \<lparr>reg_script = map Some ls @ Some 0 # rs, i2c_log = i2c_log m @ [RegRead a TxFIFOLvl_REGISTER]\<rparr>"
  have "wait_for_tx a m = wait_for_tx a ?m"
    using Cons.prems by (subst wait_for_tx.simps) (simp add: max_read_some)
  then show ?case using Cons.IH [of ?m] Cons.prems by simp
qed

text \<open>The reads that empty a receive buffer: a level that is not zero and a byte, again and again.\<close>
fun fifo_reads :: "(u8 \<times> u8) list \<Rightarrow> u8 option list" where
  "fifo_reads [] = [Some 0]"
| "fifo_reads ((level, b) # xs) = Some level # Some b # fifo_reads xs"

lemma read_fifo_bytes:
  assumes "0 \<notin> fst ` set xs" "reg_script m = fifo_reads xs @ rs"
  shows "reg_script (fst (read_from_rx_fifo (Some f) a m c)) = rs \<and>
     snd (read_from_rx_fifo (Some f) a m c) = fold f (map snd xs) c"
  using assms
proof (induction xs arbitrary: m c)
  case Nil
  then show ?case by (subst (1 2) read_from_rx_fifo.simps) (simp add: max_read_some)
next
  case (Cons x xs)
  obtain l b where x: "x = (l, b)" by fastforce
  let ?m = "\<lparr>reg_script = fifo_reads xs @ rs, i2c_log = i2c_log m @ [RegRead a RxFIFOLvl_REGISTER] @ [RegRead a RHR_REGISTER]\<rparr>"
  have "read_from_rx_fifo (Some f) a m c = read_from_rx_fifo (Some f) a ?m (f b c)"
    using Cons.prems x by (subst read_from_rx_fifo.simps) (simp add: max_read_some)
  then show ?case using Cons.IH [of ?m "f b c"] Cons.prems x by simp
qed

section \<open>The divider\<close>

lemma unat_CLOCK: "unat CLOCK_FREQUENCY = 3686400" "unat (CLOCK_FREQUENCY * 2) = 7372800" "unat (CLOCK_FREQUENCY * 4) = 14745600"
  by (simp_all add: CLOCK_FREQUENCY_def)

text \<open>The clock multiplier that a mode selects.\<close>
definition mode_factor :: "u32 \<Rightarrow> nat" where
  "mode_factor mode = (if mode = MODE4XBIT then 4 else if mode = MODE2XBIT then 2 else 1)"

lemma double_div:
  assumes "0 < (b :: nat)"
  shows "2 * a div b \<le> 2 * (a div b) + 1"
proof -
  have "a < (a div b + 1) * b" using assms dividend_less_div_times [of b a] by (simp add: algebra_simps)
  then have "2 * a < (2 * (a div b) + 2) * b" by (simp add: algebra_simps)
  then show ?thesis using less_mult_imp_div_less [of "2 * a" "2 * (a div b) + 2" b] by simp
qed

lemma uart_divider_exact:
  assumes "4 \<le> unat baud" "unat baud \<le> 230400" "uart_divider baud = (d, mode)"
  shows "unat d = mode_factor mode * 3686400 div unat baud \<and> 16 \<le> unat d \<and> unat d < 2 ^ 20 \<and>
     (mode = 0 \<or> mode = MODE2XBIT \<or> mode = MODE4XBIT)"
proof -
  let ?b = "unat baud" and ?d1 = "CLOCK_FREQUENCY div baud" and ?d2 = "CLOCK_FREQUENCY * 2 div baud"
    and ?d4 = "CLOCK_FREQUENCY * 4 div baud"
  have d: "unat ?d1 = 3686400 div ?b" "unat ?d2 = 7372800 div ?b" "unat ?d4 = 14745600 div ?b"
    by (simp_all only: unat_div unat_CLOCK)
  have ge: "16 \<le> 3686400 div ?b" using div_le_mono2 [of ?b 230400 3686400] assms(1,2) by simp
  have le: "3686400 div ?b \<le> 921600" using div_le_mono2 [of 4 ?b 3686400] assms(1,2) by simp
  have dbl: "7372800 div ?b \<le> 2 * (3686400 div ?b) + 1" "14745600 div ?b \<le> 2 * (7372800 div ?b) + 1"
    using double_div [of ?b 3686400] double_div [of ?b 7372800] assms(1) by simp_all
  have mono: "3686400 div ?b \<le> 7372800 div ?b" "7372800 div ?b \<le> 14745600 div ?b" by (simp_all add: div_le_mono)
  have small: "x div 16 < 0x8000 \<longleftrightarrow> unat x < 524288" for x :: u32
    by (simp add: word_less_nat_alt unat_div div_less_iff_less_mult)
  have not16: "\<not> ?d1 < 16" using ge d(1) by (simp add: word_less_nat_alt)
  have modes: "MODE2XBIT \<noteq> 0" "MODE4XBIT \<noteq> 0" "MODE2XBIT \<noteq> MODE4XBIT" by (simp_all add: MODE2XBIT_def MODE4XBIT_def)
  consider "d = ?d1" "mode = 0" | "d = ?d2" "mode = MODE2XBIT" "unat ?d1 < 524288"
    | "d = ?d4" "mode = MODE4XBIT" "unat ?d1 < 524288" "unat ?d2 < 524288"
    using assms(3) not16 unfolding uart_divider_def Let_def small by (auto split: if_splits)
  then show ?thesis
    using d ge le dbl mono modes by cases (simp_all add: mode_factor_def)
qed


text \<open>The fraction and the mode share a byte.\<close>
lemma brg_byte:
  assumes "mode = 0 \<or> mode = MODE2XBIT \<or> mode = MODE4XBIT"
  shows "unat (ucast (d mod 16 OR mode) :: u8) = unat d mod 16 + 16 * (mode_factor mode div 2)"
proof -
  have m: "mode = push_bit 4 (of_nat (mode_factor mode div 2))" "mode_factor mode div 2 \<le> 2"
    using assms by (auto simp: mode_factor_def MODE2XBIT_def MODE4XBIT_def)
  have t: "d mod 16 = take_bit 4 d" by (simp add: take_bit_eq_mod)
  have z: "take_bit 4 d AND push_bit 4 x = 0" for x :: u32
    by (rule bit_word_eqI) (auto simp: bit_simps)
  have "d mod 16 AND mode = 0"
    using z [of "of_nat (mode_factor mode div 2)"] unfolding t m(1) [symmetric] .
  then have sum: "d mod 16 OR mode = d mod 16 + mode" using disjunctive_add_eq_or by metis
  have small: "unat (d mod 16) = unat d mod 16" "unat mode = 16 * (mode_factor mode div 2)"
    using assms by (auto simp: unat_mod mode_factor_def MODE2XBIT_def MODE4XBIT_def)
  have "unat (d mod 16 + mode) = (unat d mod 16 + 16 * (mode_factor mode div 2)) mod 2 ^ 32"
    using small by (simp add: unat_word_ariths)
  also have "\<dots> = unat d mod 16 + 16 * (mode_factor mode div 2)"
    using m(2) by (intro mod_less) (simp add: less_le_trans [OF add_less_le_mono [OF mod_less_divisor [of 16 "unat d"] mult_le_mono2 [OF m(2), of 16]]])
  finally have u: "unat (d mod 16 OR mode) = unat d mod 16 + 16 * (mode_factor mode div 2)" using sum by simp
  have "unat d mod 16 + 16 * (mode_factor mode div 2) < 256"
    using m(2) mod_less_divisor [of 16 "unat d"] by linarith
  then show ?thesis using u by (simp add: unsigned_ucast_eq take_bit_nat_eq_self)
qed


section \<open>Properties\<close>

text \<open>C37: the receive path as a whole. What the expander has in its receive buffer is read
  completely in one round of the thread, pauses for 10 ms behind it, and \<open>modem_read\<close> delivers
  exactly these bytes in order behind the ones that were waiting, and then times out.\<close>
theorem received_bytes_reach_reader:
  assumes "ring_contract k content cap" "sem_contract k count limit"
    "comms_ok content cap count limit s" "0 \<notin> fst ` set xs" "reg_script m = fifo_reads xs @ rs"
    "length (content (rx_rb s)) + length xs \<le> cap (rx_rb s)" "max_proc (Some (comms_handle_char k)) m s = (m', s')"
  shows "reg_script m' = rs \<and> last (i2c_log m') = Pause 10 \<and>
     modem_reads k (length (content (rx_rb s)) + length xs + n) s' =
       map Some (content (rx_rb s) @ map snd xs) @ replicate n None"
proof -
  have r: "s' = fold (comms_handle_char k) (map snd xs) s" "reg_script m' = rs" "last (i2c_log m') = Pause 10"
    using read_fifo_bytes [OF assms(4,5), of "comms_handle_char k" EE_NBIOT_01_ADDRESS s] assms(7)
    by (auto simp: max_proc_def split: prod.splits)
  have len: "length (content (rx_rb s)) + length (map snd xs) \<le> cap (rx_rb s)" using assms(6) by simp
  show ?thesis
    using handle_chars_rx [OF assms(1-3) len] modem_reads_content [OF assms(1,2), of _ n] r
    by (metis length_append length_map)
qed

theorem received_bytes_reach_reader_witness:
  "modem_reads list_kernel 3 (snd (max_proc (Some (comms_handle_char list_kernel))
     \<lparr>reg_script = [Some 2, Some 79, Some 1, Some 75, Some 0], i2c_log = []\<rparr> idle_comms)) = [Some 79, Some 75, None]"
proof -
  let ?m = "\<lparr>reg_script = [Some 2, Some 79, Some 1, Some 75, Some 0], i2c_log = []\<rparr>"
  obtain m' s' where r: "max_proc (Some (comms_handle_char list_kernel)) ?m idle_comms = (m', s')" by fastforce
  show ?thesis
    using received_bytes_reach_reader [OF list_kernel_contracts idle_comms_ok _ _ _ r, of "[(2, 79), (1, 75)]" "[]" 1] r
    by (simp add: idle_comms_def RB_SIZE_def numeral_3_eq_3)
qed

text \<open>C38: sending. A command of fewer than 256 bytes goes to the transmitter byte for byte,
  between switching the expander to sending and back to receiving, and the driver polls until the
  transmitter is empty.\<close>
theorem max_send_exact:
  assumes "length buf < 256" "0 \<notin> set levels" "reg_script m = Some v # map Some levels @ Some 0 # Some w # rs"
  shows "\<exists>m'. max_send buf (of_nat (length buf)) m = Some (0, m') \<and> reg_script m' = rs \<and>
     i2c_log m' = i2c_log m @ [RegRead 0x61 0x09, RegWrite 0x61 0x09 (v AND 0x81)] @ map (RegWrite 0x61 0x00) buf @
       concat (map (\<lambda>_. [RegRead 0x61 0x11, Pause 1]) levels) @ [RegRead 0x61 0x11, RegRead 0x61 0x09, RegWrite 0x61 0x09 (w OR 0x82)]"
proof -
  have len: "unat (of_nat (length buf) :: u8) = length buf" using assms(1) by (rule unat_of_nat_u8)
  define m1 where "m1 = send_bytes buf (enable_tx_mode 0x61 m)"
  have m1: "reg_script m1 = map Some levels @ Some 0 # Some w # rs"
    "i2c_log m1 = i2c_log m @ [RegRead 0x61 0x09, RegWrite 0x61 0x09 (v AND 0x81)] @ map (RegWrite 0x61 0x00) buf"
    using assms(3) by (simp_all add: m1_def enable_tx_mode_def max_read_some max_registers)
  define m2 where "m2 = wait_for_tx 0x61 m1"
  have m2: "reg_script m2 = Some w # rs"
    "i2c_log m2 = i2c_log m1 @ concat (map (\<lambda>_. [RegRead 0x61 0x11, Pause 1]) levels) @ [RegRead 0x61 0x11]"
    using wait_for_tx_polls [OF assms(2) m1(1), of "0x61"] by (simp_all add: m2_def max_registers)
  have "max_send buf (of_nat (length buf)) m = Some (0, enable_rx_mode 0x61 m2)"
    using len by (simp add: max_send_def m1_def m2_def Let_def EE_NBIOT_01_ADDRESS_def)
  then show ?thesis using m1(2) m2 by (simp add: enable_rx_mode_def max_read_some max_registers)
qed

theorem max_send_exact_witness:
  "\<exists>m'. max_send [65, 84, 13] 3 \<lparr>reg_script = [Some 0xFF, Some 2, Some 0, Some 0], i2c_log = []\<rparr> = Some (0, m') \<and>
     reg_script m' = []"
  using max_send_exact [of "[65, 84, 13]" "[2]" "\<lparr>reg_script = [Some 0xFF, Some 2, Some 0, Some 0], i2c_log = []\<rparr>" "0xFF" 0 "[]"]
  by auto

text \<open>The baud rate. For every rate from 4 to 230400 the three registers hold a divider from
  16 to 2 to the 20, split into its bytes and its fraction, and a clock factor, with which the
  generator comes as close to the rate from above as a divider of that factor can.\<close>
theorem baud_rate_registers:
  assumes "4 \<le> unat baud" "unat baud \<le> 230400"
  shows "\<exists>lsb msb brg d factor. i2c_log (init_uart a baud wordlength parity stopBits m) = i2c_log m @
       [RegWrite a 0x1C lsb, RegWrite a 0x1D msb, RegWrite a 0x1B brg,
        RegWrite a 0x0B (uart_lcr wordlength parity stopBits), RegWrite a 0x1E 0x0A, RegWrite a 0x0C 0x04] \<and>
     d = 16 * (256 * unat msb + unat lsb) + unat brg mod 16 \<and> 16 \<le> d \<and> d < 2 ^ 20 \<and>
     (factor = 1 \<or> factor = 2 \<or> factor = 4) \<and> unat brg div 16 = factor div 2 \<and>
     unat baud * d \<le> factor * 3686400 \<and> factor * 3686400 < unat baud * (d + 1)"
proof -
  obtain d mode where dm: "uart_divider baud = (d, mode)" by fastforce
  note e = uart_divider_exact [OF assms dm]
  let ?lsb = "ucast (d div 16) :: u8" and ?msb = "ucast (drop_bit 8 (d div 16)) :: u8" and ?brg = "ucast (d mod 16 OR mode) :: u8"
  let ?k = "mode_factor mode"
  have small: "unat d div 16 div 256 < 256" using e by (simp add: div_less_iff_less_mult)
  have lsb: "unat ?lsb = unat d div 16 mod 256"
    by (simp add: unsigned_ucast_eq unat_div take_bit_eq_mod)
  have msb: "unat ?msb = unat d div 16 div 256"
    using small by (simp add: unsigned_ucast_eq unat_div unsigned_drop_bit_eq drop_bit_eq_div take_bit_eq_mod)
  have brg: "unat ?brg = unat d mod 16 + 16 * (?k div 2)" using brg_byte e by blast
  have d: "unat d = 16 * (256 * unat ?msb + unat ?lsb) + unat ?brg mod 16"
    unfolding lsb msb brg by (simp add: mult_div_mod_eq)
  have k: "?k = 1 \<or> ?k = 2 \<or> ?k = 4" by (simp add: mode_factor_def)
  have "unat baud * unat d \<le> ?k * 3686400 \<and> ?k * 3686400 < unat baud * (unat d + 1)"
    using e assms(1) dividend_less_times_div [of "unat baud" "?k * 3686400"] by (simp add: algebra_simps)
  then have rate: "unat baud * unat d \<le> ?k * 3686400" "?k * 3686400 < unat baud * (unat d + 1)" by simp_all
  have log: "i2c_log (init_uart a baud wordlength parity stopBits m) = i2c_log m @
       [RegWrite a 0x1C ?lsb, RegWrite a 0x1D ?msb, RegWrite a 0x1B ?brg,
        RegWrite a 0x0B (uart_lcr wordlength parity stopBits), RegWrite a 0x1E 0x0A, RegWrite a 0x0C 0x04]"
    using dm by (simp add: init_uart_def max_registers)
  have brg16: "unat ?brg div 16 = ?k div 2" unfolding brg by simp
  show ?thesis
    by (intro exI conjI) (rule log d e [THEN conjunct2, THEN conjunct1] e [THEN conjunct2, THEN conjunct2, THEN conjunct1] k brg16 rate)+
qed

theorem baud_rate_registers_witness:
  "\<exists>d factor. 16 \<le> d \<and> unat (9600 :: u32) * d \<le> factor * 3686400 \<and> factor * 3686400 < unat (9600 :: u32) * (d + 1)"
proof -
  have "4 \<le> unat (9600 :: u32)" "unat (9600 :: u32) \<le> 230400" by simp_all
  from baud_rate_registers [OF this, of 0 8 0 1 "\<lparr>reg_script = [], i2c_log = []\<rparr>"] show ?thesis by blast
qed

end
