(* ===== verification/Board.thy ===== *)
theory Board
  imports Prelude
begin

text \<open>
  The pins of \<open>gpio.c\<close> and the SPI bus that the sensor drivers share. What a driver does to the
  hardware is a trace of events; what the devices answer is a script with one entry per transfer:
  the bytes received, or \<open>None\<close> for a transfer that fails and leaves the receive buffer alone.
  Behind the end of the script every transfer fails.
\<close>

section \<open>Events\<close>

datatype hw_event =
    Pin nat nat
  | PinOut nat
  | PinIn nat
  | PinInPullUp nat
  | Transfer bytes
  | Delay int
  | DelayUs int

record bus =
  answers :: "bytes option list"
  events :: "hw_event list"

definition log_event :: "hw_event \<Rightarrow> bus \<Rightarrow> bus" where
  "log_event e b = b\<lparr>events := events b @ [e]\<rparr>"

text \<open>A transfer of the first bytes of the transmit buffer into the start of the receive buffer.\<close>
definition receive_into :: "nat \<Rightarrow> bytes option \<Rightarrow> bytes \<Rightarrow> bytes" where
  "receive_into n a rx = (case a of None \<Rightarrow> rx | Some bs \<Rightarrow> take n bs @ drop (min n (length bs)) rx)"

definition spi_transceive :: "nat \<Rightarrow> bytes \<Rightarrow> bytes \<Rightarrow> bus \<Rightarrow> bytes \<times> bus" where
  "spi_transceive n tx rx b =
     (case answers b of
        [] \<Rightarrow> (rx, log_event (Transfer (take n tx)) b)
      | a # as \<Rightarrow> (receive_into n a rx, log_event (Transfer (take n tx)) (b\<lparr>answers := as\<rparr>)))"

text \<open>A write without receive buffer also uses one entry of the script.\<close>
definition spi_write :: "nat \<Rightarrow> bytes \<Rightarrow> bus \<Rightarrow> bus" where
  "spi_write n tx b = log_event (Transfer (take n tx)) (b\<lparr>answers := tl (answers b)\<rparr>)"

definition SPI_BUF_SIZE :: nat where "SPI_BUF_SIZE = 256"

datatype spi_flag = SPI_OP_MODE_MASTER | SPI_WORD_SET_8 | SPI_TRANSFER_MSB | SPI_MODE_CPHA

record spi_config =
  cs_control :: "nat option"
  frequency :: nat
  operation :: "spi_flag list"
  slave :: nat

section \<open>Pins\<close>

definition LOW :: nat where "LOW = 0"
definition HIGH :: nat where "HIGH = 1"
definition CS_ADC :: nat where "CS_ADC = 28"
definition CS_OPC :: nat where "CS_OPC = 29"
definition CS_SX1276 :: nat where "CS_SX1276 = 22"
definition ADC_RESET :: nat where "ADC_RESET = 30"
definition ADC_SYNC :: nat where "ADC_SYNC = 31"
definition GPS_FORCE_ON :: nat where "GPS_FORCE_ON = 17"
definition GPS_TX :: nat where "GPS_TX = 8"
definition GPS_RX :: nat where "GPS_RX = 7"
definition GPS_RESET :: nat where "GPS_RESET = 6"
definition GPS_WAKE_UP :: nat where "GPS_WAKE_UP = 5"
definition MAX14830_IRQ :: nat where "MAX14830_IRQ = 3"
definition MAX14830_RESET :: nat where "MAX14830_RESET = 4"
definition EE_NBIOT_01_RESET :: nat where "EE_NBIOT_01_RESET = 2"
definition RESET_PIN_PULLER_MIGHT_NOT_NEED :: int where "RESET_PIN_PULLER_MIGHT_NOT_NEED = 100"

lemmas pinout = CS_ADC_def CS_OPC_def CS_SX1276_def ADC_RESET_def ADC_SYNC_def GPS_FORCE_ON_def GPS_TX_def GPS_RX_def
  GPS_RESET_def GPS_WAKE_UP_def MAX14830_IRQ_def MAX14830_RESET_def EE_NBIOT_01_RESET_def

text \<open>The results of the pin driver are only logged, or returned to callers that ignore them.\<close>
definition digitalWrite :: "nat \<Rightarrow> nat \<Rightarrow> bus \<Rightarrow> bus" where
  "digitalWrite p v = log_event (Pin p v)"

definition ConfigureOutputPin :: "nat \<Rightarrow> bus \<Rightarrow> bus" where
  "ConfigureOutputPin p = log_event (PinOut p)"

definition ConfigureInputPin :: "nat \<Rightarrow> bus \<Rightarrow> bus" where
  "ConfigureInputPin p = log_event (PinIn p)"

definition k_sleep :: "int \<Rightarrow> bus \<Rightarrow> bus" where
  "k_sleep d = log_event (Delay d)"

definition init_GPIO :: "bus \<Rightarrow> bus" where
  "init_GPIO b = fold (\<lambda>f. f)
     [ConfigureOutputPin CS_SX1276, digitalWrite CS_SX1276 1,
      ConfigureOutputPin CS_ADC, ConfigureOutputPin ADC_SYNC, ConfigureOutputPin ADC_RESET,
      digitalWrite ADC_SYNC 0, digitalWrite ADC_RESET 0, k_sleep RESET_PIN_PULLER_MIGHT_NOT_NEED,
      digitalWrite ADC_RESET 1, digitalWrite CS_ADC 1,
      ConfigureOutputPin CS_OPC, digitalWrite CS_OPC 1,
      ConfigureOutputPin GPS_FORCE_ON, ConfigureOutputPin GPS_TX, ConfigureOutputPin GPS_RESET,
      ConfigureOutputPin GPS_WAKE_UP, ConfigureInputPin GPS_RX,
      digitalWrite GPS_RESET 0, digitalWrite GPS_RESET 1, digitalWrite GPS_FORCE_ON 0,
      k_sleep RESET_PIN_PULLER_MIGHT_NOT_NEED, digitalWrite GPS_FORCE_ON 1,
      ConfigureOutputPin MAX14830_RESET, digitalWrite MAX14830_RESET 1, digitalWrite MAX14830_RESET 0,
      k_sleep RESET_PIN_PULLER_MIGHT_NOT_NEED, digitalWrite MAX14830_RESET 1,
      k_sleep RESET_PIN_PULLER_MIGHT_NOT_NEED, log_event (PinInPullUp MAX14830_IRQ),
      ConfigureOutputPin EE_NBIOT_01_RESET, digitalWrite EE_NBIOT_01_RESET 1] b"

text \<open>The device is looked up and the pins are set up at the first call.\<close>
definition get_GPIO_device :: "bool \<Rightarrow> bool \<Rightarrow> bus \<Rightarrow> bool \<times> bus" where
  "get_GPIO_device binding_ok bound b =
     (if \<not> bound then (if binding_ok then (True, init_GPIO b) else (False, b)) else (True, b))"

definition gps_reset :: "bus \<Rightarrow> bus" where
  "gps_reset b = fold (\<lambda>f. f)
     [digitalWrite GPS_RESET 0, digitalWrite GPS_RESET 1, digitalWrite GPS_FORCE_ON 0,
      k_sleep RESET_PIN_PULLER_MIGHT_NOT_NEED, digitalWrite GPS_FORCE_ON 1] b"

definition UnSelect :: "nat \<Rightarrow> bus \<Rightarrow> bus" where
  "UnSelect p = digitalWrite p 1"

definition UnselectAllSPI :: "bus \<Rightarrow> bus" where
  "UnselectAllSPI b = UnSelect CS_ADC (UnSelect CS_OPC b)"

definition Select :: "nat \<Rightarrow> bus \<Rightarrow> bus" where
  "Select p b = digitalWrite p 0 (UnselectAllSPI b)"

section \<open>The bus discipline\<close>

text \<open>
  The chip selects of the two devices on the bus. The discipline: both are never low together, and
  a transfer happens only while exactly one device is selected. The state is the set of selected
  devices; the result is that set at the end of a trace, or nothing when the discipline is broken.
\<close>
definition chip :: "nat \<Rightarrow> bool" where
  "chip p \<longleftrightarrow> p = CS_ADC \<or> p = CS_OPC"

fun bus_run :: "nat option \<Rightarrow> hw_event list \<Rightarrow> nat option option" where
  "bus_run s [] = Some s"
| "bus_run s (Pin p v # es) =
     (if \<not> chip p then bus_run s es
      else if v = 0 then (if s = None \<or> s = Some p then bus_run (Some p) es else None)
      else bus_run (if s = Some p then None else s) es)"
| "bus_run s (Transfer bs # es) = (if s = None then None else bus_run s es)"
| "bus_run s (e # es) = bus_run s es"

lemma bus_run_append: "bus_run s (xs @ ys) = Option.bind (bus_run s xs) (\<lambda>s. bus_run s ys)"
  by (induction s xs rule: bus_run.induct) auto

text \<open>A driver action that takes the bus from one state of the selects to another.\<close>
definition drives :: "nat option \<Rightarrow> bus \<Rightarrow> nat option \<Rightarrow> bus \<Rightarrow> bool" where
  "drives s b s' b' \<longleftrightarrow> (\<exists>es. events b' = events b @ es \<and> bus_run s es = Some s')"

lemma drives_refl: "drives s b s b"
  by (simp add: drives_def)

lemma drives_trans: "drives s a s' b \<Longrightarrow> drives s' b s'' c \<Longrightarrow> drives s a s'' c"
  unfolding drives_def by (metis append_assoc bus_run_append bind.bind_lunit)

lemma bus_fields [simp]:
  "events (log_event e b) = events b @ [e]"
  "answers (log_event e b) = answers b"
  "events (digitalWrite p v b) = events b @ [Pin p v]"
  "answers (digitalWrite p v b) = answers b"
  "events (k_sleep d b) = events b @ [Delay d]"
  "answers (k_sleep d b) = answers b"
  by (simp_all add: log_event_def digitalWrite_def k_sleep_def)

lemma spi_events [simp]:
  "events (snd (spi_transceive n tx rx b)) = events b @ [Transfer (take n tx)]"
  "events (spi_write n tx b) = events b @ [Transfer (take n tx)]"
  by (simp_all add: spi_transceive_def spi_write_def split: list.split)

lemma receive_length: "n \<le> length rx \<Longrightarrow> length (receive_into n a rx) = length rx"
  by (auto simp: receive_into_def split: option.split)

lemma spi_length [simp]: "n \<le> length rx \<Longrightarrow> length (fst (spi_transceive n tx rx b)) = length rx"
  by (auto simp: spi_transceive_def receive_length split: list.split)

text \<open>Every elementary action, as the step of a longer one.\<close>
lemma drives_steps:
  "drives s a s' b \<Longrightarrow> drives s a s' (k_sleep d b)"
  "drives s a s' b \<Longrightarrow> drives s a s' (log_event (DelayUs d) b)"
  "drives s a (Some p) b \<Longrightarrow> drives s a (Some p) (snd (spi_transceive n tx rx b))"
  "drives s a (Some p) b \<Longrightarrow> drives s a (Some p) (spi_write n tx b)"
  "drives s a None b \<Longrightarrow> chip p \<Longrightarrow> drives s a (Some p) (digitalWrite p LOW b)"
  "drives s a (Some p) b \<Longrightarrow> chip p \<Longrightarrow> drives s a None (digitalWrite p HIGH b)"
  "drives s a None b \<Longrightarrow> chip p \<Longrightarrow> drives s a None (digitalWrite p HIGH b)"
  "drives s a s' b \<Longrightarrow> \<not> chip p \<Longrightarrow> drives s a s' (digitalWrite p v b)"
  by (auto simp: drives_def bus_run_append LOW_def HIGH_def)

text \<open>The time that a trace pauses, in milliseconds.\<close>
definition pause_of :: "hw_event \<Rightarrow> int" where
  "pause_of e = (case e of Delay d \<Rightarrow> max 0 d | _ \<Rightarrow> 0)"

definition spent :: "bus \<Rightarrow> int" where
  "spent b = sum_list (map pause_of (events b))"

lemma pauses_nonneg: "0 \<le> sum_list (map pause_of es)"
  by (induction es) (auto simp: pause_of_def split: hw_event.split)

lemma drives_spent: "drives s a s' b \<Longrightarrow> spent a \<le> spent b"
  using pauses_nonneg by (auto simp: drives_def spent_def)

lemma k_sleep_spent [simp]: "spent (k_sleep d b) = spent b + max 0 d"
  by (simp add: spent_def pause_of_def)

lemma chips: "chip CS_ADC" "chip CS_OPC" "\<not> chip ADC_SYNC" "\<not> chip ADC_RESET" "\<not> chip GPS_RESET" "\<not> chip GPS_FORCE_ON"
  by (simp_all add: chip_def pinout)

lemma gps_reset_drives: "drives s b s (gps_reset b)"
  by (simp add: gps_reset_def drives_steps chips drives_refl)


section \<open>Devices of the other buses\<close>

text \<open>The SPI device is looked up until that succeeds.\<close>
definition get_SPI_device :: "bool \<Rightarrow> bool \<Rightarrow> bool" where
  "get_SPI_device binding_ok bound \<longleftrightarrow> bound \<or> binding_ok"

text \<open>The I2C device counts as found from the first look-up on, also when its configuration failed.\<close>
definition get_I2C_device :: "bool \<Rightarrow> bool \<Rightarrow> bool \<Rightarrow> bool \<times> bool" where
  "get_I2C_device binding_ok configure_ok bound =
     (if \<not> bound then (if \<not> binding_ok then (False, False) else if \<not> configure_ok then (False, True) else (True, True))
      else (True, True))"

section \<open>Drivers that share the bus\<close>

text \<open>
  The contract between the drivers on the bus: whatever its device answers, the action of a driver
  returns, keeps the driver's own invariant, and starting on a free bus it keeps the discipline and
  leaves the bus free. It takes at least the time \<open>cost\<close>, in milliseconds.
\<close>
locale spi_driver =
  fixes ok :: "'s \<Rightarrow> bool" and bus_of :: "'s \<Rightarrow> bus" and put_bus :: "bus \<Rightarrow> 's \<Rightarrow> 's" and act :: "'s \<Rightarrow> 's option" and cost :: int
  assumes bus_put: "bus_of (put_bus b s) = b"
    and ok_put: "ok s \<Longrightarrow> ok (put_bus b s)"
    and act_total: "ok s \<Longrightarrow> \<exists>s'. act s = Some s' \<and> ok s' \<and> drives None (bus_of s) None (bus_of s') \<and>
      spent (bus_of s) + cost \<le> spent (bus_of s')"
begin

text \<open>The driver at work on a bus that others have used before.\<close>
lemma serves:
  assumes "ok s"
  shows "\<exists>s'. act (put_bus b s) = Some s' \<and> ok s' \<and> drives None b None (bus_of s') \<and> spent b + cost \<le> spent (bus_of s')"
  using act_total [OF ok_put [OF assms], of b] by (simp add: bus_put)

end

lemma init_GPIO_frees: "s = None \<or> chip (the s) \<Longrightarrow> drives s b None (init_GPIO b)"
  by (cases s) (auto simp: drives_def init_GPIO_def ConfigureOutputPin_def ConfigureInputPin_def chip_def pinout)

end
