(* ===== verification/Opc_N3.thy ===== *)
theory Opc_N3
  imports Board
begin

text \<open>
  The particle counter of \<open>opc_n3.c\<close>: commands over SPI with a bounded wait for the device, the
  histogram with its CRC, and the sample decoded from it. The four bytes of a \<open>float\<close> in the
  histogram become a number by a parameter. \<open>None\<close> is an access outside an array.
\<close>

section \<open>Constants and state\<close>

definition OPC_HISTOGRAM_SIZE :: nat where "OPC_HISTOGRAM_SIZE = 86"
definition OPC_BINS :: nat where "OPC_BINS = 24"
definition OPC_SAMPLING_PERIOD_INDEX :: nat where "OPC_SAMPLING_PERIOD_INDEX = 52"
definition OPC_SAMPLE_FLOWRATE_INDEX :: nat where "OPC_SAMPLE_FLOWRATE_INDEX = 54"
definition OPC_TEMPERATURE_INDEX :: nat where "OPC_TEMPERATURE_INDEX = 56"
definition OPC_HUMIDITY_INDEX :: nat where "OPC_HUMIDITY_INDEX = 58"
definition OPC_PM_A_INDEX :: nat where "OPC_PM_A_INDEX = 60"
definition OPC_PM_B_INDEX :: nat where "OPC_PM_B_INDEX = 64"
definition OPC_PM_C_INDEX :: nat where "OPC_PM_C_INDEX = 68"
definition OPC_FAN_REV_COUNT_INDEX :: nat where "OPC_FAN_REV_COUNT_INDEX = 80"
definition OPC_LASER_STATUS_INDEX :: nat where "OPC_LASER_STATUS_INDEX = 82"
definition OPC_HISTOGRAM_CHECKSUM_INDEX :: nat where "OPC_HISTOGRAM_CHECKSUM_INDEX = 84"

lemmas histogram_layout = OPC_HISTOGRAM_SIZE_def OPC_BINS_def OPC_SAMPLING_PERIOD_INDEX_def OPC_SAMPLE_FLOWRATE_INDEX_def
  OPC_TEMPERATURE_INDEX_def OPC_HUMIDITY_INDEX_def OPC_PM_A_INDEX_def OPC_PM_B_INDEX_def OPC_PM_C_INDEX_def
  OPC_FAN_REV_COUNT_INDEX_def OPC_LASER_STATUS_INDEX_def OPC_HISTOGRAM_CHECKSUM_INDEX_def

definition OPC_N3_WRITE_PERIPHERAL_POWER_STATUS :: u8 where "OPC_N3_WRITE_PERIPHERAL_POWER_STATUS = 0x03"
definition OPC_N3_READ_HISTOGRAM_DATA_AND_RESET_HISTOGRAM :: u8 where "OPC_N3_READ_HISTOGRAM_DATA_AND_RESET_HISTOGRAM = 0x30"
definition OPC_N3_READ_DAC_AND_POWER_STATUS :: u8 where "OPC_N3_READ_DAC_AND_POWER_STATUS = 0x13"
definition OPC_N3_DATA_READY :: u8 where "OPC_N3_DATA_READY = 0xF3"
definition OPC_OPTION_FAN_ON :: u8 where "OPC_OPTION_FAN_ON = 0x03"
definition OPC_OPTION_FAN_OFF :: u8 where "OPC_OPTION_FAN_OFF = 0x02"
definition OPC_OPTION_LASER_ON :: u8 where "OPC_OPTION_LASER_ON = 0x07"
definition OPC_OPTION_LASER_OFF :: u8 where "OPC_OPTION_LASER_OFF = 0x06"
definition OPC_OPTION_NONE :: u8 where "OPC_OPTION_NONE = 0xFF"
definition FAN_SETTLING_TIME_MS :: int where "FAN_SETTLING_TIME_MS = 10000"
definition LASER_SETTLING_TIME_MS :: int where "LASER_SETTLING_TIME_MS = 50"
definition OPC_SAMPLING_TIME_MS :: int where "OPC_SAMPLING_TIME_MS = 60000"
definition OPC_N3_SPI_BUFFER_RESET_WAIT :: int where "OPC_N3_SPI_BUFFER_RESET_WAIT = 2000"

text \<open>\<open>OPC_N3_RESULT\<close>.\<close>
definition OPC_OK :: int where "OPC_OK = 0"
definition OPC_UNEXPECTED_OPC_RESPONSE :: int where "OPC_UNEXPECTED_OPC_RESPONSE = -2"

record 'f OPC_SAMPLE =
  bin :: "u16 list"
  period :: u16
  flowrate :: u16
  opc_temperature :: u16
  opc_humidity :: u16
  pm_a :: 'f
  pm_b :: 'f
  pm_c :: 'f
  fan_rev_count :: u16
  laser_status :: u16
  valid :: bool

record 'f opc =
  OPC_config :: spi_config
  OPC_spi_tx_buffer :: bytes
  OPC_spi_rx_buffer :: bytes
  histogram :: bytes
  opc_bus :: bus
  opc_current :: "'f OPC_SAMPLE"

section \<open>Commands\<close>

definition on_bus :: "(bus \<Rightarrow> bus) \<Rightarrow> 'f opc \<Rightarrow> 'f opc" where
  "on_bus f st = st\<lparr>opc_bus := f (opc_bus st)\<rparr>"

definition OPC_selectDeviceCSLow :: "'f opc \<Rightarrow> 'f opc" where
  "OPC_selectDeviceCSLow = on_bus (digitalWrite CS_OPC LOW)"

definition OPC_releaseChipSelect :: "'f opc \<Rightarrow> 'f opc" where
  "OPC_releaseChipSelect = on_bus (digitalWrite CS_OPC HIGH)"

definition opc_init :: "'f opc \<Rightarrow> 'f opc" where
  "opc_init st = st\<lparr>OPC_config := \<lparr>cs_control = None, frequency = 500000,
     operation = [SPI_OP_MODE_MASTER, SPI_WORD_SET_8, SPI_TRANSFER_MSB, SPI_MODE_CPHA], slave = 0\<rparr>\<rparr>"

text \<open>One byte each way; the result of the driver is only logged.\<close>
definition opc_transfer :: "'f opc \<Rightarrow> 'f opc" where
  "opc_transfer st = (let (rx, b) = spi_transceive 1 (OPC_spi_tx_buffer st) (OPC_spi_rx_buffer st) (opc_bus st)
     in st\<lparr>OPC_spi_rx_buffer := rx, opc_bus := b\<rparr>)"

text \<open>The wait for the device: True when it is ready, False after too many retries.\<close>
function opc_poll :: "nat \<Rightarrow> 'f opc \<Rightarrow> (bool \<times> 'f opc) option" where
  "opc_poll retryCount st =
     (let st = opc_transfer st in
      case rd (OPC_spi_rx_buffer st) 0 of
        None \<Rightarrow> None
      | Some b \<Rightarrow>
          (if b = OPC_N3_DATA_READY then Some (True, st)
           else if 20 < retryCount then Some (False, OPC_releaseChipSelect st)
           else opc_poll (retryCount + 1) (on_bus (k_sleep OPC_N3_SPI_BUFFER_RESET_WAIT) st)))"
  by pat_completeness auto
termination
  by (relation "measure (\<lambda>(r, st). 21 - r)") auto

declare opc_poll.simps [simp del]

text \<open>The loop that reads the data bytes into the caller's buffer, if there is one.\<close>
fun opc_read :: "nat \<Rightarrow> nat \<Rightarrow> bytes option \<Rightarrow> 'f opc \<Rightarrow> (bytes option \<times> 'f opc) option" where
  "opc_read 0 bufferIndex buffer st = Some (buffer, st)"
| "opc_read (Suc n) bufferIndex buffer st = do {
     let st = opc_transfer st;
     case buffer of
       None \<Rightarrow> opc_read n bufferIndex None st
     | Some buf \<Rightarrow>
         (if bufferIndex < SPI_BUF_SIZE then do {
            b \<leftarrow> rd (OPC_spi_rx_buffer st) 0;
            buf \<leftarrow> wr buf bufferIndex b;
            opc_read n (bufferIndex + 1) (Some buf) st }
          else opc_read n bufferIndex (Some buf) st) }"

text \<open>The option byte of a command, if it has one.\<close>
definition opc_option :: "u8 \<Rightarrow> 'f opc \<Rightarrow> 'f opc option" where
  "opc_option option_byte st =
     (if option_byte \<noteq> OPC_OPTION_NONE then do {
        tx \<leftarrow> wr (OPC_spi_tx_buffer st) 0 option_byte;
        rx \<leftarrow> wr (OPC_spi_rx_buffer st) 0 0;
        Some (opc_transfer (st\<lparr>OPC_spi_tx_buffer := tx, OPC_spi_rx_buffer := rx\<rparr>)) }
      else Some st)"

text \<open>What follows when the device is ready: the option byte, the answer, and the release of the chip select.\<close>
definition opc_answer :: "u8 \<Rightarrow> u8 \<Rightarrow> bytes option \<Rightarrow> nat \<Rightarrow> 'f opc \<Rightarrow> (int \<times> bytes option \<times> 'f opc) option" where
  "opc_answer command_byte option_byte buffer rxBytes st = do {
     let st = on_bus (log_event (DelayUs 10)) st;
     st \<leftarrow> opc_option option_byte st;
     (buffer, st) \<leftarrow> (if rxBytes \<noteq> 0 then
         opc_read rxBytes 0 buffer (st\<lparr>OPC_spi_tx_buffer := replicate SPI_BUF_SIZE command_byte,
           OPC_spi_rx_buffer := replicate SPI_BUF_SIZE 0\<rparr>)
       else Some (buffer, st));
     let st = on_bus (k_sleep 10) st;
     Some (OPC_OK, buffer, OPC_releaseChipSelect st) }"

definition OPC_command ::
  "u8 \<Rightarrow> u8 \<Rightarrow> bytes option \<Rightarrow> nat \<Rightarrow> 'f opc \<Rightarrow> (int \<times> bytes option \<times> 'f opc) option" where
  "OPC_command command_byte option_byte buffer rxBytes st = do {
     tx \<leftarrow> wr (OPC_spi_tx_buffer st) 0 command_byte;
     rx \<leftarrow> wr (OPC_spi_rx_buffer st) 0 0;
     let st = OPC_selectDeviceCSLow (st\<lparr>OPC_spi_tx_buffer := tx, OPC_spi_rx_buffer := rx\<rparr>);
     let st = opc_transfer st;
     let st = on_bus (k_sleep 10) st;
     (ready, st) \<leftarrow> opc_poll 0 st;
     if \<not> ready then Some (OPC_UNEXPECTED_OPC_RESPONSE, buffer, st)
     else opc_answer command_byte option_byte buffer rxBytes st }"

section \<open>Values and checksum\<close>

text \<open>The union of two bytes and a 16-bit number, on a little-endian processor.\<close>
definition get_uint16_value :: "bytes \<Rightarrow> nat \<Rightarrow> u16 option" where
  "get_uint16_value buf i = do {
     a \<leftarrow> rd buf i;
     b \<leftarrow> rd buf (i + 1);
     Some (ucast a OR push_bit 8 (ucast b)) }"

definition get_float_value :: "(u8 \<times> u8 \<times> u8 \<times> u8 \<Rightarrow> 'f) \<Rightarrow> bytes \<Rightarrow> nat \<Rightarrow> 'f option" where
  "get_float_value to_float buf i = do {
     a \<leftarrow> rd buf i;
     b \<leftarrow> rd buf (i + 1);
     c \<leftarrow> rd buf (i + 2);
     d \<leftarrow> rd buf (i + 3);
     Some (to_float (a, b, c, d)) }"

definition crc_bit :: "u16 \<Rightarrow> u16" where
  "crc_bit crc = (if crc AND 1 \<noteq> 0 then drop_bit 1 crc XOR 0xA001 else drop_bit 1 crc)"

definition crc_byte :: "u16 \<Rightarrow> u8 \<Rightarrow> u16" where
  "crc_byte crc b = (crc_bit ^^ 8) (crc XOR ucast b)"

text \<open>The loop over the first bytes of an array.\<close>
fun crc_loop :: "bytes \<Rightarrow> nat \<Rightarrow> nat \<Rightarrow> u16 \<Rightarrow> u16 option" where
  "crc_loop dat i 0 crc = Some crc"
| "crc_loop dat i (Suc n) crc = do { b \<leftarrow> rd dat i; crc_loop dat (i + 1) n (crc_byte crc b) }"

definition OPC_calcCRC :: "bytes \<Rightarrow> u8 \<Rightarrow> u16 option" where
  "OPC_calcCRC dat number_of_bytes = crc_loop dat 0 (unat number_of_bytes) 0xFFFF"

section \<open>Sampling\<close>

definition Read_DAC_and_power_status :: "bytes \<Rightarrow> 'f opc \<Rightarrow> (bytes option \<times> 'f opc) option" where
  "Read_DAC_and_power_status status0 st = do {
     (_, status, st) \<leftarrow> OPC_command OPC_N3_READ_DAC_AND_POWER_STATUS OPC_OPTION_NONE (Some status0) 6 st;
     Some (status, st) }"

definition peripheral :: "u8 \<Rightarrow> int \<Rightarrow> 'f opc \<Rightarrow> 'f opc option" where
  "peripheral opt settle st = do {
     (_, _, st) \<leftarrow> OPC_command OPC_N3_WRITE_PERIPHERAL_POWER_STATUS opt None 0 st;
     Some (on_bus (k_sleep settle) st) }"

definition peripeherals_power_on :: "'f opc \<Rightarrow> 'f opc option" where
  "peripeherals_power_on st = do {
     st \<leftarrow> peripheral OPC_OPTION_FAN_ON FAN_SETTLING_TIME_MS st;
     peripheral OPC_OPTION_LASER_ON LASER_SETTLING_TIME_MS st }"

definition peripherals_power_off :: "'f opc \<Rightarrow> 'f opc option" where
  "peripherals_power_off st = do {
     st \<leftarrow> peripheral OPC_OPTION_LASER_OFF LASER_SETTLING_TIME_MS st;
     peripheral OPC_OPTION_FAN_OFF FAN_SETTLING_TIME_MS st }"

definition opc_sample :: "'f opc \<Rightarrow> (bool \<times> 'f opc) option" where
  "opc_sample st = do {
     st \<leftarrow> peripeherals_power_on st;
     let st = on_bus (k_sleep OPC_SAMPLING_TIME_MS) st;
     let st = st\<lparr>histogram := replicate OPC_HISTOGRAM_SIZE 0\<rparr>;
     (_, h, st) \<leftarrow> OPC_command OPC_N3_READ_HISTOGRAM_DATA_AND_RESET_HISTOGRAM OPC_OPTION_NONE
       (Some (histogram st)) OPC_HISTOGRAM_SIZE st;
     let st = (case h of None \<Rightarrow> st | Some h \<Rightarrow> st\<lparr>histogram := h\<rparr>);
     let st = on_bus (k_sleep OPC_SAMPLING_TIME_MS) st;
     st \<leftarrow> peripherals_power_off st;
     checksum \<leftarrow> get_uint16_value (histogram st) OPC_HISTOGRAM_CHECKSUM_INDEX;
     crc \<leftarrow> OPC_calcCRC (histogram st) (of_nat (OPC_HISTOGRAM_SIZE - 2));
     Some (checksum = crc, st) }"

text \<open>The loop over the bins.\<close>
fun decode_bins :: "bytes \<Rightarrow> nat \<Rightarrow> nat \<Rightarrow> u16 list \<Rightarrow> u16 list option" where
  "decode_bins h i 0 bins = Some bins"
| "decode_bins h i (Suc n) bins = do {
     v \<leftarrow> get_uint16_value h (i * 2);
     bins \<leftarrow> wr bins i v;
     decode_bins h (i + 1) n bins }"

text \<open>The integer division of C rounds towards zero; both numerators are non-negative.\<close>
definition decode_historgram :: "(u8 \<times> u8 \<times> u8 \<times> u8 \<Rightarrow> 'f) \<Rightarrow> bool \<Rightarrow> 'f opc \<Rightarrow> 'f opc option" where
  "decode_historgram to_float is_valid st = do {
     let h = histogram st;
     bins \<leftarrow> decode_bins h 0 OPC_BINS (bin (opc_current st));
     per \<leftarrow> get_uint16_value h OPC_SAMPLING_PERIOD_INDEX;
     flow \<leftarrow> get_uint16_value h OPC_SAMPLE_FLOWRATE_INDEX;
     raw_temp \<leftarrow> get_uint16_value h OPC_TEMPERATURE_INDEX;
     raw_hum \<leftarrow> get_uint16_value h OPC_HUMIDITY_INDEX;
     a \<leftarrow> get_float_value to_float h OPC_PM_A_INDEX;
     b \<leftarrow> get_float_value to_float h OPC_PM_B_INDEX;
     c \<leftarrow> get_float_value to_float h OPC_PM_C_INDEX;
     fan \<leftarrow> get_uint16_value h OPC_FAN_REV_COUNT_INDEX;
     laser \<leftarrow> get_uint16_value h OPC_LASER_STATUS_INDEX;
     Some (st\<lparr>opc_current := \<lparr>bin = bins, period = per, flowrate = flow,
       opc_temperature = of_int (-45 + 175 * uint raw_temp div 65535),
       opc_humidity = of_int (100 * uint raw_hum div 65535),
       pm_a = a, pm_b = b, pm_c = c, fan_rev_count = fan, laser_status = laser, valid = is_valid\<rparr>\<rparr>) }"

text \<open>\<open>OPC_OK == opc_sample ()\<close> compares the enumeration value 0 with the boolean result.\<close>
definition opc_n3_sample_data :: "(u8 \<times> u8 \<times> u8 \<times> u8 \<Rightarrow> 'f) \<Rightarrow> 'f opc \<Rightarrow> 'f opc option" where
  "opc_n3_sample_data to_float st = do {
     (ok, st) \<leftarrow> opc_sample st;
     decode_historgram to_float (OPC_OK = (if ok then 1 else 0)) st }"

definition opc_n3_get_sample :: "'f opc \<Rightarrow> 'f OPC_SAMPLE" where
  "opc_n3_get_sample st = opc_current st"

section \<open>Every command returns and leaves the bus free\<close>

definition opc_ok :: "'f opc \<Rightarrow> bool" where
  "opc_ok st \<longleftrightarrow> length (OPC_spi_tx_buffer st) = SPI_BUF_SIZE \<and> length (OPC_spi_rx_buffer st) = SPI_BUF_SIZE \<and>
     length (histogram st) = OPC_HISTOGRAM_SIZE \<and> length (bin (opc_current st)) = OPC_BINS"

text \<open>What an action of the driver keeps: the arrays, and how it drives the bus.\<close>
definition opc_does :: "nat option \<Rightarrow> 'f opc \<Rightarrow> nat option \<Rightarrow> 'f opc \<Rightarrow> bool" where
  "opc_does s st s' st' \<longleftrightarrow> opc_ok st' \<and> drives s (opc_bus st) s' (opc_bus st') \<and> histogram st' = histogram st \<and>
     opc_current st' = opc_current st"

lemma opc_does_trans: "opc_does s a s' b \<Longrightarrow> opc_does s' b s'' c \<Longrightarrow> opc_does s a s'' c"
  unfolding opc_does_def using drives_trans by metis

lemma opc_transfer_does:
  assumes "opc_ok st"
  shows "opc_does (Some p) st (Some p) (opc_transfer st)"
proof -
  obtain rx b where t: "spi_transceive 1 (OPC_spi_tx_buffer st) (OPC_spi_rx_buffer st) (opc_bus st) = (rx, b)" by fastforce
  then have "drives (Some p) (opc_bus st) (Some p) b" "length rx = length (OPC_spi_rx_buffer st)"
    using drives_steps(3) [OF drives_refl, of p "opc_bus st" 1 "OPC_spi_tx_buffer st" "OPC_spi_rx_buffer st"]
      spi_length [of 1 "OPC_spi_rx_buffer st" "OPC_spi_tx_buffer st" "opc_bus st"] assms
    by (simp_all add: opc_ok_def SPI_BUF_SIZE_def)
  then show ?thesis using t assms by (simp add: opc_does_def opc_transfer_def opc_ok_def)
qed

text \<open>The buffers are not empty.\<close>
lemma opc_first:
  assumes "opc_ok st"
  shows "\<exists>b. rd (OPC_spi_rx_buffer st) 0 = Some b"
    "\<exists>tx rx. wr (OPC_spi_tx_buffer st) 0 c = Some tx \<and> wr (OPC_spi_rx_buffer st) 0 d = Some rx \<and>
       opc_does s st s (st\<lparr>OPC_spi_tx_buffer := tx, OPC_spi_rx_buffer := rx\<rparr>)"
proof -
  have "0 < length (OPC_spi_rx_buffer st)" "0 < length (OPC_spi_tx_buffer st)"
    using assms by (simp_all only: opc_ok_def SPI_BUF_SIZE_def)
  then show "\<exists>b. rd (OPC_spi_rx_buffer st) 0 = Some b"
    "\<exists>tx rx. wr (OPC_spi_tx_buffer st) 0 c = Some tx \<and> wr (OPC_spi_rx_buffer st) 0 d = Some rx \<and>
       opc_does s st s (st\<lparr>OPC_spi_tx_buffer := tx, OPC_spi_rx_buffer := rx\<rparr>)"
    using assms by (simp_all add: rd_def wr_def opc_does_def opc_ok_def drives_refl SPI_BUF_SIZE_def)
qed

lemma opc_bus_does:
  assumes "opc_ok st"
  shows "opc_does s st s (on_bus (k_sleep d) st)" "opc_does s st s (on_bus (log_event (DelayUs d)) st)"
    "opc_does (Some CS_OPC) st None (OPC_releaseChipSelect st)" "opc_does None st (Some CS_OPC) (OPC_selectDeviceCSLow st)"
  using assms drives_steps [OF drives_refl] chips
  by (simp_all add: opc_does_def opc_ok_def on_bus_def OPC_releaseChipSelect_def OPC_selectDeviceCSLow_def)

lemma opc_poll_total:
  assumes "opc_ok st"
  shows "\<exists>r st'. opc_poll k st = Some (r, st') \<and> opc_does (Some CS_OPC) st (if r then Some CS_OPC else None) st'"
  using assms
proof (induction k st rule: opc_poll.induct)
  case (1 k st)
  let ?st = "opc_transfer st"
  have t: "opc_does (Some CS_OPC) st (Some CS_OPC) ?st" by (rule opc_transfer_does [OF 1(2)])
  then have ok: "opc_ok ?st" by (simp add: opc_does_def)
  then obtain b where b: "rd (OPC_spi_rx_buffer ?st) 0 = Some b" using opc_first(1) by blast
  consider "b = OPC_N3_DATA_READY" | "b \<noteq> OPC_N3_DATA_READY" "20 < k" | "b \<noteq> OPC_N3_DATA_READY" "\<not> 20 < k" by blast
  then show ?case
  proof cases
    case 3
    let ?s = "on_bus (k_sleep OPC_N3_SPI_BUFFER_RESET_WAIT) ?st"
    have s: "opc_does (Some CS_OPC) ?st (Some CS_OPC) ?s" by (rule opc_bus_does(1) [OF ok])
    then obtain r st' where "opc_poll (k + 1) ?s = Some (r, st')" "opc_does (Some CS_OPC) ?s (if r then Some CS_OPC else None) st'"
      using 1(1) [OF refl b 3] by (auto simp: opc_does_def)
    then show ?thesis
      using b 3 opc_does_trans [OF opc_does_trans [OF t s]] by (subst opc_poll.simps) (simp add: Let_def)
  next
    case 1
    then have "opc_poll k st = Some (True, ?st)" using b by (subst opc_poll.simps) (simp add: Let_def)
    then show ?thesis using t by auto
  next
    case 2
    then have "opc_poll k st = Some (False, OPC_releaseChipSelect ?st)" using b by (subst opc_poll.simps) (simp add: Let_def)
    then show ?thesis using opc_does_trans [OF t opc_bus_does(3) [OF ok]] by auto
  qed
qed

lemma opc_read_total:
  assumes "opc_ok st" "\<forall>b. buffer = Some b \<longrightarrow> i + n \<le> length b"
  shows "\<exists>buffer' st'. opc_read n i buffer st = Some (buffer', st') \<and> opc_does (Some p) st (Some p) st' \<and>
     map_option length buffer' = map_option length buffer"
  using assms
proof (induction n arbitrary: i buffer st)
  case 0
  then show ?case by (simp add: opc_does_def drives_refl)
next
  case (Suc n)
  let ?st = "opc_transfer st"
  have t: "opc_does (Some p) st (Some p) ?st" by (rule opc_transfer_does [OF Suc.prems(1)])
  then have ok: "opc_ok ?st" by (simp add: opc_does_def)
  obtain b where b: "rd (OPC_spi_rx_buffer ?st) 0 = Some b" using opc_first(1) [OF ok] by blast
  note IH = Suc.IH [OF ok]
  show ?case
  proof (cases buffer)
    case None
    then show ?thesis using IH [of None i] opc_does_trans [OF t] by auto
  next
    case (Some buf)
    then have len: "i < length buf" "i + 1 + n \<le> length buf" "i + n \<le> length buf" using Suc.prems(2) by auto
    then show ?thesis
      using IH [of "Some (buf[i := b])" "i + 1"] IH [of "Some buf" i] opc_does_trans [OF t] b Some
      by (cases "i < SPI_BUF_SIZE") (auto simp: wr_in)
  qed
qed

lemma opc_does_ok: "opc_does s st s' st' \<Longrightarrow> opc_ok st'"
  by (simp add: opc_does_def)

lemma opc_option_total:
  assumes "opc_ok st"
  shows "\<exists>st'. opc_option opt st = Some st' \<and> opc_does (Some p) st (Some p) st'"
proof (cases "opt = OPC_OPTION_NONE")
  case True
  then show ?thesis using assms by (simp add: opc_option_def opc_does_def drives_refl)
next
  case False
  obtain tx rx where w: "wr (OPC_spi_tx_buffer st) 0 opt = Some tx" "wr (OPC_spi_rx_buffer st) 0 0 = Some rx"
    "opc_does (Some p) st (Some p) (st\<lparr>OPC_spi_tx_buffer := tx, OPC_spi_rx_buffer := rx\<rparr>)"
    using opc_first(2) [OF assms, of opt 0 "Some p"] by blast
  then show ?thesis using False opc_does_trans [OF w(3) opc_transfer_does [OF opc_does_ok [OF w(3)]]] by (simp add: opc_option_def)
qed

lemma opc_answer_total:
  assumes "opc_ok st" "\<forall>b. buffer = Some b \<longrightarrow> n \<le> length b"
  shows "\<exists>buffer' st'. opc_answer c opt buffer n st = Some (OPC_OK, buffer', st') \<and> opc_does (Some CS_OPC) st None st' \<and>
     map_option length buffer' = map_option length buffer"
proof -
  let ?s1 = "on_bus (log_event (DelayUs 10)) st"
  have d1: "opc_does (Some CS_OPC) st (Some CS_OPC) ?s1" by (rule opc_bus_does(2) [OF assms(1)])
  obtain s2 where o: "opc_option opt ?s1 = Some s2" "opc_does (Some CS_OPC) ?s1 (Some CS_OPC) s2"
    using opc_option_total [OF opc_does_ok [OF d1]] by blast
  have d2: "opc_does (Some CS_OPC) st (Some CS_OPC) s2" by (rule opc_does_trans [OF d1 o(2)])
  let ?s2 = "s2\<lparr>OPC_spi_tx_buffer := replicate SPI_BUF_SIZE c, OPC_spi_rx_buffer := replicate SPI_BUF_SIZE 0\<rparr>"
  have d2': "opc_does (Some CS_OPC) st (Some CS_OPC) ?s2" using d2 assms(1) by (simp add: opc_does_def opc_ok_def)
  obtain buffer' s3 where r: "(if n \<noteq> 0 then opc_read n 0 buffer ?s2 else Some (buffer, s2)) = Some (buffer', s3)"
    "opc_does (Some CS_OPC) st (Some CS_OPC) s3" "map_option length buffer' = map_option length buffer"
    using opc_read_total [OF opc_does_ok [OF d2'], of buffer 0 n CS_OPC] opc_does_trans [OF d2'] d2 assms(2) by (cases "n = 0") auto
  let ?s4 = "on_bus (k_sleep 10) s3"
  have d4: "opc_does (Some CS_OPC) st (Some CS_OPC) ?s4" by (rule opc_does_trans [OF r(2) opc_bus_does(1) [OF opc_does_ok [OF r(2)]]])
  have "opc_answer c opt buffer n st = Some (OPC_OK, buffer', OPC_releaseChipSelect ?s4)"
    using o(1) r(1) by (simp add: opc_answer_def Let_def)
  then show ?thesis using opc_does_trans [OF d4 opc_bus_does(3) [OF opc_does_ok [OF d4]]] r(3) by simp
qed

lemma OPC_command_total:
  assumes "opc_ok st" "\<forall>b. buffer = Some b \<longrightarrow> n \<le> length b"
  shows "\<exists>r buffer' st'. OPC_command c opt buffer n st = Some (r, buffer', st') \<and> opc_does None st None st' \<and>
     map_option length buffer' = map_option length buffer"
proof -
  obtain tx rx where w: "wr (OPC_spi_tx_buffer st) 0 c = Some tx" "wr (OPC_spi_rx_buffer st) 0 0 = Some rx"
    "opc_does None st None (st\<lparr>OPC_spi_tx_buffer := tx, OPC_spi_rx_buffer := rx\<rparr>)"
    using opc_first(2) [OF assms(1), of c 0 None] by blast
  let ?s1 = "st\<lparr>OPC_spi_tx_buffer := tx, OPC_spi_rx_buffer := rx\<rparr>"
  let ?s2 = "opc_transfer (OPC_selectDeviceCSLow ?s1)"
  let ?s3 = "on_bus (k_sleep 10) ?s2"
  have d2: "opc_does None st (Some CS_OPC) ?s2"
    using opc_does_trans [OF w(3) opc_bus_does(4) [OF opc_does_ok [OF w(3)]]] opc_transfer_does opc_does_ok opc_does_trans by metis
  have d3: "opc_does None st (Some CS_OPC) ?s3" by (rule opc_does_trans [OF d2 opc_bus_does(1) [OF opc_does_ok [OF d2]]])
  obtain r s4 where p: "opc_poll 0 ?s3 = Some (r, s4)" "opc_does (Some CS_OPC) ?s3 (if r then Some CS_OPC else None) s4"
    using opc_poll_total [OF opc_does_ok [OF d3]] by blast
  note d4 = opc_does_trans [OF d3 p(2)]
  show ?thesis
  proof (cases r)
    case False
    then show ?thesis using w p d4 by (simp add: OPC_command_def Let_def)
  next
    case True
    then show ?thesis
      using w p d4 opc_answer_total [OF opc_does_ok [OF d4] assms(2), of c opt] opc_does_trans [of None st "Some CS_OPC" s4 None]
      by (auto simp: OPC_command_def Let_def)
  qed
qed

section \<open>What the device answers\<close>

definition byte_answers :: "bytes \<Rightarrow> bytes option list" where
  "byte_answers bs = map (\<lambda>b. Some [b]) bs"

lemma byte_answers_simps [simp]:
  "byte_answers [] = []"
  "byte_answers (b # bs) = Some [b] # byte_answers bs"
  "byte_answers (xs @ ys) = byte_answers xs @ byte_answers ys"
  by (simp_all add: byte_answers_def)

lemma opc_transfer_reply:
  assumes "opc_ok st" "answers (opc_bus st) = Some [b] # as"
  shows "rd (OPC_spi_rx_buffer (opc_transfer st)) 0 = Some b" "answers (opc_bus (opc_transfer st)) = as"
proof -
  have "0 < length (OPC_spi_rx_buffer st)" using assms(1) by (simp add: opc_ok_def SPI_BUF_SIZE_def)
  then show "rd (OPC_spi_rx_buffer (opc_transfer st)) 0 = Some b" "answers (opc_bus (opc_transfer st)) = as"
    using assms(2) by (simp_all add: opc_transfer_def spi_transceive_def receive_into_def rd_def)
qed

lemma on_bus_fields [simp]:
  "opc_bus (on_bus f st) = f (opc_bus st)" "OPC_spi_rx_buffer (on_bus f st) = OPC_spi_rx_buffer st"
  "OPC_spi_tx_buffer (on_bus f st) = OPC_spi_tx_buffer st"
  by (simp_all add: on_bus_def)

lemma opc_poll_replies:
  assumes "opc_ok st" "OPC_N3_DATA_READY \<notin> set ps" "answers (opc_bus st) = byte_answers ps @ as"
    "as = Some [OPC_N3_DATA_READY] # as' \<and> k + length ps \<le> 21 \<and> r \<or> as = as' \<and> k + length ps = 22 \<and> ps \<noteq> [] \<and> \<not> r"
  shows "\<exists>st'. opc_poll k st = Some (r, st') \<and> answers (opc_bus st') = as'"
  using assms
proof (induction ps arbitrary: k st)
  case Nil
  then have "rd (OPC_spi_rx_buffer (opc_transfer st)) 0 = Some OPC_N3_DATA_READY" "answers (opc_bus (opc_transfer st)) = as'"
    using opc_transfer_reply [OF Nil(1), of OPC_N3_DATA_READY as'] by auto
  then show ?case using Nil by (subst opc_poll.simps) (auto simp: Let_def)
next
  case (Cons p ps)
  have t: "rd (OPC_spi_rx_buffer (opc_transfer st)) 0 = Some p" "answers (opc_bus (opc_transfer st)) = byte_answers ps @ as"
    using opc_transfer_reply [OF Cons.prems(1), of p "byte_answers ps @ as"] Cons.prems(3) by simp_all
  have ok: "opc_ok (opc_transfer st)" by (rule opc_does_ok [OF opc_transfer_does [OF Cons.prems(1), of 0]])
  show ?case
  proof (cases "20 < k")
    case True
    then have "ps = []" "as = as'" "\<not> r" using Cons.prems(4) by (cases ps; auto)+
    then show ?thesis
      using t True Cons.prems(2) by (subst opc_poll.simps) (auto simp: Let_def OPC_releaseChipSelect_def)
  next
    case False
    let ?s = "on_bus (k_sleep OPC_N3_SPI_BUFFER_RESET_WAIT) (opc_transfer st)"
    have "\<exists>st'. opc_poll (k + 1) ?s = Some (r, st') \<and> answers (opc_bus st') = as'"
      using Cons.prems t(2) False by (intro Cons.IH opc_does_ok [OF opc_bus_does(1) [OF ok, of None]]) auto
    then show ?thesis using t(1) False Cons.prems(2) by (subst opc_poll.simps) (auto simp: Let_def)
  qed
qed

lemma opc_read_data:
  assumes "opc_ok st" "answers (opc_bus st) = byte_answers ds @ as" "length pre = i" "i + length ds \<le> SPI_BUF_SIZE"
    "length ds \<le> length junk"
  shows "\<exists>st'. opc_read (length ds) i (Some (pre @ junk)) st = Some (Some (pre @ ds @ drop (length ds) junk), st') \<and>
     answers (opc_bus st') = as"
  using assms
proof (induction ds arbitrary: i pre junk st)
  case (Cons d ds)
  then obtain x j where j: "junk = x # j" by (cases junk) auto
  let ?st = "opc_transfer st"
  have t: "rd (OPC_spi_rx_buffer ?st) 0 = Some d" "answers (opc_bus ?st) = byte_answers ds @ as"
    using opc_transfer_reply [OF Cons.prems(1), of d "byte_answers ds @ as"] Cons.prems(2) by simp_all
  have ok: "opc_ok ?st" by (rule opc_does_ok [OF opc_transfer_does [OF Cons.prems(1), of 0]])
  have "wr (pre @ junk) i d = Some ((pre @ [d]) @ j)" using wr_append [of i pre x j d] Cons.prems(3) j by simp
  moreover have "\<exists>st'. opc_read (length ds) (i + 1) (Some ((pre @ [d]) @ j)) ?st =
      Some (Some ((pre @ [d]) @ ds @ drop (length ds) j), st') \<and> answers (opc_bus st') = as"
    using Cons.prems(3-5) j by (intro Cons.IH [OF ok t(2)]) auto
  ultimately show ?case using t(1) Cons.prems(4) j by simp
qed simp

text \<open>The answers of a device that becomes ready in time, up to the data.\<close>
definition ready_answers :: "u8 \<Rightarrow> bytes option list \<Rightarrow> bool" where
  "ready_answers opt as \<longleftrightarrow> (\<exists>b ps e. as = byte_answers (b # ps @ [OPC_N3_DATA_READY] @ e) \<and> OPC_N3_DATA_READY \<notin> set ps \<and>
     length ps \<le> 21 \<and> length e = (if opt = OPC_OPTION_NONE then 0 else 1))"

text \<open>The start of a command, up to the wait.\<close>
lemma OPC_command_start:
  assumes "opc_ok st" "answers (opc_bus st) = Some [b] # as"
  shows "\<exists>s. opc_ok s \<and> answers (opc_bus s) = as \<and>
     OPC_command c opt buffer n st = Option.bind (opc_poll 0 s) (\<lambda>(ready, st).
       if \<not> ready then Some (OPC_UNEXPECTED_OPC_RESPONSE, buffer, st) else opc_answer c opt buffer n st)"
proof -
  obtain tx rx where w: "wr (OPC_spi_tx_buffer st) 0 c = Some tx" "wr (OPC_spi_rx_buffer st) 0 0 = Some rx"
    "opc_does None st None (st\<lparr>OPC_spi_tx_buffer := tx, OPC_spi_rx_buffer := rx\<rparr>)"
    using opc_first(2) [OF assms(1), of c 0 None] by blast
  let ?s = "OPC_selectDeviceCSLow (st\<lparr>OPC_spi_tx_buffer := tx, OPC_spi_rx_buffer := rx\<rparr>)"
  have ok: "opc_ok ?s" by (rule opc_does_ok [OF opc_bus_does(4) [OF opc_does_ok [OF w(3)]]])
  moreover have "answers (opc_bus ?s) = Some [b] # as" using assms(2) by (simp add: OPC_selectDeviceCSLow_def)
  ultimately have t: "answers (opc_bus (opc_transfer ?s)) = as" by (rule opc_transfer_reply(2))
  have ok2: "opc_ok (on_bus (k_sleep 10) (opc_transfer ?s))"
    by (rule opc_does_ok [OF opc_bus_does(1) [OF opc_does_ok [OF opc_transfer_does [OF ok, of 0]], of None]])
  then show ?thesis
    using w(1,2) t by (intro exI [of _ "on_bus (k_sleep 10) (opc_transfer ?s)"]) (simp add: OPC_command_def Let_def)
qed

lemma opc_option_reply:
  assumes "opc_ok st" "answers (opc_bus st) = byte_answers e @ as" "length e = (if opt = OPC_OPTION_NONE then 0 else 1)"
  shows "\<exists>st'. opc_option opt st = Some st' \<and> opc_ok st' \<and> answers (opc_bus st') = as"
proof (cases "opt = OPC_OPTION_NONE")
  case True
  then show ?thesis using assms by (simp add: opc_option_def)
next
  case False
  obtain x where x: "e = [x]" using assms(3) False by (auto simp: length_Suc_conv)
  obtain tx rx where w: "wr (OPC_spi_tx_buffer st) 0 opt = Some tx" "wr (OPC_spi_rx_buffer st) 0 0 = Some rx"
    "opc_does None st None (st\<lparr>OPC_spi_tx_buffer := tx, OPC_spi_rx_buffer := rx\<rparr>)"
    using opc_first(2) [OF assms(1), of opt 0 None] by blast
  let ?s = "st\<lparr>OPC_spi_tx_buffer := tx, OPC_spi_rx_buffer := rx\<rparr>"
  have "answers (opc_bus (opc_transfer ?s)) = as"
    using assms(2) x by (intro opc_transfer_reply(2) [OF opc_does_ok [OF w(3)]]) simp
  then show ?thesis
    using w(1,2) False opc_does_ok [OF opc_transfer_does [OF opc_does_ok [OF w(3)], of 0]] by (simp add: opc_option_def)
qed

lemma opc_answer_reply:
  assumes "opc_ok st" "answers (opc_bus st) = byte_answers e @ byte_answers ds @ rest"
    "length e = (if opt = OPC_OPTION_NONE then 0 else 1)"
    "ds = [] \<or> buffer = Some junk \<and> length ds \<le> length junk \<and> length ds \<le> SPI_BUF_SIZE"
  shows "\<exists>st'. opc_answer c opt buffer (length ds) st =
       Some (OPC_OK, if ds = [] then buffer else Some (ds @ drop (length ds) junk), st') \<and> answers (opc_bus st') = rest"
proof -
  let ?s = "on_bus (log_event (DelayUs 10)) st"
  have ok: "opc_ok ?s" by (rule opc_does_ok [OF opc_bus_does(2) [OF assms(1), of None]])
  obtain s1 where 1: "opc_option opt ?s = Some s1" "opc_ok s1" "answers (opc_bus s1) = byte_answers ds @ rest"
    using opc_option_reply [OF ok _ assms(3), of "byte_answers ds @ rest"] assms(2) by auto
  show ?thesis
  proof (cases "ds = []")
    case True
    then show ?thesis using 1 by (simp add: opc_answer_def Let_def OPC_releaseChipSelect_def)
  next
    case False
    let ?s1 = "s1\<lparr>OPC_spi_tx_buffer := replicate SPI_BUF_SIZE c, OPC_spi_rx_buffer := replicate SPI_BUF_SIZE 0\<rparr>"
    have "opc_ok ?s1" using 1(2) by (simp add: opc_ok_def)
    then obtain s2 where "opc_read (length ds) 0 buffer ?s1 = Some (Some (ds @ drop (length ds) junk), s2)" "answers (opc_bus s2) = rest"
      using opc_read_data [of ?s1 ds rest "[]" 0 junk] 1(3) assms(4) False by auto
    then show ?thesis using 1(1) False by (simp add: opc_answer_def Let_def OPC_releaseChipSelect_def)
  qed
qed

lemma OPC_command_reply:
  assumes "opc_ok st" "ready_answers opt as" "answers (opc_bus st) = as @ byte_answers ds @ rest"
    "ds = [] \<or> buffer = Some junk \<and> length ds \<le> length junk \<and> length ds \<le> SPI_BUF_SIZE"
  shows "\<exists>st'. OPC_command c opt buffer (length ds) st =
       Some (OPC_OK, if ds = [] then buffer else Some (ds @ drop (length ds) junk), st') \<and> answers (opc_bus st') = rest"
proof -
  obtain b ps e where as: "as = byte_answers (b # ps @ [OPC_N3_DATA_READY] @ e)" "OPC_N3_DATA_READY \<notin> set ps" "length ps \<le> 21"
    "length e = (if opt = OPC_OPTION_NONE then 0 else 1)"
    using assms(2) unfolding ready_answers_def by blast
  let ?as = "byte_answers e @ byte_answers ds @ rest"
  obtain s where s: "opc_ok s" "answers (opc_bus s) = byte_answers ps @ Some [OPC_N3_DATA_READY] # ?as"
    "OPC_command c opt buffer (length ds) st = Option.bind (opc_poll 0 s) (\<lambda>(ready, st).
       if \<not> ready then Some (OPC_UNEXPECTED_OPC_RESPONSE, buffer, st) else opc_answer c opt buffer (length ds) st)"
    using OPC_command_start [OF assms(1), of b "byte_answers ps @ Some [OPC_N3_DATA_READY] # ?as" c opt buffer "length ds"]
      assms(3) as(1) by auto
  obtain s1 where p: "opc_poll 0 s = Some (True, s1)" "answers (opc_bus s1) = ?as"
    using opc_poll_replies [OF s(1) as(2) s(2), of ?as 0 True] as(3) by auto
  have "opc_ok s1" using opc_poll_total [OF s(1), of 0] p(1) opc_does_ok by fastforce
  from opc_answer_reply [OF this p(2) as(4) assms(4), of c] show ?thesis using s(3) p(1) by simp
qed

section \<open>The checksum\<close>

lemma crc_bit_top: "bit (crc_bit x) 15 \<longleftrightarrow> odd x"
proof -
  have "\<not> bit x 16" using bit_imp_le_length [of x 16] by auto
  then show ?thesis
    by (auto simp add: crc_bit_def bit_simps and_one_eq odd_iff_mod_2_eq_one even_iff_mod_2_eq_zero)
qed

lemma xor_cancel: "(a :: 'a :: len word) XOR b = c XOR b \<longleftrightarrow> a = c"
  by (metis xor.assoc xor_self_eq xor.right_neutral)

lemma crc_bit_inj:
  assumes "crc_bit x = crc_bit y"
  shows "x = y"
proof -
  have odd: "odd x \<longleftrightarrow> odd y" using crc_bit_top [of x] crc_bit_top [of y] assms by simp
  then have d: "drop_bit 1 x = drop_bit 1 y"
    using assms by (cases "odd x") (simp_all add: crc_bit_def and_one_eq odd_iff_mod_2_eq_one even_iff_mod_2_eq_zero xor_cancel)
  show "x = y"
  proof (rule bit_word_eqI)
    fix n :: nat
    have "bit (drop_bit 1 x) k = bit (drop_bit 1 y) k" for k using d by simp
    then have "bit x (Suc k) = bit y (Suc k)" for k by (simp add: bit_simps)
    then show "bit x n = bit y n" using odd by (cases n) (simp_all add: bit_0)
  qed
qed

lemma crc_bits_inj: "(crc_bit ^^ n) x = (crc_bit ^^ n) y \<Longrightarrow> x = y"
  by (induction n) (auto dest: crc_bit_inj)

lemma crc_byte_inj:
  "crc_byte c b = crc_byte d b \<Longrightarrow> c = d"
  "crc_byte c a = crc_byte c b \<Longrightarrow> a = b"
proof -
  show "crc_byte c b = crc_byte d b \<Longrightarrow> c = d"
    unfolding crc_byte_def by (drule crc_bits_inj) (simp add: xor_cancel)
  assume "crc_byte c a = crc_byte c b"
  then have "c XOR ucast a = c XOR ucast b" unfolding crc_byte_def by (rule crc_bits_inj)
  then have "(ucast a :: u16) = ucast b" by (metis xor.commute xor_cancel)
  then have "unat (ucast a :: u16) = unat (ucast b :: u16)" by simp
  moreover have "unat (ucast x :: u16) = unat x" for x :: u8
    using unat_u8_less [of x] by (simp add: unsigned_ucast_eq take_bit_nat_eq_self)
  ultimately show "a = b" by (simp add: word_unat_eq_iff)
qed

definition crc16 :: "u16 \<Rightarrow> bytes \<Rightarrow> u16" where
  "crc16 c bs = foldl crc_byte c bs"

lemma crc16_inj: "crc16 c bs = crc16 d bs \<Longrightarrow> c = d"
  by (induction bs arbitrary: c d) (auto simp: crc16_def dest: crc_byte_inj(1))

lemma crc16_changed: "a \<noteq> b \<Longrightarrow> crc16 c (xs @ a # ys) \<noteq> crc16 c (xs @ b # ys)"
  using crc16_inj [of "crc_byte (crc16 c xs) a" ys "crc_byte (crc16 c xs) b"] crc_byte_inj(2)
  by (auto simp: crc16_def)

lemma crc_loop_crc16: "i + n \<le> length h \<Longrightarrow> crc_loop h i n c = Some (crc16 c (take n (drop i h)))"
proof (induction n arbitrary: i c)
  case (Suc n)
  then have "take (Suc n) (drop i h) = h ! i # take n (drop (i + 1) h)"
    by (simp add: Cons_nth_drop_Suc [symmetric])
  then show ?case using Suc by (simp add: rd_in crc16_def)
qed (simp add: crc16_def)

lemma OPC_calcCRC_crc16: "unat n \<le> length h \<Longrightarrow> OPC_calcCRC h n = Some (crc16 0xFFFF (take (unat n) h))"
  by (simp add: OPC_calcCRC_def crc_loop_crc16)

section \<open>Decoding\<close>

definition le16 :: "bytes \<Rightarrow> nat \<Rightarrow> u16" where
  "le16 h i = ucast (h ! i) OR push_bit 8 (ucast (h ! (i + 1)))"

lemma get_uint16: "i + 1 < length h \<Longrightarrow> get_uint16_value h i = Some (le16 h i)"
  by (simp add: get_uint16_value_def le16_def rd_in)

lemma get_float: "i + 3 < length h \<Longrightarrow> get_float_value f h i = Some (f (h ! i, h ! (i + 1), h ! (i + 2), h ! (i + 3)))"
  by (simp add: get_float_value_def rd_in)

lemma decode_bins_values:
  assumes "2 * (i + n) \<le> length h" "i + n \<le> length bins"
  shows "decode_bins h i n bins = Some (take i bins @ map (\<lambda>k. le16 h (2 * k)) [i ..< i + n] @ drop (i + n) bins)"
  using assms
proof (induction n arbitrary: i bins)
  case (Suc n)
  have "get_uint16_value h (i * 2) = Some (le16 h (2 * i))"
    using get_uint16 [of "i * 2" h] Suc.prems by (simp add: mult.commute)
  moreover have "take (i + 1) (bins[i := v]) = take i bins @ [v]" for v
    using Suc.prems by (simp add: take_Suc_conv_app_nth)
  ultimately show ?case
    using Suc.IH [of "i + 1" "bins[i := le16 h (2 * i)]"] Suc.prems
    by (simp add: wr_in upt_conv_Cons del: upt_Suc)
qed simp

section \<open>Sampling\<close>

lemma peripheral_reply:
  assumes "opc_ok st" "ready_answers opt as" "answers (opc_bus st) = as @ rest"
  shows "\<exists>st'. peripheral opt d st = Some st' \<and> opc_ok st' \<and> answers (opc_bus st') = rest \<and>
     histogram st' = histogram st \<and> opc_current st' = opc_current st"
proof -
  obtain s where s: "OPC_command OPC_N3_WRITE_PERIPHERAL_POWER_STATUS opt None 0 st = Some (OPC_OK, None, s)"
    "answers (opc_bus s) = rest"
    using OPC_command_reply [OF assms(1,2), of "[]" rest None "[]" OPC_N3_WRITE_PERIPHERAL_POWER_STATUS] assms(3) by auto
  have "opc_does None st None s"
    using OPC_command_total [OF assms(1), of None 0 OPC_N3_WRITE_PERIPHERAL_POWER_STATUS opt] s(1) by auto
  then show ?thesis using s opc_bus_does(1) [of s None d] by (auto simp: peripheral_def opc_does_def)
qed

text \<open>The answers of a device that serves a whole sample with the histogram \<open>h\<close>.\<close>
definition sample_answers :: "bytes \<Rightarrow> bytes option list \<Rightarrow> bool" where
  "sample_answers h as \<longleftrightarrow> (\<exists>a1 a2 a3 a4 a5. as = a1 @ a2 @ a3 @ byte_answers h @ a4 @ a5 \<and> ready_answers OPC_OPTION_FAN_ON a1 \<and>
     ready_answers OPC_OPTION_LASER_ON a2 \<and> ready_answers OPC_OPTION_NONE a3 \<and>
     ready_answers OPC_OPTION_LASER_OFF a4 \<and> ready_answers OPC_OPTION_FAN_OFF a5)"

lemma opc_sample_reply:
  assumes "opc_ok st" "sample_answers h as" "answers (opc_bus st) = as @ rest" "length h = OPC_HISTOGRAM_SIZE"
  shows "\<exists>st'. opc_sample st = Some (le16 h 84 = crc16 0xFFFF (take 84 h), st') \<and> opc_ok st' \<and> histogram st' = h \<and>
     answers (opc_bus st') = rest \<and> opc_current st' = opc_current st"
proof -
  obtain a1 a2 a3 a4 a5 where as: "as = a1 @ a2 @ a3 @ byte_answers h @ a4 @ a5" "ready_answers OPC_OPTION_FAN_ON a1"
     "ready_answers OPC_OPTION_LASER_ON a2" "ready_answers OPC_OPTION_NONE a3"
     "ready_answers OPC_OPTION_LASER_OFF a4" "ready_answers OPC_OPTION_FAN_OFF a5"
    using assms(2) unfolding sample_answers_def by blast
  obtain s1 where 1: "peripheral OPC_OPTION_FAN_ON FAN_SETTLING_TIME_MS st = Some s1" "opc_ok s1"
      "answers (opc_bus s1) = a2 @ a3 @ byte_answers h @ a4 @ a5 @ rest" "opc_current s1 = opc_current st"
    using peripheral_reply [OF assms(1) as(2), of "a2 @ a3 @ byte_answers h @ a4 @ a5 @ rest"] assms(3) as(1) by auto
  obtain s2 where 2: "peripheral OPC_OPTION_LASER_ON LASER_SETTLING_TIME_MS s1 = Some s2" "opc_ok s2"
      "answers (opc_bus s2) = a3 @ byte_answers h @ a4 @ a5 @ rest" "opc_current s2 = opc_current st"
    using peripheral_reply [OF 1(2) as(3), of "a3 @ byte_answers h @ a4 @ a5 @ rest"] 1(3,4) by auto
  let ?z = "replicate OPC_HISTOGRAM_SIZE 0"
  let ?s = "(on_bus (k_sleep OPC_SAMPLING_TIME_MS) s2)\<lparr>histogram := ?z\<rparr>"
  have ok: "opc_ok ?s" using 2(2) by (simp add: opc_ok_def on_bus_def)
  have h: "h \<noteq> []" "length h \<le> SPI_BUF_SIZE" using assms(4) by (auto simp: histogram_layout SPI_BUF_SIZE_def)
  obtain s3 where 3: "OPC_command OPC_N3_READ_HISTOGRAM_DATA_AND_RESET_HISTOGRAM OPC_OPTION_NONE (Some ?z) OPC_HISTOGRAM_SIZE ?s =
      Some (OPC_OK, Some h, s3)" "answers (opc_bus s3) = a4 @ a5 @ rest"
    using OPC_command_reply [OF ok as(4), of h "a4 @ a5 @ rest" "Some ?z" ?z OPC_N3_READ_HISTOGRAM_DATA_AND_RESET_HISTOGRAM]
      2(3) assms(4) h by auto
  have ok3: "opc_ok s3" "opc_current s3 = opc_current st"
    using OPC_command_total [OF ok, of "Some ?z" OPC_HISTOGRAM_SIZE OPC_N3_READ_HISTOGRAM_DATA_AND_RESET_HISTOGRAM OPC_OPTION_NONE] 3(1) 2(4)
    by (auto simp: opc_does_def on_bus_def)
  let ?s3 = "on_bus (k_sleep OPC_SAMPLING_TIME_MS) (s3\<lparr>histogram := h\<rparr>)"
  have ok3': "opc_ok ?s3" using ok3 assms(4) by (simp add: opc_ok_def on_bus_def)
  obtain s4 where 4: "peripheral OPC_OPTION_LASER_OFF LASER_SETTLING_TIME_MS ?s3 = Some s4" "opc_ok s4"
      "answers (opc_bus s4) = a5 @ rest" "opc_current s4 = opc_current st" "histogram s4 = h"
    using peripheral_reply [OF ok3' as(5), of "a5 @ rest"] 3(2) ok3(2) by (auto simp: on_bus_def)
  obtain s5 where 5: "peripheral OPC_OPTION_FAN_OFF FAN_SETTLING_TIME_MS s4 = Some s5" "opc_ok s5"
      "answers (opc_bus s5) = rest" "opc_current s5 = opc_current st" "histogram s5 = h"
    using peripheral_reply [OF 4(2) as(6), of rest] 4(3-5) by auto
  have "get_uint16_value h OPC_HISTOGRAM_CHECKSUM_INDEX = Some (le16 h 84)"
    "OPC_calcCRC h (of_nat (OPC_HISTOGRAM_SIZE - 2)) = Some (crc16 0xFFFF (take 84 h))"
    using get_uint16 [of 84 h] OPC_calcCRC_crc16 [of 84 h] assms(4) by (simp_all add: histogram_layout)
  then show ?thesis
    using 1(1) 2(1) 3(1) 4(1) 5 by (simp add: opc_sample_def peripeherals_power_on_def peripherals_power_off_def Let_def)
qed

lemma decode_historgram_values:
  assumes "opc_ok st" "histogram st = h"
  shows "decode_historgram to_float v st = Some (st\<lparr>opc_current := \<lparr>bin = map (\<lambda>k. le16 h (2 * k)) [0 ..< 24],
     period = le16 h 52, flowrate = le16 h 54, opc_temperature = of_int (-45 + 175 * uint (le16 h 56) div 65535),
     opc_humidity = of_int (100 * uint (le16 h 58) div 65535),
     pm_a = to_float (h ! 60, h ! 61, h ! 62, h ! 63), pm_b = to_float (h ! 64, h ! 65, h ! 66, h ! 67),
     pm_c = to_float (h ! 68, h ! 69, h ! 70, h ! 71), fan_rev_count = le16 h 80, laser_status = le16 h 82, valid = v\<rparr>\<rparr>)"
proof -
  have len: "length h = 86" "length (bin (opc_current st)) = 24" using assms by (simp_all add: opc_ok_def histogram_layout)
  have "decode_bins h 0 24 (bin (opc_current st)) = Some (map (\<lambda>k. le16 h (2 * k)) [0 ..< 24])"
    using decode_bins_values [of 0 24 h "bin (opc_current st)"] len by simp
  then show ?thesis
    using len by (simp add: decode_historgram_def assms(2) histogram_layout get_uint16 get_float Let_def del: upt_Suc)
qed


text \<open>A whole sample, whatever the device answers.\<close>
lemma peripheral_total:
  assumes "opc_ok st"
  shows "\<exists>st'. peripheral opt d st = Some st' \<and> opc_does None st None st' \<and> spent (opc_bus st) + d \<le> spent (opc_bus st')"
proof -
  obtain r s where s: "OPC_command OPC_N3_WRITE_PERIPHERAL_POWER_STATUS opt None 0 st = Some (r, None, s)" "opc_does None st None s"
    using OPC_command_total [OF assms, of None 0 OPC_N3_WRITE_PERIPHERAL_POWER_STATUS opt] by auto
  then show ?thesis
    using opc_does_trans [OF s(2) opc_bus_does(1) [OF opc_does_ok [OF s(2)], of None d]] drives_spent [of None "opc_bus st" None "opc_bus s"]
    by (auto simp: peripheral_def opc_does_def)
qed

lemma opc_sample_total:
  assumes "opc_ok st"
  shows "\<exists>ok st'. opc_sample st = Some (ok, st') \<and> opc_ok st' \<and> drives None (opc_bus st) None (opc_bus st') \<and>
     spent (opc_bus st) + 140100 \<le> spent (opc_bus st') \<and>
     (ok \<longleftrightarrow> le16 (histogram st') 84 = crc16 0xFFFF (take 84 (histogram st')))"
proof -
  note ok = opc_does_ok
  obtain s1 where 1: "peripheral OPC_OPTION_FAN_ON FAN_SETTLING_TIME_MS st = Some s1" "opc_does None st None s1"
      "spent (opc_bus st) + FAN_SETTLING_TIME_MS \<le> spent (opc_bus s1)"
    using peripheral_total [OF assms] by blast
  obtain s2 where 2: "peripheral OPC_OPTION_LASER_ON LASER_SETTLING_TIME_MS s1 = Some s2" "opc_does None s1 None s2"
      "spent (opc_bus s1) + LASER_SETTLING_TIME_MS \<le> spent (opc_bus s2)"
    using peripheral_total [OF ok [OF 1(2)]] by blast
  have d2: "opc_does None st None (on_bus (k_sleep OPC_SAMPLING_TIME_MS) s2)"
    by (rule opc_does_trans [OF opc_does_trans [OF 1(2) 2(2)] opc_bus_does(1) [OF ok [OF 2(2)]]])
  let ?z = "replicate OPC_HISTOGRAM_SIZE 0"
  let ?s = "(on_bus (k_sleep OPC_SAMPLING_TIME_MS) s2)\<lparr>histogram := ?z\<rparr>"
  have ok2: "opc_ok ?s" using ok [OF 2(2)] by (simp add: opc_ok_def on_bus_def)
  obtain r h s3 where 3: "OPC_command OPC_N3_READ_HISTOGRAM_DATA_AND_RESET_HISTOGRAM OPC_OPTION_NONE (Some ?z) OPC_HISTOGRAM_SIZE ?s =
      Some (r, Some h, s3)" "opc_does None ?s None s3" "length h = OPC_HISTOGRAM_SIZE"
    using OPC_command_total [OF ok2, of "Some ?z" OPC_HISTOGRAM_SIZE OPC_N3_READ_HISTOGRAM_DATA_AND_RESET_HISTOGRAM OPC_OPTION_NONE]
    by (auto simp: map_option_case split: option.splits)
  let ?s3 = "on_bus (k_sleep OPC_SAMPLING_TIME_MS) (s3\<lparr>histogram := h\<rparr>)"
  have ok3: "opc_ok ?s3" using ok [OF 3(2)] 3(3) by (simp add: opc_ok_def on_bus_def)
  have d3: "drives None (opc_bus st) None (opc_bus ?s3)"
    using d2 3(2) drives_trans drives_steps(1) unfolding opc_does_def by fastforce
  have sp3: "spent (opc_bus s2) + 2 * OPC_SAMPLING_TIME_MS \<le> spent (opc_bus ?s3)"
    using drives_spent [of None "opc_bus ?s" None "opc_bus s3"] 3(2) by (simp add: opc_does_def OPC_SAMPLING_TIME_MS_def on_bus_def)
  obtain s4 where 4: "peripheral OPC_OPTION_LASER_OFF LASER_SETTLING_TIME_MS ?s3 = Some s4" "opc_does None ?s3 None s4"
      "spent (opc_bus ?s3) + LASER_SETTLING_TIME_MS \<le> spent (opc_bus s4)"
    using peripheral_total [OF ok3] by blast
  obtain s5 where 5: "peripheral OPC_OPTION_FAN_OFF FAN_SETTLING_TIME_MS s4 = Some s5" "opc_does None s4 None s5"
      "spent (opc_bus s4) + FAN_SETTLING_TIME_MS \<le> spent (opc_bus s5)"
    using peripheral_total [OF ok [OF 4(2)]] by blast
  have d5: "opc_does None ?s3 None s5" by (rule opc_does_trans [OF 4(2) 5(2)])
  then have h: "histogram s5 = h" "drives None (opc_bus st) None (opc_bus s5)" "opc_ok s5"
    using drives_trans [OF d3] by (simp_all add: opc_does_def on_bus_def)
  have "get_uint16_value h OPC_HISTOGRAM_CHECKSUM_INDEX = Some (le16 h 84)"
    "OPC_calcCRC h (of_nat (OPC_HISTOGRAM_SIZE - 2)) = Some (crc16 0xFFFF (take 84 h))"
    using get_uint16 [of 84 h] OPC_calcCRC_crc16 [of 84 h] 3(3) by (simp_all add: histogram_layout)
  then show ?thesis
    using 1(1,3) 2(1,3) 3(1) 4(1,3) 5(1,3) h sp3 unfolding FAN_SETTLING_TIME_MS_def LASER_SETTLING_TIME_MS_def OPC_SAMPLING_TIME_MS_def
    by (simp add: opc_sample_def FAN_SETTLING_TIME_MS_def LASER_SETTLING_TIME_MS_def OPC_SAMPLING_TIME_MS_def peripeherals_power_on_def peripherals_power_off_def Let_def)
qed

lemma opc_n3_sample_total:
  assumes "opc_ok st"
  shows "\<exists>st'. opc_n3_sample_data to_float st = Some st' \<and> opc_ok st' \<and> drives None (opc_bus st) None (opc_bus st') \<and>
     spent (opc_bus st) + 140100 \<le> spent (opc_bus st') \<and>
     (valid (opc_current st') \<longleftrightarrow> le16 (histogram st') 84 \<noteq> crc16 0xFFFF (take 84 (histogram st')))"
proof -
  obtain ok s where s: "opc_sample st = Some (ok, s)" "opc_ok s" "drives None (opc_bus st) None (opc_bus s)"
    "spent (opc_bus st) + 140100 \<le> spent (opc_bus s)"
    "ok \<longleftrightarrow> le16 (histogram s) 84 = crc16 0xFFFF (take 84 (histogram s))"
    using opc_sample_total [OF assms] by blast
  show ?thesis
    using s decode_historgram_values [OF s(2) refl, of to_float "OPC_OK = (if ok then 1 else 0)"]
    by (auto simp: opc_n3_sample_data_def opc_ok_def OPC_OK_def histogram_layout)
qed

interpretation opc_on_spi: spi_driver opc_ok opc_bus "\<lambda>b st. st\<lparr>opc_bus := b\<rparr>" "opc_n3_sample_data to_float" 140100
  using opc_n3_sample_total by unfold_locales (auto simp: opc_ok_def)

lemma opc_sample_values:
  assumes "opc_ok st" "sample_answers h as" "answers (opc_bus st) = as @ rest" "length h = OPC_HISTOGRAM_SIZE"
  shows "\<exists>st'. opc_n3_sample_data to_float st = Some st' \<and> answers (opc_bus st') = rest \<and>
    opc_n3_get_sample st' = \<lparr>bin = map (\<lambda>k. le16 h (2 * k)) [0 ..< 24],
     period = le16 h 52, flowrate = le16 h 54, opc_temperature = of_int (-45 + 175 * uint (le16 h 56) div 65535),
     opc_humidity = of_int (100 * uint (le16 h 58) div 65535),
     pm_a = to_float (h ! 60, h ! 61, h ! 62, h ! 63), pm_b = to_float (h ! 64, h ! 65, h ! 66, h ! 67),
     pm_c = to_float (h ! 68, h ! 69, h ! 70, h ! 71), fan_rev_count = le16 h 80, laser_status = le16 h 82,
     valid = (le16 h 84 \<noteq> crc16 0xFFFF (take 84 h))\<rparr>"
proof -
  obtain s where s: "opc_sample st = Some (le16 h 84 = crc16 0xFFFF (take 84 h), s)" "opc_ok s" "histogram s = h"
    "answers (opc_bus s) = rest"
    using opc_sample_reply [OF assms] by blast
  then show ?thesis
    using decode_historgram_values [OF s(2,3)]
    by (simp add: opc_n3_sample_data_def opc_n3_get_sample_def OPC_OK_def del: upt_Suc)
qed

section \<open>Properties\<close>

text \<open>C14: from the answers of the particle counter to the published sample. A device that becomes
  ready within 22 polls at each of the five commands and serves the 86 bytes \<open>h\<close> gives exactly the
  little-endian values of \<open>h\<close>. The flag \<open>valid\<close> of the sample is set when the checksum does \<^emph>\<open>not\<close>
  match: the sources compare the code 0 of success with the boolean result of \<open>opc_sample\<close>.\<close>
theorem opc_sample_decodes:
  assumes "opc_ok st" "sample_answers h as" "answers (opc_bus st) = as @ rest" "length h = OPC_HISTOGRAM_SIZE"
  shows "\<exists>st'. opc_n3_sample_data to_float st = Some st' \<and> answers (opc_bus st') = rest \<and>
    opc_n3_get_sample st' = \<lparr>bin = map (\<lambda>k. le16 h (2 * k)) [0 ..< 24],
     period = le16 h 52, flowrate = le16 h 54, opc_temperature = of_int (-45 + 175 * uint (le16 h 56) div 65535),
     opc_humidity = of_int (100 * uint (le16 h 58) div 65535),
     pm_a = to_float (h ! 60, h ! 61, h ! 62, h ! 63), pm_b = to_float (h ! 64, h ! 65, h ! 66, h ! 67),
     pm_c = to_float (h ! 68, h ! 69, h ! 70, h ! 71), fan_rev_count = le16 h 80, laser_status = le16 h 82,
     valid = (le16 h 84 \<noteq> crc16 0xFFFF (take 84 h))\<rparr>"
  by (rule opc_sample_values [OF assms])

definition opc_idle :: "bytes option list \<Rightarrow> rat opc" where
  "opc_idle as = \<lparr>OPC_config = \<lparr>cs_control = None, frequency = 0, operation = [], slave = 0\<rparr>,
     OPC_spi_tx_buffer = replicate 256 0, OPC_spi_rx_buffer = replicate 256 0, histogram = replicate 86 0,
     opc_bus = \<lparr>answers = as, events = []\<rparr>,
     opc_current = \<lparr>bin = replicate 24 0, period = 0, flowrate = 0, opc_temperature = 0, opc_humidity = 0,
       pm_a = 0, pm_b = 0, pm_c = 0, fan_rev_count = 0, laser_status = 0, valid = False\<rparr>\<rparr>"

lemma opc_idle_ok: "opc_ok (opc_idle as)"
  by (simp add: opc_idle_def opc_ok_def SPI_BUF_SIZE_def histogram_layout)

lemma ready_answers_example:
  "ready_answers opt (byte_answers (0x31 # [0x31] @ [OPC_N3_DATA_READY] @ (if opt = OPC_OPTION_NONE then [] else [3])))"
  unfolding ready_answers_def
  by (intro exI [of _ "0x31"] exI [of _ "[0x31]"] exI [of _ "if opt = OPC_OPTION_NONE then [] else [3]"])
    (simp add: OPC_N3_DATA_READY_def)

lemma sample_answers_example: "\<exists>as. sample_answers h as"
  unfolding sample_answers_def using ready_answers_example by blast

theorem opc_sample_decodes_witness:
  "\<exists>as st'. opc_n3_sample_data (\<lambda>x. 0 :: rat) (opc_idle as) = Some st' \<and>
     opc_humidity (opc_n3_get_sample st') = of_int (100 * uint (le16 (replicate 86 1) 58) div 65535)"
proof -
  obtain as where as: "sample_answers (replicate 86 1) as" using sample_answers_example by blast
  have "answers (opc_bus (opc_idle as)) = as @ []" by (simp add: opc_idle_def)
  moreover have "length (replicate 86 1 :: bytes) = OPC_HISTOGRAM_SIZE" by (simp add: histogram_layout)
  ultimately obtain st' where "opc_n3_sample_data (\<lambda>x. 0 :: rat) (opc_idle as) = Some st'"
    "opc_humidity (opc_n3_get_sample st') = of_int (100 * uint (le16 (replicate 86 1) 58) div 65535)"
    using opc_sample_decodes [OF opc_idle_ok [of as] as, of "[]" "\<lambda>x. 0 :: rat"] by (metis OPC_SAMPLE.select_convs(5))
  then show ?thesis by blast
qed

text \<open>The checksum of the histogram equals the reference (a fold of the byte step over the
  first bytes), and it detects every change of a single byte.\<close>
theorem OPC_calcCRC_detects:
  assumes "length h = OPC_HISTOGRAM_SIZE" "k < 84" "b \<noteq> h ! k"
  shows "OPC_calcCRC h (of_nat (OPC_HISTOGRAM_SIZE - 2)) = Some (crc16 0xFFFF (take 84 h)) \<and>
     OPC_calcCRC (h[k := b]) (of_nat (OPC_HISTOGRAM_SIZE - 2)) \<noteq> OPC_calcCRC h (of_nat (OPC_HISTOGRAM_SIZE - 2))"
proof -
  have len: "length h = 86" "unat (of_nat (OPC_HISTOGRAM_SIZE - 2) :: u8) = 84" using assms(1) by (simp_all add: histogram_layout)
  have "take 84 h = take k h @ h ! k # drop (Suc k) (take 84 h)"
    using id_take_nth_drop [of k "take 84 h"] len assms(2) by (simp add: min_def)
  moreover have "take 84 (h[k := b]) = take k h @ b # drop (Suc k) (take 84 h)"
    using upd_conv_take_nth_drop [of k "take 84 h" b] len assms(2) by (simp add: take_update_swap min_def)
  ultimately show ?thesis
    using crc16_changed [OF assms(3), of "0xFFFF" "take k h" "drop (Suc k) (take 84 h)"]
      OPC_calcCRC_crc16 [of "of_nat (OPC_HISTOGRAM_SIZE - 2)"] len by simp
qed

theorem OPC_calcCRC_detects_witness:
  "OPC_calcCRC ((replicate 86 7)[3 := 8]) (of_nat (OPC_HISTOGRAM_SIZE - 2)) \<noteq>
     OPC_calcCRC (replicate 86 7) (of_nat (OPC_HISTOGRAM_SIZE - 2))"
proof -
  have "length (replicate 86 7 :: bytes) = OPC_HISTOGRAM_SIZE" "(3 :: nat) < 84" "(8 :: u8) \<noteq> replicate 86 7 ! 3"
    by (simp_all add: histogram_layout)
  then show ?thesis by (rule OPC_calcCRC_detects [THEN conjunct2])
qed

text \<open>C17: whatever the particle counter answers, one sample returns; it leaves the bus free, keeps
  the chip select discipline all the time, and keeps the shape of every buffer.\<close>
theorem opc_sample_safe:
  assumes "opc_ok st"
  shows "\<exists>st'. opc_n3_sample_data to_float st = Some st' \<and> opc_ok st' \<and> drives None (opc_bus st) None (opc_bus st')"
  using opc_n3_sample_total [OF assms] by blast

theorem opc_sample_safe_witness:
  "\<exists>st'. opc_n3_sample_data (\<lambda>x. 0 :: rat) (opc_idle [None, Some []]) = Some st' \<and> opc_ok st'"
  using opc_sample_safe [OF opc_idle_ok, of "\<lambda>x. 0 :: rat"] by blast

text \<open>A device that is not ready in 22 polls. The command gives up with -2, releases the chip
  select and leaves the buffer of the caller alone.\<close>
theorem opc_command_gives_up:
  assumes "opc_ok st" "answers (opc_bus st) = byte_answers (b # ps) @ rest" "length ps = 22" "OPC_N3_DATA_READY \<notin> set ps"
  shows "\<exists>st'. OPC_command c opt buffer n st = Some (OPC_UNEXPECTED_OPC_RESPONSE, buffer, st') \<and>
     answers (opc_bus st') = rest"
proof -
  obtain s where s: "opc_ok s" "answers (opc_bus s) = byte_answers ps @ rest"
    "\<And>r s'. opc_poll 0 s = Some (r, s') \<Longrightarrow> \<not> r \<Longrightarrow>
       OPC_command c opt buffer n st = Some (OPC_UNEXPECTED_OPC_RESPONSE, buffer, s')"
    using OPC_command_start [OF assms(1), of b "byte_answers ps @ rest" c opt buffer n] assms(2) by auto
  have "ps \<noteq> []" using assms(3) by auto
  then show ?thesis
    using opc_poll_replies [OF s(1) assms(4) s(2), of rest 0 False] s(3) assms(3) by auto
qed

theorem opc_command_gives_up_witness:
  "\<exists>st'. OPC_command OPC_N3_WRITE_PERIPHERAL_POWER_STATUS OPC_OPTION_FAN_ON None 0
     (opc_idle (byte_answers (0 # replicate 22 0x31))) = Some (OPC_UNEXPECTED_OPC_RESPONSE, None, st')"
proof -
  let ?as = "byte_answers (0 # replicate 22 0x31)"
  have "answers (opc_bus (opc_idle ?as)) = byte_answers (0 # replicate 22 0x31) @ []" by (simp add: opc_idle_def)
  moreover have "length (replicate 22 (0x31 :: u8)) = 22" "OPC_N3_DATA_READY \<notin> set (replicate 22 0x31)"
    by (simp_all add: OPC_N3_DATA_READY_def)
  ultimately show ?thesis
    using opc_command_gives_up [OF opc_idle_ok [of ?as], of 0 "replicate 22 0x31" "[]"] by blast
qed

end
