(* ===== verification/Crc_Reference.thy ===== *)
theory Crc_Reference
  imports Opc_N3
begin

text \<open>
  The checksum of the particle counter against its mathematical definition: the remainder of the
  division of polynomials over the two-element field. A polynomial is the list of its coefficients,
  the highest first. The generator is x^16 + x^15 + x^2 + 1.
\<close>

section \<open>Division of polynomials\<close>

fun add_prefix :: "bool list \<Rightarrow> bool list \<Rightarrow> bool list" where
  "add_prefix (x # xs) (y # ys) = (x \<noteq> y) # add_prefix xs ys"
| "add_prefix xs ys = ys"

text \<open>The generator without its leading coefficient.\<close>
definition generator_tail :: "bool list" where
  "generator_tail = True # replicate 12 False @ [True, False, True]"

text \<open>Long division: a leading coefficient that is set is cancelled with the generator.\<close>
definition cancel :: "bool list \<Rightarrow> bool list" where
  "cancel p = (if hd p then add_prefix generator_tail (tl p) else tl p)"

lemma add_prefix_length [simp]: "length (add_prefix xs ys) = length ys"
  by (induction xs ys rule: add_prefix.induct) auto

lemma cancel_length [simp]: "length (cancel p) = length p - 1"
  by (simp add: cancel_def)

function poly_rem :: "bool list \<Rightarrow> bool list" where
  "poly_rem p = (if length p \<le> 16 then p else poly_rem (cancel p))"
  by auto
termination by (relation "measure length") auto

declare poly_rem.simps [simp del]

text \<open>The bits of a message in the order of the wire, the least significant of every byte first.\<close>
definition message_bits :: "bytes \<Rightarrow> bool list" where
  "message_bits bs = concat (map (\<lambda>b. map (bit b) [0 ..< 8]) bs)"

definition word_bits :: "u16 \<Rightarrow> bool list" where
  "word_bits w = map (bit w) [0 ..< 16]"

section \<open>The register\<close>

text \<open>One bit of the message: added to the low bit of the register, then a step of the register.\<close>
definition crc_feed :: "u16 \<Rightarrow> bool \<Rightarrow> u16" where
  "crc_feed c d = crc_bit (c XOR of_bool d)"

lemma add_prefix_nth:
  "i < length ys \<Longrightarrow> add_prefix xs ys ! i = (if i < length xs then xs ! i \<noteq> ys ! i else ys ! i)"
proof (induction xs ys arbitrary: i rule: add_prefix.induct)
  case (1 x xs y ys)
  then show ?case by (cases i) auto
qed auto

lemma generator_nth: "i < 16 \<Longrightarrow> generator_tail ! i = bit (0xA001 :: u16) i"
proof -
  have "map (bit (0xA001 :: u16)) [0 ..< 16] = generator_tail"
    by (simp add: generator_tail_def upt_rec bit_numeral_rec numeral_eq_Suc)
  then show "i < 16 \<Longrightarrow> generator_tail ! i = bit (0xA001 :: u16) i" by (metis nth_map_upt add_0 diff_zero)
qed

lemma crc_feed_bit:
  assumes "i < 16"
  shows "bit (crc_feed c d) i \<longleftrightarrow> (i + 1 < 16 \<and> bit c (i + 1)) \<noteq> (bit c 0 \<noteq> d \<and> generator_tail ! i)"
proof -
  have low: "odd (c XOR of_bool d) \<longleftrightarrow> bit c 0 \<noteq> d"
    unfolding bit_0 [symmetric] bit_xor_iff by (simp add: bit_0)
  have up: "bit (c XOR of_bool d) (i + 1) \<longleftrightarrow> bit c (i + 1)" by (simp add: bit_simps)
  have cut: "\<not> i + 1 < 16 \<Longrightarrow> \<not> bit c (i + 1)" using bit_imp_le_length by force
  show ?thesis
    using assms low up cut
    by (auto simp: crc_feed_def crc_bit_def bit_drop_bit_eq bit_xor_iff and_one_eq odd_iff_mod_2_eq_one [symmetric] generator_nth)
qed

text \<open>The dividend that stands for a register and the bits that are still to come.\<close>
definition dividend :: "u16 \<Rightarrow> bool list \<Rightarrow> bool list" where
  "dividend c ds = add_prefix (word_bits c) (ds @ replicate 16 False)"

lemma dividend_length [simp]: "length (dividend c ds) = length ds + 16"
  by (simp add: dividend_def)

lemma dividend_nth:
  "i < length ds + 16 \<Longrightarrow> dividend c ds ! i = (if i < 16 then bit c i \<noteq> (ds @ replicate 16 False) ! i else (ds @ replicate 16 False) ! i)"
  by (simp add: dividend_def add_prefix_nth word_bits_def)

lemma dividend_step: "cancel (dividend c (d # ds)) = dividend (crc_feed c d) ds"
proof (rule nth_equalityI)
  fix i assume "i < length (cancel (dividend c (d # ds)))"
  then have i: "i < length ds + 16" by simp
  let ?p = "dividend c (d # ds)"
  have "?p \<noteq> []" by (metis dividend_length length_0_conv add_is_0 zero_neq_numeral)
  then have "hd ?p \<longleftrightarrow> bit c 0 \<noteq> d" using dividend_nth [of 0 "d # ds" c] by (simp add: hd_conv_nth bit_0)
  moreover have "tl ?p ! i = (if i + 1 < 16 then bit c (i + 1) \<noteq> (ds @ replicate 16 False) ! i else (ds @ replicate 16 False) ! i)"
    using i dividend_nth [of "i + 1" "d # ds" c] by (simp add: nth_tl)
  moreover have "length generator_tail = 16" by (simp add: generator_tail_def)
  ultimately show "cancel ?p ! i = dividend (crc_feed c d) ds ! i"
    using i dividend_nth [of i ds "crc_feed c d"] crc_feed_bit [of i c d]
    by (auto simp: cancel_def add_prefix_nth)
qed simp

lemma fold_is_remainder: "word_bits (fold (\<lambda>d c. crc_feed c d) ds c) = poly_rem (dividend c ds)"
proof (induction ds arbitrary: c)
  case Nil
  have "dividend c [] = word_bits c" by (rule nth_equalityI) (simp_all add: dividend_nth word_bits_def)
  then show ?case by (simp add: poly_rem.simps word_bits_def)
next
  case (Cons d ds)
  then show ?case using poly_rem.simps [of "dividend c (d # ds)"] by (simp add: dividend_step)
qed

text \<open>The byte at once: the code adds all eight bits first and shifts afterwards.\<close>
lemma crc_bit_odd: "crc_bit x = drop_bit 1 x XOR (if odd x then 0xA001 else 0)"
  by (simp add: crc_bit_def and_one_eq odd_iff_mod_2_eq_one)

lemma crc_bit_later: "crc_bit (c XOR v) = crc_feed c (odd v) XOR drop_bit 1 v"
proof -
  have "odd (c XOR v) \<longleftrightarrow> odd (c XOR of_bool (odd v))" unfolding bit_0 [symmetric] bit_xor_iff by (simp add: bit_0)
  moreover have "drop_bit 1 (c XOR of_bool (odd v)) = drop_bit 1 c" by (rule bit_word_eqI) (simp add: bit_simps)
  ultimately show ?thesis unfolding crc_feed_def crc_bit_odd by (simp only: drop_bit_xor ac_simps)
qed

lemma crc_bits_later:
  "drop_bit n v = 0 \<Longrightarrow> (crc_bit ^^ n) (c XOR v) = fold (\<lambda>d c. crc_feed c d) (map (bit v) [0 ..< n]) c"
proof (induction n arbitrary: c v)
  case (Suc n)
  have "map (bit v) [0 ..< Suc n] = odd v # map (bit (drop_bit 1 v)) [0 ..< n]"
    by (simp add: upt_conv_Cons map_Suc_upt [symmetric] bit_0 bit_drop_bit_eq o_def del: upt_Suc)
  moreover have "drop_bit n (drop_bit 1 v) = 0" using Suc.prems by simp
  ultimately show ?case using Suc.IH [of "drop_bit 1 v" "crc_feed c (odd v)"] by (simp add: funpow_Suc_right crc_bit_later del: funpow.simps upt_Suc)
qed simp

lemma crc_byte_bits: "crc_byte c b = fold (\<lambda>d c. crc_feed c d) (map (bit b) [0 ..< 8]) c"
proof -
  have "drop_bit 8 (ucast b :: u16) = 0" by (rule bit_word_eqI) (auto simp: bit_simps dest: bit_imp_le_length)
  moreover have "map (bit (ucast b :: u16)) [0 ..< 8] = map (bit b) [0 ..< 8]" by (simp add: bit_simps)
  ultimately show ?thesis using crc_bits_later [of 8 "ucast b" c] unfolding crc_byte_def by metis
qed

lemma crc16_bits: "crc16 c bs = fold (\<lambda>d c. crc_feed c d) (message_bits bs) c"
  by (induction bs arbitrary: c) (simp_all add: crc16_def message_bits_def crc_byte_bits del: upt_Suc)

section \<open>Properties\<close>

text \<open>C15: The checksum is a cyclic redundancy check (CRC-16, generator x^16 + x^15 + x^2 + 1, as of Modbus): for every buffer, the bits of the result are
  the remainder of the message, with sixteen ones added to its first sixteen bits and sixteen zeros behind it,
  after division by the generator.\<close>
theorem OPC_calcCRC_is_remainder:
  assumes "unat n \<le> length dat"
  shows "\<exists>crc. OPC_calcCRC dat n = Some crc \<and>
     word_bits crc = poly_rem (add_prefix (replicate 16 True) (message_bits (take (unat n) dat) @ replicate 16 False))"
proof -
  have "word_bits 0xFFFF = replicate 16 True"
    by (simp add: word_bits_def upt_rec bit_numeral_rec numeral_eq_Suc)
  then show ?thesis
    using OPC_calcCRC_crc16 [OF assms] fold_is_remainder [of "message_bits (take (unat n) dat)" "0xFFFF"]
    by (simp add: crc16_bits dividend_def)
qed

theorem OPC_calcCRC_is_remainder_witness:
  "\<exists>crc. OPC_calcCRC [1, 2] 2 = Some crc \<and>
     word_bits crc = poly_rem (add_prefix (replicate 16 True) (message_bits [1, 2] @ replicate 16 False))"
  using OPC_calcCRC_is_remainder [of 2 "[1, 2]"] by simp

end
