(* ===== verification/Ads124s08.thy ===== *)
theory Ads124s08
  imports Board
begin

text \<open>
  The analogue-digital converter of \<open>ads124s08.c\<close>: register access and commands over SPI, the
  conversion result, and the seven channels of a sample. \<open>None\<close> is an access outside an array.
\<close>

section \<open>Constants and state\<close>

definition INPMUX_ADDR_MASK :: u32 where "INPMUX_ADDR_MASK = 0x02"
definition PGA_ADDR_MASK :: u32 where "PGA_ADDR_MASK = 0x03"
definition REF_ADDR_MASK :: u32 where "REF_ADDR_MASK = 0x05"
definition SYS_ADDR_MASK :: u32 where "SYS_ADDR_MASK = 0x09"
definition WAKE_OPCODE_MASK :: u8 where "WAKE_OPCODE_MASK = 0x02"
definition START_OPCODE_MASK :: u8 where "START_OPCODE_MASK = 0x08"
definition STOP_OPCODE_MASK :: u8 where "STOP_OPCODE_MASK = 0x0A"
definition REGRD_OPCODE_MASK :: u32 where "REGRD_OPCODE_MASK = 0x20"
definition REGWR_OPCODE_MASK :: u32 where "REGWR_OPCODE_MASK = 0x40"
definition ADS_P_AIN0 :: u8 where "ADS_P_AIN0 = push_bit 4 0"
definition ADS_P_AIN1 :: u8 where "ADS_P_AIN1 = push_bit 4 1"
definition ADS_P_AIN2 :: u8 where "ADS_P_AIN2 = push_bit 4 2"
definition ADS_P_AIN3 :: u8 where "ADS_P_AIN3 = push_bit 4 3"
definition ADS_P_AIN4 :: u8 where "ADS_P_AIN4 = push_bit 4 4"
definition ADS_P_AIN5 :: u8 where "ADS_P_AIN5 = push_bit 4 5"
definition ADS_P_AIN8 :: u8 where "ADS_P_AIN8 = push_bit 4 8"
definition ADS_N_AINCOM :: u8 where "ADS_N_AINCOM = 12"
definition DEVICE_READY_FLAG :: u8 where "DEVICE_READY_FLAG = 64"
definition CS_PIN :: nat where "CS_PIN = CS_ADC"
definition START_PIN :: nat where "START_PIN = ADC_SYNC"
definition CS_DWELL_TIME_MS :: int where "CS_DWELL_TIME_MS = 1"
definition MAGIC_TIME_TO_SLEEP_AFTER_RESTART :: int where "MAGIC_TIME_TO_SLEEP_AFTER_RESTART = 100"
definition RESET_DWELL_TIME_MS :: int where "RESET_DWELL_TIME_MS = 200"

lemmas ads_constants = INPMUX_ADDR_MASK_def PGA_ADDR_MASK_def REF_ADDR_MASK_def SYS_ADDR_MASK_def WAKE_OPCODE_MASK_def
  START_OPCODE_MASK_def STOP_OPCODE_MASK_def REGRD_OPCODE_MASK_def REGWR_OPCODE_MASK_def ADS_N_AINCOM_def CS_PIN_def START_PIN_def
  CS_DWELL_TIME_MS_def MAGIC_TIME_TO_SLEEP_AFTER_RESTART_def

record AFE3_SAMPLE =
  op1 :: u32
  op2 :: u32
  op3 :: u32
  op4 :: u32
  op5 :: u32
  op6 :: u32
  pt :: u32

record adc =
  ADS124S08_config :: spi_config
  ADS124S08_spi_tx_buffer :: bytes
  ADS124S08_spi_rx_buffer :: bytes
  adc_bus :: bus
  adc_current :: AFE3_SAMPLE

definition adc_on_bus :: "(bus \<Rightarrow> bus) \<Rightarrow> adc \<Rightarrow> adc" where
  "adc_on_bus f st = st\<lparr>adc_bus := f (adc_bus st)\<rparr>"

section \<open>Pins and transfers\<close>

definition ADS124S08_select :: "adc \<Rightarrow> adc" where
  "ADS124S08_select = adc_on_bus (\<lambda>b. k_sleep CS_DWELL_TIME_MS (digitalWrite CS_PIN LOW b))"

definition ADS124S08_release :: "adc \<Rightarrow> adc" where
  "ADS124S08_release = adc_on_bus (\<lambda>b. k_sleep CS_DWELL_TIME_MS (digitalWrite CS_PIN HIGH b))"

definition ADS124S08_startConversion :: "adc \<Rightarrow> adc" where
  "ADS124S08_startConversion = adc_on_bus (\<lambda>b. k_sleep CS_DWELL_TIME_MS (digitalWrite START_PIN HIGH b))"

definition ADS124S08_stopConversion :: "adc \<Rightarrow> adc" where
  "ADS124S08_stopConversion = adc_on_bus (\<lambda>b. k_sleep CS_DWELL_TIME_MS (digitalWrite START_PIN LOW b))"

definition ADS124S08_init :: "adc \<Rightarrow> adc" where
  "ADS124S08_init st = ADS124S08_stopConversion (ADS124S08_release st)"

text \<open>The result of looking up the device is only logged here.\<close>
definition ADS124S08_begin :: "adc \<Rightarrow> adc" where
  "ADS124S08_begin st = st\<lparr>ADS124S08_config := \<lparr>cs_control = None, frequency = 1000000,
     operation = [SPI_OP_MODE_MASTER, SPI_WORD_SET_8, SPI_TRANSFER_MSB, SPI_MODE_CPHA], slave = 0\<rparr>\<rparr>"

definition ADS124S08_hardReset :: "adc \<Rightarrow> adc" where
  "ADS124S08_hardReset = adc_on_bus (\<lambda>b. k_sleep RESET_DWELL_TIME_MS (digitalWrite ADC_RESET 1
     (k_sleep RESET_DWELL_TIME_MS (digitalWrite ADC_RESET 0 b))))"

text \<open>The first bytes of both buffers are exchanged.\<close>
definition adc_transceive :: "nat \<Rightarrow> adc \<Rightarrow> adc option" where
  "adc_transceive n st =
     (if n \<le> length (ADS124S08_spi_tx_buffer st) \<and> n \<le> length (ADS124S08_spi_rx_buffer st)
      then let (rx, b) = spi_transceive n (ADS124S08_spi_tx_buffer st) (ADS124S08_spi_rx_buffer st) (adc_bus st)
        in Some (st\<lparr>ADS124S08_spi_rx_buffer := rx, adc_bus := b\<rparr>)
      else None)"

text \<open>Assignments to the first elements of the buffers.\<close>
definition adc_tx :: "bytes \<Rightarrow> adc \<Rightarrow> adc option" where
  "adc_tx bs st = do { tx \<leftarrow> wr_block (ADS124S08_spi_tx_buffer st) 0 bs; Some (st\<lparr>ADS124S08_spi_tx_buffer := tx\<rparr>) }"

definition adc_rx :: "bytes \<Rightarrow> adc \<Rightarrow> adc option" where
  "adc_rx bs st = do { rx \<leftarrow> wr_block (ADS124S08_spi_rx_buffer st) 0 bs; Some (st\<lparr>ADS124S08_spi_rx_buffer := rx\<rparr>) }"

section \<open>Registers and commands\<close>

definition ADS124S08_regRead :: "u32 \<Rightarrow> adc \<Rightarrow> (u8 \<times> adc) option" where
  "ADS124S08_regRead regnum st = do {
     st \<leftarrow> adc_tx [ucast (REGRD_OPCODE_MASK + (regnum AND 0x1f)), 0, 0] st;
     st \<leftarrow> adc_rx [0, 0, 0] st;
     st \<leftarrow> adc_transceive 3 (ADS124S08_select st);
     let st = ADS124S08_release st;
     v \<leftarrow> rd (ADS124S08_spi_rx_buffer st) 2;
     Some (v, st) }"

text \<open>The copy into the caller's array.\<close>
fun copy_regs :: "bytes \<Rightarrow> nat \<Rightarrow> nat \<Rightarrow> bytes \<Rightarrow> bytes option" where
  "copy_regs rx i 0 dat = Some dat"
| "copy_regs rx i (Suc n) dat = do { b \<leftarrow> rd rx i; dat \<leftarrow> wr dat i b; copy_regs rx (i + 1) n dat }"

definition ADS124S08_readRegs :: "u32 \<Rightarrow> u32 \<Rightarrow> bytes \<Rightarrow> adc \<Rightarrow> (bytes \<times> adc) option" where
  "ADS124S08_readRegs regnum count dat st = do {
     st \<leftarrow> adc_tx [ucast (REGRD_OPCODE_MASK + (regnum AND 0x1f)), ucast (count - 1)] st;
     st \<leftarrow> adc_transceive 2 (ADS124S08_select st);
     st \<leftarrow> adc_tx (replicate SPI_BUF_SIZE 0) st;
     st \<leftarrow> adc_transceive (unat count) st;
     let st = ADS124S08_release st;
     dat \<leftarrow> copy_regs (ADS124S08_spi_rx_buffer st) 0 (unat count) dat;
     Some (dat, st) }"

definition ADS124S08_regWrite :: "u32 \<Rightarrow> u8 \<Rightarrow> adc \<Rightarrow> adc option" where
  "ADS124S08_regWrite regnum dat st = do {
     st \<leftarrow> adc_tx [ucast (REGWR_OPCODE_MASK + (regnum AND 0x1f)), 0, dat] st;
     let st = ADS124S08_select st;
     let st = adc_on_bus (spi_write 3 (ADS124S08_spi_tx_buffer st)) st;
     Some (ADS124S08_release st) }"

definition ADS124S08_sendCommand :: "u8 \<Rightarrow> adc \<Rightarrow> adc option" where
  "ADS124S08_sendCommand op_code st = do {
     st \<leftarrow> adc_tx [op_code] st;
     st \<leftarrow> adc_rx [0] st;
     st \<leftarrow> adc_transceive 1 (ADS124S08_select st);
     Some (ADS124S08_release st) }"

definition ADS124S08_reStart :: "adc \<Rightarrow> adc option" where
  "ADS124S08_reStart st = do {
     st \<leftarrow> ADS124S08_sendCommand STOP_OPCODE_MASK st;
     st \<leftarrow> ADS124S08_sendCommand START_OPCODE_MASK st;
     Some (adc_on_bus (k_sleep MAGIC_TIME_TO_SLEEP_AFTER_RESTART) st) }"

text \<open>Value, status and checksum of the last conversion.\<close>
definition ADS124S08_dataRead :: "adc \<Rightarrow> (u32 \<times> u8 \<times> u8 \<times> adc) option" where
  "ADS124S08_dataRead st = do {
     let st = ADS124S08_select st;
     st \<leftarrow> adc_tx [0] st;
     st \<leftarrow> adc_rx [0] st;
     st \<leftarrow> adc_transceive 1 st;
     xstatus \<leftarrow> rd (ADS124S08_spi_rx_buffer st) 0;
     st \<leftarrow> adc_tx [0, 0, 0] st;
     st \<leftarrow> adc_rx [0, 0, 0] st;
     st \<leftarrow> adc_transceive 3 st;
     d0 \<leftarrow> rd (ADS124S08_spi_rx_buffer st) 0;
     d1 \<leftarrow> rd (ADS124S08_spi_rx_buffer st) 1;
     d2 \<leftarrow> rd (ADS124S08_spi_rx_buffer st) 2;
     let iData = (ucast d0 :: u32);
     let iData = push_bit 8 iData + ucast d1;
     let iData = push_bit 8 iData + ucast d2;
     st \<leftarrow> adc_tx [0] st;
     st \<leftarrow> adc_rx [0] st;
     st \<leftarrow> adc_transceive 1 st;
     xcrc \<leftarrow> rd (ADS124S08_spi_rx_buffer st) 0;
     Some (iData, xstatus, xcrc, ADS124S08_release st) }"

section \<open>Channels\<close>

definition configureAdc :: "u8 \<Rightarrow> adc \<Rightarrow> adc option" where
  "configureAdc channel st = do {
     st \<leftarrow> ADS124S08_sendCommand WAKE_OPCODE_MASK st;
     st \<leftarrow> ADS124S08_regWrite INPMUX_ADDR_MASK (channel OR ADS_N_AINCOM) st;
     st \<leftarrow> ADS124S08_regWrite PGA_ADDR_MASK 0 st;
     st \<leftarrow> ADS124S08_regWrite REF_ADDR_MASK 0b00110000 st;
     st \<leftarrow> ADS124S08_regWrite SYS_ADDR_MASK 0b00000011 st;
     ADS124S08_reStart st }"

text \<open>
  The readiness of the device is only logged. (It is tested as \<open>~(status & DEVICE_READY_FLAG)\<close> in
  the type \<open>int\<close>, which is never zero.)
\<close>
definition sampleChannel :: "u8 \<Rightarrow> adc \<Rightarrow> (u32 \<times> adc) option" where
  "sampleChannel channel st = do {
     st \<leftarrow> configureAdc channel st;
     (dat, status, crc, st) \<leftarrow> ADS124S08_dataRead (ADS124S08_startConversion st);
     Some (dat, ADS124S08_stopConversion st) }"

definition adc_sample_data :: "adc \<Rightarrow> adc option" where
  "adc_sample_data st = do {
     (v, st) \<leftarrow> sampleChannel ADS_P_AIN0 st;
     let st = st\<lparr>adc_current := (adc_current st)\<lparr>op1 := v\<rparr>\<rparr>;
     (v, st) \<leftarrow> sampleChannel ADS_P_AIN1 st;
     let st = st\<lparr>adc_current := (adc_current st)\<lparr>op2 := v\<rparr>\<rparr>;
     (v, st) \<leftarrow> sampleChannel ADS_P_AIN2 st;
     let st = st\<lparr>adc_current := (adc_current st)\<lparr>op3 := v\<rparr>\<rparr>;
     (v, st) \<leftarrow> sampleChannel ADS_P_AIN3 st;
     let st = st\<lparr>adc_current := (adc_current st)\<lparr>op4 := v\<rparr>\<rparr>;
     (v, st) \<leftarrow> sampleChannel ADS_P_AIN4 st;
     let st = st\<lparr>adc_current := (adc_current st)\<lparr>op5 := v\<rparr>\<rparr>;
     (v, st) \<leftarrow> sampleChannel ADS_P_AIN5 st;
     let st = st\<lparr>adc_current := (adc_current st)\<lparr>op6 := v\<rparr>\<rparr>;
     (v, st) \<leftarrow> sampleChannel ADS_P_AIN8 st;
     Some (st\<lparr>adc_current := (adc_current st)\<lparr>pt := v\<rparr>\<rparr>) }"

definition adc_get_sample :: "adc \<Rightarrow> AFE3_SAMPLE" where
  "adc_get_sample st = adc_current st"


section \<open>What every operation does to the bus\<close>

definition adc_ok :: "adc \<Rightarrow> bool" where
  "adc_ok st \<longleftrightarrow> length (ADS124S08_spi_tx_buffer st) = SPI_BUF_SIZE \<and> length (ADS124S08_spi_rx_buffer st) = SPI_BUF_SIZE"

text \<open>An operation that emits the events \<open>es\<close> and uses \<open>k\<close> answers of the device.\<close>
definition adc_does :: "hw_event list \<Rightarrow> nat \<Rightarrow> adc \<Rightarrow> adc \<Rightarrow> bool" where
  "adc_does es k st st' \<longleftrightarrow> adc_ok st' \<and> events (adc_bus st') = events (adc_bus st) @ es \<and>
     answers (adc_bus st') = drop k (answers (adc_bus st)) \<and> adc_current st' = adc_current st"

lemma adc_does_trans: "adc_does es k a b \<Longrightarrow> adc_does fs l b c \<Longrightarrow> adc_does (es @ fs) (k + l) a c"
  by (simp add: adc_does_def add.commute)

lemma adc_does_ok: "adc_does es k a b \<Longrightarrow> adc_ok b"
  by (simp add: adc_does_def)

text \<open>The bytes of a transfer into a cleared buffer, from the answers that are left.\<close>
definition reply :: "nat \<Rightarrow> bytes option list \<Rightarrow> bytes" where
  "reply n as = receive_into n (case as of [] \<Rightarrow> None | a # _ \<Rightarrow> a) (replicate n 0)"

lemma length_reply [simp]: "length (reply n as) = n"
  by (simp add: reply_def receive_length)

lemma receive_none: "receive_into n None rx = rx"
  by (simp add: receive_into_def)

lemma take_receive: "take n (receive_into n a (replicate n 0 @ rest)) = receive_into n a (replicate n 0)"
  by (auto simp: receive_into_def min_def split: option.split)

definition select_events :: "hw_event list" where
  "select_events = [Pin CS_ADC 0, Delay 1]"

definition release_events :: "hw_event list" where
  "release_events = [Pin CS_ADC 1, Delay 1]"

definition start_events :: "hw_event list" where
  "start_events = [Pin ADC_SYNC 1, Delay 1]"

definition stop_events :: "hw_event list" where
  "stop_events = [Pin ADC_SYNC 0, Delay 1]"

lemma adc_pins_do:
  assumes "adc_ok st"
  shows "adc_does select_events 0 st (ADS124S08_select st)" "adc_does release_events 0 st (ADS124S08_release st)"
    "adc_does start_events 0 st (ADS124S08_startConversion st)" "adc_does stop_events 0 st (ADS124S08_stopConversion st)"
    "adc_does [Delay d] 0 st (adc_on_bus (k_sleep d) st)"
  using assms
  by (simp_all add: adc_does_def adc_ok_def ADS124S08_select_def ADS124S08_release_def ADS124S08_startConversion_def
      ADS124S08_stopConversion_def adc_on_bus_def select_events_def release_events_def start_events_def stop_events_def
      ads_constants LOW_def HIGH_def)

lemma adc_pins_keep [simp]:
  "ADS124S08_spi_tx_buffer (ADS124S08_select st) = ADS124S08_spi_tx_buffer st"
  "ADS124S08_spi_rx_buffer (ADS124S08_select st) = ADS124S08_spi_rx_buffer st"
  "ADS124S08_spi_rx_buffer (ADS124S08_release st) = ADS124S08_spi_rx_buffer st"
  by (simp_all add: ADS124S08_select_def ADS124S08_release_def adc_on_bus_def)

lemma adc_buffers:
  assumes "adc_ok st" "length bs \<le> SPI_BUF_SIZE"
  shows "\<exists>st'. adc_tx bs st = Some st' \<and> adc_does [] 0 st st' \<and> take (length bs) (ADS124S08_spi_tx_buffer st') = bs \<and>
       ADS124S08_spi_rx_buffer st' = ADS124S08_spi_rx_buffer st"
    "\<exists>st' rest. adc_rx bs st = Some st' \<and> adc_does [] 0 st st' \<and> ADS124S08_spi_rx_buffer st' = bs @ rest \<and>
       ADS124S08_spi_tx_buffer st' = ADS124S08_spi_tx_buffer st"
  using assms by (simp_all add: adc_tx_def adc_rx_def wr_block_def adc_does_def adc_ok_def)

lemma adc_transceive_does:
  assumes "adc_ok st" "n \<le> SPI_BUF_SIZE"
  shows "\<exists>st'. adc_transceive n st = Some st' \<and> adc_does [Transfer (take n (ADS124S08_spi_tx_buffer st))] 1 st st' \<and>
     (\<forall>rest. ADS124S08_spi_rx_buffer st = replicate n 0 @ rest \<longrightarrow>
        take n (ADS124S08_spi_rx_buffer st') = reply n (answers (adc_bus st)))"
  using assms receive_length [of n "ADS124S08_spi_rx_buffer st"]
  by (auto simp: adc_transceive_def spi_transceive_def adc_does_def adc_ok_def reply_def take_receive receive_none split: list.split)

text \<open>A cleared receive buffer, given bytes to send and a transfer of both.\<close>
lemma adc_exchange:
  assumes "adc_ok st" "length bs \<le> SPI_BUF_SIZE" "n = length bs"
  shows "\<exists>s st'. Option.bind (adc_tx bs st) (\<lambda>st. Option.bind (adc_rx (replicate n 0) st) f) = f s \<and>
     adc_does [] 0 st s \<and> take n (ADS124S08_spi_tx_buffer s) = bs \<and> (\<exists>rest. ADS124S08_spi_rx_buffer s = replicate n 0 @ rest)"
proof -
  obtain s1 where 1: "adc_tx bs st = Some s1" "adc_does [] 0 st s1" "take (length bs) (ADS124S08_spi_tx_buffer s1) = bs"
    using adc_buffers(1) [OF assms(1,2)] by blast
  obtain s2 rest where 2: "adc_rx (replicate n 0) s1 = Some s2" "adc_does [] 0 s1 s2"
    "ADS124S08_spi_rx_buffer s2 = replicate n 0 @ rest" "ADS124S08_spi_tx_buffer s2 = ADS124S08_spi_tx_buffer s1"
    using adc_buffers(2) [OF adc_does_ok [OF 1(2)], of "replicate n 0"] assms(2,3) by auto
  show ?thesis using 1 2 adc_does_trans [OF 1(2) 2(2)] assms(3) by auto
qed


lemma adc_cycle:
  assumes "adc_ok st" "length bs = n" "n \<le> SPI_BUF_SIZE" "zs = replicate n 0"
  shows "\<exists>a b c. adc_tx bs st = Some a \<and> adc_rx zs a = Some b \<and> adc_transceive n b = Some c \<and>
     adc_does [Transfer bs] 1 st c \<and> take n (ADS124S08_spi_rx_buffer c) = reply n (answers (adc_bus st))"
proof -
  obtain s1 where 1: "adc_tx bs st = Some s1" "adc_does [] 0 st s1" "take n (ADS124S08_spi_tx_buffer s1) = bs"
    using adc_buffers(1) [OF assms(1), of bs] assms(2,3) by auto
  obtain s2 rest where 2: "adc_rx zs s1 = Some s2" "adc_does [] 0 s1 s2"
    "ADS124S08_spi_rx_buffer s2 = replicate n 0 @ rest" "ADS124S08_spi_tx_buffer s2 = ADS124S08_spi_tx_buffer s1"
    using adc_buffers(2) [OF adc_does_ok [OF 1(2)], of zs] assms(3,4) by auto
  have 12: "adc_does [] 0 st s2" using adc_does_trans [OF 1(2) 2(2)] by simp
  obtain s3 where 3: "adc_transceive n s2 = Some s3" "adc_does [Transfer bs] 1 s2 s3"
    "take n (ADS124S08_spi_rx_buffer s3) = reply n (answers (adc_bus s2))"
    using adc_transceive_does [OF adc_does_ok [OF 2(2)] assms(3)] 2(3,4) 1(3) by auto
  show ?thesis using 1(1) 2(1) 3(1,3) adc_does_trans [OF 12 3(2)] 12 by (simp add: adc_does_def)
qed

lemma adc_rd:
  assumes "adc_ok st" "k < n" "n \<le> SPI_BUF_SIZE"
  shows "rd (ADS124S08_spi_rx_buffer st) k = Some (take n (ADS124S08_spi_rx_buffer st) ! k)"
  using assms by (simp add: adc_ok_def rd_in)

lemma ADS124S08_sendCommand_does:
  assumes "adc_ok st"
  shows "\<exists>st'. ADS124S08_sendCommand c st = Some st' \<and>
     adc_does (select_events @ [Transfer [c]] @ release_events) 1 st st'"
proof -
  have len: "length [c] \<le> SPI_BUF_SIZE" "1 \<le> SPI_BUF_SIZE" by (simp_all add: SPI_BUF_SIZE_def)
  obtain s1 where 1: "ADS124S08_sendCommand c st = Option.bind (adc_transceive 1 (ADS124S08_select s1)) (\<lambda>s. Some (ADS124S08_release s))"
    "adc_does [] 0 st s1" "take 1 (ADS124S08_spi_tx_buffer s1) = [c]"
    using adc_exchange [OF assms len(1), of 1 "\<lambda>st. Option.bind (adc_transceive 1 (ADS124S08_select st)) (\<lambda>s. Some (ADS124S08_release s))"]
    by (auto simp: ADS124S08_sendCommand_def)
  have 2: "adc_does select_events 0 st (ADS124S08_select s1)"
    using adc_does_trans [OF 1(2) adc_pins_do(1) [OF adc_does_ok [OF 1(2)]]] by simp
  obtain s3 where 3: "adc_transceive 1 (ADS124S08_select s1) = Some s3" "adc_does [Transfer [c]] 1 (ADS124S08_select s1) s3"
    using adc_transceive_does [OF adc_does_ok [OF 2] len(2)] 1(3) by auto
  show ?thesis
    using 1(1) 3(1) adc_does_trans [OF 2 adc_does_trans [OF 3(2) adc_pins_do(2) [OF adc_does_ok [OF 3(2)]]]] by simp
qed

lemma ADS124S08_regWrite_does:
  assumes "adc_ok st"
  shows "\<exists>st'. ADS124S08_regWrite r v st = Some st' \<and>
     adc_does (select_events @ [Transfer [ucast (REGWR_OPCODE_MASK + (r AND 0x1f)), 0, v]] @ release_events) 1 st st'"
proof -
  define bs where "bs = [ucast (REGWR_OPCODE_MASK + (r AND 0x1f)), 0, v]"
  have len: "length bs = 3" "length bs \<le> SPI_BUF_SIZE" by (simp_all add: bs_def SPI_BUF_SIZE_def)
  obtain s1 where 1: "adc_tx bs st = Some s1" "adc_does [] 0 st s1" "take 3 (ADS124S08_spi_tx_buffer s1) = bs"
    using adc_buffers(1) [OF assms len(2)] len(1) by auto
  have 2: "adc_does select_events 0 st (ADS124S08_select s1)"
    using adc_does_trans [OF 1(2) adc_pins_do(1) [OF adc_does_ok [OF 1(2)]]] by simp
  define s3 where "s3 = adc_on_bus (spi_write 3 (ADS124S08_spi_tx_buffer s1)) (ADS124S08_select s1)"
  have 3: "adc_does [Transfer bs] 1 (ADS124S08_select s1) s3"
    using adc_does_ok [OF 2] 1(3) by (simp add: s3_def adc_does_def adc_ok_def adc_on_bus_def spi_write_def drop_Suc drop_0)
  have "ADS124S08_regWrite r v st = Some (ADS124S08_release s3)"
    unfolding ADS124S08_regWrite_def bs_def [symmetric] 1(1) Let_def s3_def by (simp only: bind.bind_lunit adc_pins_keep)
  then show ?thesis
    using adc_does_trans [OF 2 adc_does_trans [OF 3 adc_pins_do(2) [OF adc_does_ok [OF 3]]]] unfolding bs_def by auto
qed

text \<open>The value of three bytes, the most significant first.\<close>
definition be24 :: "bytes \<Rightarrow> u32" where
  "be24 bs = (let v = ucast (bs ! 0) in let v = push_bit 8 v + ucast (bs ! 1) in push_bit 8 v + ucast (bs ! 2))"

definition data_events :: "hw_event list" where
  "data_events = select_events @ [Transfer [0], Transfer [0, 0, 0], Transfer [0]] @ release_events"

lemma ADS124S08_dataRead_does:
  assumes "adc_ok st"
  shows "\<exists>status crc st'. ADS124S08_dataRead st = Some (be24 (reply 3 (drop 1 (answers (adc_bus st)))), status, crc, st') \<and>
     adc_does data_events 3 st st'"
proof -
  note ok = adc_does_ok and step = adc_does_trans
  have n: "1 \<le> SPI_BUF_SIZE" "3 \<le> SPI_BUF_SIZE" by (simp_all add: SPI_BUF_SIZE_def)
  have l: "length [0 :: u8] = 1" "[0 :: u8] = replicate 1 0" "length [0 :: u8, 0, 0] = 3" "[0 :: u8, 0, 0] = replicate 3 0"
    by (simp_all add: numeral_3_eq_3)
  have 0: "adc_does select_events 0 st (ADS124S08_select st)" by (rule adc_pins_do(1) [OF assms])
  obtain a1 a2 a3 where a: "adc_tx [0] (ADS124S08_select st) = Some a1" "adc_rx [0] a1 = Some a2" "adc_transceive 1 a2 = Some a3"
    "adc_does [Transfer [0]] 1 (ADS124S08_select st) a3"
    using adc_cycle [OF ok [OF 0] l(1) n(1) l(2)] by blast
  have a': "adc_does (select_events @ [Transfer [0]]) 1 st a3" using step [OF 0 a(4)] by simp
  obtain b1 b2 b3 where b: "adc_tx [0, 0, 0] a3 = Some b1" "adc_rx [0, 0, 0] b1 = Some b2" "adc_transceive 3 b2 = Some b3"
    "adc_does [Transfer [0, 0, 0]] 1 a3 b3" "take 3 (ADS124S08_spi_rx_buffer b3) = reply 3 (answers (adc_bus a3))"
    using adc_cycle [OF ok [OF a(4)] l(3) n(2) l(4)] by blast
  have b': "adc_does (select_events @ [Transfer [0], Transfer [0, 0, 0]]) 2 st b3"
    using step [OF a' b(4)] by (simp add: numeral_2_eq_2)
  obtain c1 c2 c3 where c: "adc_tx [0] b3 = Some c1" "adc_rx [0] c1 = Some c2" "adc_transceive 1 c2 = Some c3"
    "adc_does [Transfer [0]] 1 b3 c3"
    using adc_cycle [OF ok [OF b(4)] l(1) n(1) l(2)] by blast
  have c': "adc_does (select_events @ [Transfer [0], Transfer [0, 0, 0], Transfer [0]]) 3 st c3"
    using step [OF b' c(4)] by (simp add: numeral_3_eq_3)
  have rds: "rd (ADS124S08_spi_rx_buffer b3) k = Some (reply 3 (drop 1 (answers (adc_bus st))) ! k)" if "k < 3" for k
    using adc_rd [OF ok [OF b(4)] that n(2)] b(5) a' by (simp add: adc_does_def)
  obtain x y where "rd (ADS124S08_spi_rx_buffer a3) 0 = Some x" "rd (ADS124S08_spi_rx_buffer c3) 0 = Some y"
    using adc_rd [OF ok [OF a(4)], of 0 1] adc_rd [OF ok [OF c(4)], of 0 1] n(1) by auto
  moreover have "adc_does data_events 3 st (ADS124S08_release c3)"
    using step [OF c' adc_pins_do(2) [OF ok [OF c(4)]]] by (simp add: data_events_def)
  ultimately show ?thesis
    using a(1-3) b(1-3) c(1-3) rds [of 0] rds [of 1] rds [of 2] by (simp add: ADS124S08_dataRead_def be24_def Let_def)
qed


lemma shift_in:
  assumes "unat (v :: u32) < 65536"
  shows "unat (push_bit 8 v + ucast (b :: u8)) = 256 * unat v + unat b"
proof -
  have b: "unat (ucast b :: u32) = unat b"
    using unat_u8_less [of b] by (simp add: unsigned_ucast_eq take_bit_nat_eq_self)
  have "unat (push_bit 8 v) = (unat v * 256) mod 2 ^ 32"
    by (simp add: push_bit_eq_mult unat_word_ariths)
  also have "\<dots> = unat v * 256" using assms by (simp add: mod_less)
  finally show ?thesis using b assms unat_u8_less [of b] by (simp add: unat_word_ariths)
qed

lemma be24_value: "unat (be24 bs) = 65536 * unat (bs ! 0) + 256 * unat (bs ! 1) + unat (bs ! 2)"
proof -
  have "unat (ucast b :: u32) = unat b" for b :: u8
    using unat_u8_less [of b] by (simp add: unsigned_ucast_eq take_bit_nat_eq_self)
  then show ?thesis
    using shift_in [of "ucast (bs ! 0)" "bs ! 1"] shift_in [of "push_bit 8 (ucast (bs ! 0)) + ucast (bs ! 1)" "bs ! 2"]
      unat_u8_less [of "bs ! 0"] unat_u8_less [of "bs ! 1"]
    by (simp add: be24_def Let_def)
qed

section \<open>Channels\<close>

definition frame :: "bytes \<Rightarrow> hw_event list" where
  "frame bs = select_events @ [Transfer bs] @ release_events"

text \<open>
  The registers that the configuration writes: the input multiplexer with the channel against the
  common input, no amplification, the external reference without buffers, and status byte and
  checksum sent with every conversion.
\<close>
definition configure_events :: "u8 \<Rightarrow> hw_event list" where
  "configure_events channel = frame [0x02] @ frame [0x42, 0, channel OR 0x0C] @ frame [0x43, 0, 0x00] @
     frame [0x45, 0, 0x30] @ frame [0x49, 0, 0x03] @ frame [0x0A] @ frame [0x08] @ [Delay 100]"

lemma configureAdc_does:
  assumes "adc_ok st"
  shows "\<exists>st'. configureAdc channel st = Some st' \<and> adc_does (configure_events channel) 7 st st'"
proof -
  note ok = adc_does_ok
  note command = ADS124S08_sendCommand_does [folded frame_def]
  note register = ADS124S08_regWrite_does [folded frame_def]
  obtain s1 where 1: "ADS124S08_sendCommand WAKE_OPCODE_MASK st = Some s1" "adc_does (frame [WAKE_OPCODE_MASK]) 1 st s1"
    using command [OF assms] by blast
  obtain s2 where 2: "ADS124S08_regWrite INPMUX_ADDR_MASK (channel OR ADS_N_AINCOM) s1 = Some s2"
      "adc_does (frame [0x42, 0, channel OR 0x0C]) 1 s1 s2"
    using register [OF ok [OF 1(2)], of INPMUX_ADDR_MASK "channel OR ADS_N_AINCOM"] by (auto simp: ads_constants)
  obtain s3 where 3: "ADS124S08_regWrite PGA_ADDR_MASK 0 s2 = Some s3" "adc_does (frame [0x43, 0, 0]) 1 s2 s3"
    using register [OF ok [OF 2(2)], of PGA_ADDR_MASK 0] by (auto simp: ads_constants)
  obtain s4 where 4: "ADS124S08_regWrite REF_ADDR_MASK 0b00110000 s3 = Some s4" "adc_does (frame [0x45, 0, 0x30]) 1 s3 s4"
    using register [OF ok [OF 3(2)], of REF_ADDR_MASK "0b00110000"] by (auto simp: ads_constants)
  obtain s5 where 5: "ADS124S08_regWrite SYS_ADDR_MASK 0b00000011 s4 = Some s5" "adc_does (frame [0x49, 0, 3]) 1 s4 s5"
    using register [OF ok [OF 4(2)], of SYS_ADDR_MASK "0b00000011"] by (auto simp: ads_constants)
  obtain s6 where 6: "ADS124S08_sendCommand STOP_OPCODE_MASK s5 = Some s6" "adc_does (frame [STOP_OPCODE_MASK]) 1 s5 s6"
    using command [OF ok [OF 5(2)]] by blast
  obtain s7 where 7: "ADS124S08_sendCommand START_OPCODE_MASK s6 = Some s7" "adc_does (frame [START_OPCODE_MASK]) 1 s6 s7"
    using command [OF ok [OF 6(2)]] by blast
  let ?s8 = "adc_on_bus (k_sleep MAGIC_TIME_TO_SLEEP_AFTER_RESTART) s7"
  have "configureAdc channel st = Some ?s8"
    using 1(1) 2(1) 3(1) 4(1) 5(1) 6(1) 7(1) by (simp add: configureAdc_def ADS124S08_reStart_def)
  moreover note adc_does_trans [OF 1(2) adc_does_trans [OF 2(2) adc_does_trans [OF 3(2) adc_does_trans [OF 4(2)
        adc_does_trans [OF 5(2) adc_does_trans [OF 6(2) adc_does_trans [OF 7(2) adc_pins_do(5) [OF ok [OF 7(2)]]]]]]]],
      of MAGIC_TIME_TO_SLEEP_AFTER_RESTART]
  ultimately show ?thesis by (auto simp: configure_events_def ads_constants eval_nat_numeral)
qed

definition channel_events :: "u8 \<Rightarrow> hw_event list" where
  "channel_events channel = configure_events channel @ start_events @ data_events @ stop_events"

text \<open>The value of the channel, from the answers that are left before it: the ninth transfer is the result.\<close>
definition channel_value :: "bytes option list \<Rightarrow> u32" where
  "channel_value as = be24 (reply 3 (drop 8 as))"

lemma sampleChannel_does:
  assumes "adc_ok st"
  shows "\<exists>st'. sampleChannel channel st = Some (channel_value (answers (adc_bus st)), st') \<and>
     adc_does (channel_events channel) 10 st st'"
proof -
  note ok = adc_does_ok
  obtain s1 where 1: "configureAdc channel st = Some s1" "adc_does (configure_events channel) 7 st s1"
    using configureAdc_does [OF assms] by blast
  let ?s2 = "ADS124S08_startConversion s1"
  have 2: "adc_does (configure_events channel @ start_events) 7 st ?s2"
    using adc_does_trans [OF 1(2) adc_pins_do(3) [OF ok [OF 1(2)]]] by simp
  obtain status crc s3 where 3: "ADS124S08_dataRead ?s2 = Some (be24 (reply 3 (drop 1 (answers (adc_bus ?s2)))), status, crc, s3)"
    "adc_does data_events 3 ?s2 s3"
    using ADS124S08_dataRead_does [OF ok [OF 2]] by blast
  have "adc_does (channel_events channel) 10 st (ADS124S08_stopConversion s3)"
    using adc_does_trans [OF 2 adc_does_trans [OF 3(2) adc_pins_do(4) [OF ok [OF 3(2)]]]] by (simp add: channel_events_def)
  moreover have "answers (adc_bus ?s2) = drop 7 (answers (adc_bus st))" using 2 by (simp add: adc_does_def)
  ultimately show ?thesis
    using 1(1) 3(1) by (simp add: sampleChannel_def channel_value_def Let_def)
qed

text \<open>The channels of a sample in order.\<close>
definition sample_channels :: "u8 list" where
  "sample_channels = [0x00, 0x10, 0x20, 0x30, 0x40, 0x50, 0x80]"

text \<open>The same sample as a loop over channels and the assignments to their fields.\<close>
fun sample_all :: "(u8 \<times> (u32 \<Rightarrow> AFE3_SAMPLE \<Rightarrow> AFE3_SAMPLE)) list \<Rightarrow> adc \<Rightarrow> adc option" where
  "sample_all [] st = Some st"
| "sample_all ((ch, u) # cs) st =
     do { (v, st) \<leftarrow> sampleChannel ch st; sample_all cs (st\<lparr>adc_current := u v (adc_current st)\<rparr>) }"

fun stored :: "(u8 \<times> (u32 \<Rightarrow> AFE3_SAMPLE \<Rightarrow> AFE3_SAMPLE)) list \<Rightarrow> bytes option list \<Rightarrow> AFE3_SAMPLE \<Rightarrow> AFE3_SAMPLE" where
  "stored [] as c = c"
| "stored ((ch, u) # cs) as c = stored cs (drop 10 as) (u (channel_value as) c)"

lemma sample_all_does:
  assumes "adc_ok st"
  shows "\<exists>st'. sample_all cs st = Some st' \<and> adc_ok st' \<and>
     events (adc_bus st') = events (adc_bus st) @ concat (map (channel_events \<circ> fst) cs) \<and>
     answers (adc_bus st') = drop (10 * length cs) (answers (adc_bus st)) \<and>
     adc_current st' = stored cs (answers (adc_bus st)) (adc_current st)"
  using assms
proof (induction cs arbitrary: st)
  case (Cons c cs)
  obtain ch u where c: "c = (ch, u)" by fastforce
  obtain s where s: "sampleChannel ch st = Some (channel_value (answers (adc_bus st)), s)" "adc_does (channel_events ch) 10 st s"
    using sampleChannel_does [OF Cons.prems] by blast
  let ?s = "s\<lparr>adc_current := u (channel_value (answers (adc_bus st))) (adc_current s)\<rparr>"
  have "adc_ok ?s" using s(2) by (simp add: adc_does_def adc_ok_def)
  from Cons.IH [OF this] show ?case using s c by (auto simp: adc_does_def add.commute)
qed simp

definition sample_fields :: "(u8 \<times> (u32 \<Rightarrow> AFE3_SAMPLE \<Rightarrow> AFE3_SAMPLE)) list" where
  "sample_fields = [(ADS_P_AIN0, \<lambda>v c. c\<lparr>op1 := v\<rparr>), (ADS_P_AIN1, \<lambda>v c. c\<lparr>op2 := v\<rparr>), (ADS_P_AIN2, \<lambda>v c. c\<lparr>op3 := v\<rparr>),
     (ADS_P_AIN3, \<lambda>v c. c\<lparr>op4 := v\<rparr>), (ADS_P_AIN4, \<lambda>v c. c\<lparr>op5 := v\<rparr>), (ADS_P_AIN5, \<lambda>v c. c\<lparr>op6 := v\<rparr>),
     (ADS_P_AIN8, \<lambda>v c. c\<lparr>pt := v\<rparr>)]"

lemma adc_sample_data_loop: "adc_sample_data st = sample_all sample_fields st"
  by (simp add: adc_sample_data_def sample_fields_def)

lemma adc_sample_data_does:
  assumes "adc_ok st" "answers (adc_bus st) = as"
  shows "\<exists>st'. adc_sample_data st = Some st' \<and> adc_ok st' \<and> answers (adc_bus st') = drop 70 as \<and>
     events (adc_bus st') = events (adc_bus st) @ concat (map channel_events sample_channels) \<and>
     adc_current st' = \<lparr>op1 = channel_value as, op2 = channel_value (drop 10 as), op3 = channel_value (drop 20 as),
       op4 = channel_value (drop 30 as), op5 = channel_value (drop 40 as), op6 = channel_value (drop 50 as),
       pt = channel_value (drop 60 as)\<rparr>"
proof -
  have "map (channel_events \<circ> fst) sample_fields = map channel_events sample_channels"
    by (simp add: sample_fields_def sample_channels_def ADS_P_AIN0_def ADS_P_AIN1_def ADS_P_AIN2_def ADS_P_AIN3_def
        ADS_P_AIN4_def ADS_P_AIN5_def ADS_P_AIN8_def)
  moreover have "length sample_fields = 7" by (simp add: sample_fields_def)
  moreover have "stored sample_fields as c = \<lparr>op1 = channel_value as, op2 = channel_value (drop 10 as), op3 = channel_value (drop 20 as),
       op4 = channel_value (drop 30 as), op5 = channel_value (drop 40 as), op6 = channel_value (drop 50 as),
       pt = channel_value (drop 60 as)\<rparr>" for c
    by (simp add: sample_fields_def)
  ultimately show ?thesis
    using sample_all_does [OF assms(1), of sample_fields] assms(2) by (auto simp: adc_sample_data_loop)
qed

text \<open>The discipline of the bus.\<close>
lemma frame_free: "bus_run None (frame bs) = Some None"
  by (simp add: frame_def select_events_def release_events_def chip_def)

lemma bus_run_frames:
  "bus_run None xs = Some None \<Longrightarrow> bus_run None (xs @ ys) = bus_run None ys"
  by (simp add: bus_run_append)

lemma channel_free: "bus_run None (channel_events ch) = Some None"
  by (simp add: channel_events_def configure_events_def bus_run_frames frame_free data_events_def start_events_def
      stop_events_def select_events_def release_events_def chip_def pinout)

lemma channels_free: "bus_run None (concat (map channel_events cs)) = Some None"
  by (induction cs) (simp_all add: bus_run_frames channel_free)

lemma adc_sample_data_free:
  "adc_ok st \<Longrightarrow> \<exists>st'. adc_sample_data st = Some st' \<and> adc_ok st' \<and> drives None (adc_bus st) None (adc_bus st')"
  using adc_sample_data_does [OF _ refl, of st] channels_free [of sample_channels] by (auto simp: drives_def)

interpretation adc_on_spi: spi_driver adc_ok adc_bus "\<lambda>b st. st\<lparr>adc_bus := b\<rparr>" adc_sample_data 0
  using adc_sample_data_free drives_spent by unfold_locales (auto simp: adc_ok_def, blast)

section \<open>Properties\<close>

text \<open>C16: a sample of the converter. Whatever the device answers, the seven channels are configured and read in the
  documented order with exactly these frames on the bus, the bus stays under the chip select
  discipline, and every field is the big-endian 24-bit result of its own channel (zero bytes where
  a transfer failed).\<close>
theorem adc_sample_exact:
  assumes "adc_ok st" "answers (adc_bus st) = as"
  shows "\<exists>st'. adc_sample_data st = Some st' \<and> answers (adc_bus st') = drop 70 as \<and>
     events (adc_bus st') = events (adc_bus st) @ concat (map channel_events sample_channels) \<and>
     drives None (adc_bus st) None (adc_bus st') \<and>
     adc_get_sample st' = \<lparr>op1 = channel_value as, op2 = channel_value (drop 10 as), op3 = channel_value (drop 20 as),
       op4 = channel_value (drop 30 as), op5 = channel_value (drop 40 as), op6 = channel_value (drop 50 as),
       pt = channel_value (drop 60 as)\<rparr>"
proof -
  obtain st' where st': "adc_sample_data st = Some st'"
    "answers (adc_bus st') = drop 70 as"
    "events (adc_bus st') = events (adc_bus st) @ concat (map channel_events sample_channels)"
    "adc_current st' = \<lparr>op1 = channel_value as, op2 = channel_value (drop 10 as), op3 = channel_value (drop 20 as),
       op4 = channel_value (drop 30 as), op5 = channel_value (drop 40 as), op6 = channel_value (drop 50 as),
       pt = channel_value (drop 60 as)\<rparr>"
    using adc_sample_data_does [OF assms] by blast
  then show ?thesis using channels_free [of sample_channels] by (auto simp: drives_def adc_get_sample_def)
qed

definition adc_idle :: "bytes option list \<Rightarrow> adc" where
  "adc_idle as = \<lparr>ADS124S08_config = \<lparr>cs_control = None, frequency = 0, operation = [], slave = 0\<rparr>,
     ADS124S08_spi_tx_buffer = replicate 256 0, ADS124S08_spi_rx_buffer = replicate 256 0,
     adc_bus = \<lparr>answers = as, events = []\<rparr>,
     adc_current = \<lparr>op1 = 0, op2 = 0, op3 = 0, op4 = 0, op5 = 0, op6 = 0, pt = 0\<rparr>\<rparr>"

lemma adc_idle_ok: "adc_ok (adc_idle as)"
  by (simp add: adc_idle_def adc_ok_def SPI_BUF_SIZE_def)

theorem adc_sample_exact_witness:
  "\<exists>st'. adc_sample_data (adc_idle (replicate 8 None @ [Some [1, 2, 3]])) = Some st' \<and>
     op1 (adc_get_sample st') = 0x010203"
proof -
  have "answers (adc_bus (adc_idle (replicate 8 None @ [Some [1, 2, 3]]))) = replicate 8 None @ [Some [1, 2, 3]]"
    by (simp add: adc_idle_def)
  moreover have "channel_value (replicate 8 None @ [Some [1, 2, 3]]) = 0x010203"
    by (simp add: channel_value_def reply_def receive_into_def be24_def Let_def numeral_3_eq_3)
  ultimately show ?thesis using adc_sample_exact [OF adc_idle_ok] by fastforce
qed

text \<open>Every channel value is below 2 to the 24: the three bytes, the most significant first.\<close>
theorem sampleChannel_value:
  assumes "adc_ok st" "drop 8 (answers (adc_bus st)) = Some [a, b, c] # as"
  shows "\<exists>st'. sampleChannel channel st = Some (of_nat (65536 * unat a + 256 * unat b + unat c), st') \<and>
     answers (adc_bus st') = drop 10 (answers (adc_bus st)) \<and> 65536 * unat a + 256 * unat b + unat c < 2 ^ 24"
proof -
  have "reply 3 (drop 8 (answers (adc_bus st))) = [a, b, c]"
    using assms(2) by (simp add: reply_def receive_into_def numeral_3_eq_3)
  then have "unat (channel_value (answers (adc_bus st))) = 65536 * unat a + 256 * unat b + unat c"
    using be24_value [of "[a, b, c]"] by (simp add: channel_value_def)
  then have "channel_value (answers (adc_bus st)) = of_nat (65536 * unat a + 256 * unat b + unat c)"
    using of_nat_unat [where 'a = u32, of "channel_value (answers (adc_bus st))"] by (metis ucast_id)
  then show ?thesis
    using sampleChannel_does [OF assms(1), of channel] unat_u8_less [of a] unat_u8_less [of b] unat_u8_less [of c]
    by (fastforce simp: adc_does_def)
qed

theorem sampleChannel_value_witness:
  "\<exists>st'. sampleChannel ADS_P_AIN8 (adc_idle (replicate 8 None @ [Some [255, 255, 255]])) = Some (16777215, st')"
proof -
  have "drop 8 (answers (adc_bus (adc_idle (replicate 8 None @ [Some [255, 255, 255]])))) = Some [255, 255, 255] # []"
    by (simp add: adc_idle_def)
  from sampleChannel_value [OF adc_idle_ok this, of ADS_P_AIN8] show ?thesis by auto
qed

end
