(* ===== verification/Chipcap2.thy ===== *)
theory Chipcap2
  imports Prelude
begin

text \<open>
  The humidity and temperature sensor of the housing (\<open>chipcap2.c\<close>). The transfers on the I2C bus
  have their results from a script, behind whose end they fail; the trace keeps them in order.
  Floating-point arithmetic is a parameter.
\<close>

definition CHIPCAP2_ADDRESS :: u8 where "CHIPCAP2_ADDRESS = 0x28"
definition CHIPCAP2_NORMAL_OPERATION_MODE :: u8 where "CHIPCAP2_NORMAL_OPERATION_MODE = 0x80"

record 'f CC2_SAMPLE =
  RH :: 'f
  Temp_C :: 'f

datatype cc2_event = CC2_Write u8 bytes | CC2_Read u8 nat

record 'f cc2 =
  cc2_script :: "(int \<times> bytes) list"
  cc2_log :: "cc2_event list"
  cc2_current :: "'f CC2_SAMPLE"

definition cc2_transfer :: "cc2_event \<Rightarrow> 'f cc2 \<Rightarrow> int \<times> bytes \<times> 'f cc2" where
  "cc2_transfer e st =
     (let st' = st\<lparr>cc2_log := cc2_log st @ [e]\<rparr> in
      case cc2_script st of [] \<Rightarrow> (-5, [], st') | (r, bs) # rs \<Rightarrow> (r, bs, st'\<lparr>cc2_script := rs\<rparr>))"

definition cc2_init :: "'f cc2 \<Rightarrow> int \<times> 'f cc2" where
  "cc2_init st =
     (case cc2_transfer (CC2_Write CHIPCAP2_ADDRESS [CHIPCAP2_NORMAL_OPERATION_MODE, 0, 0]) st of (r, _, st) \<Rightarrow> (r, st))"

text \<open>The four bytes of a reading as humidity and temperature.\<close>
definition cc2_values :: "('f, 'd) fpu \<Rightarrow> u8 \<Rightarrow> u8 \<Rightarrow> u8 \<Rightarrow> u8 \<Rightarrow> 'f CC2_SAMPLE" where
  "cc2_values fp b0 b1 b2 b3 =
     (let rh_h = f_of_int fp (uint (b0 AND 0b00111111));
          rh_l = f_of_int fp (uint b1);
          t_h = f_of_int fp (uint b2);
          t_l = f_of_int fp (uint (drop_bit 4 b3))
      in \<lparr>RH = f_mul fp (f_div fp (f_add fp (f_mul fp rh_h (f_lit fp 256)) rh_l) (f_lit fp 16384)) (f_lit fp 100),
          Temp_C = f_add fp (f_mul fp (f_div fp (f_add fp (f_mul fp t_h (f_lit fp 64)) t_l) (f_lit fp 16384)) (f_lit fp 165))
            (f_neg fp (f_lit fp 40))\<rparr>)"

text \<open>\<open>None\<close>: the read delivers more bytes than the buffer holds.\<close>
definition cc2_sample_data :: "('f, 'd) fpu \<Rightarrow> 'f cc2 \<Rightarrow> 'f cc2 option" where
  "cc2_sample_data fp st =
     (case cc2_transfer (CC2_Read CHIPCAP2_ADDRESS 4) st of
        (err, bs, st) \<Rightarrow>
          if err \<noteq> 0 then Some st
          else do {
            rxBuffer \<leftarrow> wr_block [0, 0, 0, 0] 0 bs;
            b0 \<leftarrow> rd rxBuffer 0;
            b1 \<leftarrow> rd rxBuffer 1;
            b2 \<leftarrow> rd rxBuffer 2;
            b3 \<leftarrow> rd rxBuffer 3;
            let st = st\<lparr>cc2_current := cc2_values fp b0 b1 b2 b3\<rparr>;
            case cc2_transfer (CC2_Write CHIPCAP2_ADDRESS []) st of (_, _, st) \<Rightarrow> Some st })"

definition cc2_get_sample :: "'f cc2 \<Rightarrow> 'f CC2_SAMPLE" where
  "cc2_get_sample st = cc2_current st"

section \<open>Lemmas\<close>

lemma cc2_transfer_next:
  "cc2_script st = (r, bs) # rs \<Longrightarrow> cc2_transfer e st = (r, bs, st\<lparr>cc2_log := cc2_log st @ [e], cc2_script := rs\<rparr>)"
  by (simp add: cc2_transfer_def)

lemma cc2_sample_reading:
  assumes "cc2_script st = (0, [b0, b1, b2, b3]) # (r, x) # rs"
  shows "cc2_sample_data fp st = Some \<lparr>cc2_script = rs,
     cc2_log = cc2_log st @ [CC2_Read CHIPCAP2_ADDRESS 4, CC2_Write CHIPCAP2_ADDRESS []], cc2_current = cc2_values fp b0 b1 b2 b3\<rparr>"
  using assms by (simp add: cc2_sample_data_def cc2_transfer_def wr_block_def rd_def)

text \<open>A sample never fails when the bus delivers at most the bytes asked for.\<close>
lemma cc2_sample_total:
  assumes "\<forall>(r, bs) \<in> set (cc2_script st). length bs \<le> 4"
  shows "\<exists>st'. cc2_sample_data fp st = Some st' \<and> (\<forall>(r, bs) \<in> set (cc2_script st'). length bs \<le> 4)"
proof (cases "cc2_script st")
  case Nil
  then show ?thesis by (simp add: cc2_sample_data_def cc2_transfer_def)
next
  case (Cons x rs)
  obtain r bs where x: "x = (r, bs)" by fastforce
  then have "length bs \<le> 4" using assms Cons by simp
  then have "length (bs @ drop (length bs) [0, 0, 0, 0 :: u8]) = 4" by simp
  then show ?thesis
    using assms Cons x
    by (auto simp: cc2_sample_data_def cc2_transfer_def wr_block_def rd_def Let_def split: list.splits)
qed

end
