(* ===== verification/Messagebuffer.thy ===== *)
theory Messagebuffer
  imports Opc_N3 Ads124s08 Chipcap2 Gps_Cache
begin

text \<open>
  The sample message of \<open>messagebuffer.c\<close>: the packed firmware version, and the message with the
  readings of every sensor. The nanopb encoder, the conversion of a \<open>float\<close> to an unsigned number and
  the version set by the build are parameters.
\<close>

section \<open>The firmware version\<close>

definition FW_VERSION_BUF_LEN :: nat where "FW_VERSION_BUF_LEN = 32"

text \<open>\<open>strstr\<close> with the text of a single point, from an index on.\<close>
definition find_point :: "bytes \<Rightarrow> nat \<Rightarrow> nat option option" where
  "find_point buf i = do {
     s \<leftarrow> c_str_at buf i;
     Some (if 46 \<in> set s then Some (i + length (takeWhile (\<lambda>b. b \<noteq> 46) s)) else None) }"

definition encode_firmware_version :: "bytes \<Rightarrow> u64 option" where
  "encode_firmware_version client_firmware_ver =
     (if length client_firmware_ver < 5 \<or> FW_VERSION_BUF_LEN - 1 < length client_firmware_ver then Some 0
      else do {
        buf \<leftarrow> strcpy (replicate FW_VERSION_BUF_LEN 0) client_firmware_ver;
        p \<leftarrow> find_point buf 0;
        case p of
          None \<Rightarrow> Some 0
        | Some major_end \<Rightarrow> do {
            buf \<leftarrow> wr buf major_end 0;
            major \<leftarrow> c_str_at buf 0;
            q \<leftarrow> find_point buf (major_end + 1);
            case q of
              None \<Rightarrow> Some 0
            | Some minor_end \<Rightarrow> do {
                buf \<leftarrow> wr buf minor_end 0;
                minor \<leftarrow> c_str_at buf (major_end + 1);
                patch \<leftarrow> c_str_at buf (minor_end + 1);
                Some (push_bit 32 (of_int (atoi major)) OR push_bit 16 (of_int (atoi minor)) OR of_int (atoi patch)) } } })"

section \<open>The message\<close>

record 'f SENSOR_NODE_MESSAGE =
  msg_gps_fix :: "'f gps_fix_t"
  cc2_sample :: "'f CC2_SAMPLE"
  opc_sample :: "'f OPC_SAMPLE"
  afe3_sample :: AFE3_SAMPLE
  msg_uptime :: int

text \<open>The fields of the protobuf message; those that are not set stay zero. The 24 bins are a list.\<close>
record 'f aqpb_Sample =
  pb_sysid :: u64
  pb_firmware_version :: u64
  pb_uptime :: int
  pb_board_temp :: 'f
  pb_board_rel_humidity :: 'f
  pb_gps_timestamp :: 'f
  pb_lat :: 'f
  pb_lon :: 'f
  pb_alt :: 'f
  pb_sensor_1_work :: u32
  pb_sensor_1_aux :: u32
  pb_sensor_2_work :: u32
  pb_sensor_2_aux :: u32
  pb_sensor_3_work :: u32
  pb_sensor_3_aux :: u32
  pb_afe3_temp_raw :: u32
  pb_opc_pm_a :: u32
  pb_opc_pm_b :: u32
  pb_opc_pm_c :: u32
  pb_opc_sample_period :: u32
  pb_opc_sample_flow_rate :: u32
  pb_opc_temp :: u32
  pb_opc_hum :: u32
  pb_opc_fan_revcount :: u32
  pb_opc_laser_status :: u32
  pb_opc_sample_valid :: u32
  pb_opc_bins :: "u32 list"
  pb_pm1 :: 'f
  pb_pm25 :: 'f
  pb_pm10 :: 'f

text \<open>The assignments of \<open>mb_encode\<close>, with the version and the number of the modem already read.\<close>
definition sample_message :: "('f \<Rightarrow> u32) \<Rightarrow> u64 \<Rightarrow> u64 \<Rightarrow> 'f SENSOR_NODE_MESSAGE \<Rightarrow> 'f aqpb_Sample" where
  "sample_message to_u32 version sysid m =
     (let opc = opc_sample m; afe = afe3_sample m; fix = msg_gps_fix m; cc2 = cc2_sample m in
      \<lparr>pb_sysid = sysid, pb_firmware_version = version, pb_uptime = msg_uptime m,
       pb_board_temp = Temp_C cc2, pb_board_rel_humidity = RH cc2,
       pb_gps_timestamp = timestamp fix, pb_lat = latitude fix, pb_lon = longitude fix, pb_alt = altitude fix,
       pb_sensor_1_work = op1 afe, pb_sensor_1_aux = op2 afe, pb_sensor_2_work = op3 afe, pb_sensor_2_aux = op4 afe,
       pb_sensor_3_work = op5 afe, pb_sensor_3_aux = op6 afe, pb_afe3_temp_raw = pt afe,
       pb_opc_pm_a = to_u32 (pm_a opc), pb_opc_pm_b = to_u32 (pm_b opc), pb_opc_pm_c = to_u32 (pm_c opc),
       pb_opc_sample_period = ucast (period opc), pb_opc_sample_flow_rate = ucast (flowrate opc),
       pb_opc_temp = ucast (opc_temperature opc), pb_opc_hum = ucast (opc_humidity opc),
       pb_opc_fan_revcount = ucast (fan_rev_count opc), pb_opc_laser_status = ucast (laser_status opc),
       pb_opc_sample_valid = (if valid opc then 1 else 0), pb_opc_bins = map ucast (take 24 (bin opc)),
       pb_pm1 = pm_a opc, pb_pm25 = pm_b opc, pb_pm10 = pm_c opc\<rparr>)"

text \<open>
  \<open>pb_encode\<close> into a buffer of the given size: whether it succeeded, and the bytes it has written. The
  result is the length that the caller sends, and the buffer. (When encoding fails the function
  reports the length 1.)
\<close>
definition mb_encode ::
  "('f \<Rightarrow> u32) \<Rightarrow> (nat \<Rightarrow> 'f aqpb_Sample \<Rightarrow> bool \<times> bytes) \<Rightarrow> bytes \<Rightarrow> bytes \<Rightarrow> 'f SENSOR_NODE_MESSAGE \<Rightarrow> bytes \<Rightarrow> nat \<Rightarrow>
     (nat \<times> bytes) option" where
  "mb_encode to_u32 pb_encode client_firmware_ver imei_arr msg out mx = do {
     out \<leftarrow> wr_block out 0 (replicate mx 0);
     version \<leftarrow> encode_firmware_version client_firmware_ver;
     id_text \<leftarrow> c_str imei_arr;
     let (status, written) = pb_encode mx (sample_message to_u32 version (of_int (atoll id_text)) msg);
     out \<leftarrow> wr_block out 0 written;
     Some (if \<not> status then 1 else length written, out) }"


section \<open>Packing\<close>

lemma or_low_bits:
  assumes "unat (b :: u64) < 2 ^ n"
  shows "push_bit n a OR b = push_bit n a + b"
proof -
  have "take_bit n b = b"
    using assms by (simp add: word_unat_eq_iff unsigned_take_bit_eq take_bit_nat_eq_self)
  moreover have "push_bit n a AND take_bit n b = 0"
    by (rule bit_word_eqI) (auto simp: bit_simps)
  ultimately show ?thesis using disjunctive_add_eq_or by metis
qed

lemma unat_of_int_u64: "n < 2 ^ 64 \<Longrightarrow> unat (of_int (int n) :: u64) = n"
  by (simp add: unat_of_nat)

lemma packed_version:
  assumes "x < 2 ^ 31" "y < 2 ^ 16" "z < 2 ^ 16"
  shows "push_bit 32 (of_int (int x)) OR push_bit 16 (of_int (int y)) OR of_int (int z) = (of_nat (x * 2 ^ 32 + y * 2 ^ 16 + z) :: u64)"
proof -
  have z: "unat (of_int (int z) :: u64) < 2 ^ 16" using assms(3) unat_of_int_u64 [of z] by simp
  have low: "push_bit 16 (of_int (int y)) OR of_int (int z) = (of_nat (y * 2 ^ 16 + z) :: u64)"
    unfolding or_low_bits [OF z] by (simp add: push_bit_eq_mult)
  have "y * 2 ^ 16 + z < 2 ^ 32" using assms(2,3) by simp
  then have "unat (of_nat (y * 2 ^ 16 + z) :: u64) < 2 ^ 32" by (simp only: unat_of_nat) simp
  then show ?thesis
    unfolding low by (subst or_low_bits) (simp_all add: push_bit_eq_mult add.assoc)
qed

section \<open>The version text\<close>

lemma find_point_in:
  assumes "buf = pre @ s @ 46 # t @ 0 # rest" "0 \<notin> set s" "46 \<notin> set s" "0 \<notin> set t" "length pre = i"
  shows "find_point buf i = Some (Some (i + length s))"
proof -
  have "c_str_at buf i = Some (s @ 46 # t)"
    using c_str_append [of "s @ 46 # t" rest] assms by (simp add: c_str_at_def)
  moreover have "takeWhile (\<lambda>b. b \<noteq> 46) (s @ 46 # t) = s" using assms(3) by (subst takeWhile_append2) auto
  ultimately show ?thesis by (simp add: find_point_def)
qed

lemma encode_version_text:
  assumes "ver = a @ 46 # b @ 46 # c" "5 \<le> length ver" "length ver \<le> 31"
    "{0, 46} \<inter> set a = {}" "{0, 46} \<inter> set b = {}" "{0, 46} \<inter> set c = {}"
  shows "encode_firmware_version ver =
     Some (push_bit 32 (of_int (atoi a)) OR push_bit 16 (of_int (atoi b)) OR of_int (atoi c))"
proof -
  let ?z = "replicate (31 - length ver) (0 :: u8)"
  have nz: "0 \<notin> set a" "0 \<notin> set b" "0 \<notin> set c" "46 \<notin> set a" "46 \<notin> set b" using assms(4-6) by auto
  have cp: "strcpy (replicate FW_VERSION_BUF_LEN 0) ver = Some (a @ 46 # b @ 46 # c @ 0 # ?z)"
    using assms(1,3) by (simp add: strcpy_fits FW_VERSION_BUF_LEN_def)
  have p: "find_point (a @ 46 # b @ 46 # c @ 0 # ?z) 0 = Some (Some (length a))"
    using find_point_in [of _ "[]" a "b @ 46 # c" ?z 0] nz by simp
  have w1: "wr (a @ 46 # b @ 46 # c @ 0 # ?z) (length a) 0 = Some (a @ 0 # b @ 46 # c @ 0 # ?z)" by (rule wr_append) simp
  have q: "find_point (a @ 0 # b @ 46 # c @ 0 # ?z) (length a + 1) = Some (Some (length a + 1 + length b))"
    using find_point_in [of _ "a @ [0]" b c ?z "length a + 1"] nz by simp
  have w2: "wr (a @ 0 # b @ 46 # c @ 0 # ?z) (length a + 1 + length b) 0 = Some (a @ 0 # b @ 0 # c @ 0 # ?z)"
    using wr_append [of "length a + 1 + length b" "a @ 0 # b" 46 "c @ 0 # ?z" 0] by simp
  have strs: "c_str_at (a @ 0 # b @ 46 # c @ 0 # ?z) 0 = Some a" "c_str_at (a @ 0 # b @ 0 # c @ 0 # ?z) (length a + 1) = Some b"
    "c_str_at (a @ 0 # b @ 0 # c @ 0 # ?z) (length a + 1 + length b + 1) = Some c"
    using nz by (simp_all add: c_str_at_def)
  have "\<not> (length ver < 5 \<or> FW_VERSION_BUF_LEN - 1 < length ver)" using assms(2,3) by (simp add: FW_VERSION_BUF_LEN_def)
  then show ?thesis
    unfolding encode_firmware_version_def by (simp only: cp p w1 q w2 strs bind.bind_lunit option.case if_False)
qed

section \<open>Properties\<close>

text \<open>The packed firmware version keeps the three numbers: a version text major.minor.patch
  of at most 31 characters, with minor and patch below 65536, is packed so that shifting and
  masking gives the numbers back; different versions get different codes.\<close>
theorem firmware_version_roundtrip:
  assumes "x < 2 ^ 31" "y < 2 ^ 16" "z < 2 ^ 16"
    "length (dec_digits x @ 46 # dec_digits y @ 46 # dec_digits z) \<le> 31"
  shows "\<exists>code. encode_firmware_version (dec_digits x @ 46 # dec_digits y @ 46 # dec_digits z) = Some code \<and>
     unat (drop_bit 32 code) = x \<and> unat (drop_bit 16 code) mod 2 ^ 16 = y \<and> unat code mod 2 ^ 16 = z"
proof -
  let ?n = "x * 2 ^ 32 + y * 2 ^ 16 + z"
  have digits: "{0, 46} \<inter> set (dec_digits n) = {}" for n
    using not_in_dec_digits [of 0 n] not_in_dec_digits [of 46 n] by (simp add: isdigit_def)
  have "dec_digits n \<noteq> []" for n by (rule dec_digits_nonempty)
  then have len: "1 \<le> length (dec_digits n)" for n by (simp add: Suc_le_eq)
  have "5 \<le> length (dec_digits x @ 46 # dec_digits y @ 46 # dec_digits z)"
    using len [of x] len [of y] len [of z] by simp
  note v = encode_version_text [OF refl this assms(4) digits digits digits]
  have a: "atoi (dec_digits n) = int n" if "n < 2 ^ 31" for n using atoi_dec_digits [OF that, of "[]"] by simp
  have "encode_firmware_version (dec_digits x @ 46 # dec_digits y @ 46 # dec_digits z) = Some (of_nat ?n)"
  proof -
    have "y < 2 ^ 31" "z < 2 ^ 31" using assms(2,3) by simp_all
    then show ?thesis unfolding v a [OF assms(1)] a [of y, OF \<open>y < 2 ^ 31\<close>] a [of z, OF \<open>z < 2 ^ 31\<close>]
      by (simp only: packed_version [OF assms(1-3)])
  qed
  moreover have "?n < 2 ^ 64" using assms(1-3) by simp
  then have "unat (of_nat ?n :: u64) = ?n" by (simp only: unat_of_nat) simp
  moreover have "?n div 2 ^ 32 = x" "?n div 2 ^ 16 mod 2 ^ 16 = y" "?n mod 2 ^ 16 = z"
  proof -
    have n: "?n = (x * 65536 + y) * 65536 + z" by simp
    have d: "?n div 2 ^ 16 = x * 65536 + y" unfolding n using assms(3) by (simp add: div_mult_self3)
    show "?n div 2 ^ 16 mod 2 ^ 16 = y" unfolding d using assms(2) by simp
    show "?n mod 2 ^ 16 = z" unfolding n using assms(3) mod_mult_self3 [of "x * 65536 + y" 65536 z] by simp
    show "?n div 2 ^ 32 = x" using assms(2,3) by simp
  qed
  moreover have "unat (drop_bit k w) = unat w div 2 ^ k" for k and w :: u64
    by (rule trans [OF unat_drop_bit_eq drop_bit_eq_div])
  ultimately show ?thesis by metis
qed


theorem firmware_version_roundtrip_witness:
  "\<exists>code. encode_firmware_version (dec_digits 1 @ 46 # dec_digits 20 @ 46 # dec_digits 3) = Some code \<and>
     unat (drop_bit 32 code) = 1 \<and> unat (drop_bit 16 code) mod 2 ^ 16 = 20 \<and> unat code mod 2 ^ 16 = 3"
proof -
  have "length (dec_digits 1) \<le> 9" "length (dec_digits 20) \<le> 9" "length (dec_digits 3) \<le> 9"
    using length_dec_digits [of _ 9] by simp_all
  then show ?thesis using firmware_version_roundtrip [of 1 20 3] by simp
qed

end
