(* ===== verification/Message_Dump.thy ===== *)
theory Message_Dump
  imports Messagebuffer
begin

text \<open>
  The text output for debugging: the dump of a sample and of the encoded message (\<open>messagebuffer.c\<close>) and of a buffer
  (\<open>main.c\<close>), with \<open>printf\<close> for the directives that these functions use. The calls are compiled out in \<open>main.c\<close>.
\<close>

section \<open>Formatted output\<close>

text \<open>An argument with its type: \<open>int\<close>, \<open>unsigned\<close>, \<open>long long\<close>, or a string.\<close>
datatype printf_arg = Int_Arg int | Unsigned_Arg u32 | Long_Arg int | String_Arg bytes

text \<open>
  A directive with the type it expects, and what is printed. An argument of another type is undefined behaviour (\<open>None\<close>), and so is
  any argument here for \<open>%f\<close>, which expects a \<open>double\<close>.
\<close>
datatype directive = Percent | Decimal nat | Unsigned | Long_Decimal | Hex2 | Text | Float

definition pad_left :: "nat \<Rightarrow> bytes \<Rightarrow> bytes" where
  "pad_left w s = replicate (w - length s) 32 @ s"

fun print_directive :: "directive \<Rightarrow> printf_arg \<Rightarrow> bytes option" where
  "print_directive (Decimal w) (Int_Arg i) = Some (pad_left w (fmt_d i))"
| "print_directive Unsigned (Unsigned_Arg u) = Some (dec_digits (unat u))"
| "print_directive Long_Decimal (Long_Arg i) = Some (fmt_d i)"
| "print_directive Text (String_Arg s) = Some s"
| "print_directive Hex2 (Int_Arg i) =
     (if 0 \<le> i \<and> i < 256 then Some [to_hexchar (of_int (i div 16)), to_hexchar (of_int (i mod 16))] else None)"
| "print_directive d a = None"

text \<open>The directive behind a percent sign, and the rest of the format.\<close>
definition directive :: "bytes \<Rightarrow> (directive \<times> bytes) option" where
  "directive f =
     (if take 1 f = cstr ''%'' then Some (Percent, drop 1 f)
      else if take 1 f = cstr ''d'' then Some (Decimal 0, drop 1 f)
      else if take 2 f = cstr ''4d'' then Some (Decimal 4, drop 2 f)
      else if take 1 f = cstr ''u'' then Some (Unsigned, drop 1 f)
      else if take 3 f = cstr ''lld'' then Some (Long_Decimal, drop 3 f)
      else if take 3 f = cstr ''02X'' then Some (Hex2, drop 3 f)
      else if take 1 f = cstr ''s'' then Some (Text, drop 1 f)
      else if take 1 f = cstr ''f'' then Some (Float, drop 1 f)
      else None)"

lemma directive_shorter: "directive f = Some (d, r) \<Longrightarrow> length r \<le> length f"
  by (auto simp: directive_def split: if_splits)

text \<open>Arguments that the format does not use are ignored; too few are undefined.\<close>
function (sequential) printf :: "bytes \<Rightarrow> printf_arg list \<Rightarrow> bytes option" where
  "printf [] args = Some []"
| "printf (c # f) args =
     (if c \<noteq> 37 then map_option (Cons c) (printf f args)
      else case directive f of
             None \<Rightarrow> None
           | Some (d, r) \<Rightarrow>
               (if d = Percent then map_option (Cons 37) (printf r args)
                else case args of
                       [] \<Rightarrow> None
                     | a # args \<Rightarrow> do { s \<leftarrow> print_directive d a; t \<leftarrow> printf r args; Some (s @ t) }))"
  by pat_completeness auto
termination
  by (relation "measure (\<lambda>(f, args). length f)") (auto dest: directive_shorter)

text \<open>Several calls one after the other.\<close>
fun printf_all :: "(bytes \<times> printf_arg list) list \<Rightarrow> bytes option" where
  "printf_all [] = Some []"
| "printf_all ((f, args) # ps) = do { s \<leftarrow> printf f args; t \<leftarrow> printf_all ps; Some (s @ t) }"

section \<open>The functions\<close>

text \<open>The conversions and functions on \<open>double\<close> that only the dump uses.\<close>
record ('f, 'd) dump_fpu = "('f, 'd) fpu" +
  d_floor :: "'d \<Rightarrow> 'd"
  d_sub :: "'d \<Rightarrow> 'd \<Rightarrow> 'd"
  d_to_int :: "'d \<Rightarrow> int"

text \<open>The two numbers that \<open>print_float\<close> passes to its format.\<close>
definition float_args :: "('f, 'd) dump_fpu \<Rightarrow> 'f \<Rightarrow> printf_arg list" where
  "float_args fp v =
     (let d = d_of_f fp v;
          n1 = d_to_int fp (d_floor fp d);
          n2 = d_to_int fp (d_floor fp (d_mul fp (d_sub fp d (d_floor fp d)) (d_lit fp 100)))
      in [Int_Arg n1, Int_Arg n2])"

definition print_float :: "('f, 'd) dump_fpu \<Rightarrow> bytes \<Rightarrow> 'f \<Rightarrow> bytes option" where
  "print_float fp msg v = printf msg (float_args fp v)"

text \<open>The calls of \<open>mb_dump_message\<close> in order.\<close>
definition newline :: bytes where "newline = [10]"

definition dump_cc2_gps :: "('f, 'd) dump_fpu \<Rightarrow> 'f SENSOR_NODE_MESSAGE \<Rightarrow> (bytes \<times> printf_arg list) list" where
  "dump_cc2_gps fp msg =
     [(cstr ''Chipcap 2 / board status:'' @ newline, []),
      (cstr ''   Main board temperature: %d.%d (C)  '', float_args fp (Temp_C (cc2_sample msg))),
      (cstr ''   Main board temperature: %d (C)  '', float_args fp (f_of_int fp (d_to_int fp (d_of_f fp (Temp_C (cc2_sample msg)))))),
      (cstr ''humidity: %d.%d (%%)'' @ newline, float_args fp (RH (cc2_sample msg))),
      (cstr ''GPS - status:'' @ newline, []),
      (cstr ''   Timestamp: %d.%d  '', float_args fp (timestamp (msg_gps_fix msg))),
      (cstr ''Altitude: %d.%d  '', float_args fp (altitude (msg_gps_fix msg))),
      (cstr ''Longitude: %d.%d (rad)  '', float_args fp (longitude (msg_gps_fix msg))),
      (cstr ''Latitude: %f (rad)'' @ newline, float_args fp (latitude (msg_gps_fix msg)))]"

definition dump_opc :: "('f, 'd) dump_fpu \<Rightarrow> 'f SENSOR_NODE_MESSAGE \<Rightarrow> (bytes \<times> printf_arg list) list option" where
  "dump_opc fp msg = do {
     let s = opc_sample msg;
     bins \<leftarrow> those (map (rd (bin s)) [0 ..< OPC_BINS]);
     Some ([(cstr ''OPC-N3 - status:'' @ newline, []),
        (cstr ''   PM A: %d.%d  '', float_args fp (pm_a s)),
        (cstr ''PM B: %d.%d  '', float_args fp (pm_b s)),
        (cstr ''PM C: %d.%d'' @ newline, float_args fp (pm_c s)),
        (cstr ''    > Period: %d'' @ newline, [Int_Arg (uint (period s))]),
        (cstr ''    > Temperature: %d'' @ newline, [Int_Arg (uint (opc_temperature s))]),
        (cstr ''    > Humidity: %d'' @ newline, [Int_Arg (uint (opc_humidity s))]),
        (cstr ''    > Validity: %s'' @ newline, [String_Arg (if valid s then cstr ''YES'' else cstr ''NO'')]),
        (cstr ''    > Histogram:'' @ newline, []),
        (cstr ''    |'', [])] @
        map (\<lambda>i. (cstr ''%4d |'', [Int_Arg (int i)])) [0 ..< OPC_BINS] @
        [(newline, []), (cstr ''    |'', [])] @
        map (\<lambda>b. (cstr ''%4d |'', [Int_Arg (uint b)])) bins @
        [(newline, [])]) }"

definition dump_afe :: "AFE3_SAMPLE \<Rightarrow> (bytes \<times> printf_arg list) list" where
  "dump_afe a =
     [(cstr ''AFE - status:'' @ newline, []),
      (cstr ''    OP1: %u  '', [Unsigned_Arg (op1 a)]), (cstr ''OP2: %u  '', [Unsigned_Arg (op2 a)]),
      (cstr ''OP3: %u  '', [Unsigned_Arg (op3 a)]), (cstr ''OP4: %u  '', [Unsigned_Arg (op4 a)]),
      (cstr ''OP5: %u  '', [Unsigned_Arg (op5 a)]), (cstr ''OP6: %u  '', [Unsigned_Arg (op6 a)]),
      (cstr ''PT: %u'' @ newline, [Unsigned_Arg (pt a)])]"

definition mb_dump_message :: "('f, 'd) dump_fpu \<Rightarrow> 'f SENSOR_NODE_MESSAGE \<Rightarrow> bytes option" where
  "mb_dump_message fp msg = do {
     opc \<leftarrow> dump_opc fp msg;
     printf_all (dump_cc2_gps fp msg @ opc @ dump_afe (afe3_sample msg) @
       [(newline @ cstr ''Uptime (seconds) : %lld'' @ newline @ cstr '' '', [Long_Arg (msg_uptime msg)]),
        (cstr ''----------------------------------------------------------------'' @ newline, [])]) }"

text \<open>The loop of \<open>mb_hex_dump_message\<close> from index \<open>i\<close> on; a \<open>char\<close> is unsigned on the target.\<close>
function hex_dump_loop :: "bytes \<Rightarrow> nat \<Rightarrow> nat \<Rightarrow> bytes option" where
  "hex_dump_loop buf len i =
     (if i < len then do {
        b \<leftarrow> rd buf i;
        s \<leftarrow> printf (cstr ''0x%02X'') [Int_Arg (uint b)];
        t \<leftarrow> (if i \<noteq> len - 1 then printf (cstr '', '') [] else Some []);
        r \<leftarrow> hex_dump_loop buf len (i + 1);
        Some (s @ t @ r) }
      else Some [])"
  by pat_completeness auto
termination
  by (relation "measure (\<lambda>(buf, len, i). len - i)") auto

declare hex_dump_loop.simps [simp del]

definition mb_hex_dump_message :: "bytes \<Rightarrow> nat \<Rightarrow> bytes option" where
  "mb_hex_dump_message buf len = do {
     a \<leftarrow> printf (cstr ''{'') [];
     b \<leftarrow> hex_dump_loop buf len 0;
     c \<leftarrow> printf (cstr ''}'') [];
     Some (a @ b @ c) }"

text \<open>The lines that \<open>dump_buffer\<close> logs.\<close>
definition dump_buffer :: "bytes \<Rightarrow> nat \<Rightarrow> bytes list option" where
  "dump_buffer buf len = do {
     h \<leftarrow> printf (cstr ''Dumping buffer: %d bytes'') [Int_Arg (int len)];
     bs \<leftarrow> those (map (rd buf) [0 ..< len]);
     ls \<leftarrow> those (map (\<lambda>b. printf (cstr ''%02X'') [Int_Arg (uint b)]) bs);
     Some (h # ls) }"

section \<open>What is printed\<close>

text \<open>A byte as two digits.\<close>
definition hex2 :: "u8 \<Rightarrow> bytes" where
  "hex2 b = [to_hexchar (of_int (uint b div 16)), to_hexchar (of_int (uint b mod 16))]"

lemma printf_hex: "printf (cstr ''0x%02X'') [Int_Arg (uint (b :: u8))] = Some (cstr ''0x'' @ hex2 b)"
  "printf (cstr ''%02X'') [Int_Arg (uint b)] = Some (hex2 b)"
  using uint_range_size [of b] by (simp_all add: directive_def hex2_def word_size)

lemma hex_dump_loop_text:
  assumes "length (pre @ bs) \<le> length buf" "take (length (pre @ bs)) buf = pre @ bs"
  shows "hex_dump_loop buf (length (pre @ bs)) (length pre) =
     Some (concat (map (\<lambda>b. cstr ''0x'' @ hex2 b @ cstr '', '') (butlast bs)) @ (if bs = [] then [] else cstr ''0x'' @ hex2 (last bs)))"
  using assms
proof (induction bs arbitrary: pre)
  case Nil
  then show ?case by (simp add: hex_dump_loop.simps)
next
  case (Cons b bs)
  have "buf = (pre @ b # bs) @ drop (length (pre @ b # bs)) buf" using Cons.prems(2) by (metis append_take_drop_id)
  then have r: "rd buf (length pre) = Some b"
    by (metis append.assoc append_Cons rd_in length_append length_Cons nth_append_length zero_less_Suc less_add_same_cancel1)
  have i: "hex_dump_loop buf (length (pre @ b # bs)) (length pre + 1) =
      Some (concat (map (\<lambda>b. cstr ''0x'' @ hex2 b @ cstr '', '') (butlast bs)) @ (if bs = [] then [] else cstr ''0x'' @ hex2 (last bs)))"
    using Cons.IH [of "pre @ [b]"] Cons.prems by simp
  have sep: "printf (cstr '', '') [] = Some (cstr '', '')" by (simp add: directive_def)
  show ?case
    using r i by (subst hex_dump_loop.simps) (simp add: printf_hex sep del: cstr_simps printf.simps)
qed

lemma printf_all_undefined: "(f, args) \<in> set ps \<Longrightarrow> printf f args = None \<Longrightarrow> printf_all ps = None"
proof (induction ps)
  case (Cons p ps)
  obtain g as where p: "p = (g, as)" by fastforce
  then show ?case using Cons by (cases "printf g as") auto
qed simp

section \<open>Properties\<close>

text \<open>The hexadecimal dump of a message prints every byte as two digits, separated by commas, in braces.\<close>
theorem hex_dump_text:
  assumes "length bs \<le> length buf" "take (length bs) buf = bs"
  shows "mb_hex_dump_message buf (length bs) =
     Some (cstr ''{'' @ concat (map (\<lambda>b. cstr ''0x'' @ hex2 b @ cstr '', '') (butlast bs)) @
       (if bs = [] then [] else cstr ''0x'' @ hex2 (last bs)) @ cstr ''}'')"
  using hex_dump_loop_text [of "[]" bs buf] assms by (simp add: mb_hex_dump_message_def)

text \<open>The dump of a sample is undefined for every sample: the line with the latitude passes two integers to a
  format that expects a floating-point number.\<close>
theorem dump_message_undefined: "mb_dump_message fp msg = None"
proof -
  have "printf (cstr ''Latitude: %f (rad)'' @ newline) (float_args fp (latitude (msg_gps_fix msg))) = None"
    by (simp add: directive_def float_args_def Let_def)
  moreover have "(cstr ''Latitude: %f (rad)'' @ newline, float_args fp (latitude (msg_gps_fix msg))) \<in> set (dump_cc2_gps fp msg)"
    unfolding dump_cc2_gps_def by (simp only: list.set insert_iff simp_thms)
  ultimately have "printf_all (dump_cc2_gps fp msg @ ps) = None" for ps
    by (intro printf_all_undefined) auto
  then show ?thesis by (simp add: mb_dump_message_def split: bind_splits)
qed

text \<open>Exact arithmetic for the dump. Numbers below zero and fractions below a tenth come out wrong:
  -0.5 is printed as -1.50, and 3.05 as 3.5.\<close>
definition rat_dump :: "(rat, rat) dump_fpu" where
  "rat_dump = fpu.extend rat_fpu \<lparr>d_floor = (\<lambda>x. of_int \<lfloor>x\<rfloor>), d_sub = (-), d_to_int = (\<lambda>x. \<lfloor>x\<rfloor>)\<rparr>"

theorem print_float_wrong:
  "print_float rat_dump (cstr ''%d.%d'') (- 1 / 2) = Some (cstr ''-1.50'')"
  "print_float rat_dump (cstr ''%d.%d'') (61 / 20) = Some (cstr ''3.5'')"
  by code_simp+

end
