(* ===== verification/N2_Offload.thy ===== *)
theory N2_Offload
  imports Comms
begin

text \<open>
  The socket layer on the modem (\<open>n2_offload.c\<close>): seven UDP sockets whose operations are AT
  commands. A result \<open>Inl e\<close> is the C return value \<open>-e\<close>, \<open>Inr n\<close> a non-negative one. Taking and
  giving \<open>mdm_sem\<close> are events of the trace, between the commands that are sent. The heap, the
  byte-order and the address-conversion functions of the platform are parameters. \<open>char\<close> is unsigned,
  as on the ARM target, so the shift in \<open>TO_HEX (c >> 4)\<close> brings in zeros. \<open>None\<close> is undefined
  behaviour or, for the waiting receive, not returning.
\<close>

section \<open>State\<close>

datatype n2_error = EINVAL | ENOMEM | EISCONN | ENOTCONN | EAFNOSUPPORT | ENOTSUP | EWOULDBLOCK

text \<open>\<open>errno\<close> receives an error number, in one place with the wrong sign.\<close>
datatype errno_value = Errno n2_error | MinusErrno n2_error

datatype sock_family = AF_INET | Other_family
datatype sock_type = SOCK_DGRAM | Other_type
datatype sock_proto = IPPROTO_UDP | Other_proto
datatype poll_flag = POLLIN | POLLOUT | POLLNVAL

record sockaddr_in =
  sin_family :: sock_family
  sin_port :: u16
  sin_addr :: u32

record n2_socket =
  s_id :: int
  in_use :: bool
  connected :: bool
  local_port :: int
  incoming_len :: int
  remote_addr :: "sockaddr_in option"
  remote_len :: int

text \<open>Functions of the platform.\<close>
record net =
  htons :: "u16 \<Rightarrow> u16"
  ntohs :: "u16 \<Rightarrow> u16"
  inet_ntop :: "u32 \<Rightarrow> bytes option"
  inet_pton :: "bytes \<Rightarrow> u32 option"
  malloc_ok :: "int \<Rightarrow> bool"
  sizeof_sockaddr_in :: int

record n2 =
  sockets :: "n2_socket list"
  next_free_port :: int
  modem_command_buffer :: bytes
  mdm :: modem
  errno :: "errno_value option"

definition MDM_MAX_SOCKETS :: nat where "MDM_MAX_SOCKETS = 7"
definition CMD_BUFFER_SIZE :: nat where "CMD_BUFFER_SIZE = 64"
definition MAX_RECEIVE :: int where "MAX_RECEIVE = 512"
definition N2_MAX_PACKET_SIZE :: nat where "N2_MAX_PACKET_SIZE = 512"

definition TO_HEX :: "nat \<Rightarrow> u8" where
  "TO_HEX i = (if i \<le> 9 then 48 + of_nat i else 65 - 10 + of_nat i)"

definition S_TO_I :: "int \<Rightarrow> nat" where "S_TO_I s = nat (s - 100)"
definition I_TO_S :: "nat \<Rightarrow> int" where "I_TO_S i = int i + 100"

definition VALID_SOCKET :: "int \<Rightarrow> n2 \<Rightarrow> bool option" where
  "VALID_SOCKET s st =
     (if 100 \<le> s \<and> s \<le> 100 + int MDM_MAX_SOCKETS then map_option in_use (rd (sockets st) (nat (s - 100)))
      else Some False)"

definition sem_op :: "event \<Rightarrow> n2 \<Rightarrow> n2" where
  "sem_op e st = st\<lparr>mdm := emit e (mdm st)\<rparr>"

text \<open>\<open>sprintf\<close> into the command buffer and \<open>modem_write\<close> of the buffer.\<close>
definition send_cmd :: "bytes \<Rightarrow> n2 \<Rightarrow> n2 option" where
  "send_cmd s st = do {
     buf \<leftarrow> strcpy (modem_command_buffer st) s;
     cmd \<leftarrow> c_str buf;
     Some (st\<lparr>modem_command_buffer := buf, mdm := modem_write cmd (mdm st)\<rparr>) }"

definition set_socket :: "nat \<Rightarrow> (n2_socket \<Rightarrow> n2_socket) \<Rightarrow> n2 \<Rightarrow> n2 option" where
  "set_socket i f st = do {
     s \<leftarrow> rd (sockets st) i;
     ss \<leftarrow> wr (sockets st) i (f s);
     Some (st\<lparr>sockets := ss\<rparr>) }"

definition clear_socket :: "nat \<Rightarrow> n2 \<Rightarrow> n2 option" where
  "clear_socket i st = set_socket i (\<lambda>s. s\<lparr>s_id := -1, connected := False, in_use := False,
     local_port := 0, incoming_len := 0, remote_len := 0, remote_addr := None\<rparr>) st"

section \<open>Operations\<close>

definition offload_close :: "int \<Rightarrow> n2 \<Rightarrow> ((n2_error + int) \<times> n2) option" where
  "offload_close sfd st = do {
     valid \<leftarrow> VALID_SOCKET sfd st;
     if \<not> valid then Some (Inl EINVAL, st)
     else do {
       let i = S_TO_I sfd;
       let st = sem_op Take st;
       s \<leftarrow> rd (sockets st) i;
       st \<leftarrow> send_cmd (cstr ''AT+NSOCL='' @ fmt_d (s_id s) @ [13]) st;
       (r, m) \<leftarrow> await atnsocl_decode (mdm st);
       let st = st\<lparr>mdm := m\<rparr>;
       if r \<noteq> AT_OK then Some (Inl ENOMEM, sem_op Give st)
       else do {
         st \<leftarrow> clear_socket i st;
         Some (Inr 0, sem_op Give st) } } }"

definition offload_connect :: "net \<Rightarrow> int \<Rightarrow> sockaddr_in \<Rightarrow> int \<Rightarrow> n2 \<Rightarrow> ((n2_error + int) \<times> n2) option" where
  "offload_connect net sfd addr addrlen st = do {
     valid \<leftarrow> VALID_SOCKET sfd st;
     if \<not> valid then Some (Inl EINVAL, st)
     else do {
       let i = S_TO_I sfd;
       let st = sem_op Take st;
       s \<leftarrow> rd (sockets st) i;
       if \<not> in_use s then Some (Inl EISCONN, sem_op Give st)
       else do {
         st \<leftarrow> set_socket i (\<lambda>s. s\<lparr>connected := True\<rparr>) st;
         st \<leftarrow> (if malloc_ok net addrlen then set_socket i (\<lambda>s. s\<lparr>remote_addr := Some addr\<rparr>) st else None);
         Some (Inr 0, sem_op Give st) } } }"

record pollfd =
  poll_fd :: int
  revents :: "poll_flag list"

fun poll_fds :: "n2 \<Rightarrow> pollfd list \<Rightarrow> pollfd list option" where
  "poll_fds st [] = Some []"
| "poll_fds st (p # ps) = do {
     valid \<leftarrow> VALID_SOCKET (poll_fd p) st;
     p \<leftarrow> (if \<not> valid then Some (p\<lparr>revents := [POLLNVAL]\<rparr>)
          else do {
            s \<leftarrow> rd (sockets st) (S_TO_I (poll_fd p));
            Some (p\<lparr>revents := [POLLOUT] @ (if 0 < incoming_len s then [POLLIN] else [])\<rparr>) });
     ps \<leftarrow> poll_fds st ps;
     Some (p # ps) }"

definition offload_poll :: "pollfd list \<Rightarrow> int \<Rightarrow> n2 \<Rightarrow> (pollfd list \<times> n2) option" where
  "offload_poll fds msecs st = do {
     let st = (if 0 < msecs then st\<lparr>mdm := emit (Sleep msecs) (mdm st)\<rparr> else st);
     let st = sem_op Take st;
     fds \<leftarrow> poll_fds st fds;
     Some (fds, sem_op Give st) }"

text \<open>What a receive call hands back through its pointers.\<close>
record recv_out =
  out_buf :: bytes
  out_from :: "sockaddr_in option"
  out_fromlen :: "int option"

definition fill_from :: "net \<Rightarrow> bytes \<Rightarrow> int \<Rightarrow> sockaddr_in option \<Rightarrow> sockaddr_in option option" where
  "fill_from net ip port from =
     (case from of
        None \<Rightarrow> Some None
      | Some a \<Rightarrow> do {
          s \<leftarrow> c_str ip;
          let a = a\<lparr>sin_family := AF_INET, sin_port := htons net (word_of_int port)\<rparr>;
          Some (Some (case inet_pton net s of None \<Rightarrow> a | Some w \<Rightarrow> a\<lparr>sin_addr := w\<rparr>)) })"

text \<open>The local array \<open>ip\<close> is not initialised; \<open>ip0\<close> is its content.\<close>
definition offload_recvfrom ::
  "net \<Rightarrow> bytes \<Rightarrow> int \<Rightarrow> recv_out \<Rightarrow> int \<Rightarrow> n2 \<Rightarrow> ((n2_error + int) \<times> recv_out \<times> n2) option" where
  "offload_recvfrom net ip0 sfd out len st = do {
     valid \<leftarrow> VALID_SOCKET sfd st;
     if \<not> valid then Some (Inl EINVAL, out, st)
     else do {
       let i = S_TO_I sfd;
       let st = sem_op Take st;
       s \<leftarrow> rd (sockets st) i;
       if incoming_len s = 0 then Some (Inr 0, out, (sem_op Give st)\<lparr>errno := Some (Errno EWOULDBLOCK)\<rparr>)
       else do {
         let st = st\<lparr>modem_command_buffer := replicate (length (modem_command_buffer st)) 0\<rparr>;
         let len = (if MAX_RECEIVE < len then MAX_RECEIVE else len);
         st \<leftarrow> send_cmd (cstr ''AT+NSORF='' @ fmt_d (s_id s) @ [44] @ fmt_d len @ [13, 10]) st;
         (res, c, rx) \<leftarrow> atnsorf_decode 0 ip0 0 (out_buf out) 0 0 (script (mdm st));
         let st = st\<lparr>mdm := (mdm st)\<lparr>script := rx\<rparr>\<rparr>;
         let out = out\<lparr>out_buf := rf_data c\<rparr>;
         if res = AT_OK then
           (if rf_received c = 0 then Some (Inr 0, out, sem_op Give st)
            else do {
              let out = out\<lparr>out_fromlen := map_option (\<lambda>_. sizeof_sockaddr_in net) (out_fromlen out)\<rparr>;
              from \<leftarrow> fill_from net (rf_ip c) (rf_port c) (out_from out);
              st \<leftarrow> set_socket i (\<lambda>s. s\<lparr>incoming_len := int (rf_remaining c)\<rparr>) st;
              Some (Inr (int (rf_received c)), out\<lparr>out_from := from\<rparr>, sem_op Give st) })
         else Some (Inl ENOMEM, out, (sem_op Give st)\<lparr>errno := Some (MinusErrno ENOMEM)\<rparr>) } } }"

text \<open>A notification: every socket with this number has more data waiting.\<close>
definition receive_cb :: "int \<Rightarrow> int \<Rightarrow> n2 \<Rightarrow> n2" where
  "receive_cb fd n st =
     (let st = sem_op Take st;
          st = st\<lparr>sockets := map (\<lambda>s. if s_id s = fd then s\<lparr>incoming_len := incoming_len s + n\<rparr> else s) (sockets st)\<rparr>
      in sem_op Give st)"

definition WAIT_SLEEP_FOR_RECV :: int where "WAIT_SLEEP_FOR_RECV = 1000"

text \<open>
  The busy wait: during each pause other threads run, which is where notifications arrive. The
  list holds the notifications of each pause; a wait that outlives it does not return.
\<close>
fun recv_wait :: "nat \<Rightarrow> (int \<times> int) list list \<Rightarrow> int \<Rightarrow> n2 \<Rightarrow> (int \<times> n2) option" where
  "recv_wait i [] curcount st = (if curcount = 0 then None else Some (curcount, st))"
| "recv_wait i (ns # nss) curcount st =
     (if curcount \<noteq> 0 then Some (curcount, st)
      else do {
        let st = st\<lparr>mdm := emit (Sleep WAIT_SLEEP_FOR_RECV) (mdm st)\<rparr>;
        let st = fold (\<lambda>(fd, n). receive_cb fd n) ns st;
        let st = sem_op Take st;
        s \<leftarrow> rd (sockets st) i;
        recv_wait i nss (incoming_len s) (sem_op Give st) })"

definition offload_recv ::
  "net \<Rightarrow> bytes \<Rightarrow> (int \<times> int) list list \<Rightarrow> int \<Rightarrow> recv_out \<Rightarrow> int \<Rightarrow> bool \<Rightarrow> n2 \<Rightarrow>
     ((n2_error + int) \<times> recv_out \<times> n2) option" where
  "offload_recv net ip0 arrivals sfd out max_len dontwait st = do {
     valid \<leftarrow> VALID_SOCKET sfd st;
     if \<not> valid then Some (Inl EINVAL, out, st)
     else do {
       let i = S_TO_I sfd;
       let st = sem_op Take st;
       s \<leftarrow> rd (sockets st) i;
       if \<not> connected s then Some (Inl EINVAL, out, sem_op Give st)
       else if incoming_len s = 0 \<and> dontwait then
         Some (Inr 0, out, (sem_op Give st)\<lparr>errno := Some (Errno EWOULDBLOCK)\<rparr>)
       else do {
         (_, st) \<leftarrow> recv_wait i arrivals (incoming_len s) (sem_op Give st);
         offload_recvfrom net ip0 sfd (out\<lparr>out_from := None, out_fromlen := None\<rparr>)
           (signed_take_bit 15 max_len) st } } }"

text \<open>The loop that sends the payload, one byte per write.\<close>
fun send_hex :: "bytes \<Rightarrow> n2 \<Rightarrow> n2 option" where
  "send_hex [] st = Some st"
| "send_hex (b # bs) st = do {
     buf \<leftarrow> wr (modem_command_buffer st) 0 (TO_HEX (unat (drop_bit 4 b)));
     buf \<leftarrow> wr buf 1 (TO_HEX (unat (b AND 0xF)));
     buf \<leftarrow> wr buf 2 0;
     cmd \<leftarrow> c_str buf;
     send_hex bs (st\<lparr>modem_command_buffer := buf, mdm := modem_write cmd (mdm st)\<rparr>) }"

definition offload_sendto ::
  "net \<Rightarrow> int \<Rightarrow> bytes \<Rightarrow> sockaddr_in option \<Rightarrow> n2 \<Rightarrow> ((n2_error + int) \<times> n2) option" where
  "offload_sendto net sfd buf toaddr st = do {
     valid \<leftarrow> VALID_SOCKET sfd st;
     if \<not> valid then Some (Inl EINVAL, st)
     else if N2_MAX_PACKET_SIZE < length buf then Some (Inl EINVAL, st)
     else do {
       let i = S_TO_I sfd;
       let st = sem_op Take st;
       a \<leftarrow> toaddr;
       case inet_ntop net (sin_addr a) of
         None \<Rightarrow> Some (Inl EINVAL, sem_op Give st)
       | Some addr \<Rightarrow> do {
           _ \<leftarrow> strcpy (replicate 64 0) addr;
           s \<leftarrow> rd (sockets st) i;
           st \<leftarrow> send_cmd (cstr ''AT+NSOST='' @ fmt_d (s_id s) @ [44, 34] @ addr @ [34, 44] @
                  fmt_d (uint (ntohs net (sin_port a))) @ [44] @ fmt_d (int (length buf)) @ [44, 34]) st;
           st \<leftarrow> send_hex buf st;
           cb \<leftarrow> wr (modem_command_buffer st) 0 34;
           cb \<leftarrow> wr cb 1 13;
           cb \<leftarrow> wr cb 2 0;
           cmd \<leftarrow> c_str cb;
           let st = st\<lparr>modem_command_buffer := cb, mdm := modem_write cmd (mdm st)\<rparr>;
           (r, _, rx) \<leftarrow> atnsost_decode (-1) 0 (script (mdm st));
           let st = st\<lparr>mdm := (mdm st)\<lparr>script := rx\<rparr>\<rparr>;
           let written = (if r = AT_ERROR \<or> r = AT_TIMEOUT then Inl ENOMEM else Inr (int (length buf)));
           Some (written, sem_op Give st) } } }"

definition offload_send :: "net \<Rightarrow> int \<Rightarrow> bytes \<Rightarrow> n2 \<Rightarrow> ((n2_error + int) \<times> n2) option" where
  "offload_send net sfd buf st = do {
     valid \<leftarrow> VALID_SOCKET sfd st;
     if \<not> valid then Some (Inl EINVAL, st)
     else do {
       let i = S_TO_I sfd;
       let st = sem_op Take st;
       s \<leftarrow> rd (sockets st) i;
       if \<not> connected s then Some (Inl ENOTCONN, sem_op Give st)
       else offload_sendto net sfd buf (remote_addr s) (sem_op Give st) } }"

text \<open>The search for a free socket.\<close>
fun first_free :: "nat \<Rightarrow> n2_socket list \<Rightarrow> nat option" where
  "first_free i [] = None"
| "first_free i (s # ss) = (if \<not> in_use s then Some i else first_free (i + 1) ss)"

definition offload_socket ::
  "sock_family \<Rightarrow> sock_type \<Rightarrow> sock_proto \<Rightarrow> n2 \<Rightarrow> ((n2_error + int) \<times> n2) option" where
  "offload_socket family ty proto st =
     (if family \<noteq> AF_INET then Some (Inl EAFNOSUPPORT, st)
      else if ty \<noteq> SOCK_DGRAM then Some (Inl ENOTSUP, st)
      else if proto \<noteq> IPPROTO_UDP then Some (Inl ENOTSUP, st)
      else (let st = sem_op Take st in
        case first_free 0 (sockets st) of
          None \<Rightarrow> Some (Inl ENOMEM, sem_op Give st)
        | Some fd \<Rightarrow> do {
            st \<leftarrow> set_socket fd (\<lambda>s. s\<lparr>local_port := next_free_port st\<rparr>) st;
            s \<leftarrow> rd (sockets st) fd;
            st \<leftarrow> send_cmd (cstr ''AT+NSOCR='' @ [34] @ cstr ''DGRAM'' @ [34] @ cstr '',17,'' @
                    fmt_d (local_port s) @ cstr '',1'' @ [13]) st;
            (r, sockfd, rx) \<leftarrow> atnsocr_decode (script (mdm st));
            let st = st\<lparr>mdm := (mdm st)\<lparr>script := rx\<rparr>\<rparr>;
            if r = AT_OK then do {
              st \<leftarrow> set_socket fd (\<lambda>s. s\<lparr>s_id := sockfd, in_use := True\<rparr>) st;
              let st = st\<lparr>next_free_port := next_free_port st + 1\<rparr>;
              Some (Inr (I_TO_S fd), sem_op Give st) }
            else Some (Inl ENOMEM, sem_op Give st) }))"

definition offload_iface_init :: "n2 \<Rightarrow> n2" where
  "offload_iface_init st = st\<lparr>sockets := map (\<lambda>s. s\<lparr>s_id := -1, remote_addr := None\<rparr>) (sockets st)\<rparr>"

section \<open>The lock\<close>

text \<open>
  The discipline of \<open>mdm_sem\<close>: it is taken and given in turn, commands are sent only while it is
  held, and no thread sleeps while it holds it. The result says whether it is held at the end.
\<close>
fun lock_run :: "bool \<Rightarrow> event list \<Rightarrow> bool option" where
  "lock_run h [] = Some h"
| "lock_run h (Take # es) = (if h then None else lock_run True es)"
| "lock_run h (Give # es) = (if h then lock_run False es else None)"
| "lock_run h (Write c # es) = (if h then lock_run h es else None)"
| "lock_run h (Sleep d # es) = (if h then None else lock_run h es)"

definition held :: "n2 \<Rightarrow> bool option" where
  "held st = lock_run False (trace (mdm st))"

lemma lock_run_append: "lock_run h (xs @ ys) = Option.bind (lock_run h xs) (\<lambda>h. lock_run h ys)"
  by (induction h xs rule: lock_run.induct) simp_all

text \<open>The state between operations, and inside the critical section.\<close>
definition n2_ok :: "bool \<Rightarrow> n2 \<Rightarrow> bool" where
  "n2_ok h st \<longleftrightarrow> length (sockets st) = MDM_MAX_SOCKETS \<and> length (modem_command_buffer st) = CMD_BUFFER_SIZE \<and>
     held st = Some h"

named_theorems n2_pres \<open>what the building blocks of the operations preserve\<close>

lemma ok_take [n2_pres]: "n2_ok False st \<Longrightarrow> n2_ok True (sem_op Take st)"
  by (simp add: n2_ok_def held_def sem_op_def emit_def lock_run_append)

lemma ok_give [n2_pres]: "n2_ok True st \<Longrightarrow> n2_ok False (sem_op Give st)"
  by (simp add: n2_ok_def held_def sem_op_def emit_def lock_run_append)

lemma ok_give_errno [n2_pres]: "n2_ok True st \<Longrightarrow> n2_ok False ((sem_op Give st)\<lparr>errno := e\<rparr>)"
  using ok_give [of st] by (simp add: n2_ok_def held_def)

lemma ok_script [n2_pres]: "n2_ok h st \<Longrightarrow> n2_ok h (st\<lparr>mdm := (mdm st)\<lparr>script := rx\<rparr>\<rparr>)"
  by (simp add: n2_ok_def held_def)

lemma ok_await [n2_pres]: "await d (mdm st) = Some (r, m) \<Longrightarrow> n2_ok h st \<Longrightarrow> n2_ok h (st\<lparr>mdm := m\<rparr>)"
  by (auto simp: n2_ok_def held_def await_def Option.bind_eq_Some_conv)

lemma ok_send_cmd [n2_pres]: "send_cmd s st = Some st' \<Longrightarrow> n2_ok True st \<Longrightarrow> n2_ok True st'"
  by (auto simp: send_cmd_def n2_ok_def held_def modem_write_def emit_def lock_run_append
      Option.bind_eq_Some_conv dest: strcpy_length)

lemma ok_set_socket [n2_pres]: "set_socket i f st = Some st' \<Longrightarrow> n2_ok h st \<Longrightarrow> n2_ok h st'"
  by (auto simp: set_socket_def n2_ok_def held_def Option.bind_eq_Some_conv dest!: wr_SomeD)

lemma ok_clear_socket [n2_pres]: "clear_socket i st = Some st' \<Longrightarrow> n2_ok h st \<Longrightarrow> n2_ok h st'"
  unfolding clear_socket_def by (rule ok_set_socket)

lemma ok_buffer [n2_pres]: "n2_ok h st \<Longrightarrow> n2_ok h (st\<lparr>modem_command_buffer := replicate (length (modem_command_buffer st)) 0\<rparr>)"
  by (simp add: n2_ok_def held_def)

lemma ok_port [n2_pres]: "n2_ok h st \<Longrightarrow> n2_ok h (st\<lparr>next_free_port := p\<rparr>)"
  by (simp add: n2_ok_def held_def)

lemma ok_write_buffer [n2_pres]:
  "n2_ok True st \<Longrightarrow> length buf = length (modem_command_buffer st) \<Longrightarrow>
     n2_ok True (st\<lparr>modem_command_buffer := buf, mdm := modem_write cmd (mdm st)\<rparr>)"
  by (simp add: n2_ok_def held_def modem_write_def emit_def lock_run_append)

lemma ok_send_hex [n2_pres]: "send_hex bs st = Some st' \<Longrightarrow> n2_ok True st \<Longrightarrow> n2_ok True st'"
proof (induction bs arbitrary: st)
  case (Cons b bs)
  then show ?case
    by (auto simp: Option.bind_eq_Some_conv dest!: wr_SomeD intro!: Cons.IH ok_write_buffer)
qed simp

lemma ok_receive_cb [n2_pres]: "n2_ok False st \<Longrightarrow> n2_ok False (receive_cb fd n st)"
  by (simp add: receive_cb_def Let_def n2_ok_def held_def sem_op_def emit_def lock_run_append)

lemma ok_receive_cbs [n2_pres]: "n2_ok False st \<Longrightarrow> n2_ok False (fold (\<lambda>(fd, n). receive_cb fd n) ns st)"
  by (induction ns arbitrary: st) (auto intro: ok_receive_cb)

lemma ok_sleep [n2_pres]: "n2_ok False st \<Longrightarrow> n2_ok False (st\<lparr>mdm := emit (Sleep d) (mdm st)\<rparr>)"
  by (simp add: n2_ok_def held_def emit_def lock_run_append)

text \<open>The building blocks, as steps of a postcondition proof.\<close>
lemma post_send_cmd:
  "n2_ok True st \<Longrightarrow> (\<And>st'. n2_ok True st' \<Longrightarrow> Q st') \<Longrightarrow> post (send_cmd s st) Q"
  by (auto simp: post_def dest: ok_send_cmd)

lemma post_await:
  "n2_ok h st \<Longrightarrow> (\<And>r m. n2_ok h (st\<lparr>mdm := m\<rparr>) \<Longrightarrow> Q (r, m)) \<Longrightarrow> post (await d (mdm st)) Q"
  by (auto simp: post_def dest: ok_await)

lemma post_set_socket:
  "n2_ok h st \<Longrightarrow> (\<And>st'. n2_ok h st' \<Longrightarrow> Q st') \<Longrightarrow> post (set_socket i f st) Q"
  by (auto simp: post_def dest: ok_set_socket)

lemma post_clear_socket:
  "n2_ok h st \<Longrightarrow> (\<And>st'. n2_ok h st' \<Longrightarrow> Q st') \<Longrightarrow> post (clear_socket i st) Q"
  by (auto simp: post_def dest: ok_clear_socket)

lemma post_send_hex:
  "n2_ok True st \<Longrightarrow> (\<And>st'. n2_ok True st' \<Longrightarrow> Q st') \<Longrightarrow> post (send_hex bs st) Q"
  by (auto simp: post_def dest: ok_send_hex)

lemmas n2_steps = post_send_cmd post_await post_set_socket post_clear_socket post_send_hex

lemma post_close: "n2_ok False st \<Longrightarrow> post (offload_close sfd st) (\<lambda>(r, st'). n2_ok False st')"
  unfolding offload_close_def
  by (rule post_intros n2_steps post_any | assumption | erule n2_pres | simp only: prod.case | rule n2_pres)+

lemma ok_write3 [n2_pres]:
  "n2_ok True st \<Longrightarrow> wr (modem_command_buffer st) 0 a = Some x \<Longrightarrow> wr x 1 b = Some y \<Longrightarrow> wr y 2 c = Some z \<Longrightarrow>
     n2_ok True (st\<lparr>modem_command_buffer := z, mdm := modem_write cmd (mdm st)\<rparr>)"
  by (rule ok_write_buffer) (auto dest!: wr_SomeD)

lemma post_connect: "n2_ok False st \<Longrightarrow> post (offload_connect net sfd addr len st) (\<lambda>(r, st'). n2_ok False st')"
  unfolding offload_connect_def
  by (rule post_intros n2_steps post_any | assumption | erule n2_pres | simp only: prod.case | rule n2_pres)+

lemma post_poll: "n2_ok False st \<Longrightarrow> post (offload_poll fds ms st) (\<lambda>(r, st'). n2_ok False st')"
  unfolding offload_poll_def Let_def
  by (rule post_bind post_any post_Some | simp only: prod.case | auto intro: n2_pres)+

lemma post_socket: "n2_ok False st \<Longrightarrow> post (offload_socket f t pr st) (\<lambda>(r, st'). n2_ok False st')"
  unfolding offload_socket_def
  by (rule post_intros n2_steps post_any | assumption | erule n2_pres | simp only: prod.case | rule n2_pres)+

lemma post_sendto: "n2_ok False st \<Longrightarrow> post (offload_sendto net sfd buf a st) (\<lambda>(r, st'). n2_ok False st')"
  unfolding offload_sendto_def
  by (rule post_intros n2_steps post_any | assumption | erule n2_pres | simp only: prod.case | rule n2_pres)+

lemma post_send: "n2_ok False st \<Longrightarrow> post (offload_send net sfd buf st) (\<lambda>(r, st'). n2_ok False st')"
  unfolding offload_send_def
  by (rule post_intros n2_steps post_sendto | rule post_any | assumption | erule n2_pres | simp only: prod.case | rule n2_pres)+

lemma post_recvfrom:
  "n2_ok False st \<Longrightarrow> post (offload_recvfrom net ip0 sfd out len st) (\<lambda>(r, out', st'). n2_ok False st')"
  unfolding offload_recvfrom_def
  by (rule post_intros n2_steps | rule post_any | assumption | erule n2_pres | simp only: prod.case | rule n2_pres)+

lemma post_recv_wait:
  "n2_ok False st \<Longrightarrow> (\<And>c' st'. n2_ok False st' \<Longrightarrow> Q (c', st')) \<Longrightarrow> post (recv_wait i nss c st) Q"
proof (induction nss arbitrary: c st)
  case (Cons ns nss)
  let ?st = "fold (\<lambda>(fd, n). receive_cb fd n) ns (st\<lparr>mdm := emit (Sleep WAIT_SLEEP_FOR_RECV) (mdm st)\<rparr>)"
  have "n2_ok False (sem_op Give (sem_op Take ?st))" using Cons.prems(1) by (intro ok_give ok_take ok_receive_cbs ok_sleep)
  then have w: "post (recv_wait i nss (incoming_len s) (sem_op Give (sem_op Take ?st))) Q" for s
    using Cons.prems(2) by (rule Cons.IH)
  have "post (do { s \<leftarrow> rd (sockets (sem_op Take ?st)) i;
      recv_wait i nss (incoming_len s) (sem_op Give (sem_op Take ?st)) }) Q"
    by (rule post_bind, rule post_any, rule w)
  then show ?case using Cons.prems by (simp add: Let_def post_Some)
qed (simp add: post_Some post_None)

lemma post_recv:
  "n2_ok False st \<Longrightarrow> post (offload_recv net ip0 arr sfd out len dw st) (\<lambda>(r, out', st'). n2_ok False st')"
  unfolding offload_recv_def
  by (simp only: prod.case | rule post_intros post_recv_wait post_recvfrom | rule post_any | assumption | erule n2_pres | simp only: prod.case | rule n2_pres)+

section \<open>All operations\<close>

datatype n2_op =
    Op_socket sock_family sock_type sock_proto
  | Op_close int
  | Op_connect int sockaddr_in int
  | Op_poll "pollfd list" int
  | Op_recvfrom bytes int recv_out int
  | Op_recv bytes "(int \<times> int) list list" int recv_out int bool
  | Op_send int bytes
  | Op_sendto int bytes "sockaddr_in option"
  | Op_notify int int

fun n2_step :: "net \<Rightarrow> n2_op \<Rightarrow> n2 \<Rightarrow> n2 option" where
  "n2_step net (Op_socket f t pr) st = map_option snd (offload_socket f t pr st)"
| "n2_step net (Op_close sfd) st = map_option snd (offload_close sfd st)"
| "n2_step net (Op_connect sfd a l) st = map_option snd (offload_connect net sfd a l st)"
| "n2_step net (Op_poll fds ms) st = map_option snd (offload_poll fds ms st)"
| "n2_step net (Op_recvfrom ip0 sfd out len) st = map_option (\<lambda>(_, _, st). st) (offload_recvfrom net ip0 sfd out len st)"
| "n2_step net (Op_recv ip0 arr sfd out len dw) st =
     map_option (\<lambda>(_, _, st). st) (offload_recv net ip0 arr sfd out len dw st)"
| "n2_step net (Op_send sfd buf) st = map_option snd (offload_send net sfd buf st)"
| "n2_step net (Op_sendto sfd buf a) st = map_option snd (offload_sendto net sfd buf a st)"
| "n2_step net (Op_notify fd n) st = Some (receive_cb fd n st)"

text \<open>The states that any program of socket calls and notifications can reach.\<close>
inductive n2_reachable :: "net \<Rightarrow> n2 \<Rightarrow> n2 \<Rightarrow> bool" for net st0 where
  start: "n2_reachable net st0 st0"
| step: "n2_reachable net st0 st \<Longrightarrow> n2_step net op st = Some st' \<Longrightarrow> n2_reachable net st0 st'"

inductive_cases n2_reachable_stepE: "n2_reachable net st0 st"

lemma n2_step_ok: "n2_step net op st = Some st' \<Longrightarrow> n2_ok False st \<Longrightarrow> n2_ok False st'"
  using post_socket [of st] post_close [of st] post_connect [of st net] post_poll [of st]
    post_recvfrom [of st net] post_recv [of st net] post_send [of st net] post_sendto [of st net] ok_receive_cb [of st]
  by (cases op) (fastforce simp: post_def)+

section \<open>What the operations do\<close>

lemma TO_HEX_char: "n < 16 \<Longrightarrow> TO_HEX n = hex_char n"
  by (simp add: TO_HEX_def hex_char_def)

lemma TO_HEX_nibbles:
  "TO_HEX (unat (drop_bit 4 (b :: u8))) = hex_char (unat b div 16)"
  "TO_HEX (unat (b AND 0xF)) = hex_char (unat b mod 16)"
proof -
  have h: "unat (drop_bit 4 b) = unat b div 16" by (simp only: unat_drop_bit_eq) (simp add: drop_bit_eq_div)
  then show "TO_HEX (unat (drop_bit 4 b)) = hex_char (unat b div 16)"
    using TO_HEX_char [OF high_nibble_less [of b]] by (simp only: h)
  have "unat (b AND 0xF) = unat b mod 16"
    using low_nibble [of b] unat_of_nat_u8 [of "unat b mod 16"] by (simp add: and.commute)
  then show "TO_HEX (unat (b AND 0xF)) = hex_char (unat b mod 16)" by (simp add: TO_HEX_char)
qed

text \<open>The payload goes out as its hexadecimal digits.\<close>
lemma send_hex_writes:
  assumes "length (modem_command_buffer st) = CMD_BUFFER_SIZE"
  shows "\<exists>buf. length buf = CMD_BUFFER_SIZE \<and> send_hex bs st = Some (st\<lparr>modem_command_buffer := buf,
     mdm := (mdm st)\<lparr>trace := trace (mdm st) @ map (\<lambda>b. Write (hex_byte b)) bs\<rparr>\<rparr>)"
  using assms
proof (induction bs arbitrary: st)
  case Nil
  then show ?case by (intro exI [of _ "modem_command_buffer st"]) simp
next
  case (Cons b bs)
  let ?h = "hex_char (unat b div 16)" and ?l = "hex_char (unat b mod 16)"
  obtain x y z r where buf: "modem_command_buffer st = x # y # z # r"
    using Cons.prems list_three [of "modem_command_buffer st"] by (auto simp: CMD_BUFFER_SIZE_def)
  have nz: "?h \<noteq> 0" "?l \<noteq> 0" using hex_char_nonzero high_nibble_less by simp_all
  let ?st = "st\<lparr>modem_command_buffer := ?h # ?l # 0 # r,
     mdm := (mdm st)\<lparr>trace := trace (mdm st) @ [Write (hex_byte b)]\<rparr>\<rparr>"
  have "send_hex (b # bs) st = send_hex bs ?st"
    using nz by (simp add: buf wr_def TO_HEX_nibbles hex_byte_def modem_write_def emit_def)
  then show ?case using Cons.IH [of ?st] Cons.prems buf by simp
qed

lemma send_cmd_writes:
  assumes "length cmd < length (modem_command_buffer st)" "0 \<notin> set cmd"
  shows "\<exists>buf. length buf = length (modem_command_buffer st) \<and> send_cmd cmd st = Some (st\<lparr>modem_command_buffer := buf,
     mdm := (mdm st)\<lparr>trace := trace (mdm st) @ [Write cmd]\<rparr>\<rparr>)"
  using strcpy_fits [OF assms(1)] assms
  by (intro exI [of _ "cmd @ 0 # drop (Suc (length cmd)) (modem_command_buffer st)"])
     (simp add: send_cmd_def modem_write_def emit_def)

text \<open>The same as a change of the observable fields, for proofs about whole operations.\<close>
lemma send_cmd_fields:
  assumes "n2_ok True st" "length cmd < CMD_BUFFER_SIZE" "0 \<notin> set cmd"
  obtains st' where "send_cmd cmd st = Some st'" "trace (mdm st') = trace (mdm st) @ [Write cmd]"
    "script (mdm st') = script (mdm st)" "sockets st' = sockets st" "next_free_port st' = next_free_port st"
    "errno st' = errno st" "n2_ok True st'"
proof -
  have "length cmd < length (modem_command_buffer st)" using assms(1,2) by (simp add: n2_ok_def)
  then obtain buf where b: "length buf = length (modem_command_buffer st)" "send_cmd cmd st = Some (st\<lparr>modem_command_buffer := buf,
     mdm := (mdm st)\<lparr>trace := trace (mdm st) @ [Write cmd]\<rparr>\<rparr>)" (is "_ = Some ?st")
    using send_cmd_writes [OF _ assms(3)] by blast
  show ?thesis using that [of ?st] b(2) ok_send_cmd [OF b(2) assms(1)] by simp
qed

lemma send_hex_fields:
  assumes "n2_ok True st"
  obtains st' where "send_hex d st = Some st'" "trace (mdm st') = trace (mdm st) @ map (\<lambda>b. Write (hex_byte b)) d"
    "script (mdm st') = script (mdm st)" "sockets st' = sockets st" "n2_ok True st'"
proof -
  obtain buf where b: "send_hex d st = Some (st\<lparr>modem_command_buffer := buf,
     mdm := (mdm st)\<lparr>trace := trace (mdm st) @ map (\<lambda>b. Write (hex_byte b)) d\<rparr>\<rparr>)" (is "_ = Some ?st")
    using send_hex_writes [of st d] assms by (auto simp: n2_ok_def)
  show ?thesis using that [of ?st] b ok_send_hex [OF b assms] by simp
qed

lemma sem_op_fields [simp]:
  "sockets (sem_op e st) = sockets st" "next_free_port (sem_op e st) = next_free_port st"
  "modem_command_buffer (sem_op e st) = modem_command_buffer st" "errno (sem_op e st) = errno st"
  "script (mdm (sem_op e st)) = script (mdm st)" "trace (mdm (sem_op e st)) = trace (mdm st) @ [e]"
  by (simp_all add: sem_op_def emit_def)

definition nsost_command :: "int \<Rightarrow> bytes \<Rightarrow> nat \<Rightarrow> bytes \<Rightarrow> bytes" where
  "nsost_command i addr p d = cstr ''AT+NSOST='' @ fmt_d i @ [44, 34] @ addr @ [34, 44] @
     dec_digits p @ [44] @ dec_digits (length d) @ [44, 34] @ hex_bytes d @ [34, 13]"

text \<open>The commands of a stretch of the trace, as the modem receives them.\<close>
definition sent :: "event list \<Rightarrow> bytes" where
  "sent es = concat (map (\<lambda>e. case e of Write c \<Rightarrow> c | _ \<Rightarrow> []) es)"

lemma sent_simps [simp]:
  "sent [] = []" "sent (Write c # es) = c @ sent es" "sent (Take # es) = sent es"
  "sent (Give # es) = sent es" "sent (Sleep d # es) = sent es" "sent (xs @ ys) = sent xs @ sent ys"
  by (simp_all add: sent_def)

lemma sent_hex [simp]: "sent (map (\<lambda>b. Write (hex_byte b)) bs) = hex_bytes bs"
  by (induction bs) simp_all

section \<open>Properties\<close>

text \<open>C22: In every state that socket calls and notifications can reach, there are seven sockets and
  the command buffer has its 64 bytes; the modem lock has been taken and given in turn and is free,
  commands have been sent only while it was held, and nobody has slept holding it.\<close>
theorem n2_lock_discipline:
  assumes "n2_reachable net st0 st" "n2_ok False st0"
  shows "n2_ok False st"
  using assms by (induction rule: n2_reachable.induct) (auto intro: n2_step_ok)

definition fresh_socket :: n2_socket where
  "fresh_socket = \<lparr>s_id = -1, in_use = False, connected = False, local_port = 0, incoming_len = 0,
     remote_addr = None, remote_len = 0\<rparr>"

definition fresh_n2 :: "rx_script \<Rightarrow> n2" where
  "fresh_n2 rx = \<lparr>sockets = replicate 7 fresh_socket, next_free_port = 6000,
     modem_command_buffer = replicate 64 0, mdm = \<lparr>script = rx, trace = []\<rparr>, errno = None\<rparr>"

lemma fresh_n2_ok: "n2_ok False (fresh_n2 rx)"
  by (simp add: n2_ok_def fresh_n2_def held_def MDM_MAX_SOCKETS_def CMD_BUFFER_SIZE_def)

definition plain_net :: net where
  "plain_net = \<lparr>htons = (\<lambda>w. w), ntohs = (\<lambda>w. w), inet_ntop = (\<lambda>w. Some [49, 46, 50]), inet_pton = (\<lambda>s. Some 7),
     malloc_ok = (\<lambda>n. True), sizeof_sockaddr_in = 8\<rparr>"

theorem n2_lock_discipline_witness:
  "n2_ok False (receive_cb 3 17 (fresh_n2 []))"
proof (rule n2_lock_discipline [of plain_net "fresh_n2 []"])
  show "n2_reachable plain_net (fresh_n2 []) (receive_cb 3 17 (fresh_n2 []))"
    by (rule n2_reachable.step [where op = "Op_notify 3 17"], rule n2_reachable.start) simp
qed (rule fresh_n2_ok)

lemma sendto_writes:
  assumes "n2_ok False st" "100 \<le> sfd" "sfd < 107" "s = sockets st ! nat (sfd - 100)" "in_use s"
    "0 \<le> s_id s" "s_id s < 10 ^ 9" "length d \<le> N2_MAX_PACKET_SIZE"
    "inet_ntop net (sin_addr a) = Some addr" "length addr \<le> 15" "0 \<notin> set addr"
    "atnsost_decode (-1) 0 (script (mdm st)) = Some (r, c, rx)"
  shows "\<exists>st' es. offload_sendto net sfd d (Some a) st =
       Some (if r = AT_OK then Inr (int (length d)) else Inl ENOMEM, st') \<and>
     trace (mdm st') = trace (mdm st) @ [Take] @ es @ [Give] \<and>
     sent es = nsost_command (s_id s) addr (unat (ntohs net (sin_port a))) d \<and>
     script (mdm st') = rx \<and> sockets st' = sockets st"
proof -
  let ?i = "nat (sfd - 100)" and ?p = "unat (ntohs net (sin_port a))"
  define head where "head = cstr ''AT+NSOST='' @ fmt_d (s_id s) @ 44 # 34 # addr @ 34 # 44 # fmt_d (uint (ntohs net (sin_port a))) @
    44 # fmt_d (int (length d)) @ [44, 34]"
  have len: "length (sockets st) = 7" using assms(1) by (simp add: n2_ok_def MDM_MAX_SOCKETS_def)
  have rd: "rd (sockets st) ?i = Some s" using len assms(2-4) by (simp add: rd_in nat_less_iff)
  have valid: "VALID_SOCKET sfd st = Some True"
    using rd assms(2,3,5) by (simp add: VALID_SOCKET_def MDM_MAX_SOCKETS_def)
  have port: "fmt_d (uint (ntohs net (sin_port a))) = dec_digits ?p" by (simp only: uint_nat fmt_d_int)
  have "?p < 2 ^ LENGTH(16)" by (rule unsigned_less)
  then have "?p < 10 ^ 5" by simp
  then have "length (dec_digits ?p) \<le> 5" by (intro length_dec_digits) simp_all
  moreover have "length (dec_digits (length d)) \<le> 3"
    using assms(8) by (intro length_dec_digits) (simp_all add: N2_MAX_PACKET_SIZE_def)
  moreover have "length (fmt_d (s_id s)) \<le> 9" using assms(6,7) by (intro length_fmt_d) simp_all
  ultimately have fits: "length head < CMD_BUFFER_SIZE" using assms(10) by (simp add: head_def port CMD_BUFFER_SIZE_def)
  have nz: "0 \<notin> set head" using assms(11) by (simp add: head_def zero_not_in_fmt_d not_in_dec_digits isdigit_def)
  obtain st2 where 1: "send_cmd head (sem_op Take st) = Some st2" "trace (mdm st2) = trace (mdm st) @ [Take, Write head]"
      "script (mdm st2) = script (mdm st)" "sockets st2 = sockets st" "n2_ok True st2"
    using send_cmd_fields [OF ok_take [OF assms(1)] fits nz] by auto
  obtain st3 where 2: "send_hex d st2 = Some st3"
      "trace (mdm st3) = trace (mdm st) @ Take # Write head # map (\<lambda>b. Write (hex_byte b)) d"
      "script (mdm st3) = script (mdm st)" "sockets st3 = sockets st" "n2_ok True st3"
    using send_hex_fields [OF 1(5), of d] 1 by auto
  obtain x y z q where b: "modem_command_buffer st3 = x # y # z # q"
    using 2(5) list_three [of "modem_command_buffer st3"] by (auto simp: n2_ok_def CMD_BUFFER_SIZE_def)
  have cp: "strcpy (replicate 64 0) addr \<noteq> None" using assms(10) by (simp add: strcpy_fits)
  have r: "r \<in> {AT_OK, AT_ERROR, AT_TIMEOUT}"
    using assms(12) unfolding atnsost_decode_def decode_input_def by (rule decode_loop_result)
  let ?st4 = "st3\<lparr>modem_command_buffer := 34 # 13 # 0 # q, mdm := modem_write [34, 13] (mdm st3)\<rparr>"
  let ?st5 = "sem_op Give (?st4\<lparr>mdm := (mdm ?st4)\<lparr>script := rx\<rparr>\<rparr>)"
  have scr: "atnsost_decode (-1) 0 (script (modem_write [34, 13] (mdm st3))) = Some (r, c, rx)"
    using assms(12) 2(3) by (simp add: modem_write_def emit_def)
  have "offload_sendto net sfd d (Some a) st = Some (if r = AT_OK then Inr (int (length d)) else Inl ENOMEM, ?st5)"
    using assms(8,9) valid rd cp 1(1) 2(1) scr r
    by (auto simp add: offload_sendto_def Let_def S_TO_I_def b wr_def at_results simp del: cstr_simps fmt_d_int simp flip: head_def)
  moreover have "sent (Write head # map (\<lambda>b. Write (hex_byte b)) d @ [Write [34, 13]]) = nsost_command (s_id s) addr ?p d"
    by (simp add: nsost_command_def head_def port)
  ultimately show ?thesis
    using 2 by (intro exI [of _ ?st5] exI [of _ "Write head # map (\<lambda>b. Write (hex_byte b)) d @ [Write [34, 13]]"])
       (simp add: modem_write_def emit_def)
qed

text \<open>C24: Sending to an address writes exactly one AT+NSOST command to the modem, inside one lock
  section: the modem's socket number, the address, the port, the length and the payload as
  upper-case hexadecimal digits. It returns the length when the modem answers OK.\<close>
theorem sendto_command:
  assumes "n2_ok False st" "100 \<le> sfd" "sfd < 107" "s = sockets st ! nat (sfd - 100)" "in_use s"
    "0 \<le> s_id s" "s_id s < 10 ^ 9" "length d \<le> N2_MAX_PACKET_SIZE"
    "inet_ntop net (sin_addr a) = Some addr" "length addr \<le> 15" "0 \<notin> set addr"
    "atnsost_decode (-1) 0 (script (mdm st)) = Some (r, c, rx)"
  shows "\<exists>st' es. offload_sendto net sfd d (Some a) st =
       Some (if r = AT_OK then Inr (int (length d)) else Inl ENOMEM, st') \<and>
     trace (mdm st') = trace (mdm st) @ [Take] @ es @ [Give] \<and>
     sent es = nsost_command (s_id s) addr (unat (ntohs net (sin_port a))) d \<and>
     script (mdm st') = rx \<and> sockets st' = sockets st"
  by (rule sendto_writes [OF assms])

definition open_n2 :: "rx_script \<Rightarrow> n2" where
  "open_n2 rx = (fresh_n2 rx)\<lparr>sockets := fresh_socket\<lparr>s_id := 3, in_use := True, connected := True, incoming_len := 4,
     remote_addr := Some \<lparr>sin_family = AF_INET, sin_port = 5683, sin_addr = 9\<rparr>\<rparr> # replicate 6 fresh_socket\<rparr>"

lemma open_n2_ok: "n2_ok False (open_n2 rx)"
  by (simp add: n2_ok_def fresh_n2_def open_n2_def held_def MDM_MAX_SOCKETS_def CMD_BUFFER_SIZE_def)

theorem sendto_command_witness:
  "\<exists>st' es. offload_sendto plain_net 100 [1, 0xAB] (Some \<lparr>sin_family = AF_INET, sin_port = 5683, sin_addr = 9\<rparr>) (open_n2 [None]) =
       Some (Inl ENOMEM, st') \<and>
     trace (mdm st') = [Take] @ es @ [Give] \<and>
     sent es = nsost_command 3 [49, 46, 50] 5683 [1, 0xAB] \<and> script (mdm st') = [] \<and>
     sockets st' = sockets (open_n2 [None])"
  using sendto_command [OF open_n2_ok, of 100 _ "[None]" "[1, 0xAB]" plain_net
      "\<lparr>sin_family = AF_INET, sin_port = 5683, sin_addr = 9\<rparr>" "[49, 46, 50]" AT_TIMEOUT
      "\<lparr>nsost_fd = -1, nsost_len = 0\<rparr>" "[]"]
  by (simp add: open_n2_def fresh_n2_def plain_net_def N2_MAX_PACKET_SIZE_def atnsost_decode_def decode_input_def at_results)

lemma first_free_Some:
  "first_free k ss = Some i \<Longrightarrow> k \<le> i \<and> i < k + length ss \<and> \<not> in_use (ss ! (i - k)) \<and> (\<forall>j < i - k. in_use (ss ! j))"
proof (induction k ss rule: first_free.induct)
  case (2 k s ss)
  then show ?case
  proof (cases "in_use s")
    case True
    then have IH: "Suc k \<le> i" "i < Suc k + length ss" "\<not> in_use (ss ! (i - Suc k))" "\<forall>j < i - Suc k. in_use (ss ! j)"
      using 2 by auto
    then obtain n where n: "i - k = Suc n" "i - Suc k = n" by (metis Suc_diff_Suc Suc_le_eq)
    have "in_use ((s # ss) ! j)" if "j < i - k" for j
      using that True IH(4) n by (cases j) auto
    then show ?thesis using IH n by auto
  qed simp
qed simp

lemma first_free_None: "first_free k ss = None \<longleftrightarrow> (\<forall>s \<in> set ss. in_use s)"
  by (induction k ss rule: first_free.induct) auto

definition nsocr_command :: "int \<Rightarrow> bytes" where
  "nsocr_command p = cstr ''AT+NSOCR='' @ [34] @ cstr ''DGRAM'' @ [34] @ cstr '',17,'' @ fmt_d p @ cstr '',1'' @ [13]"

text \<open>Opening a UDP socket takes the lowest free slot, sends one AT+NSOCR command with the next
  free port inside one lock section and, when the modem answers OK with a number, returns the slot's
  descriptor, records the number and advances the port; on any other result the slot stays free.
  Other slots do not change.\<close>
theorem socket_opens_lowest:
  assumes "n2_ok False st" "first_free 0 (sockets st) = Some i" "0 \<le> next_free_port st" "next_free_port st < 10 ^ 9"
    "\<forall>l \<in> set before \<union> set after. plain_line l \<and> (l = [] \<or> urc_line l)" "n < 10 ^ 9"
    "r \<in> {AT_OK, AT_ERROR, AT_TIMEOUT}"
    "script (mdm st) = map Some (wire (before @ dec_digits n # after)) @ final_bytes r @ rx"
  shows "\<exists>st' s'. offload_socket AF_INET SOCK_DGRAM IPPROTO_UDP st =
       Some (if r = AT_OK then Inr (100 + int i) else Inl ENOMEM, st') \<and>
     (\<forall>j < i. in_use (sockets st ! j)) \<and> i < 7 \<and> sockets st' = (sockets st)[i := s'] \<and>
     in_use s' = (r = AT_OK) \<and> (r = AT_OK \<longrightarrow> s_id s' = int n) \<and>
     next_free_port st' = next_free_port st + (if r = AT_OK then 1 else 0) \<and>
     trace (mdm st') = trace (mdm st) @ [Take, Write (nsocr_command (next_free_port st)), Give] \<and>
     script (mdm st') = rx \<and> incoming_len s' = incoming_len (sockets st ! i)"
proof -
  have len: "length (sockets st) = 7" "length (modem_command_buffer st) = 64"
    using assms(1) by (simp_all add: n2_ok_def MDM_MAX_SOCKETS_def CMD_BUFFER_SIZE_def)
  have i: "i < 7" "\<not> in_use (sockets st ! i)" "\<forall>j < i. in_use (sockets st ! j)"
    using first_free_Some [OF assms(2)] len by auto
  let ?p = "next_free_port st"
  let ?s1 = "(sockets st ! i)\<lparr>local_port := ?p\<rparr>"
  have set1: "set_socket i (\<lambda>s. s\<lparr>local_port := ?p\<rparr>) (sem_op Take st) = Some ((sem_op Take st)\<lparr>sockets := (sockets st)[i := ?s1]\<rparr>)"
    (is "_ = Some ?st1")
    using len i by (simp add: set_socket_def rd_in wr_in)
  define cmd where "cmd = nsocr_command ?p"
  have "length (fmt_d ?p) \<le> 9" using assms(3,4) by (intro length_fmt_d) simp_all
  then have fits: "length cmd < CMD_BUFFER_SIZE" by (simp add: cmd_def nsocr_command_def CMD_BUFFER_SIZE_def)
  have nz: "0 \<notin> set cmd" by (simp add: cmd_def nsocr_command_def zero_not_in_fmt_d)
  obtain st2 where b: "send_cmd cmd ?st1 = Some st2" "trace (mdm st2) = trace (mdm st) @ [Take, Write cmd]"
      "script (mdm st2) = script (mdm st)" "sockets st2 = (sockets st)[i := ?s1]" "next_free_port st2 = ?p"
    using send_cmd_fields [OF ok_set_socket [OF set1 ok_take [OF assms(1)]] fits nz] by auto
  have dec: "atnsocr_decode (script (mdm st)) = Some (r, int n, rx)"
    unfolding assms(8) by (rule nsocr_decodes [OF assms(5,6,7)])
  let ?st3 = "st2\<lparr>mdm := (mdm st2)\<lparr>script := rx\<rparr>\<rparr>"
  let ?s2 = "?s1\<lparr>s_id := int n, in_use := True\<rparr>"
  have set2: "set_socket i (\<lambda>s. s\<lparr>s_id := int n, in_use := True\<rparr>) ?st3 = Some (?st3\<lparr>sockets := (sockets st)[i := ?s2]\<rparr>)"
    using len i b(4) by (simp add: set_socket_def rd_in wr_in)
  have "offload_socket AF_INET SOCK_DGRAM IPPROTO_UDP st = Some (if r = AT_OK
      then (Inr (100 + int i), sem_op Give (?st3\<lparr>sockets := (sockets st)[i := ?s2], next_free_port := ?p + 1\<rparr>))
      else (Inl ENOMEM, sem_op Give ?st3))"
    using assms(2) set1 set2 b dec len i
    by (simp add: offload_socket_def Let_def I_TO_S_def rd_in cmd_def nsocr_command_def)
  then show ?thesis
    using i b by (cases "r = AT_OK") (auto simp: cmd_def)
qed

theorem socket_opens_lowest_witness:
  "\<exists>st' s'. offload_socket AF_INET SOCK_DGRAM IPPROTO_UDP
      (open_n2 (map Some (wire ([[]] @ dec_digits 5 # [[]])) @ final_bytes AT_OK @ [])) = Some (Inr 101, st') \<and>
     sockets st' = (sockets (open_n2 []))[1 := s'] \<and> in_use s' \<and> s_id s' = 5 \<and> next_free_port st' = 6001"
proof -
  let ?rx = "map Some (wire ([[]] @ dec_digits 5 # [[]])) @ final_bytes AT_OK @ []"
  have "first_free 0 (sockets (open_n2 ?rx)) = Some 1" "next_free_port (open_n2 ?rx) = 6000"
    "script (mdm (open_n2 ?rx)) = ?rx" "sockets (open_n2 ?rx) = sockets (open_n2 [])"
    by (simp_all add: open_n2_def fresh_n2_def fresh_socket_def numeral_eq_Suc)
  then show ?thesis
    using socket_opens_lowest [OF open_n2_ok, of ?rx 1 "[[]]" "[[]]" 5 AT_OK "[]"] by (auto simp: plain_line_def)
qed

text \<open>Closing an open socket sends one AT+NSOCL command with the modem's number inside one lock
  section, whatever the modem answers; if the answer is OK the slot becomes free and forgets its
  state, otherwise nothing changes. Other slots do not change.\<close>
theorem close_frees:
  assumes "n2_ok False st" "100 \<le> sfd" "sfd < 107" "i = nat (sfd - 100)" "in_use (sockets st ! i)"
    "0 \<le> s_id (sockets st ! i)" "s_id (sockets st ! i) < 10 ^ 9"
  shows "\<exists>r st'. offload_close sfd st = Some (r, st') \<and>
     trace (mdm st') = trace (mdm st) @ [Take, Write (cstr ''AT+NSOCL='' @ fmt_d (s_id (sockets st ! i)) @ [13]), Give] \<and>
     (r = Inr 0 \<and> sockets st' = (sockets st)[i := \<lparr>s_id = -1, in_use = False, connected = False, local_port = 0,
         incoming_len = 0, remote_addr = None, remote_len = 0\<rparr>] \<or>
      r = Inl ENOMEM \<and> sockets st' = sockets st)"
proof -
  let ?s = "sockets st ! i"
  have len: "length (sockets st) = 7" using assms(1) by (simp add: n2_ok_def MDM_MAX_SOCKETS_def)
  have i: "i < 7" "S_TO_I sfd = i" using assms(2-4) by (simp_all add: S_TO_I_def nat_less_iff)
  have valid: "VALID_SOCKET sfd st = Some True"
    using len i assms(2-5) by (simp add: VALID_SOCKET_def MDM_MAX_SOCKETS_def rd_in)
  define cmd where "cmd = cstr ''AT+NSOCL='' @ fmt_d (s_id ?s) @ [13]"
  have "length (fmt_d (s_id ?s)) \<le> 9" using assms(6,7) by (intro length_fmt_d) simp_all
  then have fits: "length cmd < CMD_BUFFER_SIZE" by (simp add: cmd_def CMD_BUFFER_SIZE_def)
  have nz: "0 \<notin> set cmd" by (simp add: cmd_def zero_not_in_fmt_d)
  obtain st2 where 1: "send_cmd cmd (sem_op Take st) = Some st2" "trace (mdm st2) = trace (mdm st) @ [Take, Write cmd]"
      "sockets st2 = sockets st"
    using send_cmd_fields [OF ok_take [OF assms(1)] fits nz] by auto
  obtain r rx where 2: "await atnsocl_decode (mdm st2) = Some (r, (mdm st2)\<lparr>script := rx\<rparr>)"
    using await_cases(3) by blast
  let ?st3 = "st2\<lparr>mdm := (mdm st2)\<lparr>script := rx\<rparr>\<rparr>"
  let ?clear = "?s\<lparr>s_id := -1, connected := False, in_use := False, local_port := 0, incoming_len := 0,
    remote_len := 0, remote_addr := None\<rparr>"
  have 3: "clear_socket i ?st3 = Some (?st3\<lparr>sockets := (sockets st)[i := ?clear]\<rparr>)"
    using len i 1(3) by (simp add: clear_socket_def set_socket_def rd_in wr_in)
  have op: "offload_close sfd st = Some (if r = AT_OK then (Inr 0, sem_op Give (?st3\<lparr>sockets := (sockets st)[i := ?clear]\<rparr>))
      else (Inl ENOMEM, sem_op Give ?st3))"
    using valid i len 1(1) 2 3 by (simp add: offload_close_def Let_def rd_in cmd_def)
  have c: "?clear = \<lparr>s_id = -1, in_use = False, connected = False, local_port = 0,
         incoming_len = 0, remote_addr = None, remote_len = 0\<rparr>" by (cases ?s) simp
  show ?thesis
    unfolding op c using 1 by (cases "r = AT_OK") (auto simp: cmd_def)
qed

theorem close_frees_witness:
  "\<exists>r st'. offload_close 100 (open_n2 [None]) = Some (r, st') \<and>
     trace (mdm st') = [Take, Write (cstr ''AT+NSOCL='' @ fmt_d 3 @ [13]), Give] \<and>
     (r = Inr 0 \<and> sockets st' = (sockets (open_n2 [None]))[0 := \<lparr>s_id = -1, in_use = False, connected = False, local_port = 0,
         incoming_len = 0, remote_addr = None, remote_len = 0\<rparr>] \<or>
      r = Inl ENOMEM \<and> sockets st' = sockets (open_n2 [None]))"
proof -
  have s: "sockets (open_n2 [None]) ! 0 = fresh_socket\<lparr>s_id := 3, in_use := True, connected := True, incoming_len := 4,
     remote_addr := Some \<lparr>sin_family = AF_INET, sin_port = 5683, sin_addr = 9\<rparr>\<rparr>"
    "trace (mdm (open_n2 [None])) = []" by (simp_all add: open_n2_def fresh_n2_def)
  then show ?thesis
    using close_frees [OF open_n2_ok, of 100 0 "[None]"] by simp
qed

text \<open>The check of a descriptor accepts one number too many: descriptor 107 makes every
  operation read the socket behind the last one.\<close>
theorem descriptor_107_out_of_bounds:
  assumes "length (sockets st) = MDM_MAX_SOCKETS"
  shows "offload_close 107 st = None \<and> offload_connect net 107 a l st = None \<and>
     offload_recvfrom net ip0 107 out n st = None \<and> offload_recv net ip0 arr 107 out n dw st = None \<and>
     offload_sendto net 107 buf to st = None \<and> offload_send net 107 buf st = None"
proof -
  have "VALID_SOCKET 107 st = None" using assms by (simp add: VALID_SOCKET_def MDM_MAX_SOCKETS_def rd_out)
  then show ?thesis
    by (simp add: offload_close_def offload_connect_def offload_recvfrom_def offload_recv_def offload_sendto_def offload_send_def)
qed

theorem descriptor_107_out_of_bounds_witness:
  "offload_send plain_net 107 [1] (fresh_n2 []) = None"
  using descriptor_107_out_of_bounds [of "fresh_n2 []"] by (simp add: fresh_n2_def MDM_MAX_SOCKETS_def)

lemma nsorf_command_fits:
  assumes "0 \<le> (i::int)" "i < 10 ^ 9" "0 \<le> (len::int)"
  shows "length (cstr ''AT+NSORF='' @ fmt_d i @ [44] @ fmt_d (min MAX_RECEIVE len) @ [13, 10]) < CMD_BUFFER_SIZE"
proof -
  have "length (fmt_d i) \<le> 9" using assms(1,2) by (intro length_fmt_d) simp_all
  moreover have "length (fmt_d (min MAX_RECEIVE len)) \<le> 3"
    using assms(3) by (intro length_fmt_d) (simp_all add: MAX_RECEIVE_def)
  ultimately show ?thesis by (simp add: CMD_BUFFER_SIZE_def)
qed

lemma fill_from_answer:
  assumes "c_str ip = Some addr"
  shows "fill_from net ip (int p) from = Some (map_option (\<lambda>a. a\<lparr>sin_family := AF_INET, sin_port := htons net (of_nat p),
     sin_addr := (case inet_pton net addr of None \<Rightarrow> sin_addr a | Some w \<Rightarrow> w)\<rparr>) from)"
  using assms by (auto simp: fill_from_def split: option.split)

lemma recvfrom_gives:
  assumes "n2_ok False st" "100 \<le> sfd" "sfd < 107" "i = nat (sfd - 100)" "in_use (sockets st ! i)"
    "0 \<le> s_id (sockets st ! i)" "s_id (sockets st ! i) < 10 ^ 9" "incoming_len (sockets st ! i) \<noteq> 0" "0 \<le> len"
    "\<forall>l \<in> set before. plain_line l \<and> (blank_line l \<or> urc_line l)" "\<forall>l \<in> set after. plain_line l"
    "fd < 10 ^ 9" "p < 10 ^ 9" "n < 10 ^ 9" "\<forall>b \<in> set addr. rf_char b \<and> b \<noteq> 0" "length addr < 16"
    "length ip0 = 16" "length d \<le> length (out_buf out)" "d \<noteq> []" "length d \<le> 512" "plain_line rest" "length rest \<le> 512"
    "script (mdm st) = map Some (wire (before @ nsorf_line fd addr p n d rest # after)) @ final_bytes AT_OK @ rx"
  shows "\<exists>out' st'. offload_recvfrom net ip0 sfd out len st = Some (Inr (int (length d)), out', st') \<and>
     out_buf out' = d @ drop (length d) (out_buf out) \<and>
     out_from out' = map_option (\<lambda>a. a\<lparr>sin_family := AF_INET, sin_port := htons net (of_nat p),
        sin_addr := (case inet_pton net addr of None \<Rightarrow> sin_addr a | Some w \<Rightarrow> w)\<rparr>) (out_from out) \<and>
     sockets st' = (sockets st)[i := (sockets st ! i)\<lparr>incoming_len := 0\<rparr>] \<and>
     trace (mdm st') = trace (mdm st) @ [Take,
        Write (cstr ''AT+NSORF='' @ fmt_d (s_id (sockets st ! i)) @ [44] @ fmt_d (min 512 len) @ [13, 10]), Give] \<and>
     script (mdm st') = rx \<and> next_free_port st' = next_free_port st"
proof -
  let ?s = "sockets st ! i"
  have slen: "length (sockets st) = 7" using assms(1) by (simp add: n2_ok_def MDM_MAX_SOCKETS_def)
  have i: "i < 7" "S_TO_I sfd = i" using assms(2-4) by (simp_all add: S_TO_I_def nat_less_iff)
  have valid: "VALID_SOCKET sfd st = Some True"
    using slen i assms(2-5) by (simp add: VALID_SOCKET_def MDM_MAX_SOCKETS_def rd_in)
  define cmd where "cmd = cstr ''AT+NSORF='' @ fmt_d (s_id ?s) @ [44] @ fmt_d (min MAX_RECEIVE len) @ [13, 10]"
  have fits: "length cmd < CMD_BUFFER_SIZE" unfolding cmd_def by (rule nsorf_command_fits [OF assms(6,7,9)])
  have nz: "0 \<notin> set cmd" by (simp add: cmd_def zero_not_in_fmt_d)
  let ?st1 = "(sem_op Take st)\<lparr>modem_command_buffer := replicate (length (modem_command_buffer st)) 0\<rparr>"
  have ok1: "n2_ok True ?st1" using ok_buffer [OF ok_take [OF assms(1)]] by simp
  obtain st2 where 1: "send_cmd cmd ?st1 = Some st2" "trace (mdm st2) = trace (mdm st) @ [Take, Write cmd]"
      "script (mdm st2) = script (mdm st)" "sockets st2 = sockets st" "next_free_port st2 = next_free_port st"
    using send_cmd_fields [OF ok1 fits nz] by auto
  obtain c where c: "atnsorf_decode 0 ip0 0 (out_buf out) 0 0 (script (mdm st2)) = Some (AT_OK, c, rx)"
    "rf_port c = int p" "c_str (rf_ip c) = Some addr" "rf_data c = d @ drop (length d) (out_buf out)"
    "rf_received c = length d" "rf_remaining c = 0"
    using nsorf_decodes [OF assms(10-16), of ip0 d "out_buf out" rest AT_OK 0 0 0 0 rx] assms(16-23) 1(3) by auto
  have len: "(if MAX_RECEIVE < len then MAX_RECEIVE else len) = min MAX_RECEIVE len" by simp
  let ?st3 = "st2\<lparr>mdm := (mdm st2)\<lparr>script := rx\<rparr>\<rparr>"
  let ?st4 = "sem_op Give (?st3\<lparr>sockets := (sockets st)[i := ?s\<lparr>incoming_len := 0\<rparr>]\<rparr>)"
  let ?out = "out\<lparr>out_buf := rf_data c, out_fromlen := map_option (\<lambda>_. sizeof_sockaddr_in net) (out_fromlen out)\<rparr>"
  let ?from = "map_option (\<lambda>a. a\<lparr>sin_family := AF_INET, sin_port := htons net (of_nat p),
      sin_addr := (case inet_pton net addr of None \<Rightarrow> sin_addr a | Some w \<Rightarrow> w)\<rparr>) (out_from out)"
  have set: "set_socket i (\<lambda>s. s\<lparr>incoming_len := 0\<rparr>) ?st3 = Some (?st3\<lparr>sockets := (sockets st)[i := ?s\<lparr>incoming_len := 0\<rparr>]\<rparr>)"
    using slen i 1(4) by (simp add: set_socket_def rd_in wr_in)
  have rd: "rd (sockets (sem_op Take st)) i = Some ?s" using slen i by (simp add: rd_in)
  have f: "fill_from net (rf_ip c) (rf_port c) (out_from ?out) = Some ?from" using fill_from_answer [OF c(3)] c(2) by simp
  have "offload_recvfrom net ip0 sfd out len st = Some (Inr (int (length d)), ?out\<lparr>out_from := ?from\<rparr>, ?st4)"
    using valid i(2) rd assms(8,19) 1(1) c(1,5,6) set f by (simp add: offload_recvfrom_def Let_def len cmd_def)
  then show ?thesis
    using 1 c(4) by (auto simp: cmd_def MAX_RECEIVE_def)
qed

text \<open>C23: Receiving on an open socket with waiting data asks the modem for at most 512 bytes and,
  when the answer carries data and ends with OK, stores exactly these bytes, returns their number,
  reports the sender's address and port, and marks the socket as empty. The last holds also when the remaining-length field of the answer says that
  the modem keeps more data: the decoder stores 0 whatever that field says, which its own comment calls incorrect
  (\<open>at_commands.c\<close>, line 300).\<close>
theorem recvfrom_delivers:
  assumes "n2_ok False st" "100 \<le> sfd" "sfd < 107" "i = nat (sfd - 100)" "in_use (sockets st ! i)"
    "0 \<le> s_id (sockets st ! i)" "s_id (sockets st ! i) < 10 ^ 9" "incoming_len (sockets st ! i) \<noteq> 0" "0 \<le> len"
    "\<forall>l \<in> set before. plain_line l \<and> (blank_line l \<or> urc_line l)" "\<forall>l \<in> set after. plain_line l"
    "fd < 10 ^ 9" "p < 10 ^ 9" "n < 10 ^ 9" "\<forall>b \<in> set addr. rf_char b \<and> b \<noteq> 0" "length addr < 16"
    "length ip0 = 16" "length d \<le> length (out_buf out)" "d \<noteq> []" "length d \<le> 512" "plain_line rest" "length rest \<le> 512"
    "script (mdm st) = map Some (wire (before @ nsorf_line fd addr p n d rest # after)) @ final_bytes AT_OK @ rx"
  shows "\<exists>out' st'. offload_recvfrom net ip0 sfd out len st = Some (Inr (int (length d)), out', st') \<and>
     out_buf out' = d @ drop (length d) (out_buf out) \<and>
     out_from out' = map_option (\<lambda>a. a\<lparr>sin_family := AF_INET, sin_port := htons net (of_nat p),
        sin_addr := (case inet_pton net addr of None \<Rightarrow> sin_addr a | Some w \<Rightarrow> w)\<rparr>) (out_from out) \<and>
     sockets st' = (sockets st)[i := (sockets st ! i)\<lparr>incoming_len := 0\<rparr>] \<and>
     trace (mdm st') = trace (mdm st) @ [Take,
        Write (cstr ''AT+NSORF='' @ fmt_d (s_id (sockets st ! i)) @ [44] @ fmt_d (min 512 len) @ [13, 10]), Give] \<and>
     script (mdm st') = rx"
  using recvfrom_gives [OF assms] by blast

theorem recvfrom_delivers_witness:
  "\<exists>out' st'. offload_recvfrom plain_net (replicate 16 0) 100
      \<lparr>out_buf = replicate 512 9, out_from = None, out_fromlen = None\<rparr> 1024
      (open_n2 (map Some (wire ([[]] @ nsorf_line 3 [49, 46, 50] 5683 2 [7, 0xFE] [48] # [[]])) @ final_bytes AT_OK @ [])) =
      Some (Inr 2, out', st') \<and> out_buf out' = [7, 0xFE] @ replicate 510 9 \<and> script (mdm st') = []"
proof -
  let ?rx = "map Some (wire ([[]] @ nsorf_line 3 [49, 46, 50] 5683 2 [7, 0xFE] [48] # [[]])) @ final_bytes AT_OK @ []"
  have s: "sockets (open_n2 ?rx) ! 0 = fresh_socket\<lparr>s_id := 3, in_use := True, connected := True, incoming_len := 4,
     remote_addr := Some \<lparr>sin_family = AF_INET, sin_port = 5683, sin_addr = 9\<rparr>\<rparr>"
    "script (mdm (open_n2 ?rx)) = ?rx"
    by (simp_all add: open_n2_def fresh_n2_def)
  have c: "plain_line []" "plain_line [48]" "blank_line []" "\<forall>b \<in> set [49, 46, 50]. rf_char b \<and> b \<noteq> 0"
    by (simp_all add: plain_line_def blank_line_def rf_char_def isspace_def)
  show ?thesis
    using recvfrom_delivers [OF open_n2_ok [of ?rx], of 100 0 1024 "[[]]" "[[]]" 3 5683 2 "[49, 46, 50]" "replicate 16 0" "[7, 0xFE]"
      "\<lparr>out_buf = replicate 512 9, out_from = None, out_fromlen = None\<rparr>" "[48]" "[]" plain_net] s c
    by (simp add: drop_replicate) blast
qed

end
