(* ===== verification/Config.thy ===== *)
theory Config
  imports Comms
begin

text \<open>
  The configuration of \<open>config.c\<close> and \<open>config_message.c\<close>: four access points, each with the
  address of its server, kept in flash, chosen by trying them in order, and replaced by a
  configuration message. The flash store, the protobuf codec and the clock are parameters. Local
  arrays that the code does not initialise are arguments.
\<close>

section \<open>State\<close>

definition NVS_APN_NAME_ID :: nat where "NVS_APN_NAME_ID = 1"
definition NVS_APN_COUNT :: nat where "NVS_APN_COUNT = 4"

record apn_config =
  apn1 :: bytes
  apn2 :: bytes
  apn3 :: bytes
  apn4 :: bytes
  coap1 :: bytes
  coap2 :: bytes
  coap3 :: bytes
  coap4 :: bytes

text \<open>
  The flash store: reading an entry into a structure gives a result code and the structure
  afterwards, writing gives a result code and the store afterwards.
\<close>
record 'fs nvs =
  nvs_mount :: "'fs \<Rightarrow> 'fs"
  nvs_read :: "'fs \<Rightarrow> nat \<Rightarrow> apn_config \<Rightarrow> int \<times> apn_config"
  nvs_write :: "'fs \<Rightarrow> nat \<Rightarrow> apn_config \<Rightarrow> int \<times> 'fs"

record 'fs config =
  CURRENT_APN_CONFIG :: apn_config
  CURRENT_APN_BUFFER :: bytes
  CURRENT_COAP_BUFFER :: bytes
  define_ctx :: bytes
  free_port :: int
  radio :: modem
  flash :: 'fs
  URL_BUF :: bytes
  ping_id :: int

section \<open>Flash\<close>

definition save_apn_config :: "'fs nvs \<Rightarrow> 'fs config \<Rightarrow> int \<times> 'fs config" where
  "save_apn_config nv st =
     (let (b, fs) = nvs_write nv (flash st) NVS_APN_NAME_ID (CURRENT_APN_CONFIG st) in (b, st\<lparr>flash := fs\<rparr>))"

definition init_default_config :: "apn_config \<Rightarrow> apn_config option" where
  "init_default_config c = do {
     a1 \<leftarrow> strcpy (apn1 c) (cstr ''mda.lab5e'');
     a2 \<leftarrow> strcpy (apn2 c) (cstr ''mda.ee'');
     a3 \<leftarrow> strcpy (apn3 c) (cstr ''telenor.iotgw'');
     a4 \<leftarrow> strcpy (apn4 c) (cstr ''telenor.iot'');
     c1 \<leftarrow> strcpy (coap1 c) (cstr ''172.16.15.14'');
     c2 \<leftarrow> strcpy (coap2 c) (cstr ''172.16.15.14'');
     c3 \<leftarrow> strcpy (coap3 c) (cstr ''172.16.32.1'');
     c4 \<leftarrow> strcpy (coap4 c) (cstr ''88.99.192.151'');
     Some \<lparr>apn1 = a1, apn2 = a2, apn3 = a3, apn4 = a4, coap1 = c1, coap2 = c2, coap3 = c3, coap4 = c4\<rparr> }"

text \<open>\<open>strcmp (a, b) != 0\<close> on two arrays that hold strings.\<close>
definition strcmp_ne :: "bytes \<Rightarrow> bytes \<Rightarrow> bool option" where
  "strcmp_ne a b = do { x \<leftarrow> c_str a; y \<leftarrow> c_str b; Some (x \<noteq> y) }"

text \<open>\<open>if (0 != strlen (src)) strcpy (dst, src)\<close>.\<close>
definition copy_nonempty :: "bytes \<Rightarrow> bytes \<Rightarrow> bytes option" where
  "copy_nonempty dst src = do { s \<leftarrow> c_str src; if s = [] then Some dst else strcpy dst s }"

definition has_flash_config :: "'fs nvs \<Rightarrow> apn_config \<Rightarrow> 'fs config \<Rightarrow> (bool \<times> 'fs config) option" where
  "has_flash_config nv tmp0 st =
     (let (rc, tmp) = nvs_read nv (flash st) NVS_APN_NAME_ID tmp0; c = CURRENT_APN_CONFIG st
      in if \<not> 0 < rc then Some (False, st)
      else do {
        d1 \<leftarrow> strcmp_ne (apn4 tmp) (apn4 c);
        if d1 then Some (False, st)
        else do {
          d2 \<leftarrow> strcmp_ne (coap4 tmp) (coap4 c);
          if d2 then Some (False, st)
          else do {
            a1 \<leftarrow> copy_nonempty (apn1 c) (apn1 tmp);
            a2 \<leftarrow> copy_nonempty (apn2 c) (apn2 tmp);
            a3 \<leftarrow> copy_nonempty (apn3 c) (apn3 tmp);
            c1 \<leftarrow> copy_nonempty (coap1 c) (coap1 tmp);
            c2 \<leftarrow> copy_nonempty (coap2 c) (coap2 tmp);
            c3 \<leftarrow> copy_nonempty (coap3 c) (coap3 tmp);
            Some (True, st\<lparr>CURRENT_APN_CONFIG := c\<lparr>apn1 := a1, apn2 := a2, apn3 := a3, coap1 := c1, coap2 := c2, coap3 := c3\<rparr>\<rparr>) } } })"

text \<open>The results of the flash driver are only logged.\<close>
definition init_config_nvs :: "'fs nvs \<Rightarrow> apn_config \<Rightarrow> 'fs config \<Rightarrow> 'fs config option" where
  "init_config_nvs nv tmp0 st = do {
     c \<leftarrow> init_default_config (CURRENT_APN_CONFIG st);
     let st = st\<lparr>CURRENT_APN_CONFIG := c, flash := nvs_mount nv (flash st)\<rparr>;
     (found, st) \<leftarrow> has_flash_config nv tmp0 st;
     Some (if found then st else snd (save_apn_config nv st)) }"

section \<open>Choosing an access point\<close>

text \<open>
  The steps that both searches make with one access point: take it as the current one, restart
  and configure the modem, wait for an address, and ask once more whether there is one.
\<close>
definition try_apn :: "bytes \<Rightarrow> bytes \<Rightarrow> bytes \<Rightarrow> 'fs config \<Rightarrow> (bool \<times> 'fs config) option" where
  "try_apn ip0 pAPN pCOAP st = do {
     a \<leftarrow> c_str pAPN;
     apnb \<leftarrow> strcpy (CURRENT_APN_BUFFER st) a;
     c \<leftarrow> c_str pCOAP;
     coapb \<leftarrow> strcpy (CURRENT_COAP_BUFFER st) c;
     (port, m) \<leftarrow> modem_restart (radio st);
     (ctx, m) \<leftarrow> modem_configure apnb (define_ctx st) m;
     m \<leftarrow> wait_until_ready ip0 0 m;
     (ready, m) \<leftarrow> modem_is_ready ip0 m;
     Some (ready, st\<lparr>CURRENT_APN_BUFFER := apnb, CURRENT_COAP_BUFFER := coapb, define_ctx := ctx,
       free_port := port, radio := m\<rparr>) }"

text \<open>The \<open>switch\<close> over the index of the access point.\<close>
definition apn_slots :: "apn_config \<Rightarrow> (bytes \<times> bytes) list" where
  "apn_slots c = [(apn1 c, coap1 c), (apn2 c, coap2 c), (apn3 c, coap3 c), (apn4 c, coap4 c)]"

text \<open>How the search ends: with an access point, or with a reboot an hour later.\<close>
datatype selection = Selected | Rebooted

fun select_loop :: "bytes \<Rightarrow> (bytes \<times> bytes) list \<Rightarrow> 'fs config \<Rightarrow> (selection \<times> 'fs config) option" where
  "select_loop ip0 [] st = Some (Rebooted, st\<lparr>radio := emit (Sleep (1000 * 60 * 60)) (radio st)\<rparr>)"
| "select_loop ip0 ((a, c) # slots) st = do {
     (ready, st) \<leftarrow> try_apn ip0 a c st;
     if ready then Some (Selected, st) else select_loop ip0 slots st }"

definition select_active_apn :: "bytes \<Rightarrow> 'fs config \<Rightarrow> (selection \<times> 'fs config) option" where
  "select_active_apn ip0 st = select_loop ip0 (take NVS_APN_COUNT (apn_slots (CURRENT_APN_CONFIG st))) st"

definition select_ping_apn :: "bytes \<Rightarrow> 'fs config \<Rightarrow> (bool \<times> 'fs config) option" where
  "select_ping_apn ip0 st = try_apn ip0 (apn4 (CURRENT_APN_CONFIG st)) (coap4 (CURRENT_APN_CONFIG st)) st"

section \<open>Configuration messages\<close>

record aqconfig_setapn =
  set_apn1 :: bytes
  set_apn2 :: bytes
  set_apn3 :: bytes
  set_coap1 :: bytes
  set_coap2 :: bytes
  set_coap3 :: bytes

text \<open>
  \<open>sscanf (url, "coap://%99[^:]:...", ip, ...)\<close>: the array \<open>ip\<close> is written only when the scheme
  matches and at least one character follows. Port and path are not used.
\<close>
definition scan_host :: "bytes \<Rightarrow> bytes \<Rightarrow> bytes option" where
  "scan_host ip s =
     (let host = take 99 (takeWhile (\<lambda>b. b \<noteq> 58) (drop 7 s))
      in if take 7 s = cstr ''coap://'' \<and> host \<noteq> [] then strcpy ip host else Some ip)"

definition rewrite_URL_to_IP_only :: "bytes \<Rightarrow> bytes \<Rightarrow> 'fs config \<Rightarrow> (bytes \<times> 'fs config) option" where
  "rewrite_URL_to_IP_only ip0 url st = do {
     s \<leftarrow> c_str url;
     ub \<leftarrow> strcpy (URL_BUF st) s;
     ip \<leftarrow> scan_host ip0 s;
     t \<leftarrow> c_str ip;
     url \<leftarrow> strcpy url t;
     Some (url, st\<lparr>URL_BUF := ub\<rparr>) }"

text \<open>A chain of tests of strings joined by \<open>||\<close>: it stops at the first that holds.\<close>
fun any_empty :: "bytes list \<Rightarrow> bool option" where
  "any_empty [] = Some False"
| "any_empty (a # as) = do { s \<leftarrow> c_str a; if s = [] then Some True else any_empty as }"

fun any_differs :: "(bytes \<times> bytes) list \<Rightarrow> bool option" where
  "any_differs [] = Some False"
| "any_differs ((a, b) # r) = do { d \<leftarrow> strcmp_ne a b; if d then Some True else any_differs r }"

definition copy_str :: "bytes \<Rightarrow> bytes \<Rightarrow> bytes option" where
  "copy_str dst src = do { s \<leftarrow> c_str src; strcpy dst s }"

text \<open>
  \<open>pb_decode\<close> fills the message or fails. The array \<open>ip\<close> of \<open>rewrite_URL_to_IP_only\<close> has
  whatever the stack holds at each of the three calls.
\<close>
definition decode_config_message ::
  "(bytes \<Rightarrow> aqconfig_setapn option) \<Rightarrow> 'fs nvs \<Rightarrow> bytes \<times> bytes \<times> bytes \<Rightarrow> bytes \<Rightarrow> 'fs config \<Rightarrow>
     (int \<times> 'fs config) option" where
  "decode_config_message pb_decode nv ips buf st =
     (case pb_decode buf of
        None \<Rightarrow> Some (-1, st)
      | Some t \<Rightarrow> do {
          let (ip1, ip2, ip3) = ips;
          (u1, st) \<leftarrow> rewrite_URL_to_IP_only ip1 (set_coap1 t) st;
          (u2, st) \<leftarrow> rewrite_URL_to_IP_only ip2 (set_coap2 t) st;
          (u3, st) \<leftarrow> rewrite_URL_to_IP_only ip3 (set_coap3 t) st;
          empty \<leftarrow> any_empty [set_apn1 t, set_apn2 t, set_apn3 t, u1, u2, u3];
          if empty then Some (-2, st)
          else do {
            let c = CURRENT_APN_CONFIG st;
            modified \<leftarrow> any_differs [(apn1 c, set_apn1 t), (apn2 c, set_apn2 t), (apn3 c, set_apn3 t),
               (coap1 c, u1), (coap2 c, u2), (coap3 c, u3)];
            if \<not> modified then Some (-3, st)
            else do {
              a1 \<leftarrow> copy_str (apn1 c) (set_apn1 t);
              a2 \<leftarrow> copy_str (apn2 c) (set_apn2 t);
              a3 \<leftarrow> copy_str (apn3 c) (set_apn3 t);
              c1 \<leftarrow> copy_str (coap1 c) u1;
              c2 \<leftarrow> copy_str (coap2 c) u2;
              c3 \<leftarrow> copy_str (coap3 c) u3;
              let st = st\<lparr>CURRENT_APN_CONFIG := c\<lparr>apn1 := a1, apn2 := a2, apn3 := a3, coap1 := c1, coap2 := c2, coap3 := c3\<rparr>\<rparr>;
              Some (0, snd (save_apn_config nv st)) } } })"

record aqconfig_ping =
  pb_id :: u32
  pb_deviceid :: u64
  pb_timestamp :: u32

text \<open>\<open>pb_encode\<close> into a buffer of the given size: the bytes, or failure.\<close>
definition encode_ping ::
  "(nat \<Rightarrow> aqconfig_ping \<Rightarrow> bytes option) \<Rightarrow> nat \<Rightarrow> bytes \<Rightarrow> nat \<Rightarrow> 'fs config \<Rightarrow> (bytes option \<times> 'fs config) option" where
  "encode_ping pb_encode uptime imei_arr n st = do {
     s \<leftarrow> c_str imei_arr;
     let ping = \<lparr>pb_id = of_int (ping_id st), pb_deviceid = of_int (atoll s), pb_timestamp = of_nat (uptime div 1000)\<rparr>;
     Some (pb_encode n ping, st\<lparr>ping_id := ping_id st + 1\<rparr>) }"

section \<open>Arrays that hold strings\<close>

definition str_arr :: "nat \<Rightarrow> bytes \<Rightarrow> bytes \<Rightarrow> bool" where
  "str_arr n a s \<longleftrightarrow> length a = n \<and> c_str a = Some s"

lemma str_arrD: "str_arr n a s \<Longrightarrow> c_str a = Some s \<and> length a = n \<and> length s < n \<and> 0 \<notin> set s"
proof -
  assume a: "str_arr n a s"
  then obtain r where "a = s @ 0 # r" "0 \<notin> set s" using c_str_SomeD [of a s] by (auto simp only: str_arr_def)
  then show ?thesis using a by (simp add: str_arr_def)
qed

lemma strcpy_arr:
  assumes "length d = n" "length s < n" "0 \<notin> set s"
  shows "\<exists>d'. strcpy d s = Some d' \<and> str_arr n d' s"
proof -
  obtain d' where d: "strcpy d s = Some d'" using strcpy_fits [of s d] assms by auto
  then show ?thesis using strcpy_length [OF d] strcpy_str [OF d] assms by (simp add: str_arr_def)
qed

lemma strcmp_ne_arr: "str_arr n a s \<Longrightarrow> str_arr k b t \<Longrightarrow> strcmp_ne a b = Some (s \<noteq> t)"
  by (simp add: strcmp_ne_def str_arr_def)

lemma copy_str_arr: "str_arr n a s \<Longrightarrow> length d = n \<Longrightarrow> \<exists>d'. copy_str d a = Some d' \<and> str_arr n d' s"
  using strcpy_arr [of d n s] str_arrD [of n a s] by (simp add: copy_str_def)

lemma copy_nonempty_arr: "str_arr n a s \<Longrightarrow> s \<noteq> [] \<Longrightarrow> length d = n \<Longrightarrow> \<exists>d'. copy_nonempty d a = Some d' \<and> str_arr n d' s"
  using strcpy_arr [of d n s] str_arrD [of n a s] by (simp add: copy_nonempty_def)

text \<open>The arrays of a configuration hold the strings of an abstract one.\<close>
definition holds_config :: "apn_config \<Rightarrow> apn_config \<Rightarrow> bool" where
  "holds_config c v \<longleftrightarrow>
     (str_arr 64 (apn1 c) (apn1 v) \<and> str_arr 64 (apn2 c) (apn2 v) \<and> str_arr 64 (apn3 c) (apn3 v) \<and> str_arr 64 (apn4 c) (apn4 v)) \<and>
     (str_arr 128 (coap1 c) (coap1 v) \<and> str_arr 128 (coap2 c) (coap2 v) \<and> str_arr 128 (coap3 c) (coap3 v) \<and> str_arr 128 (coap4 c) (coap4 v))"

lemmas holds_configD = holds_config_def [THEN iffD1, THEN conjunct1] holds_config_def [THEN iffD1, THEN conjunct2]

definition sized_config :: "apn_config \<Rightarrow> bool" where
  "sized_config c \<longleftrightarrow> length (apn1 c) = 64 \<and> length (apn2 c) = 64 \<and> length (apn3 c) = 64 \<and> length (apn4 c) = 64 \<and>
     length (coap1 c) = 128 \<and> length (coap2 c) = 128 \<and> length (coap3 c) = 128 \<and> length (coap4 c) = 128"

definition default_config :: apn_config where
  "default_config = \<lparr>apn1 = cstr ''mda.lab5e'', apn2 = cstr ''mda.ee'', apn3 = cstr ''telenor.iotgw'', apn4 = cstr ''telenor.iot'',
     coap1 = cstr ''172.16.15.14'', coap2 = cstr ''172.16.15.14'', coap3 = cstr ''172.16.32.1'', coap4 = cstr ''88.99.192.151''\<rparr>"

lemma strcpy_bind:
  assumes "length d = n" "length s < n" "0 \<notin> set s" "\<And>d'. str_arr n d' s \<Longrightarrow> \<exists>r. f d' = Some r \<and> P r"
  shows "\<exists>r. Option.bind (strcpy d s) f = Some r \<and> P r"
  using strcpy_arr [OF assms(1-3)] assms(4) by fastforce

lemma init_default_config_holds:
  assumes "sized_config c"
  shows "\<exists>d. init_default_config c = Some d \<and> holds_config d default_config"
  unfolding init_default_config_def
  using assms
  by (intro strcpy_bind [where n = 64] strcpy_bind [where n = 128]) (auto simp: sized_config_def holds_config_def default_config_def)

section \<open>Trying access points\<close>

text \<open>An answer without information: OK, ERROR or silence.\<close>
definition short_reply :: "rx_script \<Rightarrow> bool" where
  "short_reply r \<longleftrightarrow> r = final_bytes AT_OK \<or> r = final_bytes AT_ERROR \<or> r = final_bytes AT_TIMEOUT"

lemma short_reply_result:
  assumes "short_reply r"
  shows "\<exists>code. at_generic_decode (r @ rx) = Some (code, rx) \<and> atnrb_decode (r @ rx) = Some (code, rx)"
proof -
  have "\<exists>ctx. decode_input no_char no_eol () (final_bytes k @ rx) = Some (k, ctx, rx)" if "k \<in> {AT_OK, AT_ERROR, AT_TIMEOUT}" for k
    using decode_response [of "[]" k no_char no_eol "()" rx] that
    by (auto simp: wire_def final_chars_def at_results no_char_def)
  then show ?thesis
    using assms unfolding short_reply_def
    by (fastforce simp: at_generic_decode_def at_decode_def atnrb_decode_def)
qed

lemma await_short:
  assumes "short_reply r" "script m = r @ rx"
  shows "\<exists>code. await at_generic_decode m = Some (code, m\<lparr>script := rx\<rparr>)"
    "\<exists>code. await atnrb_decode m = Some (code, m\<lparr>script := rx\<rparr>)"
  using short_reply_result [OF assms(1), of rx] by (auto simp: await_def assms(2))

text \<open>What restarting and configuring the modem sends.\<close>
definition setup_events :: "bytes \<Rightarrow> event list" where
  "setup_events apn = [Write (cstr ''AT+NRB'' @ [13]), Write (define_context apn), Write autoconnect, Sleep 1000]"

lemma setup_runs:
  assumes "short_reply r1" "short_reply r2" "short_reply r3" "script m = r1 @ r2 @ r3 @ rx"
    "str_arr 64 a apn" "length ctx = 85"
  shows "\<exists>ctx'. length ctx' = 85 \<and>
     Option.bind (modem_restart m) (\<lambda>(port, m). Option.bind (modem_configure a ctx m) (\<lambda>(ctx, m). f port ctx m)) =
     f NEXT_FREE_PORT ctx' (m\<lparr>script := rx, trace := trace m @ setup_events apn\<rparr>)"
proof -
  let ?m1 = "m\<lparr>script := r2 @ r3 @ rx, trace := trace m @ [Write (cstr ''AT+NRB'' @ [13])]\<rparr>"
  have r: "modem_restart m = Some (NEXT_FREE_PORT, ?m1)"
    using await_short(2) [OF assms(1), of "m\<lparr>trace := trace m @ [Write (cstr ''AT+NRB'' @ [13])]\<rparr>" "r2 @ r3 @ rx"] assms(4)
    by (auto simp: modem_restart_def modem_write_def emit_def)
  obtain ctx' where c: "length ctx' = 85" "modem_configure a ctx ?m1 =
      Option.bind (await at_generic_decode (modem_write (define_context apn) ?m1)) (\<lambda>(_, m).
      Option.bind (await at_generic_decode (modem_write autoconnect m)) (\<lambda>(_, m). Some (ctx', emit (Sleep 1000) m)))"
    using modem_configure_commands [of a apn ctx ?m1] assms(5,6) str_arrD [OF assms(5)] by blast
  have "modem_configure a ctx ?m1 = Some (ctx', m\<lparr>script := rx, trace := trace m @ setup_events apn\<rparr>)"
    using await_short(1) [OF assms(2), of "modem_write (define_context apn) ?m1" "r3 @ rx"]
      await_short(1) [OF assms(3), of "modem_write autoconnect (modem_write (define_context apn) (?m1\<lparr>script := r3 @ rx\<rparr>))" rx]
    unfolding c(2) by (auto simp: modem_write_def emit_def setup_events_def)
  then show ?thesis using c(1) r by (intro exI [of _ ctx']) simp
qed

text \<open>
  The answers to one attempt: three short ones to the set-up commands and, when there is no
  network, 31 answers without an address to the wait and one to the last query. When there is one,
  the wait ends at the first answer with an address, and the last query gets one too.
\<close>
definition dead_attempt :: "rx_script \<Rightarrow> bool" where
  "dead_attempt s \<longleftrightarrow> (\<exists>r1 r2 r3 rs r. s = r1 @ r2 @ r3 @ concat rs @ r \<and> short_reply r1 \<and> short_reply r2 \<and> short_reply r3 \<and>
     length rs = 31 \<and> (\<forall>q \<in> set rs. no_address q) \<and> no_address r)"

definition has_address :: "bytes \<Rightarrow> bool" where
  "has_address t \<longleftrightarrow> addr_text t \<and> 1 < length (quoted (filter (\<lambda>b. \<not> isspace b) t))"

definition live_attempt :: "nat \<Rightarrow> rx_script \<Rightarrow> bool" where
  "live_attempt n s \<longleftrightarrow> (\<exists>r1 r2 r3 rs t u. s = r1 @ r2 @ r3 @ concat rs @ address_reply t @ address_reply u \<and>
     short_reply r1 \<and> short_reply r2 \<and> short_reply r3 \<and> length rs = n \<and> n \<le> 30 \<and> (\<forall>q \<in> set rs. no_address q) \<and>
     has_address t \<and> has_address u)"

text \<open>The events of an attempt whose wait makes \<open>n\<close> pauses.\<close>
definition attempt_events :: "bytes \<Rightarrow> nat \<Rightarrow> event list" where
  "attempt_events apn n = setup_events apn @ concat (replicate n poll) @ [cgpaddr_query, cgpaddr_query]"

definition config_ok :: "'fs config \<Rightarrow> bool" where
  "config_ok st \<longleftrightarrow> length (CURRENT_APN_BUFFER st) = 64 \<and> length (CURRENT_COAP_BUFFER st) = 128 \<and> length (define_ctx st) = 85"

text \<open>The state after an attempt.\<close>
definition attempted :: "'fs config \<Rightarrow> bytes \<Rightarrow> bytes \<Rightarrow> nat \<Rightarrow> rx_script \<Rightarrow> 'fs config \<Rightarrow> bool" where
  "attempted st apn coap n rx st' \<longleftrightarrow>
     str_arr 64 (CURRENT_APN_BUFFER st') apn \<and> str_arr 128 (CURRENT_COAP_BUFFER st') coap \<and> length (define_ctx st') = 85 \<and>
     radio st' = (radio st)\<lparr>script := rx, trace := trace (radio st) @ attempt_events apn n\<rparr> \<and>
     CURRENT_APN_CONFIG st' = CURRENT_APN_CONFIG st \<and> flash st' = flash st \<and> free_port st' = NEXT_FREE_PORT"

lemma attempted_ok: "attempted st apn coap n rx st' \<Longrightarrow> config_ok st'"
  by (simp add: attempted_def config_ok_def str_arr_def)

lemma try_apn_runs:
  assumes "config_ok st" "str_arr 64 a apn" "str_arr 128 c coap" "short_reply r1" "short_reply r2" "short_reply r3"
    "script (radio st) = r1 @ r2 @ r3 @ w"
    "\<And>m. script m = w \<Longrightarrow> Option.bind (wait_until_ready ip0 0 m) (modem_is_ready ip0) =
       Some (ready, m\<lparr>script := rx, trace := trace m @ concat (replicate n poll) @ [cgpaddr_query, cgpaddr_query]\<rparr>)"
  shows "\<exists>st'. try_apn ip0 a c st = Some (ready, st') \<and> attempted st apn coap n rx st'"
proof -
  obtain ab where ab: "strcpy (CURRENT_APN_BUFFER st) apn = Some ab" "str_arr 64 ab apn"
    using strcpy_arr [of "CURRENT_APN_BUFFER st" 64 apn] assms(1) str_arrD [OF assms(2)] by (auto simp: config_ok_def)
  obtain cb where cb: "strcpy (CURRENT_COAP_BUFFER st) coap = Some cb" "str_arr 128 cb coap"
    using strcpy_arr [of "CURRENT_COAP_BUFFER st" 128 coap] assms(1) str_arrD [OF assms(3)] by (auto simp: config_ok_def)
  define f where "f = (\<lambda>port ctx m. Option.bind (wait_until_ready ip0 0 m) (\<lambda>m. Option.bind (modem_is_ready ip0 m)
      (\<lambda>(ready, m). Some (ready, st\<lparr>CURRENT_APN_BUFFER := ab, CURRENT_COAP_BUFFER := cb, define_ctx := ctx, free_port := port, radio := m\<rparr>))))"
  obtain ctx' where ctx: "length ctx' = 85"
    "Option.bind (modem_restart (radio st)) (\<lambda>(port, m). Option.bind (modem_configure ab (define_ctx st) m) (\<lambda>(ctx, m). f port ctx m)) =
     f NEXT_FREE_PORT ctx' ((radio st)\<lparr>script := w, trace := trace (radio st) @ setup_events apn\<rparr>)"
    using setup_runs [OF assms(4-7) ab(2), of "define_ctx st" f] assms(1) by (auto simp: config_ok_def)
  have "try_apn ip0 a c st = f NEXT_FREE_PORT ctx' ((radio st)\<lparr>script := w, trace := trace (radio st) @ setup_events apn\<rparr>)"
    using ctx(2) ab(1) cb(1) str_arrD [OF assms(2)] str_arrD [OF assms(3)] by (simp add: try_apn_def f_def)
  also have "\<dots> = Some (ready, st\<lparr>CURRENT_APN_BUFFER := ab, CURRENT_COAP_BUFFER := cb, define_ctx := ctx', free_port := NEXT_FREE_PORT,
      radio := (radio st)\<lparr>script := rx, trace := trace (radio st) @ attempt_events apn n\<rparr>\<rparr>)"
    using assms(8) [of "(radio st)\<lparr>script := w, trace := trace (radio st) @ setup_events apn\<rparr>"]
    by (auto simp: f_def attempt_events_def Option.bind_eq_Some_conv)
  finally show ?thesis using ab(2) cb(2) ctx(1) by (simp add: attempted_def)
qed

lemma try_apn_dead:
  assumes "config_ok st" "str_arr 64 a apn" "str_arr 128 c coap" "length ip0 = 16" "dead_attempt s" "script (radio st) = s @ rx"
  shows "\<exists>st'. try_apn ip0 a c st = Some (False, st') \<and> attempted st apn coap 30 rx st'"
proof -
  obtain r1 r2 r3 rs r where s: "s = r1 @ r2 @ r3 @ concat rs @ r" "short_reply r1" "short_reply r2" "short_reply r3"
    "length rs = 31" "\<forall>q \<in> set rs. no_address q" "no_address r"
    using assms(5) unfolding dead_attempt_def by blast
  have "Option.bind (wait_until_ready ip0 0 m) (modem_is_ready ip0) =
      Some (False, m\<lparr>script := rx, trace := trace m @ concat (replicate 30 poll) @ [cgpaddr_query, cgpaddr_query]\<rparr>)"
    if "script m = concat rs @ r @ rx" for m
    using wait_until_ready_no_address [OF assms(4) s(5,6) that]
      not_ready [of "m\<lparr>script := r @ rx, trace := trace m @ concat (replicate 30 poll) @ [cgpaddr_query]\<rparr>" r rx ip0] s(7) assms(4)
    by simp
  then show ?thesis
    using try_apn_runs [OF assms(1-3) s(2-4), where w = "concat rs @ r @ rx" and ready = False and rx = rx and n = 30 and ?ip0.0 = ip0] assms(6) s(1) by simp
qed

lemma try_apn_live:
  assumes "config_ok st" "str_arr 64 a apn" "str_arr 128 c coap" "length ip0 = 16" "live_attempt n s" "script (radio st) = s @ rx"
  shows "\<exists>st'. try_apn ip0 a c st = Some (True, st') \<and> attempted st apn coap n rx st'"
proof -
  obtain r1 r2 r3 rs t u where s: "s = r1 @ r2 @ r3 @ concat rs @ address_reply t @ address_reply u"
    "short_reply r1" "short_reply r2" "short_reply r3" "length rs = n" "n \<le> 30" "\<forall>q \<in> set rs. no_address q" "has_address t" "has_address u"
    using assms(5) unfolding live_attempt_def by blast
  have "Option.bind (wait_until_ready ip0 0 m) (modem_is_ready ip0) =
      Some (True, m\<lparr>script := rx, trace := trace m @ concat (replicate n poll) @ [cgpaddr_query, cgpaddr_query]\<rparr>)"
    if "script m = concat rs @ address_reply t @ address_reply u @ rx" for m
    using wait_until_ready_address [OF assms(4) _ s(7) _ _ that]
      ready_reply [of "m\<lparr>script := address_reply u @ rx, trace := trace m @ concat (replicate n poll) @ [cgpaddr_query]\<rparr>" u rx ip0]
      s(5,6,8,9) assms(4) by (simp add: has_address_def)
  then show ?thesis
    using try_apn_runs [OF assms(1-3) s(2-4), where w = "concat rs @ address_reply t @ address_reply u @ rx" and ready = True and rx = rx and n = n and ?ip0.0 = ip0] assms(6) s(1)
    by simp
qed

section \<open>The search\<close>

definition slot_holds :: "bytes \<times> bytes \<Rightarrow> bytes \<times> bytes \<Rightarrow> bool" where
  "slot_holds a v \<longleftrightarrow> str_arr 64 (fst a) (fst v) \<and> str_arr 128 (snd a) (snd v)"

lemma slot_holds_pair: "slot_holds (a, c) (s, t) \<longleftrightarrow> str_arr 64 a s \<and> str_arr 128 c t"
  by (simp add: slot_holds_def)

lemma apn_slots_hold: "holds_config c v \<Longrightarrow> list_all2 slot_holds (apn_slots c) (apn_slots v)"
  by (simp add: holds_config_def apn_slots_def slot_holds_def)

definition dead_events :: "(bytes \<times> bytes) list \<Rightarrow> event list" where
  "dead_events vs = concat (map (\<lambda>(apn, _). attempt_events apn 30) vs)"

text \<open>Access points without a network are passed over.\<close>
lemma select_loop_dead:
  assumes "list_all2 slot_holds as vs" "length ds \<le> length as" "\<forall>d \<in> set ds. dead_attempt d" "config_ok st" "length ip0 = 16"
    "script (radio st) = concat ds @ rx"
  shows "\<exists>st'. select_loop ip0 as st = select_loop ip0 (drop (length ds) as) st' \<and> config_ok st' \<and>
     CURRENT_APN_CONFIG st' = CURRENT_APN_CONFIG st \<and> flash st' = flash st \<and>
     radio st' = (radio st)\<lparr>script := rx, trace := trace (radio st) @ dead_events (take (length ds) vs)\<rparr>"
  using assms
proof (induction ds arbitrary: as vs st)
  case Nil
  then show ?case by (intro exI [of _ st]) (cases "radio st", simp add: dead_events_def)
next
  case (Cons d ds)
  from Cons.prems(1,2) obtain a c as' apn coap vs' where as: "as = (a, c) # as'" "vs = (apn, coap) # vs'"
    "str_arr 64 a apn" "str_arr 128 c coap" "list_all2 slot_holds as' vs'"
    by (cases as; cases vs) (auto simp: slot_holds_pair)
  obtain st1 where 1: "try_apn ip0 a c st = Some (False, st1)" "attempted st apn coap 30 (concat ds @ rx) st1"
    using try_apn_dead [OF Cons.prems(4) as(3,4) Cons.prems(5), of d "concat ds @ rx"] Cons.prems(3,6) by auto
  have r1: "radio st1 = (radio st)\<lparr>script := concat ds @ rx, trace := trace (radio st) @ attempt_events apn 30\<rparr>"
    "CURRENT_APN_CONFIG st1 = CURRENT_APN_CONFIG st" "flash st1 = flash st"
    using 1(2) by (simp_all add: attempted_def)
  obtain st2 where "select_loop ip0 as' st1 = select_loop ip0 (drop (length ds) as') st2" "config_ok st2"
    "CURRENT_APN_CONFIG st2 = CURRENT_APN_CONFIG st1" "flash st2 = flash st1"
    "radio st2 = (radio st1)\<lparr>script := rx, trace := trace (radio st1) @ dead_events (take (length ds) vs')\<rparr>"
    using Cons.IH [OF as(5) _ _ attempted_ok [OF 1(2)] Cons.prems(5)] Cons.prems(2,3) as(1) r1(1) by auto
  then show ?case using 1(1) r1 as(1,2) by (intro exI [of _ st2]) (simp add: dead_events_def)
qed

section \<open>Configuration messages and flash\<close>

text \<open>The host part that \<open>sscanf\<close> takes from a URL, and when it takes one.\<close>
definition url_host :: "bytes \<Rightarrow> bytes" where
  "url_host s = take 99 (takeWhile (\<lambda>b. b \<noteq> 58) (drop 7 s))"

definition coap_url :: "bytes \<Rightarrow> bool" where
  "coap_url s \<longleftrightarrow> take 7 s = cstr ''coap://'' \<and> url_host s \<noteq> []"

lemma url_host_small: "length (url_host s) \<le> 99" "0 \<notin> set s \<Longrightarrow> 0 \<notin> set (url_host s)"
  by (auto simp: url_host_def dest!: in_set_takeD set_takeWhileD in_set_dropD)

lemma rewrite_url_runs:
  assumes "str_arr 128 url u" "coap_url u" "length ip0 = 124" "length (URL_BUF st) = 256"
  shows "\<exists>url' ub. rewrite_URL_to_IP_only ip0 url st = Some (url', st\<lparr>URL_BUF := ub\<rparr>) \<and>
     str_arr 128 url' (url_host u) \<and> length ub = 256"
proof -
  note u = str_arrD [OF assms(1)]
  have nz: "0 \<notin> set (url_host u)" using u url_host_small(2) by blast
  obtain ub where ub: "strcpy (URL_BUF st) u = Some ub" "str_arr 256 ub u"
    using strcpy_arr [OF assms(4), of u] u by auto
  obtain ip where ip: "strcpy ip0 (url_host u) = Some ip" "str_arr 124 ip (url_host u)"
    using strcpy_arr [OF assms(3) _ nz] url_host_small(1) [of u] by auto
  obtain url' where url': "strcpy url (url_host u) = Some url'" "str_arr 128 url' (url_host u)"
    using strcpy_arr [of url 128 "url_host u"] url_host_small(1) [of u] nz u by auto
  have "scan_host ip0 u = Some ip"
    using assms(2) ip(1) by (simp add: scan_host_def coap_url_def Let_def flip: url_host_def)
  then show ?thesis
    using ub url' u str_arrD [OF ip(2)] str_arrD [OF ub(2)]
    by (intro exI [of _ url'] exI [of _ ub]) (simp add: rewrite_URL_to_IP_only_def)
qed

definition message_holds :: "aqconfig_setapn \<Rightarrow> aqconfig_setapn \<Rightarrow> bool" where
  "message_holds t w \<longleftrightarrow>
     (str_arr 64 (set_apn1 t) (set_apn1 w) \<and> str_arr 64 (set_apn2 t) (set_apn2 w) \<and> str_arr 64 (set_apn3 t) (set_apn3 w)) \<and>
     (str_arr 128 (set_coap1 t) (set_coap1 w) \<and> str_arr 128 (set_coap2 t) (set_coap2 w) \<and> str_arr 128 (set_coap3 t) (set_coap3 w))"

text \<open>The configuration that a message asks for.\<close>
definition requested :: "apn_config \<Rightarrow> aqconfig_setapn \<Rightarrow> apn_config" where
  "requested v w = v\<lparr>apn1 := set_apn1 w, apn2 := set_apn2 w, apn3 := set_apn3 w,
     coap1 := url_host (set_coap1 w), coap2 := url_host (set_coap2 w), coap3 := url_host (set_coap3 w)\<rparr>"

definition message_code :: "apn_config \<Rightarrow> aqconfig_setapn \<Rightarrow> int" where
  "message_code v w = (if [] \<in> {set_apn1 w, set_apn2 w, set_apn3 w} then -2 else if requested v w = v then -3 else 0)"

lemma requested_same: "requested v w = v \<longleftrightarrow> apn1 v = set_apn1 w \<and> apn2 v = set_apn2 w \<and> apn3 v = set_apn3 w \<and>
     coap1 v = url_host (set_coap1 w) \<and> coap2 v = url_host (set_coap2 w) \<and> coap3 v = url_host (set_coap3 w)"
  by (cases v) (auto simp: requested_def)

lemma copy_nonempty_bind:
  assumes "str_arr n a s" "s \<noteq> []" "length d = n" "\<And>d'. str_arr n d' s \<Longrightarrow> \<exists>r. f d' = Some r \<and> P r"
  shows "\<exists>r. Option.bind (copy_nonempty d a) f = Some r \<and> P r"
  using copy_nonempty_arr [OF assms(1-3)] assms(4) by fastforce

text \<open>The six texts of a message copied into the settings.\<close>
lemma settings_taken:
  assumes "str_arr 64 s1 x1" "str_arr 64 s2 x2" "str_arr 64 s3 x3" "str_arr 128 t1 y1" "str_arr 128 t2 y2" "str_arr 128 t3 y3" "holds_config c v"
  shows "\<exists>a1 a2 a3 c1 c2 c3. copy_str (apn1 c) s1 = Some a1 \<and> copy_str (apn2 c) s2 = Some a2 \<and> copy_str (apn3 c) s3 = Some a3 \<and>
     copy_str (coap1 c) t1 = Some c1 \<and> copy_str (coap2 c) t2 = Some c2 \<and> copy_str (coap3 c) t3 = Some c3 \<and>
     holds_config (c\<lparr>apn1 := a1, apn2 := a2, apn3 := a3, coap1 := c1, coap2 := c2, coap3 := c3\<rparr>)
       (v\<lparr>apn1 := x1, apn2 := x2, apn3 := x3, coap1 := y1, coap2 := y2, coap3 := y3\<rparr>)"
proof -
  have len: "length (apn1 c) = 64" "length (apn2 c) = 64" "length (apn3 c) = 64" "length (coap1 c) = 128"
    "length (coap2 c) = 128" "length (coap3 c) = 128" using assms(7) by (simp_all add: holds_config_def str_arr_def)
  obtain a1 where a1: "copy_str (apn1 c) s1 = Some a1" "str_arr 64 a1 x1" using copy_str_arr [OF assms(1) len(1)] by blast
  obtain a2 where a2: "copy_str (apn2 c) s2 = Some a2" "str_arr 64 a2 x2" using copy_str_arr [OF assms(2) len(2)] by blast
  obtain a3 where a3: "copy_str (apn3 c) s3 = Some a3" "str_arr 64 a3 x3" using copy_str_arr [OF assms(3) len(3)] by blast
  obtain c1 where c1: "copy_str (coap1 c) t1 = Some c1" "str_arr 128 c1 y1" using copy_str_arr [OF assms(4) len(4)] by blast
  obtain c2 where c2: "copy_str (coap2 c) t2 = Some c2" "str_arr 128 c2 y2" using copy_str_arr [OF assms(5) len(5)] by blast
  obtain c3 where c3: "copy_str (coap3 c) t3 = Some c3" "str_arr 128 c3 y3" using copy_str_arr [OF assms(6) len(6)] by blast
  have "holds_config (c\<lparr>apn1 := a1, apn2 := a2, apn3 := a3, coap1 := c1, coap2 := c2, coap3 := c3\<rparr>)
      (v\<lparr>apn1 := x1, apn2 := x2, apn3 := x3, coap1 := y1, coap2 := y2, coap3 := y3\<rparr>)"
    using a1(2) a2(2) a3(2) c1(2) c2(2) c3(2) assms(7) by (simp add: holds_config_def)
  then show ?thesis using a1(1) a2(1) a3(1) c1(1) c2(1) c3(1) by blast
qed

lemma decode_config_runs:
  assumes "pb_decode buf = Some t" "message_holds t w" "coap_url (set_coap1 w)" "coap_url (set_coap2 w)" "coap_url (set_coap3 w)"
    "holds_config (CURRENT_APN_CONFIG st) v" "length (URL_BUF st) = 256" "length ip1 = 124" "length ip2 = 124" "length ip3 = 124"
  shows "\<exists>r. decode_config_message pb_decode nv (ip1, ip2, ip3) buf st = Some r \<and> (case r of (code, st') \<Rightarrow>
     code = message_code v w \<and> holds_config (CURRENT_APN_CONFIG st') (if code = 0 then requested v w else v) \<and>
     flash st' = (if code = 0 then snd (nvs_write nv (flash st) NVS_APN_NAME_ID (CURRENT_APN_CONFIG st')) else flash st))"
proof -
  let ?c = "CURRENT_APN_CONFIG st"
  have m: "str_arr 64 (set_apn1 t) (set_apn1 w)" "str_arr 64 (set_apn2 t) (set_apn2 w)" "str_arr 64 (set_apn3 t) (set_apn3 w)"
    "str_arr 128 (set_coap1 t) (set_coap1 w)" "str_arr 128 (set_coap2 t) (set_coap2 w)" "str_arr 128 (set_coap3 t) (set_coap3 w)"
    using assms(2) by (simp_all add: message_holds_def)
  have c: "str_arr 64 (apn1 ?c) (apn1 v)" "str_arr 64 (apn2 ?c) (apn2 v)" "str_arr 64 (apn3 ?c) (apn3 v)" "str_arr 64 (apn4 ?c) (apn4 v)"
    "str_arr 128 (coap1 ?c) (coap1 v)" "str_arr 128 (coap2 ?c) (coap2 v)" "str_arr 128 (coap3 ?c) (coap3 v)" "str_arr 128 (coap4 ?c) (coap4 v)"
    using assms(6) by (simp_all add: holds_config_def)
  obtain u1 b1 where r1: "rewrite_URL_to_IP_only ip1 (set_coap1 t) st = Some (u1, st\<lparr>URL_BUF := b1\<rparr>)"
    "str_arr 128 u1 (url_host (set_coap1 w))" "length b1 = 256"
    using rewrite_url_runs [OF m(4) assms(3,8,7)] by blast
  obtain u2 b2 where r2: "rewrite_URL_to_IP_only ip2 (set_coap2 t) (st\<lparr>URL_BUF := b1\<rparr>) = Some (u2, st\<lparr>URL_BUF := b2\<rparr>)"
    "str_arr 128 u2 (url_host (set_coap2 w))" "length b2 = 256"
    using rewrite_url_runs [OF m(5) assms(4,9), of "st\<lparr>URL_BUF := b1\<rparr>"] r1(3) by auto
  obtain u3 b3 where r3: "rewrite_URL_to_IP_only ip3 (set_coap3 t) (st\<lparr>URL_BUF := b2\<rparr>) = Some (u3, st\<lparr>URL_BUF := b3\<rparr>)"
    "str_arr 128 u3 (url_host (set_coap3 w))"
    using rewrite_url_runs [OF m(6) assms(5,10), of "st\<lparr>URL_BUF := b2\<rparr>"] r2(3) by auto
  have host: "url_host (set_coap1 w) \<noteq> []" "url_host (set_coap2 w) \<noteq> []" "url_host (set_coap3 w) \<noteq> []"
    using assms(3-5) by (simp_all add: coap_url_def)
  have empty: "any_empty [set_apn1 t, set_apn2 t, set_apn3 t, u1, u2, u3] = Some ([] \<in> {set_apn1 w, set_apn2 w, set_apn3 w})"
    using m(1-3) r1(2) r2(2) r3(2) host by (auto simp: str_arr_def)
  have diff: "any_differs [(apn1 ?c, set_apn1 t), (apn2 ?c, set_apn2 t), (apn3 ?c, set_apn3 t), (coap1 ?c, u1), (coap2 ?c, u2), (coap3 ?c, u3)] =
      Some (requested v w \<noteq> v)"
    using strcmp_ne_arr [OF c(1) m(1)] strcmp_ne_arr [OF c(2) m(2)] strcmp_ne_arr [OF c(3) m(3)]
      strcmp_ne_arr [OF c(5) r1(2)] strcmp_ne_arr [OF c(6) r2(2)] strcmp_ne_arr [OF c(7) r3(2)]
    by (simp add: requested_same)
  consider "[] \<in> {set_apn1 w, set_apn2 w, set_apn3 w}" | "[] \<notin> {set_apn1 w, set_apn2 w, set_apn3 w}" "requested v w = v"
    | "[] \<notin> {set_apn1 w, set_apn2 w, set_apn3 w}" "requested v w \<noteq> v" by blast
  then show ?thesis
  proof cases
    case chosen: 3
    obtain a1 a2 a3 c1 c2 c3 where n: "copy_str (apn1 ?c) (set_apn1 t) = Some a1" "copy_str (apn2 ?c) (set_apn2 t) = Some a2"
      "copy_str (apn3 ?c) (set_apn3 t) = Some a3" "copy_str (coap1 ?c) u1 = Some c1" "copy_str (coap2 ?c) u2 = Some c2" "copy_str (coap3 ?c) u3 = Some c3"
      "holds_config (?c\<lparr>apn1 := a1, apn2 := a2, apn3 := a3, coap1 := c1, coap2 := c2, coap3 := c3\<rparr>) (requested v w)"
      using settings_taken [OF m(1-3) r1(2) r2(2) r3(2) assms(6)] unfolding requested_def by blast
    let ?d = "?c\<lparr>apn1 := a1, apn2 := a2, apn3 := a3, coap1 := c1, coap2 := c2, coap3 := c3\<rparr>"
    have "decode_config_message pb_decode nv (ip1, ip2, ip3) buf st =
        Some (0, snd (save_apn_config nv (st\<lparr>URL_BUF := b3, CURRENT_APN_CONFIG := ?d\<rparr>)))"
      using chosen by (simp add: decode_config_message_def assms(1) r1(1) r2(1) r3(1) empty diff n(1-6)
        del: any_empty.simps any_differs.simps)
    then show ?thesis using chosen n(7) by (simp add: message_code_def save_apn_config_def split: prod.split)
  qed (use r1(1) r2(1) r3(1) empty diff assms(1,6) in
      \<open>simp_all add: decode_config_message_def message_code_def del: any_empty.simps any_differs.simps\<close>)
qed

text \<open>A message does not change the access point and the server in use, nor the modem.\<close>
definition same_network :: "'fs config \<Rightarrow> 'fs config \<Rightarrow> bool" where
  "same_network a b \<longleftrightarrow> CURRENT_COAP_BUFFER b = CURRENT_COAP_BUFFER a \<and> CURRENT_APN_BUFFER b = CURRENT_APN_BUFFER a \<and>
     define_ctx b = define_ctx a \<and> radio b = radio a"

lemma rewrite_url_network: "rewrite_URL_to_IP_only ip0 url st = Some (url', st') \<Longrightarrow> same_network st st'"
  by (auto simp: rewrite_URL_to_IP_only_def same_network_def Option.bind_eq_Some_conv)

lemma save_network: "same_network a (snd (save_apn_config nv st)) \<longleftrightarrow> same_network a st"
  by (simp add: save_apn_config_def same_network_def split: prod.split)

lemma decode_config_network:
  assumes "decode_config_message pb_decode nv (ip1, ip2, ip3) buf st = Some (code, st')"
  shows "same_network st st'"
proof (cases "pb_decode buf")
  case None
  then show ?thesis using assms by (simp add: decode_config_message_def same_network_def)
next
  case (Some t)
  obtain u1 st1 where 1: "rewrite_URL_to_IP_only ip1 (set_coap1 t) st = Some (u1, st1)"
    using assms Some by (auto simp: decode_config_message_def Option.bind_eq_Some_conv)
  obtain u2 st2 where 2: "rewrite_URL_to_IP_only ip2 (set_coap2 t) st1 = Some (u2, st2)"
    using assms Some 1 by (auto simp: decode_config_message_def Option.bind_eq_Some_conv)
  obtain u3 st3 where 3: "rewrite_URL_to_IP_only ip3 (set_coap3 t) st2 = Some (u3, st3)"
    using assms Some 1 2 by (auto simp: decode_config_message_def Option.bind_eq_Some_conv)
  have r: "same_network st3 st3" by (simp add: same_network_def)
  have "same_network st3 st'"
    using assms Some 1 2 3 r
    by (auto simp: decode_config_message_def Let_def save_network Option.bind_eq_Some_conv
        simp del: any_empty.simps any_differs.simps split: if_splits) (simp_all add: same_network_def)
  then show ?thesis using rewrite_url_network [OF 1] rewrite_url_network [OF 2] rewrite_url_network [OF 3] by (simp add: same_network_def)
qed

lemma decode_config_frame:
  assumes "decode_config_message pb_decode nv (ip1, ip2, ip3) buf st = Some (code, st')"
  shows "CURRENT_COAP_BUFFER st' = CURRENT_COAP_BUFFER st" "CURRENT_APN_BUFFER st' = CURRENT_APN_BUFFER st"
    "define_ctx st' = define_ctx st" "radio st' = radio st"
  using decode_config_network [OF assms] by (simp_all add: same_network_def)

text \<open>
  What the store promises: a write that reports success is what later reads return, with a
  positive length, and mounting changes no entry.
\<close>
definition nvs_contract :: "'fs nvs \<Rightarrow> ('fs \<Rightarrow> nat \<Rightarrow> apn_config option) \<Rightarrow> bool" where
  "nvs_contract nv stored \<longleftrightarrow>
     (\<forall>fs i c. 0 \<le> fst (nvs_write nv fs i c) \<longrightarrow> stored (snd (nvs_write nv fs i c)) i = Some c) \<and>
     (\<forall>fs i c tmp. stored fs i = Some c \<longrightarrow> 0 < fst (nvs_read nv fs i tmp) \<and> snd (nvs_read nv fs i tmp) = c) \<and>
     (\<forall>fs. stored (nvs_mount nv fs) = stored fs)"

definition complete_config :: "apn_config \<Rightarrow> bool" where
  "complete_config v \<longleftrightarrow> [] \<notin> {apn1 v, apn2 v, apn3 v, coap1 v, coap2 v, coap3 v}"

lemma has_flash_config_found:
  assumes "nvs_contract nv stored" "stored (flash st) NVS_APN_NAME_ID = Some c" "holds_config c v"
    "holds_config (CURRENT_APN_CONFIG st) d" "apn4 d = apn4 v" "coap4 d = coap4 v" "complete_config v"
  shows "\<exists>r. has_flash_config nv tmp0 st = Some r \<and> (case r of (found, st') \<Rightarrow> found \<and> holds_config (CURRENT_APN_CONFIG st') v)"
proof -
  let ?c = "CURRENT_APN_CONFIG st"
  obtain rc where rd: "nvs_read nv (flash st) NVS_APN_NAME_ID tmp0 = (rc, c)" "0 < rc"
    using assms(1,2) unfolding nvs_contract_def by (metis prod.collapse)
  have h: "str_arr 64 (apn1 c) (apn1 v)" "str_arr 64 (apn2 c) (apn2 v)" "str_arr 64 (apn3 c) (apn3 v)"
    "str_arr 64 (apn4 c) (apn4 v)" "str_arr 128 (coap1 c) (coap1 v)" "str_arr 128 (coap2 c) (coap2 v)"
    "str_arr 128 (coap3 c) (coap3 v)" "str_arr 128 (coap4 c) (coap4 v)"
    using assms(3) by (simp_all add: holds_config_def)
  have g: "str_arr 64 (apn4 ?c) (apn4 v)" "str_arr 128 (coap4 ?c) (coap4 v)"
    using assms(4-6) by (simp_all add: holds_config_def)
  have len: "length (apn1 ?c) = 64" "length (apn2 ?c) = 64" "length (apn3 ?c) = 64" "length (coap1 ?c) = 128"
    "length (coap2 ?c) = 128" "length (coap3 ?c) = 128"
    using assms(4) by (simp_all add: holds_config_def str_arr_def)
  have ne: "apn1 v \<noteq> []" "apn2 v \<noteq> []" "apn3 v \<noteq> []" "coap1 v \<noteq> []" "coap2 v \<noteq> []" "coap3 v \<noteq> []"
    using assms(7) by (auto simp: complete_config_def)
  have "\<exists>r. Option.bind (copy_nonempty (apn1 ?c) (apn1 c)) (\<lambda>a1. Option.bind (copy_nonempty (apn2 ?c) (apn2 c)) (\<lambda>a2.
      Option.bind (copy_nonempty (apn3 ?c) (apn3 c)) (\<lambda>a3. Option.bind (copy_nonempty (coap1 ?c) (coap1 c)) (\<lambda>c1.
      Option.bind (copy_nonempty (coap2 ?c) (coap2 c)) (\<lambda>c2. Option.bind (copy_nonempty (coap3 ?c) (coap3 c)) (\<lambda>c3.
      Some (True, st\<lparr>CURRENT_APN_CONFIG := ?c\<lparr>apn1 := a1, apn2 := a2, apn3 := a3, coap1 := c1, coap2 := c2, coap3 := c3\<rparr>\<rparr>))))))) = Some r \<and>
      (case r of (found, st') \<Rightarrow> found \<and> holds_config (CURRENT_APN_CONFIG st') v)"
    by (rule copy_nonempty_bind [OF h(1) ne(1) len(1)], rule copy_nonempty_bind [OF h(2) ne(2) len(2)],
        rule copy_nonempty_bind [OF h(3) ne(3) len(3)], rule copy_nonempty_bind [OF h(5) ne(4) len(4)],
        rule copy_nonempty_bind [OF h(6) ne(5) len(5)], rule copy_nonempty_bind [OF h(7) ne(6) len(6)])
      (use g in \<open>simp add: holds_config_def\<close>)
  then show ?thesis
    using rd strcmp_ne_arr [OF h(4) g(1)] strcmp_ne_arr [OF h(8) g(2)] by (simp add: has_flash_config_def Let_def)
qed

lemma init_config_found:
  assumes "nvs_contract nv stored" "stored (flash st) NVS_APN_NAME_ID = Some c" "holds_config c v" "complete_config v"
    "apn4 v = apn4 default_config" "coap4 v = coap4 default_config" "sized_config (CURRENT_APN_CONFIG st)"
  shows "\<exists>st'. init_config_nvs nv tmp0 st = Some st' \<and> holds_config (CURRENT_APN_CONFIG st') v"
proof -
  obtain d where d: "init_default_config (CURRENT_APN_CONFIG st) = Some d" "holds_config d default_config"
    using init_default_config_holds [OF assms(7)] by blast
  let ?st = "st\<lparr>CURRENT_APN_CONFIG := d, flash := nvs_mount nv (flash st)\<rparr>"
  have "stored (flash ?st) NVS_APN_NAME_ID = Some c" using assms(1,2) by (simp add: nvs_contract_def)
  then obtain r where "has_flash_config nv tmp0 ?st = Some r"
    "case r of (found, st') \<Rightarrow> found \<and> holds_config (CURRENT_APN_CONFIG st') v"
    using has_flash_config_found [OF assms(1) _ assms(3), of ?st default_config tmp0] d(2) assms(4-6) by auto
  then show ?thesis using d(1) by (cases r) (simp add: init_config_nvs_def)
qed

section \<open>Concrete states\<close>

definition pad :: "nat \<Rightarrow> bytes \<Rightarrow> bytes" where
  "pad n s = s @ replicate (n - length s) 0"

lemma pad_holds: "length s < n \<Longrightarrow> 0 \<notin> set s \<Longrightarrow> str_arr n (pad n s) s"
  by (cases "n - length s") (simp_all add: str_arr_def pad_def)

definition padded :: "apn_config \<Rightarrow> apn_config" where
  "padded v = \<lparr>apn1 = pad 64 (apn1 v), apn2 = pad 64 (apn2 v), apn3 = pad 64 (apn3 v), apn4 = pad 64 (apn4 v),
     coap1 = pad 128 (coap1 v), coap2 = pad 128 (coap2 v), coap3 = pad 128 (coap3 v), coap4 = pad 128 (coap4 v)\<rparr>"

lemma padded_default: "holds_config (padded default_config) default_config"
  by (simp add: holds_config_def padded_def pad_holds default_config_def)

lemma padded_sized: "sized_config (padded default_config)"
  by (simp add: sized_config_def padded_def pad_def default_config_def)

text \<open>A store of one entry.\<close>
definition cell_nvs :: "apn_config option nvs" where
  "cell_nvs = \<lparr>nvs_mount = (\<lambda>fs. fs), nvs_read = (\<lambda>fs i tmp. case fs of None \<Rightarrow> (-2, tmp) | Some c \<Rightarrow> (768, c)),
     nvs_write = (\<lambda>fs i c. (768, Some c))\<rparr>"

lemma cell_nvs_contract: "nvs_contract cell_nvs (\<lambda>fs i. fs)"
  by (simp add: nvs_contract_def cell_nvs_def)

definition boot_config :: "rx_script \<Rightarrow> apn_config option config" where
  "boot_config rx = \<lparr>CURRENT_APN_CONFIG = padded default_config, CURRENT_APN_BUFFER = replicate 64 0,
     CURRENT_COAP_BUFFER = replicate 128 0, define_ctx = replicate 85 0, free_port = 6000,
     radio = \<lparr>script = rx, trace = []\<rparr>, flash = None, URL_BUF = replicate 256 0, ping_id = 1\<rparr>"

lemma boot_config_ok: "config_ok (boot_config rx)" "holds_config (CURRENT_APN_CONFIG (boot_config rx)) default_config"
  "length (URL_BUF (boot_config rx)) = 256"
  by (simp_all add: config_ok_def boot_config_def padded_default)

lemma silent_attempt: "dead_attempt (replicate 35 None)"
proof -
  have "replicate 35 None = [None] @ [None] @ [None] @ concat (replicate 31 [None]) @ [None :: u8 option]"
    by (simp add: eval_nat_numeral)
  moreover have "short_reply [None]" "no_address [None]"
    by (simp_all add: short_reply_def no_address_def final_bytes_def at_results)
  ultimately show ?thesis unfolding dead_attempt_def by (metis in_set_replicate length_replicate)
qed

definition example_address :: bytes where
  "example_address = [32, 48, 44, 34, 49, 46, 50, 34]"

definition network_found :: rx_script where
  "network_found = [None] @ [None] @ [None] @ concat [] @ address_reply example_address @ address_reply example_address"

lemma network_found_live: "live_attempt 0 network_found"
proof -
  have "has_address example_address" using addr_text_example by (simp add: has_address_def example_address_def)
  moreover have "short_reply [None]" by (simp add: short_reply_def final_bytes_def at_results)
  moreover have "length ([] :: rx_script list) = 0" "\<forall>q \<in> set []. no_address q" by simp_all
  ultimately show ?thesis unfolding live_attempt_def network_found_def by blast
qed

text \<open>A message that changes the first access point.\<close>
definition example_message :: aqconfig_setapn where
  "example_message = \<lparr>set_apn1 = cstr ''net.a'', set_apn2 = cstr ''net.b'', set_apn3 = cstr ''net.c'',
     set_coap1 = cstr ''coap://10.0.0.1:5683/u'', set_coap2 = cstr ''coap://10.0.0.2:5683/u'', set_coap3 = cstr ''coap://10.0.0.3:5683/u''\<rparr>"

definition example_received :: aqconfig_setapn where
  "example_received = \<lparr>set_apn1 = pad 64 (set_apn1 example_message), set_apn2 = pad 64 (set_apn2 example_message),
     set_apn3 = pad 64 (set_apn3 example_message), set_coap1 = pad 128 (set_coap1 example_message),
     set_coap2 = pad 128 (set_coap2 example_message), set_coap3 = pad 128 (set_coap3 example_message)\<rparr>"

lemma example_message_ok:
  "message_holds example_received example_message" "coap_url (set_coap1 example_message)"
  "coap_url (set_coap2 example_message)" "coap_url (set_coap3 example_message)"
  "[] \<notin> {set_apn1 example_message, set_apn2 example_message, set_apn3 example_message}"
  "requested default_config example_message \<noteq> default_config"
  by (simp_all add: message_holds_def example_received_def example_message_def pad_holds coap_url_def url_host_def
      requested_same default_config_def)

section \<open>Properties\<close>

text \<open>C25: The search takes the first access point that reaches the network: if the modem gives no
  address for the first k and then one for the next, that one becomes the current access point with
  its server address, and every access point before it has been tried once, with 30 pauses each.\<close>
theorem select_first_live:
  assumes "holds_config (CURRENT_APN_CONFIG st) v" "config_ok st" "length ip0 = 16"
    "length ds < 4" "\<forall>d \<in> set ds. dead_attempt d" "live_attempt n s"
    "script (radio st) = concat ds @ s @ rx" "(apn, coap) = apn_slots v ! length ds"
  shows "\<exists>st'. select_active_apn ip0 st = Some (Selected, st') \<and>
     c_str (CURRENT_APN_BUFFER st') = Some apn \<and> c_str (CURRENT_COAP_BUFFER st') = Some coap \<and>
     script (radio st') = rx \<and>
     trace (radio st') = trace (radio st) @ dead_events (take (length ds) (apn_slots v)) @ attempt_events apn n"
proof -
  let ?as = "apn_slots (CURRENT_APN_CONFIG st)"
  have as: "list_all2 slot_holds ?as (apn_slots v)" "length ?as = 4" "length (apn_slots v) = 4"
    using apn_slots_hold [OF assms(1)] by (simp_all add: apn_slots_def)
  obtain st1 where 1: "select_loop ip0 ?as st = select_loop ip0 (drop (length ds) ?as) st1" "config_ok st1"
    "radio st1 = (radio st)\<lparr>script := s @ rx, trace := trace (radio st) @ dead_events (take (length ds) (apn_slots v))\<rparr>"
    using select_loop_dead [OF as(1) _ assms(5,2,3,7)] as(2) assms(4) by auto
  obtain a c where ac: "?as ! length ds = (a, c)" by (cases "?as ! length ds")
  then have d: "drop (length ds) ?as = (a, c) # drop (Suc (length ds)) ?as"
    using as(2) assms(4) by (metis Cons_nth_drop_Suc)
  have "slot_holds (a, c) (apn, coap)"
    using list_all2_nthD [OF as(1), of "length ds"] assms(4,8) as(2) ac by simp
  then have h: "str_arr 64 a apn" "str_arr 128 c coap" by (simp_all add: slot_holds_pair)
  obtain st2 where 2: "try_apn ip0 a c st1 = Some (True, st2)" "attempted st1 apn coap n rx st2"
    using try_apn_live [OF 1(2) h assms(3,6), of rx] 1(3) by auto
  have "select_active_apn ip0 st = Some (Selected, st2)"
    using 1(1) 2(1) d as(2) by (simp add: select_active_apn_def NVS_APN_COUNT_def)
  then show ?thesis using 2(2) 1(3) by (intro exI [of _ st2]) (simp add: attempted_def str_arr_def)
qed

theorem select_first_live_witness:
  "\<exists>st'. select_active_apn (replicate 16 0) (boot_config (replicate 35 None @ network_found)) = Some (Selected, st') \<and>
     c_str (CURRENT_APN_BUFFER st') = Some (cstr ''mda.ee'')"
proof -
  have "apn_slots default_config ! 1 = (cstr ''mda.ee'', cstr ''172.16.15.14'')"
    by (simp add: apn_slots_def default_config_def)
  then have "\<exists>st'. select_active_apn (replicate 16 0) (boot_config (replicate 35 None @ network_found)) = Some (Selected, st') \<and>
     c_str (CURRENT_APN_BUFFER st') = Some (cstr ''mda.ee'') \<and> c_str (CURRENT_COAP_BUFFER st') = Some (cstr ''172.16.15.14'') \<and>
     script (radio st') = [] \<and> trace (radio st') = trace (radio (boot_config (replicate 35 None @ network_found))) @
       dead_events (take (length [replicate 35 (None :: u8 option)]) (apn_slots default_config)) @ attempt_events (cstr ''mda.ee'') 0"
    by (intro select_first_live [OF boot_config_ok(2,1), of _ "[replicate 35 None]" 0 network_found])
       (simp_all only: silent_attempt network_found_live list.size set_simps ball_simps, simp_all add: boot_config_def)
  then show ?thesis by blast
qed

text \<open>When no access point reaches the network, the search ends too: after one attempt with
  each of the four it pauses for an hour and reboots.\<close>
theorem select_none_reboots:
  assumes "holds_config (CURRENT_APN_CONFIG st) v" "config_ok st" "length ip0 = 16"
    "length ds = 4" "\<forall>d \<in> set ds. dead_attempt d" "script (radio st) = concat ds @ rx"
  shows "\<exists>st'. select_active_apn ip0 st = Some (Rebooted, st') \<and>
     trace (radio st') = trace (radio st) @ dead_events (apn_slots v) @ [Sleep 3600000]"
proof -
  let ?as = "apn_slots (CURRENT_APN_CONFIG st)"
  have as: "list_all2 slot_holds ?as (apn_slots v)" "length ?as = 4" "length (apn_slots v) = 4"
    using apn_slots_hold [OF assms(1)] by (simp_all add: apn_slots_def)
  obtain st1 where 1: "select_loop ip0 ?as st = select_loop ip0 [] st1"
    "radio st1 = (radio st)\<lparr>script := rx, trace := trace (radio st) @ dead_events (apn_slots v)\<rparr>"
    using select_loop_dead [OF as(1) _ assms(5,2,3,6)] as(2,3) assms(4) by auto
  then show ?thesis using as(2) by (simp add: select_active_apn_def NVS_APN_COUNT_def emit_def)
qed

theorem select_none_reboots_witness:
  "\<exists>st'. select_active_apn (replicate 16 0) (boot_config (concat (replicate 4 (replicate 35 None)))) = Some (Rebooted, st') \<and>
     trace (radio st') = dead_events (apn_slots default_config) @ [Sleep 3600000]"
proof -
  let ?ds = "replicate 4 (replicate 35 None) :: rx_script list"
  have "\<forall>d \<in> set ?ds. dead_attempt d" using silent_attempt by simp
  moreover have "radio (boot_config (concat ?ds)) = \<lparr>script = concat ?ds, trace = []\<rparr>" by (simp add: boot_config_def)
  ultimately show ?thesis
    using select_none_reboots [OF boot_config_ok(2,1) [of "concat ?ds"], of "replicate 16 0" ?ds "[]"] by simp
qed

text \<open>C26: A configuration message whose three server addresses are CoAP addresses is answered by its content: -2 when an access point is missing,
  -3 when it asks for what is already configured, and otherwise 0; exactly then the six settings
  become the current ones, with the server addresses cut from their URLs, and are written to flash.\<close>
theorem config_message_exact:
  assumes "pb_decode buf = Some t" "message_holds t w" "coap_url (set_coap1 w)" "coap_url (set_coap2 w)" "coap_url (set_coap3 w)"
    "holds_config (CURRENT_APN_CONFIG st) v" "length (URL_BUF st) = 256" "length ip1 = 124" "length ip2 = 124" "length ip3 = 124"
  shows "\<exists>code st'. decode_config_message pb_decode nv (ip1, ip2, ip3) buf st = Some (code, st') \<and>
     code = (if [] \<in> {set_apn1 w, set_apn2 w, set_apn3 w} then -2 else if requested v w = v then -3 else 0) \<and>
     holds_config (CURRENT_APN_CONFIG st') (if code = 0 then requested v w else v) \<and>
     flash st' = (if code = 0 then snd (nvs_write nv (flash st) NVS_APN_NAME_ID (CURRENT_APN_CONFIG st')) else flash st)"
proof -
  obtain code st' where r: "decode_config_message pb_decode nv (ip1, ip2, ip3) buf st = Some (code, st')"
    "code = message_code v w" "holds_config (CURRENT_APN_CONFIG st') (if code = 0 then requested v w else v)"
    "flash st' = (if code = 0 then snd (nvs_write nv (flash st) NVS_APN_NAME_ID (CURRENT_APN_CONFIG st')) else flash st)"
    using decode_config_runs [where pb_decode = pb_decode and buf = buf and nv = nv, OF assms] by blast
  show ?thesis using r(1,3,4) r(2)[unfolded message_code_def] by blast
qed

theorem config_message_exact_witness:
  "\<exists>st'. decode_config_message (\<lambda>_. Some example_received) cell_nvs (replicate 124 1, replicate 124 1, replicate 124 1) []
       (boot_config []) = Some (0, st') \<and> holds_config (CURRENT_APN_CONFIG st') (requested default_config example_message)"
  using config_message_exact [where pb_decode = "\<lambda>_. Some example_received" and buf = "[]" and nv = cell_nvs and
      ?ip1.0 = "replicate 124 1" and ?ip2.0 = "replicate 124 1" and ?ip3.0 = "replicate 124 1",
      OF refl example_message_ok(1-4) boot_config_ok(2,3), of "[]"] example_message_ok(5,6)
  by auto

text \<open>An accepted configuration survives a restart: whatever the memory holds at the next
  start, reading the flash makes the new settings the current ones again.\<close>
theorem config_survives_restart:
  assumes "pb_decode buf = Some t" "message_holds t w" "coap_url (set_coap1 w)" "coap_url (set_coap2 w)" "coap_url (set_coap3 w)"
    "holds_config (CURRENT_APN_CONFIG st) v" "length (URL_BUF st) = 256" "length ip1 = 124" "length ip2 = 124" "length ip3 = 124"
    "[] \<notin> {set_apn1 w, set_apn2 w, set_apn3 w}" "requested v w \<noteq> v"
    "apn4 v = apn4 default_config" "coap4 v = coap4 default_config"
    "nvs_contract nv stored" "\<forall>c. 0 \<le> fst (nvs_write nv (flash st) NVS_APN_NAME_ID c)"
    "sized_config mem"
  shows "\<exists>st' st''. decode_config_message pb_decode nv (ip1, ip2, ip3) buf st = Some (0, st') \<and>
     init_config_nvs nv tmp0 (st'\<lparr>CURRENT_APN_CONFIG := mem\<rparr>) = Some st'' \<and>
     holds_config (CURRENT_APN_CONFIG st'') (requested v w)"
proof -
  have code: "message_code v w = 0" using assms(11,12) by (simp add: message_code_def)
  obtain st' where r: "decode_config_message pb_decode nv (ip1, ip2, ip3) buf st = Some (0, st')"
    "holds_config (CURRENT_APN_CONFIG st') (requested v w)"
    "flash st' = snd (nvs_write nv (flash st) NVS_APN_NAME_ID (CURRENT_APN_CONFIG st'))"
    using decode_config_runs [where pb_decode = pb_decode and buf = buf and nv = nv, OF assms(1-10)] by (auto simp: code)
  have stored: "stored (flash st') NVS_APN_NAME_ID = Some (CURRENT_APN_CONFIG st')"
    using assms(15,16) r(3) by (simp add: nvs_contract_def)
  have "complete_config (requested v w)"
    using assms(3-5,11) by (simp add: complete_config_def requested_def coap_url_def eq_commute)
  then obtain st'' where "init_config_nvs nv tmp0 (st'\<lparr>CURRENT_APN_CONFIG := mem\<rparr>) = Some st''"
    "holds_config (CURRENT_APN_CONFIG st'') (requested v w)"
    using init_config_found [OF assms(15) _ r(2), of "st'\<lparr>CURRENT_APN_CONFIG := mem\<rparr>" tmp0] stored assms(13,14,17)
    by (auto simp: requested_def)
  then show ?thesis using r(1) by blast
qed

theorem config_survives_restart_witness:
  "\<exists>st' st''. decode_config_message (\<lambda>_. Some example_received) cell_nvs (replicate 124 1, replicate 124 1, replicate 124 1) []
       (boot_config []) = Some (0, st') \<and>
     init_config_nvs cell_nvs (padded default_config) (st'\<lparr>CURRENT_APN_CONFIG := padded default_config\<rparr>) = Some st'' \<and>
     holds_config (CURRENT_APN_CONFIG st'') (requested default_config example_message)"
  by (rule config_survives_restart [where pb_decode = "\<lambda>_. Some example_received" and buf = "[]" and v = default_config,
      OF refl example_message_ok(1-4) boot_config_ok(2,3) _ _ _ example_message_ok(5,6) refl refl cell_nvs_contract])
    (simp_all add: cell_nvs_def padded_sized)

end
