(* ===== verification/N2_Start.thy ===== *)
theory N2_Start
  imports N2_Offload Config
begin

text \<open>
  The start of the socket layer (\<open>n2_init\<close>, \<open>wait_for_sockets\<close> of \<open>n2_offload.c\<close>): the settings from
  the flash, then the modem with its identifiers. The semaphores are their counts; the state of the
  configuration holds the modem. The registration of the callback and of the device with the network
  stack has no state in the model.
\<close>

text \<open>The counts of \<open>mdm_sem\<close> and \<open>socket_sem\<close> at the end, the identifiers, and the configuration.\<close>
definition n2_init ::
  "'fs nvs \<Rightarrow> apn_config \<Rightarrow> bytes \<Rightarrow> modem_ids \<Rightarrow> 'fs config \<Rightarrow> (nat \<times> nat \<times> modem_ids \<times> 'fs config) option" where
  "n2_init nv tmp0 ip0 ids st = do {
     let mdm_sem = 1;
     let socket_sem = 0;
     st \<leftarrow> init_config_nvs nv tmp0 st;
     (ids, ctx, port, m) \<leftarrow> modem_init ip0 (CURRENT_APN_BUFFER st) (define_ctx st) ids (radio st);
     Some (mdm_sem, min 1 (socket_sem + 1), ids, st\<lparr>define_ctx := ctx, free_port := port, radio := m\<rparr>) }"

text \<open>\<open>None\<close>: the wait has no end.\<close>
definition wait_for_sockets :: "nat \<Rightarrow> nat option" where
  "wait_for_sockets socket_sem = (if socket_sem = 0 then None else Some (socket_sem - 1))"

section \<open>The modem\<close>

text \<open>An answer to a query for an identifier.\<close>
definition id_reply :: "bytes \<Rightarrow> rx_script" where
  "id_reply l = map Some (wire ([[]] @ l # [[]])) @ final_bytes AT_OK"

definition id_line :: "bytes \<Rightarrow> bytes \<Rightarrow> bool" where
  "id_line l t \<longleftrightarrow> plain_line l \<and> t = filter (\<lambda>b. \<not> isspace b) l \<and> t \<noteq> [] \<and> length t < IMEI_IMSI_BUF_SIZE \<and> 0 \<notin> set t"

lemma id_line_fits: "id_line l t \<Longrightarrow> length t < 24 \<and> 0 \<notin> set t"
  unfolding id_line_def IMEI_IMSI_BUF_SIZE_def by blast

lemma id_reply_decoded:
  assumes "id_line l t" "length str = IMEI_IMSI_BUF_SIZE"
  shows "atcgsn_decode str (id_reply l @ rx) = Some (AT_OK, t @ 0 # drop (Suc (length t)) str, rx)"
    "\<not> urc_line l \<Longrightarrow> atcimi_decode str (id_reply l @ rx) = Some (AT_OK, t @ 0 # drop (Suc (length t)) str, rx)"
  using identifier_answer [of "[[]]" "[[]]" l t str AT_OK rx] assms
  by (auto simp: id_line_def id_reply_def plain_line_def blank_line_def IMEI_IMSI_BUF_SIZE_def)

text \<open>What the start of the modem sends.\<close>
definition start_events :: "bytes \<Rightarrow> nat \<Rightarrow> event list" where
  "start_events apn n = [Write (define_context apn), Write autoconnect, Sleep 1000, Write (cstr ''AT+NRB'' @ [13])] @
     concat (replicate n poll) @ [cgpaddr_query, Write (cstr ''AT+CIMI'' @ [13]), Write (cstr ''AT+CGSN=1'' @ [13])]"

lemma modem_init_runs:
  assumes "short_reply r0" "short_reply r1" "short_reply r2" "short_reply r3" "length rs \<le> 30" "\<forall>q \<in> set rs. no_address q"
    "has_address t" "id_line i si" "\<not> urc_line i" "id_line g (cstr ''+CGSN:'' @ d)" "str_arr 64 a apn" "length ctx = 85" "length ip0 = 16"
    "script m = r0 @ r1 @ r2 @ r3 @ concat rs @ address_reply t @ id_reply i @ id_reply g @ rx"
  shows "\<exists>ids' ctx'. modem_init ip0 a ctx ids m =
       Some (ids', ctx', NEXT_FREE_PORT, m\<lparr>script := rx, trace := trace m @ start_events apn (length rs)\<rparr>) \<and>
     c_str (imei ids') = Some d \<and> c_str (imsi ids') = Some si"
proof -
  let ?w = "concat rs @ address_reply t @ id_reply i @ id_reply g @ rx"
  let ?m0 = "m\<lparr>script := r1 @ r2 @ r3 @ ?w\<rparr>"
  obtain k0 where 0: "await atnrb_decode m = Some (k0, ?m0)" using await_short(2) [OF assms(1,14)] by auto
  have a: "length a = 64" "c_str a = Some apn" using assms(11) by (simp_all add: str_arr_def)
  obtain ctx' where c: "modem_configure a ctx ?m0 =
      Option.bind (await at_generic_decode (modem_write (define_context apn) ?m0)) (\<lambda>(_, m).
      Option.bind (await at_generic_decode (modem_write autoconnect m)) (\<lambda>(_, m). Some (ctx', emit (Sleep 1000) m)))"
    using modem_configure_commands [OF a assms(12), of ?m0] by blast
  let ?m1 = "m\<lparr>script := r3 @ ?w, trace := trace m @ [Write (define_context apn), Write autoconnect, Sleep 1000]\<rparr>"
  have 1: "modem_configure a ctx ?m0 = Some (ctx', ?m1)"
    using await_short(1) [OF assms(2), of "modem_write (define_context apn) ?m0" "r2 @ r3 @ ?w"]
      await_short(1) [OF assms(3), of "modem_write autoconnect (modem_write (define_context apn) (?m0\<lparr>script := r2 @ r3 @ ?w\<rparr>))" "r3 @ ?w"]
    unfolding c by (auto simp: modem_write_def emit_def)
  let ?m2 = "m\<lparr>script := ?w, trace := trace m @ [Write (define_context apn), Write autoconnect, Sleep 1000, Write (cstr ''AT+NRB'' @ [13])]\<rparr>"
  have 2: "modem_restart ?m1 = Some (NEXT_FREE_PORT, ?m2)"
    using await_short(2) [OF assms(4), of "modem_write (cstr ''AT+NRB'' @ [13]) ?m1" ?w]
    by (auto simp: modem_restart_def modem_write_def emit_def)
  let ?m3 = "?m2\<lparr>script := id_reply i @ id_reply g @ rx, trace := trace ?m2 @ concat (replicate (length rs) poll) @ [cgpaddr_query]\<rparr>"
  have "addr_text t" "1 < length (quoted (filter (\<lambda>b. \<not> isspace b) t))" "script ?m2 = concat rs @ address_reply t @ id_reply i @ id_reply g @ rx"
    using assms(7) by (simp_all add: has_address_def)
  from wait_until_ready_address [OF assms(13,5,6) this] have 3: "wait_until_ready ip0 0 ?m2 = Some ?m3" .
  let ?z = "replicate IMEI_IMSI_BUF_SIZE (0 :: u8)" and ?u = "cstr ''+CGSN:'' @ d"
  have l: "length si < 24" "0 \<notin> set si" "length ?u < 24" "0 \<notin> set ?u"
    using id_line_fits [OF assms(8)] id_line_fits [OF assms(10)] by blast+
  have 4: "atcimi_decode ?z (id_reply i @ id_reply g @ rx) = Some (AT_OK, si @ 0 # drop (Suc (length si)) ?z, id_reply g @ rx)"
    by (rule id_reply_decoded(2) [OF assms(8) _ assms(9)]) simp
  have 5: "atcgsn_decode ?z (id_reply g @ rx) = Some (AT_OK, ?u @ 0 # drop (Suc (length ?u)) ?z, rx)"
    by (rule id_reply_decoded(1) [OF assms(10)]) simp
  have 6: "c_str_at (?u @ 0 # drop (Suc (length ?u)) ?z) 6 = Some d" using l(4) by (simp add: c_str_at_def)
  have 7: "strcpy ?z d = Some (d @ 0 # drop (Suc (length d)) ?z)"
    by (rule strcpy_fits) (use l(3) in \<open>simp add: IMEI_IMSI_BUF_SIZE_def\<close>)
  show ?thesis
    unfolding modem_init_def 0 bind.bind_lunit prod.case 1 2 3
    using 4 5 6 7 l(2,4) by (simp add: modem_write_def emit_def start_events_def Let_def)
qed

text \<open>Reading the settings touches neither the modem nor the buffers of the access point.\<close>
definition same_radio :: "'fs config \<Rightarrow> 'fs config \<Rightarrow> bool" where
  "same_radio a b \<longleftrightarrow> radio b = radio a \<and> CURRENT_APN_BUFFER b = CURRENT_APN_BUFFER a \<and> define_ctx b = define_ctx a"

lemma has_flash_config_keeps: "has_flash_config nv tmp0 st = Some (found, st') \<Longrightarrow> same_radio st st'"
  by (cases "nvs_read nv (flash st) NVS_APN_NAME_ID tmp0")
    (auto simp: has_flash_config_def same_radio_def Let_def Option.bind_eq_Some_conv split: if_splits)

lemma init_config_keeps:
  assumes "init_config_nvs nv tmp0 st = Some st'"
  shows "same_radio st st'"
proof -
  obtain c found s1 where 1: "init_default_config (CURRENT_APN_CONFIG st) = Some c"
    "has_flash_config nv tmp0 (st\<lparr>CURRENT_APN_CONFIG := c, flash := nvs_mount nv (flash st)\<rparr>) = Some (found, s1)"
    "st' = (if found then s1 else snd (save_apn_config nv s1))"
    using assms by (auto simp: init_config_nvs_def Option.bind_eq_Some_conv)
  have "same_radio st s1" using has_flash_config_keeps [OF 1(2)] by (simp add: same_radio_def)
  then show ?thesis using 1(3) by (auto simp: same_radio_def save_apn_config_def split: prod.split)
qed

section \<open>Properties\<close>

text \<open>C19: The start of the node on the network. With settings in the flash and a modem that answers, the start
  makes the stored settings the current ones, sends exactly the start-up commands, reads the
  identity of the subscriber and, without its prefix, of the device, and releases the threads that wait for sockets. The access point that the
  commands name is what \<open>CURRENT_APN_BUFFER\<close> holds, which is empty at power-on: although a comment of \<open>comms.c\<close> says that \<open>init_config_nvs\<close> initialises it,
  the stored settings do not reach it before the search for an access point.\<close>
theorem n2_start_ready:
  assumes "nvs_contract nv stored" "stored (flash st) NVS_APN_NAME_ID = Some c" "holds_config c v" "complete_config v"
    "apn4 v = apn4 default_config" "coap4 v = coap4 default_config" "sized_config (CURRENT_APN_CONFIG st)"
    "short_reply r0" "short_reply r1" "short_reply r2" "short_reply r3" "length rs \<le> 30" "\<forall>q \<in> set rs. no_address q"
    "has_address t" "id_line i si" "\<not> urc_line i" "id_line g (cstr ''+CGSN:'' @ d)"
    "str_arr 64 (CURRENT_APN_BUFFER st) apn" "length (define_ctx st) = 85" "length ip0 = 16"
    "script (radio st) = r0 @ r1 @ r2 @ r3 @ concat rs @ address_reply t @ id_reply i @ id_reply g @ rx"
  shows "\<exists>mdm sock ids' st'. n2_init nv tmp0 ip0 ids st = Some (mdm, sock, ids', st') \<and> mdm = 1 \<and> wait_for_sockets sock = Some 0 \<and>
     c_str (imei ids') = Some d \<and> c_str (imsi ids') = Some si \<and> holds_config (CURRENT_APN_CONFIG st') v \<and>
     CURRENT_APN_BUFFER st' = CURRENT_APN_BUFFER st \<and>
     radio st' = \<lparr>script = rx, trace = trace (radio st) @ start_events apn (length rs)\<rparr>"
proof -
  obtain s1 where 1: "init_config_nvs nv tmp0 st = Some s1" "holds_config (CURRENT_APN_CONFIG s1) v"
    using init_config_found [OF assms(1-7)] by blast
  note k = init_config_keeps [OF 1(1), unfolded same_radio_def]
  obtain ids' ctx' where 2: "modem_init ip0 (CURRENT_APN_BUFFER s1) (define_ctx s1) ids (radio s1) =
      Some (ids', ctx', NEXT_FREE_PORT, (radio s1)\<lparr>script := rx, trace := trace (radio s1) @ start_events apn (length rs)\<rparr>)"
    "c_str (imei ids') = Some d" "c_str (imsi ids') = Some si"
    using modem_init_runs [OF assms(8-17), of "CURRENT_APN_BUFFER s1" apn "define_ctx s1" ip0 "radio s1" rx ids] assms(18-21) k by auto
  show ?thesis using 1 2 k by (simp add: n2_init_def wait_for_sockets_def)
qed

text \<open>A node at power-on whose flash holds the default settings; the buffer of the access point is empty.\<close>
definition start_config :: "apn_config option config" where
  "start_config = (boot_config ([None] @ [None] @ [None] @ [None] @ concat [] @ address_reply example_address @
     id_reply (cstr ''242010012345678'') @ id_reply (cstr ''+CGSN: 357520071234567'') @ []))
     \<lparr>flash := Some (padded default_config), CURRENT_APN_BUFFER := pad 64 []\<rparr>"

lemma id_lines_example: "id_line (cstr ''242010012345678'') (cstr ''242010012345678'')"
  "id_line (cstr ''+CGSN: 357520071234567'') (cstr ''+CGSN:'' @ cstr ''357520071234567'')" "\<not> urc_line (cstr ''242010012345678'')"
  by (simp_all add: id_line_def plain_line_def isspace_def IMEI_IMSI_BUF_SIZE_def urc_line_def)

theorem n2_start_ready_witness:
  "\<exists>sock ids' st'. n2_init cell_nvs (padded default_config) (replicate 16 0) \<lparr>imsi = [], imei = [], imei_unparsed = []\<rparr> start_config =
       Some (1, sock, ids', st') \<and> wait_for_sockets sock = Some 0 \<and> c_str (imei ids') = Some (cstr ''357520071234567'') \<and>
     trace (radio st') = start_events [] 0"
proof -
  have r: "short_reply [None]" by (simp add: short_reply_def final_bytes_def at_results)
  have a: "has_address example_address" using addr_text_example by (simp add: has_address_def example_address_def)
  have c: "stored_cell (flash start_config) NVS_APN_NAME_ID = Some (padded default_config)" if "stored_cell = (\<lambda>fs i. fs)" for stored_cell
    by (simp add: start_config_def that)
  have d: "complete_config default_config" by (simp add: complete_config_def default_config_def)
  have s: "sized_config (CURRENT_APN_CONFIG start_config)" "str_arr 64 (CURRENT_APN_BUFFER start_config) []"
    "length (define_ctx start_config) = 85"
    using padded_sized by (simp_all add: start_config_def boot_config_def pad_holds)
  have w: "script (radio start_config) = [None] @ [None] @ [None] @ [None] @ concat [] @ address_reply example_address @
     id_reply (cstr ''242010012345678'') @ id_reply (cstr ''+CGSN: 357520071234567'') @ []"
    by (simp add: start_config_def boot_config_def)
  have e: "trace (radio start_config) = []" by (simp add: start_config_def boot_config_def)
  show ?thesis
    using n2_start_ready [OF cell_nvs_contract c [OF refl] padded_default d refl refl s(1) r r r r _ _ a id_lines_example(1,3,2) s(2,3) _ w, where ?ip0.0 = "replicate 16 0" and ?tmp0.0 = "padded default_config"
        and ids = "\<lparr>imsi = [], imei = [], imei_unparsed = []\<rparr>"] e
    by auto
qed

end
