(* ===== verification/Fota_Tlv.thy ===== *)
theory Fota_Tlv
  imports Prelude
begin

text \<open>
  The tag-length-value codec of \<open>fota_tlv.c\<close>: one tag byte, one length byte, then the value.
  A pointer \<open>buf + sz\<close> is an array together with an offset; \<open>size_t *idx\<close> is passed and
  returned. Each decoder returns its error code, the new index and the new value of its
  out-parameter.
\<close>

section \<open>Tags and operations\<close>

definition FIRMWARE_VER_ID :: u8 where "FIRMWARE_VER_ID = 1"
definition MODEL_NUMBER_ID :: u8 where "MODEL_NUMBER_ID = 2"
definition SERIAL_NUMBER_ID :: u8 where "SERIAL_NUMBER_ID = 3"
definition CLIENT_MANUFACTURER_ID :: u8 where "CLIENT_MANUFACTURER_ID = 4"
definition HOST_ID :: u8 where "HOST_ID = 1"
definition PORT_ID :: u8 where "PORT_ID = 2"
definition PATH_ID :: u8 where "PATH_ID = 3"
definition AVAILABLE_ID :: u8 where "AVAILABLE_ID = 4"

lemmas tlv_ids = FIRMWARE_VER_ID_def MODEL_NUMBER_ID_def SERIAL_NUMBER_ID_def
  CLIENT_MANUFACTURER_ID_def HOST_ID_def PORT_ID_def PATH_ID_def AVAILABLE_ID_def

text \<open>
  The copying loop of the encoder. Its counter is a \<open>uint8_t\<close>, so it wraps for a string of 256
  or more bytes; the loop then ends only at the end of the array.
\<close>
function encode_tlv_loop :: "bytes \<Rightarrow> nat \<Rightarrow> u8 \<Rightarrow> bytes \<Rightarrow> (nat \<times> bytes) option" where
  "encode_tlv_loop buf ret i str =
     (if unat i < length str then
        case wr buf ret (str ! unat i) of
          None \<Rightarrow> None
        | Some buf' \<Rightarrow> encode_tlv_loop buf' (Suc ret) (i + 1) str
      else Some (ret, buf))"
  by pat_completeness auto
termination
  by (relation "measure (\<lambda>(buf, ret, i, str). length buf - ret)") (auto dest!: wr_SomeD)

declare encode_tlv_loop.simps [simp del]

definition encode_tlv_string :: "bytes \<Rightarrow> nat \<Rightarrow> u8 \<Rightarrow> bytes \<Rightarrow> (nat \<times> bytes) option" where
  "encode_tlv_string buf off tag str = do {
     buf \<leftarrow> wr buf off tag;
     buf \<leftarrow> wr buf (off + 1) (of_nat (length str));
     (fin, buf) \<leftarrow> encode_tlv_loop buf (off + 2) 0 str;
     Some (fin - off, buf)
   }"

definition tlv_id :: "bytes \<Rightarrow> nat \<Rightarrow> u8 option" where
  "tlv_id buf idx = rd buf idx"

text \<open>The copying loop of the string decoder: \<open>n\<close> bytes remain, \<open>i\<close> bytes are copied.\<close>
fun decode_str_loop :: "nat \<Rightarrow> bytes \<Rightarrow> nat \<Rightarrow> nat \<Rightarrow> bytes \<Rightarrow> (nat \<times> nat \<times> bytes) option" where
  "decode_str_loop 0 buf idx i str = Some (i, idx, str)"
| "decode_str_loop (Suc n) buf idx i str = do {
     b \<leftarrow> rd buf idx;
     str \<leftarrow> wr str i b;
     decode_str_loop n buf (idx + 1) (i + 1) str
   }"

definition decode_tlv_string :: "bytes \<Rightarrow> nat \<Rightarrow> bytes \<Rightarrow> (int \<times> nat \<times> bytes) option" where
  "decode_tlv_string buf idx str = do {
     len \<leftarrow> rd buf idx;
     (i, idx, str) \<leftarrow> decode_str_loop (unat len) buf (idx + 1) 0 str;
     str \<leftarrow> wr str i 0;
     Some (0, idx, str)
   }"

definition decode_tlv_uint32 :: "bytes \<Rightarrow> nat \<Rightarrow> u32 \<Rightarrow> (int \<times> nat \<times> u32) option" where
  "decode_tlv_uint32 buf idx val = do {
     len \<leftarrow> rd buf idx;
     let idx = idx + 1;
     if unat len \<noteq> 4 then Some (-1, idx, val)
     else do {
       b0 \<leftarrow> rd buf idx;
       b1 \<leftarrow> rd buf (idx + 1);
       b2 \<leftarrow> rd buf (idx + 2);
       b3 \<leftarrow> rd buf (idx + 3);
       let val = 0;
       let val = val + push_bit 24 (ucast b0);
       let val = val + push_bit 16 (ucast b1);
       let val = val + push_bit 8 (ucast b2);
       let val = val + ucast b3;
       Some (0, idx + 4, val)
     }
   }"

definition decode_tlv_bool :: "bytes \<Rightarrow> nat \<Rightarrow> bool \<Rightarrow> (int \<times> nat \<times> bool) option" where
  "decode_tlv_bool buf idx val = do {
     len \<leftarrow> rd buf idx;
     let idx = idx + 1;
     if unat len \<noteq> 1 then Some (-1, idx, val)
     else do {
       b \<leftarrow> rd buf idx;
       Some (0, idx + 1, b = 1)
     }
   }"

section \<open>The encoder\<close>

text \<open>The bytes of one string field.\<close>
definition tlv_bytes :: "u8 \<Rightarrow> bytes \<Rightarrow> bytes" where
  "tlv_bytes tag v = tag # of_nat (length v) # v"

lemma length_tlv_bytes [simp]: "length (tlv_bytes tag v) = length v + 2"
  by (simp add: tlv_bytes_def)

lemma encode_tlv_loop_copies:
  assumes "length str < 256" "i \<le> length str" "length pre + (length str - i) \<le> length buf"
    "take (length pre) buf = pre"
  shows "encode_tlv_loop buf (length pre) (of_nat i) str =
     Some (length pre + (length str - i),
           pre @ drop i str @ drop (length pre + (length str - i)) buf)"
  using assms
proof (induction "length str - i" arbitrary: i pre buf)
  case 0
  then show ?case
    by (subst encode_tlv_loop.simps) (simp add: unat_of_nat_u8, metis append_take_drop_id)
next
  case (Suc k)
  let ?buf = "buf[length pre := str ! i]" and ?pre = "pre @ [str ! i]"
  have i: "i < length str" using Suc.hyps by simp
  have p: "length pre < length buf" using Suc.prems i by simp
  have "encode_tlv_loop ?buf (length ?pre) (of_nat (Suc i)) str =
     Some (length ?pre + (length str - Suc i),
           ?pre @ drop (Suc i) str @ drop (length ?pre + (length str - Suc i)) ?buf)"
  proof (rule Suc.hyps(1))
    show "take (length ?pre) ?buf = ?pre" using p Suc.prems(4) by (simp add: take_Suc_conv_app_nth)
  qed (use Suc.hyps(2) Suc.prems i in auto)
  moreover have "encode_tlv_loop buf (length pre) (of_nat i) str =
      encode_tlv_loop ?buf (length ?pre) (of_nat (Suc i)) str"
    using i p Suc.prems(1)
    by (subst encode_tlv_loop.simps) (simp add: unat_of_nat_u8 wr_in add.commute)
  moreover have "drop i str = str ! i # drop (Suc i) str" by (rule Cons_nth_drop_Suc [symmetric, OF i])
  moreover have "Suc (length pre + length str - Suc i) = length pre + length str - i" using i by arith
  ultimately show ?case using i by simp
qed

text \<open>A string that is short enough and fits is written at the offset; nothing else changes.\<close>
lemma encode_tlv_string_writes:
  assumes "length str < 256" "off + length str + 2 \<le> length buf"
  shows "encode_tlv_string buf off tag str =
     Some (length str + 2,
           take off buf @ tlv_bytes tag str @ drop (off + length str + 2) buf)"
proof -
  let ?buf = "buf[off := tag, off + 1 := of_nat (length str)]"
  let ?pre = "take off buf @ [tag, of_nat (length str)]"
  have pre: "take (length ?pre) ?buf = ?pre"
    using assms by (simp add: take_Suc_conv_app_nth list_update_append)
  have "encode_tlv_loop ?buf (length ?pre) (of_nat 0) str =
      Some (length ?pre + length str, ?pre @ str @ drop (length ?pre + length str) ?buf)"
    using encode_tlv_loop_copies [of str 0 ?pre ?buf] assms pre by simp
  moreover have "length ?pre = off + 2" using assms by simp
  ultimately show ?thesis
    using assms by (simp add: encode_tlv_string_def wr_in tlv_bytes_def add.commute)
qed

section \<open>The decoders\<close>

lemma decode_str_loop_copies:
  assumes "idx + n \<le> length buf" "length pre + n \<le> length str" "take (length pre) str = pre"
  shows "decode_str_loop n buf idx (length pre) str =
     Some (length pre + n, idx + n,
           pre @ take n (drop idx buf) @ drop (length pre + n) str)"
  using assms
proof (induction n arbitrary: idx pre str)
  case 0
  then show ?case by simp (metis append_take_drop_id)
next
  case (Suc n)
  let ?str = "str[length pre := buf ! idx]" and ?pre = "pre @ [buf ! idx]"
  have "take (length ?pre) ?str = ?pre"
    using Suc.prems by (simp add: take_Suc_conv_app_nth)
  then have "decode_str_loop n buf (idx + 1) (length ?pre) ?str =
      Some (length ?pre + n, idx + 1 + n, ?pre @ take n (drop (idx + 1) buf) @ drop (length ?pre + n) ?str)"
    using Suc.IH [of "idx + 1" ?pre ?str] Suc.prems by simp
  moreover have "take (Suc n) (drop idx buf) = buf ! idx # take n (drop (Suc idx) buf)"
    using Suc.prems by (simp add: Cons_nth_drop_Suc [symmetric])
  ultimately show ?case using Suc.prems by (simp add: rd_in wr_in)
qed

text \<open>The string decoder succeeds exactly when both arrays are long enough.\<close>
lemma decode_tlv_string_reads:
  assumes "idx < length buf" "idx + 1 + unat (buf ! idx) \<le> length buf"
    "unat (buf ! idx) < length str"
  shows "decode_tlv_string buf idx str =
    (let n = unat (buf ! idx); v = take n (drop (idx + 1) buf)
     in Some (0, idx + 1 + n, v @ 0 # drop (Suc n) str))"
proof -
  have "decode_str_loop (unat (buf ! idx)) buf (idx + 1) 0 str =
      Some (unat (buf ! idx), idx + 1 + unat (buf ! idx),
        take (unat (buf ! idx)) (drop (idx + 1) buf) @ drop (unat (buf ! idx)) str)"
    using decode_str_loop_copies [of "idx + 1" "unat (buf ! idx)" buf "[]" str] assms by simp
  moreover have "wr (take n v @ drop n str) n (0 :: u8) = Some (take n v @ 0 # drop (Suc n) str)"
    if "n < length str" "n \<le> length v" for n and v :: bytes
    using that by (simp add: wr_in list_update_append Cons_nth_drop_Suc [symmetric])
  ultimately show ?thesis
    using assms by (simp add: decode_tlv_string_def rd_in Let_def)
qed

lemma decode_str_loop_overflow:
  "i \<le> length str \<Longrightarrow> length str < i + n \<Longrightarrow> decode_str_loop n buf idx i str = None"
proof (induction n arbitrary: idx i str)
  case (Suc n)
  then show ?case by (auto split: Option.bind_split dest!: wr_SomeD)
qed simp

lemma decode_tlv_string_overflow:
  assumes "idx < length buf" "length str \<le> unat (buf ! idx)"
  shows "decode_tlv_string buf idx str = None"
proof (cases "length str < unat (buf ! idx)")
  case True
  then show ?thesis using assms by (simp add: decode_tlv_string_def rd_in decode_str_loop_overflow)
next
  case False
  then have n: "unat (buf ! idx) = length str" using assms by simp
  have "wr s i 0 = None" if "decode_str_loop n buf idx' i0 str0 = Some (i, j, s)"
    "i0 + n = length str0" for n idx' i0 i j and str0 s :: bytes
    using that
  proof (induction n arbitrary: idx' i0 str0)
    case (Suc n)
    then show ?case by (fastforce simp: Option.bind_eq_Some_conv dest!: wr_SomeD)
  qed (simp add: wr_out)
  then show ?thesis
    using assms n by (auto simp: decode_tlv_string_def rd_in split: Option.bind_split)
qed

lemma decode_tlv_string_progress:
  "decode_tlv_string buf idx str = Some (e, idx', str') \<Longrightarrow> idx < idx'"
proof -
  have "idx0 \<le> j" if "decode_str_loop n buf idx0 i0 str0 = Some (i, j, s)" for n idx0 i0 str0 i j s
    using that
  proof (induction n arbitrary: idx0 i0 str0)
    case (Suc n)
    then show ?case by (fastforce simp: Option.bind_eq_Some_conv)
  qed simp
  then show "decode_tlv_string buf idx str = Some (e, idx', str') \<Longrightarrow> idx < idx'"
    by (fastforce simp: decode_tlv_string_def Option.bind_eq_Some_conv)
qed

lemma decode_tlv_uint32_progress:
  "decode_tlv_uint32 buf idx v = Some (e, idx', v') \<Longrightarrow> idx < idx'"
  by (auto simp: decode_tlv_uint32_def Option.bind_eq_Some_conv Let_def split: if_splits)

lemma decode_tlv_bool_progress:
  "decode_tlv_bool buf idx v = Some (e, idx', v') \<Longrightarrow> idx < idx'"
  by (auto simp: decode_tlv_bool_def Option.bind_eq_Some_conv Let_def split: if_splits)

lemmas tlv_progress = decode_tlv_string_progress decode_tlv_uint32_progress decode_tlv_bool_progress

text \<open>Four bytes, most significant first.\<close>
definition be32 :: "u32 \<Rightarrow> bytes" where
  "be32 w = [ucast (drop_bit 24 w), ucast (drop_bit 16 w), ucast (drop_bit 8 w), ucast w]"

lemma length_be32 [simp]: "length (be32 w) = 4"
  by (simp add: be32_def)

lemma be32_value:
  "push_bit 24 (ucast (ucast (drop_bit 24 w) :: u8)) + push_bit 16 (ucast (ucast (drop_bit 16 w) :: u8)) +
     push_bit 8 (ucast (ucast (drop_bit 8 w) :: u8)) + ucast (ucast w :: u8) = (w :: u32)"
proof -
  have disj: "a + b = a OR b" if "a AND b = 0" for a b :: u32
  proof (rule disjunctive_add)
    show "\<not> bit a n \<or> \<not> bit b n" for n
      using arg_cong [OF that, of "\<lambda>w. bit w n"] by (simp add: bit_simps)
  qed
  let ?b3 = "push_bit 24 (ucast (ucast (drop_bit 24 w) :: u8)) :: u32"
  let ?b2 = "push_bit 16 (ucast (ucast (drop_bit 16 w) :: u8)) :: u32"
  let ?b1 = "push_bit 8 (ucast (ucast (drop_bit 8 w) :: u8)) :: u32"
  let ?b0 = "ucast (ucast w :: u8) :: u32"
  have "?b3 AND ?b2 = 0" "(?b3 OR ?b2) AND ?b1 = 0" "(?b3 OR ?b2 OR ?b1) AND ?b0 = 0"
    by (rule bit_word_eqI, auto simp: bit_simps)+
  then have "?b3 + ?b2 + ?b1 + ?b0 = ?b3 OR ?b2 OR ?b1 OR ?b0"
    by (simp add: disj or.assoc)
  also have "\<dots> = w"
  proof (rule bit_word_eqI)
    fix n assume "n < LENGTH(32)"
    then show "bit (?b3 OR ?b2 OR ?b1 OR ?b0) n = bit w n"
      by (cases "n < 8"; cases "n < 16"; cases "n < 24") (auto simp: bit_simps)
  qed
  finally show ?thesis .
qed

lemma decode_tlv_uint32_be32:
  assumes "drop idx buf = 4 # be32 w @ rest"
  shows "decode_tlv_uint32 buf idx v = Some (0, idx + 5, w)"
proof -
  have nth: "rd buf (idx + k) = rd (4 # be32 w @ rest) k" for k
  proof -
    have "idx \<le> length buf" using assms by (metis drop_all nat_le_linear neq_Nil_conv list.distinct(1))
    then show ?thesis unfolding assms [symmetric] by (auto simp: rd_def)
  qed
  have "rd buf idx = Some 4" "rd buf (Suc idx) = Some (be32 w ! 0)"
    "rd buf (Suc (Suc idx)) = Some (be32 w ! 1)"
    using nth [of 0] nth [of 1] nth [of 2]
    by (simp_all add: rd_def [of "4 # _"] nth_append)
  moreover have "rd buf (Suc (Suc (Suc idx))) = Some (be32 w ! 2)"
    using nth [of 3] by (simp add: rd_def [of "4 # _"] nth_append eval_nat_numeral)
  moreover have "rd buf (4 + idx) = Some (be32 w ! 3)"
    using nth [of 4] by (simp add: rd_def [of "4 # _"] nth_append add.commute)
  moreover have "unat (4 :: u8) = 4" by simp
  ultimately show ?thesis
    using be32_value [of w] by (simp add: decode_tlv_uint32_def Let_def be32_def add.commute)
qed

end
