(* ===== verification/Fota_Message.thy ===== *)
theory Fota_Message
  imports Fota_Tlv
begin

text \<open>
  The two messages of the firmware-update protocol (\<open>fota.c\<close>): the report that the node sends
  (\<open>fota_encode_simple_report\<close>) and the response of the server
  (\<open>fota_decode_simple_response\<close>), with the abstract message both stand for.
\<close>

section \<open>The response of the server\<close>

record simple_fota_response_t =
  host :: bytes
  port :: u32
  path :: bytes
  scheduled_update :: bool

text \<open>The arrays of the structure have the sizes of its declaration.\<close>
definition response_wf :: "simple_fota_response_t \<Rightarrow> bool" where
  "response_wf r \<longleftrightarrow> length (host r) = 25 \<and> length (path r) = 25"

text \<open>One turn of the decoding loop: the tag and, for a known tag, the value behind it.\<close>
definition fota_decode_field ::
  "simple_fota_response_t \<Rightarrow> bytes \<Rightarrow> nat \<Rightarrow> (int \<times> nat \<times> simple_fota_response_t) option" where
  "fota_decode_field resp buf idx = do {
     tag \<leftarrow> rd buf idx;
     let idx = idx + 1;
     if tag = HOST_ID then do {
       (err, idx, h) \<leftarrow> decode_tlv_string buf idx (host resp);
       Some (err, idx, resp\<lparr>host := h\<rparr>) }
     else if tag = PORT_ID then do {
       (err, idx, p) \<leftarrow> decode_tlv_uint32 buf idx (port resp);
       Some (err, idx, resp\<lparr>port := p\<rparr>) }
     else if tag = PATH_ID then do {
       (err, idx, p) \<leftarrow> decode_tlv_string buf idx (path resp);
       Some (err, idx, resp\<lparr>path := p\<rparr>) }
     else if tag = AVAILABLE_ID then do {
       (err, idx, a) \<leftarrow> decode_tlv_bool buf idx (scheduled_update resp);
       Some (err, idx, resp\<lparr>scheduled_update := a\<rparr>) }
     else Some (-1, idx, resp)
   }"

lemma fota_decode_field_progress:
  "fota_decode_field resp buf idx = Some (err, idx', resp') \<Longrightarrow> idx < idx'"
  unfolding fota_decode_field_def
  by (auto simp: Option.bind_eq_Some_conv Let_def dest!: tlv_progress split: if_splits)

function fota_decode_loop ::
  "simple_fota_response_t \<Rightarrow> bytes \<Rightarrow> nat \<Rightarrow> nat \<Rightarrow> (int \<times> simple_fota_response_t) option" where
  "fota_decode_loop resp buf idx len =
     (if idx < len then
        case fota_decode_field resp buf idx of
          None \<Rightarrow> None
        | Some (err, idx', resp') \<Rightarrow>
            (if err \<noteq> 0 then Some (err, resp') else fota_decode_loop resp' buf idx' len)
      else Some (0, resp))"
  by pat_completeness auto
termination
  by (relation "measure (\<lambda>(resp, buf, idx, len). len - idx)")
     (auto dest: fota_decode_field_progress)

declare fota_decode_loop.simps [simp del]

definition fota_decode_simple_response ::
  "simple_fota_response_t \<Rightarrow> bytes \<Rightarrow> nat \<Rightarrow> (int \<times> simple_fota_response_t) option" where
  "fota_decode_simple_response resp buf len = fota_decode_loop resp buf 0 len"

section \<open>What every value decoder promises\<close>

text \<open>
  The response decoder relies on its value decoders only through this contract: a decoder moves
  the index forward, and on a well-formed value it succeeds, stops right behind the value and
  stores it.
\<close>
locale tlv_value =
  fixes dec :: "bytes \<Rightarrow> nat \<Rightarrow> 's \<Rightarrow> (int \<times> nat \<times> 's) option"
    and enc :: "'a \<Rightarrow> bytes"
    and store :: "'a \<Rightarrow> 's \<Rightarrow> 's"
    and fits :: "'a \<Rightarrow> 's \<Rightarrow> bool"
  assumes progress: "dec buf idx s = Some (e, idx', s') \<Longrightarrow> idx < idx'"
    and decodes: "fits v s \<Longrightarrow> drop idx buf = enc v @ rest \<Longrightarrow>
      dec buf idx s = Some (0, idx + length (enc v), store v s)"
begin

lemma tagged:
  assumes "fits v s" "drop idx buf = tag # enc v @ rest"
  shows "rd buf idx = Some tag \<and> dec buf (idx + 1) s = Some (0, idx + 1 + length (enc v), store v s)"
proof -
  have "rd buf idx = Some tag" by (rule rd_drop_Cons [OF assms(2)])
  moreover have "drop (idx + 1) buf = enc v @ rest" using drop_Cons_Suc [OF assms(2)] by simp
  then have "dec buf (idx + 1) s = Some (0, idx + 1 + length (enc v), store v s)"
    by (rule decodes [OF assms(1)])
  ultimately show ?thesis ..
qed

end

definition string_value :: "bytes \<Rightarrow> bytes" where
  "string_value v = of_nat (length v) # v"

definition store_string :: "bytes \<Rightarrow> bytes \<Rightarrow> bytes" where
  "store_string v s = v @ 0 # drop (Suc (length v)) s"

definition bool_value :: "bool \<Rightarrow> bytes" where
  "bool_value b = [1, if b then 1 else 0]"

interpretation tlv_str: tlv_value decode_tlv_string string_value store_string
  "\<lambda>v s. length v < 256 \<and> length v < length s"
proof unfold_locales
  fix buf idx s e idx' s'
  show "decode_tlv_string buf idx s = Some (e, idx', s') \<Longrightarrow> idx < idx'"
    by (rule decode_tlv_string_progress)
next
  fix v s :: bytes and idx buf rest
  assume fits: "length v < 256 \<and> length v < length s" and d: "drop idx buf = string_value v @ rest"
  have i: "idx < length buf" using d by (metis Nil_is_append_conv drop_all list.distinct(1) not_less string_value_def)
  have d': "buf ! idx = of_nat (length v)" "drop (idx + 1) buf = v @ rest"
    using d i by (simp_all add: string_value_def Cons_nth_drop_Suc [symmetric])
  have "length buf = idx + 1 + (length v + length rest)"
    using d i by (metis Suc_leI add.commute d'(2) length_append length_drop le_add_diff_inverse2 Suc_eq_plus1)
  then show "decode_tlv_string buf idx s = Some (0, idx + length (string_value v), store_string v s)"
    using decode_tlv_string_reads [of idx buf s] i fits d'
    by (simp add: unat_of_nat_u8 string_value_def store_string_def Let_def)
qed

interpretation tlv_u32: tlv_value decode_tlv_uint32 "\<lambda>w. 4 # be32 w" "\<lambda>w s. w" "\<lambda>w s. True"
  by unfold_locales (auto dest: decode_tlv_uint32_progress simp: decode_tlv_uint32_be32)

interpretation tlv_bool: tlv_value decode_tlv_bool bool_value "\<lambda>b s. b" "\<lambda>b s. True"
proof unfold_locales
  fix buf idx s e idx' s'
  show "decode_tlv_bool buf idx s = Some (e, idx', s') \<Longrightarrow> idx < idx'"
    by (rule decode_tlv_bool_progress)
next
  fix v s :: bool and idx buf rest
  assume d: "drop idx buf = bool_value v @ rest"
  then have "drop idx buf = 1 # (if v then 1 else 0) # rest" by (simp add: bool_value_def)
  then have "rd buf idx = Some 1" "rd buf (Suc idx) = Some (if v then 1 else 0)"
    by (simp_all only: rd_drop_Cons drop_Cons_Suc)
  then show "decode_tlv_bool buf idx s = Some (0, idx + length (bool_value v), v)"
    by (simp add: decode_tlv_bool_def Let_def bool_value_def)
qed

section \<open>The abstract message\<close>

datatype fota_field = Host bytes | Port u32 | Path bytes | Available bool

fun field_bytes :: "fota_field \<Rightarrow> bytes" where
  "field_bytes (Host v) = HOST_ID # string_value v"
| "field_bytes (Port w) = PORT_ID # 4 # be32 w"
| "field_bytes (Path v) = PATH_ID # string_value v"
| "field_bytes (Available b) = AVAILABLE_ID # bool_value b"

fun field_fits :: "fota_field \<Rightarrow> bool" where
  "field_fits (Host v) = (length v < 25)"
| "field_fits (Port w) = True"
| "field_fits (Path v) = (length v < 25)"
| "field_fits (Available b) = True"

fun apply_field :: "fota_field \<Rightarrow> simple_fota_response_t \<Rightarrow> simple_fota_response_t" where
  "apply_field (Host v) r = r\<lparr>host := store_string v (host r)\<rparr>"
| "apply_field (Port w) r = r\<lparr>port := w\<rparr>"
| "apply_field (Path v) r = r\<lparr>path := store_string v (path r)\<rparr>"
| "apply_field (Available b) r = r\<lparr>scheduled_update := b\<rparr>"

definition message_bytes :: "fota_field list \<Rightarrow> bytes" where
  "message_bytes fs = concat (map field_bytes fs)"

lemma message_bytes_simps [simp]:
  "message_bytes [] = []"
  "message_bytes (f # fs) = field_bytes f @ message_bytes fs"
  by (simp_all add: message_bytes_def)

lemma response_wf_apply: "response_wf r \<Longrightarrow> field_fits f \<Longrightarrow> response_wf (apply_field f r)"
  by (cases f) (auto simp: response_wf_def store_string_def)

lemma field_bytes_nonempty: "0 < length (field_bytes f)"
  by (cases f) simp_all

lemma fota_decode_field_ok:
  assumes "response_wf r" "field_fits f" "drop idx buf = field_bytes f @ rest"
  shows "fota_decode_field r buf idx = Some (0, idx + length (field_bytes f), apply_field f r)"
proof (cases f)
  case (Host v)
  then show ?thesis
    using tlv_str.tagged [of v "host r" idx buf HOST_ID rest] assms
    by (simp add: fota_decode_field_def Let_def response_wf_def add.commute)
next
  case (Port w)
  then show ?thesis
    using tlv_u32.tagged [of idx buf PORT_ID w rest "port r"] assms
    by (simp add: fota_decode_field_def Let_def tlv_ids)
next
  case (Path v)
  then show ?thesis
    using tlv_str.tagged [of v "path r" idx buf PATH_ID rest] assms
    by (simp add: fota_decode_field_def Let_def response_wf_def tlv_ids)
next
  case (Available b)
  then show ?thesis
    using tlv_bool.tagged [of idx buf AVAILABLE_ID b rest "scheduled_update r"] assms
    by (simp add: fota_decode_field_def Let_def tlv_ids)
qed

text \<open>The decoder works through a well-formed prefix of the message field by field.\<close>
lemma fota_decode_loop_prefix:
  assumes "response_wf r" "\<forall>f \<in> set fs. field_fits f" "drop idx buf = message_bytes fs @ rest"
    "idx + length (message_bytes fs) \<le> len"
  shows "fota_decode_loop r buf idx len =
     fota_decode_loop (fold apply_field fs r) buf (idx + length (message_bytes fs)) len
     \<and> response_wf (fold apply_field fs r)"
  using assms
proof (induction fs arbitrary: r idx)
  case (Cons f fs)
  have d: "drop idx buf = field_bytes f @ message_bytes fs @ rest" using Cons.prems(3) by simp
  have step: "fota_decode_field r buf idx = Some (0, idx + length (field_bytes f), apply_field f r)"
    using fota_decode_field_ok [OF Cons.prems(1) _ d] Cons.prems(2) by simp
  have "idx < len" using Cons.prems(4) field_bytes_nonempty [of f] by (simp del: length_greater_0_conv)
  then have "fota_decode_loop r buf idx len =
      fota_decode_loop (apply_field f r) buf (idx + length (field_bytes f)) len"
    using step by (subst fota_decode_loop.simps) simp
  then show ?case
    using Cons.IH [of "apply_field f r" "idx + length (field_bytes f)"] drop_behind [OF d] Cons.prems
    by (simp add: response_wf_apply add.assoc)
qed simp

section \<open>The report of the node\<close>

text \<open>
  The version and the serial number are set by the build (\<open>AQ_VERSION\<close> and \<open>AQ_NAME\<close>); the
  manufacturer and the model are the literals of \<open>fota.h\<close>.
\<close>
definition CLIENT_MANUFACTURER :: bytes where
  "CLIENT_MANUFACTURER = cstr ''Exploratory Engineering''"

definition CLIENT_MODEL_NUMBER :: bytes where
  "CLIENT_MODEL_NUMBER = cstr ''EE-AQ-2.0''"

definition fota_encode_simple_report ::
  "bytes \<Rightarrow> bytes \<Rightarrow> bytes \<Rightarrow> (int \<times> nat \<times> bytes) option" where
  "fota_encode_simple_report client_firmware_ver client_serial_number buffer = do {
     (sz, buffer) \<leftarrow> encode_tlv_string buffer 0 FIRMWARE_VER_ID client_firmware_ver;
     (n, buffer) \<leftarrow> encode_tlv_string buffer sz CLIENT_MANUFACTURER_ID CLIENT_MANUFACTURER;
     let sz = sz + n;
     (n, buffer) \<leftarrow> encode_tlv_string buffer sz SERIAL_NUMBER_ID client_serial_number;
     let sz = sz + n;
     (n, buffer) \<leftarrow> encode_tlv_string buffer sz MODEL_NUMBER_ID CLIENT_MODEL_NUMBER;
     let sz = sz + n;
     Some (0, sz, buffer)
   }"

definition report_bytes :: "bytes \<Rightarrow> bytes \<Rightarrow> bytes" where
  "report_bytes ver serial =
     tlv_bytes FIRMWARE_VER_ID ver @ tlv_bytes CLIENT_MANUFACTURER_ID CLIENT_MANUFACTURER @
     tlv_bytes SERIAL_NUMBER_ID serial @ tlv_bytes MODEL_NUMBER_ID CLIENT_MODEL_NUMBER"

text \<open>Appending one more string field behind an already written prefix.\<close>
lemma encode_tlv_string_appends:
  assumes "length str < 256" "length pre + length str + 2 \<le> length buf" "take (length pre) buf = pre"
  shows "encode_tlv_string buf (length pre) tag str =
     Some (length str + 2, (pre @ tlv_bytes tag str) @ drop (length pre + length str + 2) buf)"
  using encode_tlv_string_writes [OF assms(1,2)] assms(3) by simp

lemma fota_decode_prefix:
  assumes "response_wf r" "\<forall>f \<in> set fs. field_fits f"
  shows "fota_decode_simple_response r (message_bytes fs @ rest) (length (message_bytes fs)) = Some (0, fold apply_field fs r)"
  using fota_decode_loop_prefix [OF assms, of 0 "message_bytes fs @ rest" rest "length (message_bytes fs)"]
  unfolding fota_decode_simple_response_def
  by (simp add: fota_decode_loop.simps [of _ _ "length (message_bytes fs)"])

section \<open>Properties\<close>

text \<open>C32: A response that is any sequence of well-formed fields (host and path shorter than
  their 25-byte arrays), in any order and with repetitions, is decoded without error, whatever
  follows it in the receive buffer; every field is stored and the last occurrence wins.\<close>
theorem fota_response_roundtrip:
  assumes "response_wf r" "\<forall>f \<in> set fs. field_fits f"
  shows "fota_decode_simple_response r (message_bytes fs @ rest) (length (message_bytes fs)) =
     Some (0, fold apply_field fs r)"
  by (rule fota_decode_prefix [OF assms])

theorem fota_response_roundtrip_witness:
  "fota_decode_simple_response
     \<lparr>host = replicate 25 7, port = 0, path = replicate 25 7, scheduled_update = False\<rparr>
     (message_bytes [Host [49, 50], Available True] @ [9, 9])
     (length (message_bytes [Host [49, 50], Available True])) =
   Some (0, \<lparr>host = [49, 50, 0] @ replicate 22 7, port = 0, path = replicate 25 7,
             scheduled_update = True\<rparr>)"
  using fota_response_roundtrip
    [of "\<lparr>host = replicate 25 7, port = 0, path = replicate 25 7, scheduled_update = False\<rparr>"
        "[Host [49, 50], Available True]" "[9, 9]"]
  by (simp add: response_wf_def store_string_def string_value_def bool_value_def drop_replicate)

text \<open>C36: A host of 25 to 255 bytes, behind any well-formed fields, makes the decoder write
  outside the \<open>host\<close> array of the response structure: the length byte of the server is never
  compared with the size of the destination.\<close>
theorem fota_response_host_overflow:
  assumes "response_wf r" "\<forall>f \<in> set fs. field_fits f" "25 \<le> length v" "length v < 256"
  shows "fota_decode_simple_response r (message_bytes (fs @ [Host v]))
           (length (message_bytes (fs @ [Host v]))) = None"
proof -
  let ?buf = "message_bytes (fs @ [Host v])" and ?n = "length (message_bytes fs)"
  let ?r = "fold apply_field fs r"
  have b: "?buf = message_bytes fs @ HOST_ID # string_value v" by (simp add: message_bytes_def)
  have pre: "fota_decode_loop r ?buf 0 (length ?buf) = fota_decode_loop ?r ?buf ?n (length ?buf)"
    and wf: "length (host ?r) = 25"
    using fota_decode_loop_prefix [OF assms(1,2), of 0 ?buf "HOST_ID # string_value v" "length ?buf"]
    by (simp_all add: b response_wf_def)
  have "decode_tlv_string ?buf (?n + 1) (host ?r) = None"
    using assms(3,4) wf
    by (intro decode_tlv_string_overflow) (simp_all add: b string_value_def nth_append unat_of_nat_u8)
  then have "fota_decode_field ?r ?buf ?n = None"
    by (simp add: fota_decode_field_def Let_def b rd_append)
  then show ?thesis
    unfolding fota_decode_simple_response_def pre
    by (subst fota_decode_loop.simps) (simp add: b)
qed

theorem fota_response_host_overflow_witness:
  "fota_decode_simple_response
     \<lparr>host = replicate 25 0, port = 0, path = replicate 25 0, scheduled_update = False\<rparr>
     (message_bytes ([Available True] @ [Host (replicate 25 65)]))
     (length (message_bytes ([Available True] @ [Host (replicate 25 65)]))) = None"
  using fota_response_host_overflow
    [of "\<lparr>host = replicate 25 0, port = 0, path = replicate 25 0, scheduled_update = False\<rparr>"
        "[Available True]" "replicate 25 65"]
  by (simp add: response_wf_def string_value_def bool_value_def)

text \<open>A response whose first unrecognised tag follows well-formed fields is refused with
  -1, and the fields before it have been stored.\<close>
theorem fota_response_unknown_tag:
  assumes "response_wf r" "\<forall>f \<in> set fs. field_fits f" "tag \<notin> {1, 2, 3, 4}"
    "length (message_bytes fs) < len"
  shows "fota_decode_simple_response r (message_bytes fs @ tag # rest) len =
     Some (-1, fold apply_field fs r)"
proof -
  let ?buf = "message_bytes fs @ tag # rest" and ?n = "length (message_bytes fs)"
  have pre: "fota_decode_loop r ?buf 0 len = fota_decode_loop (fold apply_field fs r) ?buf ?n len"
    using fota_decode_loop_prefix [OF assms(1,2), of 0 ?buf "tag # rest" len] assms(4) by simp
  have "fota_decode_field (fold apply_field fs r) ?buf ?n = Some (-1, ?n + 1, fold apply_field fs r)"
    using assms(3) by (simp add: fota_decode_field_def Let_def rd_append tlv_ids)
  then show ?thesis
    unfolding fota_decode_simple_response_def pre
    using assms(4) by (subst fota_decode_loop.simps) simp
qed

theorem fota_response_unknown_tag_witness:
  "fota_decode_simple_response
     \<lparr>host = replicate 25 0, port = 0, path = replicate 25 0, scheduled_update = False\<rparr>
     (message_bytes [Available True] @ 9 # [1, 2]) 6 =
   Some (-1, \<lparr>host = replicate 25 0, port = 0, path = replicate 25 0, scheduled_update = True\<rparr>)"
  using fota_response_unknown_tag
    [of "\<lparr>host = replicate 25 0, port = 0, path = replicate 25 0, scheduled_update = False\<rparr>"
        "[Available True]" 9 6 "[1, 2]"]
  by (simp add: response_wf_def bool_value_def)

lemma fota_report_writes:
  assumes "length ver < 256" "length serial < 256" "length ver + length serial + 40 \<le> length buf"
  shows "fota_encode_simple_report ver serial buf =
     Some (0, length (report_bytes ver serial),
           report_bytes ver serial @ drop (length (report_bytes ver serial)) buf)"
proof -
  have man: "length CLIENT_MANUFACTURER = 23" and mod: "length CLIENT_MODEL_NUMBER = 9"
    by (simp_all add: CLIENT_MANUFACTURER_def CLIENT_MODEL_NUMBER_def)
  let ?p1 = "tlv_bytes FIRMWARE_VER_ID ver"
  let ?p2 = "?p1 @ tlv_bytes CLIENT_MANUFACTURER_ID CLIENT_MANUFACTURER"
  let ?p3 = "?p2 @ tlv_bytes SERIAL_NUMBER_ID serial"
  let ?b1 = "?p1 @ drop (length ?p1) buf" and ?b2 = "?p2 @ drop (length ?p2) buf"
  let ?b3 = "?p3 @ drop (length ?p3) buf"
  have 1: "encode_tlv_string buf 0 FIRMWARE_VER_ID ver = Some (length ?p1, ?b1)"
    using encode_tlv_string_appends [of ver "[]" buf] assms by simp
  have 2: "encode_tlv_string ?b1 (length ?p1) CLIENT_MANUFACTURER_ID CLIENT_MANUFACTURER = Some (25, ?b2)"
    using encode_tlv_string_appends [of CLIENT_MANUFACTURER ?p1 ?b1] assms man by (simp add: add.commute)
  have 3: "encode_tlv_string ?b2 (length ?p1 + 25) SERIAL_NUMBER_ID serial = Some (length serial + 2, ?b3)"
    using encode_tlv_string_appends [of serial ?p2 ?b2] assms man by (simp add: ac_simps)
  have 4: "encode_tlv_string ?b3 (length ?p1 + 25 + (length serial + 2)) MODEL_NUMBER_ID CLIENT_MODEL_NUMBER =
      Some (11, report_bytes ver serial @ drop (length (report_bytes ver serial)) buf)"
    using encode_tlv_string_appends [of CLIENT_MODEL_NUMBER ?p3 ?b3] assms man mod
    by (simp add: report_bytes_def ac_simps)
  show ?thesis
    using 1 2 3 4 by (simp add: fota_encode_simple_report_def Let_def) (simp add: report_bytes_def man mod)
qed

text \<open>C35: The report consists of the version, manufacturer, serial and model fields, in this
  order, at the start of the buffer; its length is reported exactly and the rest of the buffer is
  not touched, for every version and serial number that fit the length byte and the buffer.\<close>
theorem fota_report_bytes:
  assumes "length ver < 256" "length serial < 256" "length ver + length serial + 40 \<le> length buf"
  shows "fota_encode_simple_report ver serial buf =
     Some (0, length (report_bytes ver serial),
           report_bytes ver serial @ drop (length (report_bytes ver serial)) buf)"
  by (rule fota_report_writes [OF assms])

theorem fota_report_bytes_witness:
  "fota_encode_simple_report (cstr ''1.0.0'') (cstr ''node'') (replicate 256 0) =
   Some (0, 49, report_bytes (cstr ''1.0.0'') (cstr ''node'') @ replicate 207 0)"
  using fota_report_bytes [of "cstr ''1.0.0''" "cstr ''node''" "replicate 256 0"]
  by (simp add: report_bytes_def CLIENT_MANUFACTURER_def CLIENT_MODEL_NUMBER_def drop_replicate)

end
