(* ===== verification/System_Calls.thy ===== *)
theory System_Calls
  imports Prelude
begin

text \<open>
  What the application does outside its own memory: socket calls, pauses, the boot loader, the
  watchdog. The calls go to the kernel (which hands socket calls to the offloaded sockets); their
  results are a script with one entry per call, a number and the received bytes. Behind the end of
  the script every call returns -1. The trace keeps every call with its arguments: the result of opening and
  connecting, the destination of a datagram, the time limit of a poll, the size of the buffer of a receive
  (\<open>Received_Now\<close> is \<open>recv\<close> with \<open>MSG_DONTWAIT\<close>).
\<close>

datatype sys_event =
    Opened int
  | Connected int bytes nat int
  | Sent int bytes
  | SentTo int bytes bytes nat
  | Polled int int
  | Received int nat
  | Received_Now int nat
  | Closed int
  | Slept int
  | Fed
  | ImageConfirmed int
  | UpgradeRequested int
  | SystemReboot

record sys =
  results :: "(int \<times> bytes) list"
  sys_trace :: "sys_event list"

definition note_event :: "sys_event \<Rightarrow> 'a sys_scheme \<Rightarrow> 'a sys_scheme" where
  "note_event e st = st\<lparr>sys_trace := sys_trace st @ [e]\<rparr>"

text \<open>A call, with the event that it leaves.\<close>
definition sys_call :: "(int \<Rightarrow> sys_event) \<Rightarrow> 'a sys_scheme \<Rightarrow> int \<times> bytes \<times> 'a sys_scheme" where
  "sys_call e st =
     (case results st of
        [] \<Rightarrow> (-1, [], note_event (e (-1)) st)
      | (r, bs) # rs \<Rightarrow> (r, bs, note_event (e r) (st\<lparr>results := rs\<rparr>)))"

definition pause :: "int \<Rightarrow> 'a sys_scheme \<Rightarrow> 'a sys_scheme" where
  "pause d = note_event (Slept d)"

text \<open>
  A receive call on a buffer of \<open>n\<close> bytes, as the socket interface documents it: a result that is not negative is the number of bytes
  that the call has stored in the buffer, at most \<open>n\<close>.
\<close>
definition sys_recv :: "(nat \<Rightarrow> sys_event) \<Rightarrow> nat \<Rightarrow> 'a sys_scheme \<Rightarrow> int \<times> bytes \<times> 'a sys_scheme" where
  "sys_recv e n st =
     (case sys_call (\<lambda>_. e n) st of
        (r, bs, st) \<Rightarrow> if r < 0 then (r, [], st) else (let d = take n (take (nat r) bs) in (int (length d), d, st)))"

section \<open>Sockets\<close>

definition sys_socket :: "'a sys_scheme \<Rightarrow> int \<times> bytes \<times> 'a sys_scheme" where
  "sys_socket = sys_call Opened"

definition sys_close :: "int \<Rightarrow> 'a sys_scheme \<Rightarrow> 'a sys_scheme" where
  "sys_close s = note_event (Closed s)"

text \<open>
  The descriptors in use: a successful \<open>socket\<close> adds one, \<open>close\<close> removes it, and every other call
  needs one that is in use. Nothing is the result of a use of a closed descriptor.
\<close>
fun sock_run :: "int list \<Rightarrow> sys_event list \<Rightarrow> int list option" where
  "sock_run fds [] = Some fds"
| "sock_run fds (Opened s # es) = sock_run (if s < 0 then fds else s # fds) es"
| "sock_run fds (Closed s # es) = (if s \<in> set fds then sock_run (remove1 s fds) es else None)"
| "sock_run fds (Connected s h p r # es) = (if s \<in> set fds then sock_run fds es else None)"
| "sock_run fds (Sent s bs # es) = (if s \<in> set fds then sock_run fds es else None)"
| "sock_run fds (SentTo s bs h p # es) = (if s \<in> set fds then sock_run fds es else None)"
| "sock_run fds (Polled s ms # es) = (if s \<in> set fds then sock_run fds es else None)"
| "sock_run fds (Received s n # es) = (if s \<in> set fds then sock_run fds es else None)"
| "sock_run fds (Received_Now s n # es) = (if s \<in> set fds then sock_run fds es else None)"
| "sock_run fds (e # es) = sock_run fds es"

lemma sock_run_append: "sock_run fds (xs @ ys) = Option.bind (sock_run fds xs) (\<lambda>fds. sock_run fds ys)"
  by (induction fds xs rule: sock_run.induct) auto

text \<open>A part of the program that takes the descriptors from one state to another.\<close>
definition leads :: "int list \<Rightarrow> 'a sys_scheme \<Rightarrow> int list \<Rightarrow> 'a sys_scheme \<Rightarrow> bool" where
  "leads fds a fds' b \<longleftrightarrow> (\<exists>es. sys_trace b = sys_trace a @ es \<and> sock_run fds es = Some fds')"

lemma leads_refl: "leads fds a fds a"
  by (simp add: leads_def)

lemma leads_trans: "leads fds a fds' b \<Longrightarrow> leads fds' b fds'' c \<Longrightarrow> leads fds a fds'' c"
  unfolding leads_def by (metis append_assoc sock_run_append bind.bind_lunit)

lemma note_event_fields [simp]:
  "sys_trace (note_event e st) = sys_trace st @ [e]" "results (note_event e st) = results st"
  "sys_trace (pause d st) = sys_trace st @ [Slept d]" "results (pause d st) = results st"
  "sys_trace (sys_close s st) = sys_trace st @ [Closed s]" "results (sys_close s st) = results st"
  by (simp_all add: note_event_def pause_def sys_close_def)

lemma sys_call_trace: "sys_call e st = (r, bs, st') \<Longrightarrow> sys_trace st' = sys_trace st @ [e r]"
  by (auto simp: sys_call_def split: list.splits)

text \<open>A call uses up the script, except behind its end, where it fails.\<close>
lemma sys_call_results:
  "sys_call e st = (r, bs, st') \<Longrightarrow> results st' = tl (results st) \<and> (results st = [] \<longrightarrow> r = -1 \<and> bs = [])"
  by (auto simp: sys_call_def split: list.splits)

lemma sys_call_next:
  "results st = (r, bs) # rs \<Longrightarrow> sys_call e st = (r, bs, note_event (e r) (st\<lparr>results := rs\<rparr>))"
  by (simp add: sys_call_def)

lemma leads_call:
  assumes "sys_call e st = (r, bs, st')" "sock_run fds [e r] = Some fds'"
  shows "leads fds st fds' st'"
  using sys_call_trace [OF assms(1)] assms(2) by (auto simp: leads_def)

lemma sys_recv_call:
  assumes "sys_recv e n st = (r, bs, st')"
  obtains r0 bs0 where "sys_call (\<lambda>_. e n) st = (r0, bs0, st')" "length bs \<le> n" "r < 0 \<and> r = r0 \<and> bs = [] \<or> r = int (length bs)"
    "0 \<le> r \<longrightarrow> 0 \<le> r0 \<and> bs = take n (take (nat r0) bs0)"
proof -
  obtain r0 bs0 st0 where c: "sys_call (\<lambda>_. e n) st = (r0, bs0, st0)" by (metis prod_cases3)
  show ?thesis
  proof (cases "r0 < 0")
    case True
    then have "r = r0" "bs = []" "st' = st0" using assms c by (simp_all add: sys_recv_def)
    then show ?thesis using True c that [of r0 bs0] by simp
  next
    case False
    then have "r = int (length bs)" "bs = take n (take (nat r0) bs0)" "st' = st0" using assms c by (auto simp: sys_recv_def Let_def)
    then show ?thesis using False c that [of r0 bs0] by simp
  qed
qed

lemma sys_recv_results: "sys_recv e n st = (r, bs, st') \<Longrightarrow> results st' = tl (results st)"
  by (erule sys_recv_call) (simp add: sys_call_results)

lemma sys_recv_next:
  assumes "results st = (int (length bs), bs) # rs" "length bs \<le> n"
  shows "sys_recv e n st = (int (length bs), bs, note_event (e n) (st\<lparr>results := rs\<rparr>))"
  using assms by (simp add: sys_recv_def sys_call_next Let_def)

lemma sys_recv_fails:
  "results st = (r, bs) # rs \<Longrightarrow> r < 0 \<Longrightarrow> sys_recv e n st = (r, [], note_event (e n) (st\<lparr>results := rs\<rparr>))"
  by (simp add: sys_recv_def sys_call_next)

lemma leads_recv:
  assumes "sys_recv e n st = (r, bs, st')" "sock_run fds [e n] = Some fds'"
  shows "leads fds st fds' st'"
  using assms(1)
proof (rule sys_recv_call)
  fix r0 bs0
  assume "sys_call (\<lambda>_. e n) st = (r0, bs0, st')"
  then show ?thesis by (rule leads_call) (rule assms(2))
qed

lemma leads_event: "sock_run fds [e] = Some fds' \<Longrightarrow> leads fds st fds' (note_event e st)"
  by (auto simp: leads_def)

lemma leads_pause: "leads fds st fds (pause d st)"
  by (simp add: leads_def)

lemma leads_close: "leads (s # fds) st fds (sys_close s st)"
  by (auto simp: leads_def)


text \<open>The time that the application has paused, in milliseconds.\<close>
definition nap_of :: "sys_event \<Rightarrow> int" where
  "nap_of e = (case e of Slept d \<Rightarrow> max 0 d | _ \<Rightarrow> 0)"

definition slept :: "'a sys_scheme \<Rightarrow> int" where
  "slept st = sum_list (map nap_of (sys_trace st))"

lemma naps_nonneg: "0 \<le> sum_list (map nap_of es)"
  by (induction es) (auto simp: nap_of_def split: sys_event.split)

lemma leads_slept: "leads fds a fds' b \<Longrightarrow> slept a \<le> slept b"
  using naps_nonneg by (auto simp: leads_def slept_def)

lemma pause_slept [simp]: "slept (pause d st) = slept st + max 0 d"
  by (simp add: slept_def nap_of_def)

end
