(* ===== verification/Fota_Net.thy ===== *)
theory Fota_Net
  imports Fota_Message System_Calls
begin

text \<open>
  The network side of the firmware update: reporting the version, waiting for an answer,
  downloading the image block by block into the flash (\<open>fota.c\<close>, \<open>flash.c\<close>). The CoAP library, the
  flash driver and the random numbers are parameters. \<open>None\<close> is an access outside an array.
\<close>

section \<open>The libraries\<close>

record block_ctx =
  total_size :: nat
  current_block :: nat

datatype coap_method = COAP_METHOD_GET | COAP_METHOD_POST

text \<open>
  CoAP packets: the bytes built so far, or \<open>None\<close> when a function reports an error. A parsed reply
  is of a type of the library; its payload is given by offset and length in the receive buffer.
\<close>
record 'p coap =
  coap_packet_init :: "nat \<Rightarrow> bytes \<Rightarrow> coap_method \<Rightarrow> nat \<Rightarrow> bytes option"
  append_path :: "bytes \<Rightarrow> bytes \<Rightarrow> bytes option"
  append_marker :: "bytes \<Rightarrow> bytes option"
  append_payload :: "bytes \<Rightarrow> bytes \<Rightarrow> bytes option"
  append_block2 :: "bytes \<Rightarrow> block_ctx \<Rightarrow> bytes option"
  coap_parse :: "bytes \<Rightarrow> 'p option"
  coap_payload :: "'p \<Rightarrow> nat \<times> nat"
  update_from_block :: "'p \<Rightarrow> block_ctx \<Rightarrow> block_ctx option"
  next_block :: "'p \<Rightarrow> block_ctx \<Rightarrow> bool \<times> block_ctx"
  coap_token :: "nat \<Rightarrow> bytes"

record 'fl flash =
  flash_img_init :: "'fl \<Rightarrow> 'fl"
  boot_erase_img_bank :: "'fl \<Rightarrow> int \<times> 'fl"
  flash_img_buffered_write :: "bytes \<Rightarrow> bool \<Rightarrow> 'fl \<Rightarrow> int \<times> 'fl"
  FLASH_BANK_SIZE :: nat

definition EINVAL_NEG :: int where "EINVAL_NEG = -22"
definition MAX_BUFFER_LEN :: nat where "MAX_BUFFER_LEN = 512"
definition TOKEN_SIZE :: nat where "TOKEN_SIZE = 8"
definition DEFAULT_FOTA_COAP_REPORT_PATH :: bytes where "DEFAULT_FOTA_COAP_REPORT_PATH = cstr ''u''"
definition DEFAULT_FOTA_COAP_PORT :: nat where "DEFAULT_FOTA_COAP_PORT = 5683"

text \<open>The state: the script and trace of calls, the flash and the two static buffers.\<close>
record 'fl fota = sys +
  dfu_ctx :: 'fl
  response_buffer :: bytes
  ids_drawn :: nat

section \<open>The flash writer\<close>

definition write_firmware_block :: "'fl flash \<Rightarrow> bytes \<Rightarrow> bool \<Rightarrow> bool \<Rightarrow> nat \<Rightarrow> 'fl \<Rightarrow> int \<times> 'fl" where
  "write_firmware_block fl dat first_block last_block image_size fs =
     (if FLASH_BANK_SIZE fl < image_size then (EINVAL_NEG, fs)
      else if dat = [] then (EINVAL_NEG, fs)
      else
        let (ret, fs) = (if first_block then boot_erase_img_bank fl (flash_img_init fl fs) else (0, fs))
        in if ret \<noteq> 0 then (ret, fs) else flash_img_buffered_write fl dat last_block fs)"

section \<open>Waiting for an answer\<close>

definition POLL_WAIT_MS :: int where "POLL_WAIT_MS = 500"
definition MAX_WAIT_TIME_MS :: int where "MAX_WAIT_TIME_MS = 60000"

text \<open>The loop of \<open>wait_for_response\<close>; the result of a poll is the value that \<open>revents\<close> gets.\<close>
function wait_loop :: "int \<Rightarrow> int \<Rightarrow> 'a sys_scheme \<Rightarrow> bool \<times> 'a sys_scheme" where
  "wait_loop sock wait st =
     (case sys_call (\<lambda>_. Polled sock POLL_WAIT_MS) st of
        (revents, _, st) \<Rightarrow>
          if revents AND 1 = 1 then (True, st)
          else if wait + 1 > MAX_WAIT_TIME_MS div POLL_WAIT_MS then (False, st)
          else wait_loop sock (wait + 1) st)"
  by pat_completeness auto
termination
  by (relation "measure (\<lambda>(s, w, st). nat (121 - w))") (auto simp: MAX_WAIT_TIME_MS_def POLL_WAIT_MS_def)

declare wait_loop.simps [simp del]

definition wait_for_response :: "int \<Rightarrow> 'a sys_scheme \<Rightarrow> bool \<times> 'a sys_scheme" where
  "wait_for_response sock st = wait_loop sock 0 st"

section \<open>Reporting the version\<close>

definition draw_id :: "'fl fota \<Rightarrow> nat \<times> 'fl fota" where
  "draw_id st = (ids_drawn st, st\<lparr>ids_drawn := ids_drawn st + 1\<rparr>)"

text \<open>
  The packet of the report. The local buffer of the report is not initialised; \<open>tmp0\<close> is its
  content. \<open>Some None\<close> is an error of the CoAP library.
\<close>
definition report_packet :: "'p coap \<Rightarrow> bytes \<Rightarrow> bytes \<Rightarrow> bytes \<Rightarrow> nat \<Rightarrow> bytes \<Rightarrow> bytes option option" where
  "report_packet c ver serial token i tmp0 =
     (case Option.bind (coap_packet_init c MAX_BUFFER_LEN token COAP_METHOD_POST i)
        (\<lambda>p. Option.bind (append_path c p DEFAULT_FOTA_COAP_REPORT_PATH) (append_marker c)) of
        None \<Rightarrow> Some None
      | Some p \<Rightarrow> do {
          (ret, len, tmp) \<leftarrow> fota_encode_simple_report ver serial tmp0;
          Some (if ret < 0 then None else append_payload c p (take len tmp)) })"

text \<open>The answer, once it has been received: parse it and decode the payload.\<close>
definition report_reply ::
  "'p coap \<Rightarrow> simple_fota_response_t \<Rightarrow> int \<Rightarrow> bytes \<Rightarrow> 'fl fota \<Rightarrow> (int \<times> simple_fota_response_t \<times> 'fl fota) option" where
  "report_reply c resp received bs st = do {
     buf \<leftarrow> wr_block (response_buffer st) 0 bs;
     let st = st\<lparr>response_buffer := buf\<rparr>;
     case coap_parse c (take (nat received) buf) of
       None \<Rightarrow> Some (-1, resp, st)
     | Some reply \<Rightarrow> do {
         let (off, len) = coap_payload c reply;
         (err, resp) \<leftarrow> fota_decode_simple_response resp (drop off buf) len;
         Some ((if err < 0 then -1 else 0), resp, st) } }"

text \<open>The result and the response structure, which the caller provides.\<close>
definition fota_report_version ::
  "'p coap \<Rightarrow> bytes \<Rightarrow> bytes \<Rightarrow> bytes \<Rightarrow> bytes \<Rightarrow> bytes \<Rightarrow> simple_fota_response_t \<Rightarrow> 'fl fota \<Rightarrow>
     (int \<times> simple_fota_response_t \<times> 'fl fota) option" where
  "fota_report_version c ver serial coap_host token tmp0 resp st = do {
     let (i, st) = draw_id st;
     packet \<leftarrow> report_packet c ver serial token i tmp0;
     case packet of
       None \<Rightarrow> Some (-1, resp, st)
     | Some p \<Rightarrow>
         (case sys_socket st of
            (sock, _, st) \<Rightarrow>
              if sock < 0 then Some (sock, resp, st)
              else case sys_call (\<lambda>_. SentTo sock p coap_host DEFAULT_FOTA_COAP_PORT) st of
                (err, _, st) \<Rightarrow>
                  if err < 0 then Some (err, resp, sys_close sock st)
                  else case wait_for_response sock st of
                    (ok, st) \<Rightarrow>
                      if \<not> ok then Some (-1, resp, sys_close sock st)
                      else case sys_recv (Received sock) MAX_BUFFER_LEN st of
                        (received, bs, st) \<Rightarrow>
                          if received < 0 then Some (received, resp, sys_close sock st)
                          else report_reply c resp received bs (sys_close sock st)) }"

section \<open>Downloading the image\<close>

text \<open>The request for one block.\<close>
definition block_request :: "'p coap \<Rightarrow> bytes \<Rightarrow> nat \<Rightarrow> bytes \<Rightarrow> block_ctx \<Rightarrow> bytes option" where
  "block_request c token i pth ctx = do {
     p \<leftarrow> coap_packet_init c MAX_BUFFER_LEN token COAP_METHOD_GET i;
     p \<leftarrow> append_path c p pth;
     append_block2 c p ctx }"

text \<open>One turn of the download loop: the result False, or the new context, size and whether the block was the last.\<close>
datatype 'fl turn = Failed "'fl fota" | Block bool block_ctx nat "'fl fota"

text \<open>What follows the receive call: parse, write the payload to the flash, and see whether more blocks follow.\<close>
definition store_block ::
  "'p coap \<Rightarrow> 'fl flash \<Rightarrow> int \<Rightarrow> block_ctx \<Rightarrow> nat \<Rightarrow> int \<Rightarrow> bytes \<Rightarrow> 'fl fota \<Rightarrow> 'fl turn option" where
  "store_block c fl sock ctx got received bs st =
     (if received \<le> 0 then Some (Failed (sys_close sock st))
      else do {
        buf \<leftarrow> wr_block (replicate MAX_BUFFER_LEN 0) 0 bs;
        let st = st\<lparr>response_buffer := buf\<rparr>;
        case coap_parse c (take (nat received) buf) of
          None \<Rightarrow> Some (Failed (sys_close sock st))
        | Some reply \<Rightarrow>
            (case update_from_block c reply ctx of
               None \<Rightarrow> Some (Failed (sys_close sock st))
             | Some ctx \<Rightarrow>
                 let (again, ctx) = next_block c reply ctx;
                     (off, len) = coap_payload c reply;
                     got = got + len;
                     first = (got = len);
                     last = (got = total_size ctx);
                     (ret, fs) = write_firmware_block fl (take len (drop off buf)) first last (total_size ctx) (dfu_ctx st);
                     st = st\<lparr>dfu_ctx := fs\<rparr>
                 in if ret < 0 then Some (Failed (sys_close sock st))
                    else Some (Block (\<not> again) ctx got st)) })"

definition download_block ::
  "'p coap \<Rightarrow> 'fl flash \<Rightarrow> bytes \<Rightarrow> int \<Rightarrow> bytes \<Rightarrow> block_ctx \<Rightarrow> nat \<Rightarrow> 'fl fota \<Rightarrow> 'fl turn option" where
  "download_block c fl token sock pth ctx got st =
     (let (i, st) = draw_id st in
      case block_request c token i pth ctx of
        None \<Rightarrow> Some (Failed (sys_close sock st))
      | Some request \<Rightarrow>
          (case sys_call (\<lambda>_. Sent sock request) st of
             (sent, _, st) \<Rightarrow>
               if sent \<noteq> int (length request) then Some (Failed (sys_close sock st))
               else case wait_for_response sock st of
                 (ok, st) \<Rightarrow>
                   if \<not> ok then Some (Failed (sys_close sock st))
                   else case sys_recv (Received_Now sock) MAX_BUFFER_LEN st of
                     (received, bs, st) \<Rightarrow> store_block c fl sock ctx got received bs st))"

text \<open>Storing a block leaves the script alone, and adds to the trace only the closing of the socket on failure.\<close>
lemma store_block_keeps:
  assumes "store_block c fl sock ctx got received bs st = Some t"
  shows "case t of Failed st' \<Rightarrow> results st' = results st \<and> sys_trace st' = sys_trace st @ [Closed sock]
     | Block l ctx' got' st' \<Rightarrow> results st' = results st \<and> sys_trace st' = sys_trace st"
proof (cases "received \<le> 0")
  case True
  then show ?thesis using assms by (auto simp: store_block_def)
next
  case False
  then obtain buf where b: "wr_block (replicate MAX_BUFFER_LEN 0) 0 bs = Some buf"
    using assms by (auto simp: store_block_def Option.bind_eq_Some_conv)
  show ?thesis
  proof (cases "coap_parse c (take (nat received) buf)")
    case None
    then show ?thesis using assms False b by (auto simp: store_block_def)
  next
    case (Some reply)
    show ?thesis
    proof (cases "update_from_block c reply ctx")
      case None
      then show ?thesis using assms False b Some by (auto simp: store_block_def)
    next
      case u: (Some ctx1)
      obtain again ctx2 off len where n: "next_block c reply ctx1 = (again, ctx2)" "coap_payload c reply = (off, len)" by fastforce
      obtain ret fs where "write_firmware_block fl (take len (drop off buf)) (got + len = len) (got + len = total_size ctx2)
          (total_size ctx2) (dfu_ctx st) = (ret, fs)" by fastforce
      then show ?thesis using assms False b Some u n by (auto simp: store_block_def Let_def split: if_splits)
    qed
  qed
qed

lemma wait_loop_results: "length (results (snd (wait_loop sock w st))) \<le> length (results st)"
proof (induction sock w st rule: wait_loop.induct)
  case (1 sock w st)
  obtain r bs st' where c: "sys_call (\<lambda>_. Polled sock POLL_WAIT_MS) st = (r, bs, st')" by (metis prod_cases3)
  have l: "length (results st') \<le> length (results st)" using sys_call_results [OF c] by simp
  show ?case
    using 1 [OF c [symmetric] refl] c l by (subst wait_loop.simps) auto
qed

text \<open>A turn that goes on has used up an entry of the script: its send succeeded.\<close>
lemma download_block_results:
  assumes "download_block c fl token sock pth ctx got st = Some (Block l ctx' got' st')"
  shows "length (results st') < length (results st)"
proof -
  obtain i st0 where 0: "draw_id st = (i, st0)" "results st0 = results st" by (simp add: draw_id_def)
  obtain req where 1: "block_request c token i pth ctx = Some req"
    using assms 0 by (auto simp: download_block_def split: option.splits)
  obtain sent b1 st1 where 2: "sys_call (\<lambda>_. Sent sock req) st0 = (sent, b1, st1)" by (metis prod_cases3)
  obtain ok st2 where 3: "wait_for_response sock st1 = (ok, st2)" by fastforce
  obtain rcv bs st3 where 4: "sys_recv (Received_Now sock) MAX_BUFFER_LEN st2 = (rcv, bs, st3)" by (metis prod_cases3)
  have "sent = int (length req)" using assms 0(1) 1 2 by (auto simp: download_block_def split: if_splits)
  then have "length (results st1) < length (results st)"
    using sys_call_results [OF 2] 0(2) by (cases "results st") auto
  moreover have "length (results st2) \<le> length (results st1)"
    using wait_loop_results [of sock 0 st1] 3 by (simp add: wait_for_response_def)
  moreover have "length (results st3) \<le> length (results st2)" using sys_recv_results [OF 4] by simp
  moreover have "results st' = results st3"
    using assms 0(1) 1 2 3 4 store_block_keeps [of c fl sock ctx got rcv bs st3]
    by (fastforce simp: download_block_def split: if_splits)
  ultimately show ?thesis by simp
qed

function download_loop ::
  "'p coap \<Rightarrow> 'fl flash \<Rightarrow> bytes \<Rightarrow> int \<Rightarrow> bytes \<Rightarrow> block_ctx \<Rightarrow> nat \<Rightarrow> 'fl fota \<Rightarrow> (bool \<times> 'fl fota) option" where
  "download_loop c fl token sock pth ctx got st =
     (case download_block c fl token sock pth ctx got st of
        None \<Rightarrow> None
      | Some (Failed st) \<Rightarrow> Some (False, st)
      | Some (Block last_block ctx got st) \<Rightarrow>
          (if last_block then Some (True, sys_close sock st)
           else download_loop c fl token sock pth ctx got st))"
  by pat_completeness auto
termination
  by (relation "measure (\<lambda>(c, fl, token, sock, path, ctx, got, st). length (results st))")
    (auto dest: download_block_results)

declare download_loop.simps [simp del]

text \<open>Host and path are C strings in the response structure; the port of an address has 16 bits.\<close>
definition fota_download_image ::
  "'p coap \<Rightarrow> 'fl flash \<Rightarrow> simple_fota_response_t \<Rightarrow> 'fl fota \<Rightarrow> (bool \<times> 'fl fota) option" where
  "fota_download_image c fl resp st =
     (case sys_socket st of
        (sock, _, st) \<Rightarrow>
          if sock < 0 then Some (False, st)
          else do {
            h \<leftarrow> c_str (host resp);
            case sys_call (Connected sock h (unat (ucast (port resp) :: u16))) st of
              (r, _, st) \<Rightarrow>
                if r < 0 then Some (False, sys_close sock st)
                else do {
                  p \<leftarrow> c_str (path resp);
                  download_loop c fl (coap_token c (ids_drawn st)) sock p \<lparr>total_size = 0, current_block = 0\<rparr> 0 st } })"

section \<open>The update\<close>

definition do_reboot :: "'a sys_scheme \<Rightarrow> 'a sys_scheme" where
  "do_reboot st = (case sys_call UpgradeRequested st of (_, _, st) \<Rightarrow> note_event SystemReboot st)"

text \<open>The image counts as confirmed when the first call says so; otherwise it is confirmed now.\<close>
definition init_image :: "'a sys_scheme \<Rightarrow> int \<times> 'a sys_scheme" where
  "init_image st =
     (case sys_call ImageConfirmed st of
        (confirmed, _, st) \<Rightarrow>
          if confirmed = 0 then (case sys_call ImageConfirmed st of (ret, _, st) \<Rightarrow> (ret, st))
          else (0, st))"

definition fota_init :: "'a sys_scheme \<Rightarrow> bool \<times> 'a sys_scheme" where
  "fota_init st = (case init_image st of (ret, st) \<Rightarrow> (ret = 0, st))"

text \<open>
  The response structure is a local variable that is not initialised; \<open>resp0\<close> is its content. The
  result True stands behind the reboot, which does not return.
\<close>
definition fota_run ::
  "'p coap \<Rightarrow> 'fl flash \<Rightarrow> bytes \<Rightarrow> bytes \<Rightarrow> bytes \<Rightarrow> bytes \<Rightarrow> bytes \<Rightarrow> simple_fota_response_t \<Rightarrow> 'fl fota \<Rightarrow>
     (bool \<times> 'fl fota) option" where
  "fota_run c fl ver serial coap_host token tmp0 resp0 st = do {
     (ret, resp, st) \<leftarrow> fota_report_version c ver serial coap_host token tmp0 resp0 st;
     if ret \<noteq> 0 then Some (False, st)
     else if scheduled_update resp then do {
       (ok, st) \<leftarrow> fota_download_image c fl resp st;
       if \<not> ok then Some (False, st) else Some (True, do_reboot st) }
     else Some (False, st) }"


section \<open>Sockets are closed\<close>

lemma leads_fields [simp]:
  "leads fds st fds' (st'\<lparr>response_buffer := b\<rparr>) = leads fds st fds' st'"
  "leads fds st fds' (st'\<lparr>dfu_ctx := d\<rparr>) = leads fds st fds' st'"
  "leads fds st fds' (st'\<lparr>ids_drawn := i\<rparr>) = leads fds st fds' st'"
  "leads fds (st\<lparr>ids_drawn := i\<rparr>) fds' st' = leads fds st fds' st'"
  by (simp_all add: leads_def)

lemma leads_closed: "leads fds st (s # fds) st' \<Longrightarrow> leads fds st fds (sys_close s st')"
  using leads_trans leads_close by blast

lemma wait_loop_leads: "s \<in> set fds \<Longrightarrow> wait_loop s w st = (ok, st') \<Longrightarrow> leads fds st fds st'"
proof (induction s w st arbitrary: ok rule: wait_loop.induct)
  case (1 s w st)
  obtain r bs st1 where c: "sys_call (\<lambda>_. Polled s POLL_WAIT_MS) st = (r, bs, st1)" by (metis prod_cases3)
  have l: "leads fds st fds st1" using leads_call [OF c] 1(2) by simp
  then show ?case
    using 1(1) [OF c [symmetric] refl _ _ 1(2)] 1(3) c leads_trans [OF l]
    by (subst (asm) (2) wait_loop.simps) (auto split: if_splits)
qed

text \<open>An ordinary call on the socket that was opened last.\<close>
lemma leads_use:
  assumes "leads fds st (s # fds) st1" "sys_call e st1 = (r, bs, st2)" "sock_run (s # fds) [e r] = Some (s # fds)"
  shows "leads fds st (s # fds) st2"
  using leads_trans [OF assms(1) leads_call [OF assms(2,3)]] .

lemma leads_use_recv:
  assumes "leads fds st (s # fds) st1" "sys_recv e n st1 = (r, bs, st2)" "sock_run (s # fds) [e n] = Some (s # fds)"
  shows "leads fds st (s # fds) st2"
  using leads_trans [OF assms(1) leads_recv [OF assms(2,3)]] .

lemma report_reply_trace:
  assumes "report_reply c resp received bs st = Some (ret, resp', st')"
  shows "sys_trace st' = sys_trace st \<and> results st' = results st"
proof -
  obtain buf where b: "wr_block (response_buffer st) 0 bs = Some buf"
    using assms by (auto simp: report_reply_def Option.bind_eq_Some_conv)
  show ?thesis
  proof (cases "coap_parse c (take (nat received) buf)")
    case None
    then show ?thesis using assms b by (auto simp: report_reply_def)
  next
    case (Some reply)
    obtain off len where "coap_payload c reply = (off, len)" by fastforce
    then show ?thesis using assms b Some by (auto simp: report_reply_def Option.bind_eq_Some_conv split: if_splits)
  qed
qed

lemma fota_report_version_leads:
  assumes "fota_report_version c ver serial coap_host token tmp0 resp st = Some (ret, resp', st')"
  shows "leads fds st fds st'"
proof -
  obtain i st0 where 0: "draw_id st = (i, st0)" "leads fds st fds st0" by (simp add: draw_id_def leads_refl)
  obtain packet where p: "report_packet c ver serial token i tmp0 = Some packet"
    using assms 0 by (auto simp: fota_report_version_def Option.bind_eq_Some_conv)
  show ?thesis
  proof (cases packet)
    case None
    then show ?thesis using assms 0 p by (simp add: fota_report_version_def)
  next
    case (Some pk)
    obtain sock b1 st1 where 1: "sys_socket st0 = (sock, b1, st1)" by (metis prod_cases3)
    obtain err b2 st2 where 2: "sys_call (\<lambda>_. SentTo sock pk coap_host DEFAULT_FOTA_COAP_PORT) st1 = (err, b2, st2)" by (metis prod_cases3)
    obtain ok st3 where 3: "wait_for_response sock st2 = (ok, st3)" by fastforce
    obtain received bs st4 where 4: "sys_recv (Received sock) MAX_BUFFER_LEN st3 = (received, bs, st4)" by (metis prod_cases3)
    have a1: "leads fds st (if sock < 0 then fds else sock # fds) st1"
      using leads_trans [OF 0(2) leads_call [OF 1 [unfolded sys_socket_def], of fds]] by simp
    show ?thesis
    proof (cases "sock < 0")
      case True
      then show ?thesis using assms 0 p Some 1 a1 by (simp add: fota_report_version_def)
    next
      case False
      then have l1: "leads fds st (sock # fds) st1" using a1 by simp
      have l2: "leads fds st (sock # fds) st2" by (rule leads_use [OF l1 2]) simp
      have l3: "leads fds st (sock # fds) st3"
        using leads_trans [OF l2 wait_loop_leads [OF _ 3 [unfolded wait_for_response_def]]] by simp
      have l4: "leads fds st (sock # fds) st4" by (rule leads_use_recv [OF l3 4]) simp
      show ?thesis
        using assms 0(1) p Some 1 2 3 4 False leads_closed [OF l2] leads_closed [OF l3] leads_closed [OF l4]
          report_reply_trace [of c resp received bs "sys_close sock st4"]
        by (auto simp: fota_report_version_def leads_def split: if_splits)
    qed
  qed
qed

lemma download_loop_leads:
  "leads fds st0 (sock # fds) st \<Longrightarrow> download_loop c fl token sock pth ctx got st = Some (ok, st') \<Longrightarrow> leads fds st0 fds st'"
proof (induction c fl token sock pth ctx got st arbitrary: st' rule: download_loop.induct)
  case (1 c fl token sock pth ctx got st)
  obtain t where t: "download_block c fl token sock pth ctx got st = Some t"
    using 1(3) by (subst (asm) download_loop.simps) (auto split: option.splits)
  have l: "case t of Failed st1 \<Rightarrow> leads fds st0 fds st1 | Block l ctx' got' st1 \<Rightarrow> leads fds st0 (sock # fds) st1"
  proof -
    obtain i s0 where 0: "draw_id st = (i, s0)" "leads fds st0 (sock # fds) s0" using 1(2) by (simp add: draw_id_def)
    show ?thesis
    proof (cases "block_request c token i pth ctx")
      case None
      then show ?thesis using t 0 leads_closed [OF 0(2)] by (auto simp: download_block_def)
    next
      case (Some req)
      obtain sent b1 s1 where 2: "sys_call (\<lambda>_. Sent sock req) s0 = (sent, b1, s1)" by (metis prod_cases3)
      obtain w s2 where 3: "wait_for_response sock s1 = (w, s2)" by fastforce
      obtain rcv bs s3 where 4: "sys_recv (Received_Now sock) MAX_BUFFER_LEN s2 = (rcv, bs, s3)" by (metis prod_cases3)
      have l1: "leads fds st0 (sock # fds) s1" by (rule leads_use [OF 0(2) 2]) simp
      have l2: "leads fds st0 (sock # fds) s2"
        using leads_trans [OF l1 wait_loop_leads [OF _ 3 [unfolded wait_for_response_def]]] by simp
      have l3: "leads fds st0 (sock # fds) s3" by (rule leads_use_recv [OF l2 4]) simp
      have "(t = Failed (sys_close sock s1) \<or> t = Failed (sys_close sock s2)) \<or> store_block c fl sock ctx got rcv bs s3 = Some t"
        using t 0(1) Some 2 3 4 by (auto simp: download_block_def split: if_splits)
      then show ?thesis
        using store_block_keeps [of c fl sock ctx got rcv bs s3 t] leads_closed [OF l1] leads_closed [OF l2] l3 leads_closed [OF l3]
        by (auto simp: leads_def split: turn.splits)
    qed
  qed
  show ?case
  proof (cases t)
    case (Failed st1)
    then show ?thesis using 1(3) t l by (subst (asm) download_loop.simps) simp
  next
    case (Block lst ctx' got' st1)
    then have l1: "leads fds st0 (sock # fds) st1" using l by simp
    show ?thesis
    proof (cases lst)
      case True
      then show ?thesis using 1(3) t Block leads_closed [OF l1] by (subst (asm) download_loop.simps) auto
    next
      case False
      then have "download_loop c fl token sock pth ctx got st = download_loop c fl token sock pth ctx' got' st1"
        using t Block by (subst download_loop.simps) simp
      then show ?thesis using 1(3) 1(1) [OF t Block False l1] by simp
    qed
  qed
qed


lemma fota_download_image_leads:
  assumes "fota_download_image c fl resp st = Some (ok, st')"
  shows "leads fds st fds st'"
proof -
  obtain sock b1 st1 where 1: "sys_call Opened st = (sock, b1, st1)" by (metis prod_cases3)
  show ?thesis
  proof (cases "sock < 0")
    case True
    then show ?thesis using assms 1 leads_call [OF 1, of fds] by (auto simp: fota_download_image_def sys_socket_def)
  next
    case False
    then obtain h where h: "c_str (host resp) = Some h"
      using assms 1 by (auto simp: fota_download_image_def sys_socket_def Option.bind_eq_Some_conv)
    obtain r b2 st2 where 2: "sys_call (Connected sock h (unat (ucast (port resp) :: u16))) st1 = (r, b2, st2)" by (metis prod_cases3)
    have "leads fds st (sock # fds) st1" using False leads_call [OF 1, of fds] by simp
    then have l2: "leads fds st (sock # fds) st2" by (rule leads_use [OF _ 2]) simp
    show ?thesis
    proof (cases "r < 0")
      case True
      then show ?thesis using assms 1 2 h False leads_closed [OF l2] by (auto simp: fota_download_image_def sys_socket_def)
    next
      case g: False
      obtain p where "c_str (path resp) = Some p" "download_loop c fl (coap_token c (ids_drawn st2)) sock p
          \<lparr>total_size = 0, current_block = 0\<rparr> 0 st2 = Some (ok, st')"
        using assms 1 2 h False g by (auto simp: fota_download_image_def sys_socket_def Option.bind_eq_Some_conv)
      then show ?thesis using download_loop_leads [OF l2] by blast
    qed
  qed
qed

lemma fota_run_leads:
  assumes "fota_run c fl ver serial coap_host token tmp0 resp0 st = Some (ok, st')"
  shows "leads fds st fds st'"
proof -
  obtain ret resp st1 where 1: "fota_report_version c ver serial coap_host token tmp0 resp0 st = Some (ret, resp, st1)"
    using assms by (auto simp: fota_run_def Option.bind_eq_Some_conv)
  have l1: "leads fds st fds st1" by (rule fota_report_version_leads [OF 1])
  show ?thesis
  proof (cases "ret = 0 \<and> scheduled_update resp")
    case False
    then show ?thesis using assms 1 l1 by (auto simp: fota_run_def split: if_splits)
  next
    case True
    then obtain k st2 where d: "fota_download_image c fl resp st1 = Some (k, st2)"
      using assms 1 by (auto simp: fota_run_def Option.bind_eq_Some_conv)
    then have 2: "fota_download_image c fl resp st1 = Some (k, st2)" "st' = (if k then do_reboot st2 else st2)"
      using assms 1 True by (auto simp: fota_run_def split: if_splits)
    have "leads fds st1 fds st2" by (rule fota_download_image_leads [OF 2(1)])
    moreover have "leads fds st2 fds (do_reboot st2)"
      by (auto simp: do_reboot_def leads_def sys_call_trace split: prod.splits)
    ultimately show ?thesis using 2(2) leads_trans [OF l1] leads_trans by (metis (full_types))
  qed
qed

section \<open>A working server and flash\<close>

text \<open>
  The documented behaviour of the flash functions: behind initialisation and erasure the image area is empty, a
  buffered write appends, and \<open>flushed\<close> says whether the last write also emptied its buffer.
\<close>
definition flash_contract :: "'fl flash \<Rightarrow> ('fl \<Rightarrow> bytes) \<Rightarrow> ('fl \<Rightarrow> bool) \<Rightarrow> bool" where
  "flash_contract fl content flushed \<longleftrightarrow>
     (\<forall>s. fst (boot_erase_img_bank fl (flash_img_init fl s)) = 0 \<and>
          content (snd (boot_erase_img_bank fl (flash_img_init fl s))) = []) \<and>
     (\<forall>d l s. fst (flash_img_buffered_write fl d l s) = 0 \<and>
          content (snd (flash_img_buffered_write fl d l s)) = content s @ d \<and>
          flushed (snd (flash_img_buffered_write fl d l s)) = l)"

text \<open>One exchange with the server: the request, polls without data, a poll with data, the reply and its payload.\<close>
record exchange =
  ex_request :: bytes
  ex_waits :: "int list"
  ex_ready :: int
  ex_reply :: bytes
  ex_payload :: bytes

text \<open>The request is built, and the reply carries the payload.\<close>
definition block_exchange :: "'p coap \<Rightarrow> bytes \<Rightarrow> bytes \<Rightarrow> nat \<Rightarrow> block_ctx \<Rightarrow> exchange \<Rightarrow> bool \<Rightarrow> block_ctx \<Rightarrow> bool" where
  "block_exchange c token pth i ctx x again ctx2 \<longleftrightarrow>
     block_request c token i pth ctx = Some (ex_request x) \<and> ex_reply x \<noteq> [] \<and> length (ex_reply x) \<le> MAX_BUFFER_LEN \<and>
     ex_payload x \<noteq> [] \<and> (\<forall>w \<in> set (ex_waits x). w AND 1 = 0) \<and> length (ex_waits x) \<le> 120 \<and> ex_ready x AND 1 = 1 \<and>
     (\<exists>reply ctx1 off. coap_parse c (ex_reply x) = Some reply \<and> update_from_block c reply ctx = Some ctx1 \<and>
        next_block c reply ctx1 = (again, ctx2) \<and> coap_payload c reply = (off, length (ex_payload x)) \<and>
        take (length (ex_payload x)) (drop off (ex_reply x)) = ex_payload x)"

text \<open>The calls of one exchange and their results.\<close>
definition exchange_results :: "exchange \<Rightarrow> (int \<times> bytes) list" where
  "exchange_results x = (int (length (ex_request x)), []) # map (\<lambda>w. (w, [])) (ex_waits x) @
     [(ex_ready x, []), (int (length (ex_reply x)), ex_reply x)]"

definition exchange_calls :: "int \<Rightarrow> exchange \<Rightarrow> sys_event list" where
  "exchange_calls sock x = Sent sock (ex_request x) # replicate (length (ex_waits x) + 1) (Polled sock POLL_WAIT_MS) @
     [Received_Now sock MAX_BUFFER_LEN]"

text \<open>A server that serves an image of \<open>n\<close> bytes in these exchanges, from message number \<open>i\<close> on.\<close>
inductive served :: "'p coap \<Rightarrow> bytes \<Rightarrow> bytes \<Rightarrow> nat \<Rightarrow> nat \<Rightarrow> block_ctx \<Rightarrow> exchange list \<Rightarrow> bool"
  for c token pth n where
  last_block: "block_exchange c token pth i ctx x False ctx2 \<Longrightarrow> total_size ctx2 = n \<Longrightarrow> served c token pth n i ctx [x]"
| more_blocks: "block_exchange c token pth i ctx x True ctx2 \<Longrightarrow> total_size ctx2 = n \<Longrightarrow>
    served c token pth n (i + 1) ctx2 xs \<Longrightarrow> served c token pth n i ctx (x # xs)"

definition image_of :: "exchange list \<Rightarrow> bytes" where
  "image_of xs = concat (map ex_payload xs)"

lemma served_nonempty: "served c token pth n i ctx xs \<Longrightarrow> xs \<noteq> [] \<and> [] \<notin> set (map ex_payload xs)"
  by (induction rule: served.induct) (auto simp: block_exchange_def)

lemma wait_loop_ready:
  assumes "\<forall>w \<in> set waits. w AND 1 = 0" "results st = map (\<lambda>w. (w, [])) waits @ (v, []) # rest" "v AND 1 = 1" "k + int (length waits) \<le> 120"
  shows "wait_loop sock k st =
     (True, st\<lparr>results := rest, sys_trace := sys_trace st @ replicate (length waits + 1) (Polled sock POLL_WAIT_MS)\<rparr>)"
  using assms
proof (induction waits arbitrary: k st)
  case Nil
  then show ?case by (subst wait_loop.simps) (simp add: sys_call_next note_event_def)
next
  case (Cons w ws)
  let ?st = "note_event (Polled sock POLL_WAIT_MS) (st\<lparr>results := map (\<lambda>w. (w, [])) ws @ (v, []) # rest\<rparr>)"
  have "wait_loop sock k st = wait_loop sock (k + 1) ?st"
    using Cons.prems by (subst wait_loop.simps) (simp add: sys_call_next MAX_WAIT_TIME_MS_def POLL_WAIT_MS_def)
  then show ?case using Cons.IH [of ?st "k + 1"] Cons.prems by (simp add: note_event_def)
qed

lemma wait_loop_gives_up:
  assumes "\<forall>w \<in> set waits. w AND 1 = 0" "results st = map (\<lambda>w. (w, [])) waits @ rest" "k + int (length waits) = 121" "waits \<noteq> []"
  shows "wait_loop sock k st =
     (False, st\<lparr>results := rest, sys_trace := sys_trace st @ replicate (length waits) (Polled sock POLL_WAIT_MS)\<rparr>)"
  using assms
proof (induction waits arbitrary: k st)
  case (Cons w ws)
  let ?st = "note_event (Polled sock POLL_WAIT_MS) (st\<lparr>results := map (\<lambda>w. (w, [])) ws @ rest\<rparr>)"
  show ?case
  proof (cases ws)
    case Nil
    then show ?thesis
      using Cons.prems by (subst wait_loop.simps) (simp add: sys_call_next MAX_WAIT_TIME_MS_def POLL_WAIT_MS_def note_event_def)
  next
    case (Cons v vs)
    then have "wait_loop sock k st = wait_loop sock (k + 1) ?st"
      using Cons.prems by (subst wait_loop.simps) (simp add: sys_call_next MAX_WAIT_TIME_MS_def POLL_WAIT_MS_def)
    then show ?thesis using Cons.IH [of ?st "k + 1"] Cons.prems Cons by (simp add: note_event_def)
  qed
qed simp

text \<open>One turn of the loop with a working server and flash.\<close>
lemma download_block_ok:
  assumes "flash_contract fl content flushed" "block_exchange c token pth i ctx x again ctx2" "total_size ctx2 = n"
    "n \<le> FLASH_BANK_SIZE fl" "ids_drawn st = i" "results st = exchange_results x @ rest"
    "got = length img" "img \<noteq> [] \<Longrightarrow> content (dfu_ctx st) = img"
  shows "\<exists>st'. download_block c fl token sock pth ctx got st = Some (Block (\<not> again) ctx2 (got + length (ex_payload x)) st') \<and>
     ids_drawn st' = i + 1 \<and> results st' = rest \<and> sys_trace st' = sys_trace st @ exchange_calls sock x \<and>
     content (dfu_ctx st') = img @ ex_payload x \<and> (flushed (dfu_ctx st') \<longleftrightarrow> got + length (ex_payload x) = n)"
proof -
  define req r p waits where d: "req = ex_request x" "r = ex_reply x" "p = ex_payload x" "waits = ex_waits x"
  obtain reply ctx1 off where x: "block_request c token i pth ctx = Some req" "r \<noteq> []" "length r \<le> MAX_BUFFER_LEN" "p \<noteq> []"
     "\<forall>w \<in> set waits. w AND 1 = 0" "length waits \<le> 120" "ex_ready x AND 1 = 1"
     "coap_parse c r = Some reply" "update_from_block c reply ctx = Some ctx1"
     "next_block c reply ctx1 = (again, ctx2)" "coap_payload c reply = (off, length p)" "take (length p) (drop off r) = p"
    using assms(2) unfolding block_exchange_def d by blast
  define buf where "buf = r @ drop (length r) (replicate MAX_BUFFER_LEN (0 :: u8))"
  have buf: "wr_block (replicate MAX_BUFFER_LEN 0) 0 r = Some buf" "take (length r) buf = r"
    using x(3) by (simp_all add: wr_block_def buf_def)
  have "length p \<le> length r - off" using arg_cong [OF x(12), of length] by (simp add: min_def split: if_splits)
  then have "take (length p) (drop off buf) = p" using x(12) by (simp add: buf_def)
  moreover obtain fs where fs: "write_firmware_block fl p (got = 0) (got + length p = n) n (dfu_ctx st) = (0, fs)"
    "content fs = img @ p" "flushed fs \<longleftrightarrow> got + length p = n"
    using assms(1,4,7,8) x(4)
    by (cases "img = []") (auto simp: write_firmware_block_def flash_contract_def prod_eq_iff split: prod.splits)
  moreover define st1 where "st1 = st\<lparr>ids_drawn := Suc i, results := map (\<lambda>w. (w, [])) waits @ (ex_ready x, []) # (int (length r), r) # rest,
      sys_trace := sys_trace st @ [Sent sock req]\<rparr>"
  moreover have "wait_loop sock 0 st1 = (True, st1\<lparr>results := (int (length r), r) # rest,
      sys_trace := sys_trace st1 @ replicate (length waits + 1) (Polled sock POLL_WAIT_MS)\<rparr>)"
    using x(6) by (intro wait_loop_ready [OF x(5) _ x(7)]) (simp_all add: st1_def)
  ultimately show ?thesis
    using assms(3,5,6) x buf
    by (simp add: download_block_def draw_id_def exchange_results_def sys_call_next sys_recv_next wait_for_response_def note_event_def
        store_block_def Let_def exchange_calls_def flip: d)
qed

text \<open>The loop, behind the part \<open>img\<close> of the image.\<close>
lemma download_loop_ok:
  assumes "served c token pth n i ctx xs" "flash_contract fl content flushed" "n \<le> FLASH_BANK_SIZE fl"
    "ids_drawn st = i" "results st = concat (map exchange_results xs) @ rest" "img \<noteq> [] \<Longrightarrow> content (dfu_ctx st) = img"
    "length (img @ image_of xs) = n"
  shows "\<exists>st'. download_loop c fl token sock pth ctx (length img) st = Some (True, st') \<and>
     results st' = rest \<and> content (dfu_ctx st') = img @ image_of xs \<and> flushed (dfu_ctx st') \<and>
     sys_trace st' = sys_trace st @ concat (map (exchange_calls sock) xs) @ [Closed sock]"
  using assms(1,4-7)
proof (induction arbitrary: st img rule: served.induct)
  case (last_block i ctx x ctx2)
  obtain st1 where 1: "download_block c fl token sock pth ctx (length img) st = Some (Block True ctx2 (length img + length (ex_payload x)) st1)"
    "results st1 = rest" "sys_trace st1 = sys_trace st @ exchange_calls sock x" "content (dfu_ctx st1) = img @ ex_payload x"
    "flushed (dfu_ctx st1) \<longleftrightarrow> length img + length (ex_payload x) = n"
    using download_block_ok [OF assms(2) last_block(1,2) assms(3) last_block(3) _ refl last_block(5)] last_block(4) by auto
  have "dfu_ctx (sys_close sock st1) = dfu_ctx st1" by (simp add: sys_close_def note_event_def)
  then show ?case using 1 last_block(6) by (subst download_loop.simps) (simp add: image_of_def)
next
  case (more_blocks i ctx x ctx2 xs)
  obtain st1 where 1: "download_block c fl token sock pth ctx (length img) st = Some (Block False ctx2 (length img + length (ex_payload x)) st1)"
    "ids_drawn st1 = i + 1" "results st1 = concat (map exchange_results xs) @ rest" "sys_trace st1 = sys_trace st @ exchange_calls sock x"
    "content (dfu_ctx st1) = img @ ex_payload x"
    using download_block_ok [OF assms(2) more_blocks(1,2) assms(3) more_blocks(5), of "concat (map exchange_results xs) @ rest" "length img" img]
      more_blocks(6,7) by auto
  then show ?case
    using more_blocks.IH [OF 1(2,3), of "img @ ex_payload x"] more_blocks(8) by (subst download_loop.simps) (simp add: image_of_def)
qed

lemma download_image_ok:
  assumes "flash_contract fl content flushed" "c_str (path resp) = Some pth" "c_str (host resp) = Some h" "0 \<le> sock" "0 \<le> r"
    "served c (coap_token c (ids_drawn st)) pth (length (image_of xs)) (ids_drawn st) \<lparr>total_size = 0, current_block = 0\<rparr> xs"
    "length (image_of xs) \<le> FLASH_BANK_SIZE fl" "results st = (sock, []) # (r, []) # concat (map exchange_results xs) @ rest"
  shows "\<exists>st'. fota_download_image c fl resp st = Some (True, st') \<and> results st' = rest \<and>
     content (dfu_ctx st') = image_of xs \<and> flushed (dfu_ctx st') \<and>
     sys_trace st' = sys_trace st @ [Opened sock, Connected sock h (unat (ucast (port resp) :: u16)) r] @
       concat (map (exchange_calls sock) xs) @ [Closed sock]"
proof -
  let ?scr = "concat (map exchange_results xs)"
  let ?st = "note_event (Connected sock h (unat (ucast (port resp) :: u16)) r) (note_event (Opened sock) (st\<lparr>results := (r, []) # ?scr @ rest\<rparr>)\<lparr>results := ?scr @ rest\<rparr>)"
  have st: "ids_drawn ?st = ids_drawn st" "results ?st = ?scr @ rest"
    "sys_trace ?st = sys_trace st @ [Opened sock, Connected sock h (unat (ucast (port resp) :: u16)) r]" by (simp_all add: note_event_def)
  then obtain st' where st': "download_loop c fl (coap_token c (ids_drawn st)) sock pth \<lparr>total_size = 0, current_block = 0\<rparr> 0 ?st = Some (True, st')"
    "results st' = rest" "content (dfu_ctx st') = image_of xs" "flushed (dfu_ctx st')"
    "sys_trace st' = sys_trace ?st @ concat (map (exchange_calls sock) xs) @ [Closed sock]"
    using download_loop_ok [OF assms(6,1,7), of ?st rest "[]" sock] by auto
  have "fota_download_image c fl resp st = Some (True, st')"
    using assms(2-5,8) st'(1) by (simp add: fota_download_image_def sys_socket_def sys_call_next st(1))
  then show ?thesis using st'(2-5) st(3) by simp
qed

section \<open>The report and the whole update\<close>

text \<open>The calls of the report, in an exchange of the packet and the reply of the server.\<close>
definition report_calls :: "int \<Rightarrow> bytes \<Rightarrow> exchange \<Rightarrow> sys_event list" where
  "report_calls sock server x = [Opened sock, SentTo sock (ex_request x) server DEFAULT_FOTA_COAP_PORT] @
     replicate (length (ex_waits x) + 1) (Polled sock POLL_WAIT_MS) @ [Received sock MAX_BUFFER_LEN, Closed sock]"

text \<open>The packet is built, and the reply is a message of these fields.\<close>
definition report_exchange :: "'p coap \<Rightarrow> bytes \<Rightarrow> bytes \<Rightarrow> bytes \<Rightarrow> nat \<Rightarrow> bytes \<Rightarrow> exchange \<Rightarrow> fota_field list \<Rightarrow> bool" where
  "report_exchange c ver serial token i tmp0 x fs \<longleftrightarrow>
     report_packet c ver serial token i tmp0 = Some (Some (ex_request x)) \<and>
     (\<forall>w \<in> set (ex_waits x). w AND 1 = 0) \<and> length (ex_waits x) \<le> 120 \<and> ex_ready x AND 1 = 1 \<and>
     length (ex_reply x) \<le> MAX_BUFFER_LEN \<and> (\<forall>f \<in> set fs. field_fits f) \<and>
     (\<exists>reply off. coap_parse c (ex_reply x) = Some reply \<and> coap_payload c reply = (off, length (message_bytes fs)) \<and>
        drop off (ex_reply x) = message_bytes fs)"

lemma report_reply_ok:
  assumes "response_wf resp" "\<forall>f \<in> set fs. field_fits f" "length r \<le> length (response_buffer st)" "coap_parse c r = Some reply"
    "coap_payload c reply = (off, length (message_bytes fs))" "drop off r = message_bytes fs"
  shows "\<exists>buf. length buf = length (response_buffer st) \<and>
     report_reply c resp (int (length r)) r st = Some (0, fold apply_field fs resp, st\<lparr>response_buffer := buf\<rparr>)"
proof -
  let ?buf = "r @ drop (length r) (response_buffer st)"
  have buf: "wr_block (response_buffer st) 0 r = Some ?buf" using assms(3) by (simp add: wr_block_def)
  obtain rest where "drop off ?buf = message_bytes fs @ rest" using assms(6) by simp
  then have "fota_decode_simple_response resp (drop off ?buf) (length (message_bytes fs)) = Some (0, fold apply_field fs resp)"
    using fota_decode_prefix [OF assms(1,2), of rest] by simp
  then show ?thesis using buf assms(3,4,5) by (intro exI [of _ ?buf]) (simp add: report_reply_def)
qed

lemma report_version_ok:
  assumes "report_exchange c ver serial token (ids_drawn st) tmp0 x fs" "response_wf resp" "length (response_buffer st) = MAX_BUFFER_LEN"
    "0 \<le> sock" "results st = (sock, []) # exchange_results x @ rest"
  shows "\<exists>st'. fota_report_version c ver serial server token tmp0 resp st = Some (0, fold apply_field fs resp, st') \<and>
     results st' = rest \<and> sys_trace st' = sys_trace st @ report_calls sock server x \<and>
     ids_drawn st' = ids_drawn st + 1 \<and> length (response_buffer st') = MAX_BUFFER_LEN \<and> dfu_ctx st' = dfu_ctx st"
proof -
  define req r waits where d: "req = ex_request x" "r = ex_reply x" "waits = ex_waits x"
  obtain reply off where x: "report_packet c ver serial token (ids_drawn st) tmp0 = Some (Some req)" "\<forall>w \<in> set waits. w AND 1 = 0"
    "length waits \<le> 120" "ex_ready x AND 1 = 1" "length r \<le> MAX_BUFFER_LEN" "\<forall>f \<in> set fs. field_fits f" "coap_parse c r = Some reply"
    "coap_payload c reply = (off, length (message_bytes fs))" "drop off r = message_bytes fs"
    using assms(1) unfolding report_exchange_def d by blast
  define st1 where "st1 = st\<lparr>ids_drawn := Suc (ids_drawn st), results := map (\<lambda>w. (w, [])) waits @ (ex_ready x, []) # (int (length r), r) # rest,
      sys_trace := sys_trace st @ [Opened sock, SentTo sock req server DEFAULT_FOTA_COAP_PORT]\<rparr>"
  have w: "wait_loop sock 0 st1 = (True, st1\<lparr>results := (int (length r), r) # rest,
      sys_trace := sys_trace st1 @ replicate (length waits + 1) (Polled sock POLL_WAIT_MS)\<rparr>)"
    using x(3) by (intro wait_loop_ready [OF x(2) _ x(4)]) (simp_all add: st1_def)
  define st2 where "st2 = st1\<lparr>results := rest, sys_trace := sys_trace st1 @ replicate (length waits + 1) (Polled sock POLL_WAIT_MS) @
      [Received sock MAX_BUFFER_LEN, Closed sock]\<rparr>"
  have "length r \<le> length (response_buffer st2)" using x(5) assms(3) by (simp add: st2_def st1_def)
  then obtain buf where b: "length buf = length (response_buffer st2)"
    "report_reply c resp (int (length r)) r st2 = Some (0, fold apply_field fs resp, st2\<lparr>response_buffer := buf\<rparr>)"
    using report_reply_ok [OF assms(2) x(6) _ x(7,8,9)] by blast
  have "fota_report_version c ver serial server token tmp0 resp st = report_reply c resp (int (length r)) r st2"
    using assms(4,5) x(1) w
    using x(5) by (simp add: fota_report_version_def draw_id_def sys_socket_def exchange_results_def sys_call_next sys_recv_next wait_for_response_def
        note_event_def sys_close_def st1_def st2_def flip: d)
  then show ?thesis
    using b assms(3) by (intro exI [of _ "st2\<lparr>response_buffer := buf\<rparr>"]) (simp add: st2_def st1_def report_calls_def flip: d)
qed

text \<open>From the report to the restart into the new image.\<close>
lemma fota_run_ok:
  assumes "report_exchange c ver serial token (ids_drawn st) tmp0 x fs" "response_wf resp0" "length (response_buffer st) = MAX_BUFFER_LEN"
    "resp = fold apply_field fs resp0" "scheduled_update resp" "c_str (host resp) = Some h" "c_str (path resp) = Some pth"
    "flash_contract fl content flushed" "0 \<le> sock" "0 \<le> sock2" "0 \<le> r"
    "served c (coap_token c (ids_drawn st + 1)) pth (length (image_of xs)) (ids_drawn st + 1) \<lparr>total_size = 0, current_block = 0\<rparr> xs"
    "length (image_of xs) \<le> FLASH_BANK_SIZE fl"
    "results st = (sock, []) # exchange_results x @ (sock2, []) # (r, []) # concat (map exchange_results xs) @ (u, []) # rest"
  shows "\<exists>st'. fota_run c fl ver serial server token tmp0 resp0 st = Some (True, st') \<and> results st' = rest \<and>
     content (dfu_ctx st') = image_of xs \<and> flushed (dfu_ctx st') \<and>
     sys_trace st' = sys_trace st @ report_calls sock server x @
       [Opened sock2, Connected sock2 h (unat (ucast (port resp) :: u16)) r] @ concat (map (exchange_calls sock2) xs) @
       [Closed sock2, UpgradeRequested u, SystemReboot]"
proof -
  let ?rest1 = "(sock2, []) # (r, []) # concat (map exchange_results xs) @ (u, []) # rest"
  obtain st1 where 1: "fota_report_version c ver serial server token tmp0 resp0 st = Some (0, resp, st1)"
    "results st1 = ?rest1" "sys_trace st1 = sys_trace st @ report_calls sock server x" "ids_drawn st1 = ids_drawn st + 1"
    using report_version_ok [OF assms(1,2,3,9,14)] assms(4) by blast
  obtain st2 where 2: "fota_download_image c fl resp st1 = Some (True, st2)" "results st2 = (u, []) # rest"
    "content (dfu_ctx st2) = image_of xs" "flushed (dfu_ctx st2)"
    "sys_trace st2 = sys_trace st1 @ [Opened sock2, Connected sock2 h (unat (ucast (port resp) :: u16)) r] @
       concat (map (exchange_calls sock2) xs) @ [Closed sock2]"
    using download_image_ok [OF assms(8,7,6,10,11) _ assms(13) 1(2)] assms(12) 1(4) by auto
  have "fota_run c fl ver serial server token tmp0 resp0 st = Some (True, do_reboot st2)"
    using 1(1) 2(1) assms(5) by (simp add: fota_run_def)
  then show ?thesis
    using 2(2-5) 1(3) by (simp add: do_reboot_def sys_call_next note_event_def)
qed

text \<open>Only a field for a scheduled update writes the flag.\<close>
lemma scheduled_kept: "\<forall>b. Available b \<notin> set fs \<Longrightarrow> scheduled_update (fold apply_field fs r) = scheduled_update r"
proof (induction fs arbitrary: r)
  case (Cons f fs)
  then show ?case by (cases f) auto
qed simp

section \<open>Properties\<close>

text \<open>C13: The update never leaks or misuses a socket. Whatever the CoAP library, the flash, the
  server and the sockets answer, a run of \<open>fota_run\<close> that stays inside its arrays uses no descriptor that it has not opened,
  none that it has closed, and closes exactly what it opened, on every path.\<close>
theorem fota_run_closes_sockets:
  assumes "fota_run c fl ver serial coap_host token tmp0 resp0 st = Some (ok, st')"
  shows "leads fds st fds st'"
  by (rule fota_run_leads [OF assms])

text \<open>C12: A complete download. When the server serves an image in blocks that are not empty and fits the flash
  bank, each block after at most 120 polls without an answer, and the erase and the writes of the flash succeed, the download succeeds, the flash
  holds exactly the image, and the last write, and only the last, was made with the flush.\<close>
theorem download_stores_image:
  assumes "flash_contract fl content flushed" "c_str (path resp) = Some pth" "c_str (host resp) = Some h" "0 \<le> sock" "0 \<le> r"
    "served c (coap_token c (ids_drawn st)) pth (length (image_of xs)) (ids_drawn st) \<lparr>total_size = 0, current_block = 0\<rparr> xs"
    "length (image_of xs) \<le> FLASH_BANK_SIZE fl" "results st = (sock, []) # (r, []) # concat (map exchange_results xs) @ rest"
  shows "\<exists>st'. fota_download_image c fl resp st = Some (True, st') \<and> results st' = rest \<and>
     content (dfu_ctx st') = image_of xs \<and> flushed (dfu_ctx st') \<and> leads fds st fds st'"
  using download_image_ok [OF assms] fota_download_image_leads by blast

text \<open>The wait for an answer makes one poll more than there were polls without data when
  there are at most 120 of them, and ends with failure after 121.\<close>
theorem wait_for_response_polls:
  assumes "\<forall>w \<in> set waits. w AND 1 = 0" "length waits \<le> 121"
    "results st = map (\<lambda>w. (w, [])) waits @ (if length waits = 121 then rest else (v, []) # rest)" "v AND 1 = 1"
  shows "\<exists>st'. wait_for_response sock st = (length waits \<noteq> 121, st') \<and> results st' = rest \<and>
     sys_trace st' = sys_trace st @ replicate (min 121 (length waits + 1)) (Polled sock POLL_WAIT_MS)"
proof (cases "length waits = 121")
  case True
  then have "waits \<noteq> []" by auto
  then show ?thesis
    using wait_loop_gives_up [OF assms(1), of st rest 0 sock] assms(3) True by (simp add: wait_for_response_def)
next
  case False
  then show ?thesis
    using wait_loop_ready [OF assms(1), of st v rest 0 sock] assms(2-4) False by (simp add: wait_for_response_def)
qed


text \<open>A small CoAP codec and flash for the concrete runs: a reply is a flag, the image size and the payload.\<close>
definition toy_coap :: "bytes coap" where
  "toy_coap = \<lparr>coap_packet_init = (\<lambda>n token m i. Some token), append_path = (\<lambda>p x. Some (p @ x)), append_marker = (\<lambda>p. Some (p @ [255])),
     append_payload = (\<lambda>p x. Some (p @ x)), append_block2 = (\<lambda>p ctx. Some (p @ [of_nat (current_block ctx)])),
     coap_parse = (\<lambda>r. if length r < 2 then None else Some r), coap_payload = (\<lambda>r. (2, length r - 2)),
     update_from_block = (\<lambda>r ctx. Some (ctx\<lparr>total_size := unat (r ! 1)\<rparr>)),
     next_block = (\<lambda>r ctx. (r ! 0 \<noteq> 0, ctx\<lparr>current_block := current_block ctx + 1\<rparr>)), coap_token = (\<lambda>i. replicate 8 0)\<rparr>"

definition toy_flash :: "(bytes \<times> bool) flash" where
  "toy_flash = \<lparr>flash_img_init = (\<lambda>s. s), boot_erase_img_bank = (\<lambda>s. (0, [], False)),
     flash_img_buffered_write = (\<lambda>d l s. (0, fst s @ d, l)), FLASH_BANK_SIZE = 100\<rparr>"

definition toy_state :: "(int \<times> bytes) list \<Rightarrow> (bytes \<times> bool) fota" where
  "toy_state rs = \<lparr>results = rs, sys_trace = [], dfu_ctx = ([1, 2], True), response_buffer = replicate 512 0, ids_drawn = 0\<rparr>"

definition toy_response :: simple_fota_response_t where
  "toy_response = \<lparr>host = replicate 25 0, port = 0, path = [102, 119] @ replicate 23 0, scheduled_update = False\<rparr>"

theorem fota_run_closes_sockets_witness:
  "\<exists>ok st'. fota_run toy_coap toy_flash [49] [50] [51] [] (replicate 256 0) toy_response
       (toy_state [(100, []), (50, []), (1, []), (3, [0, 0, 9])]) = Some (ok, st') \<and>
     leads [] (toy_state [(100, []), (50, []), (1, []), (3, [0, 0, 9])]) [] st'"
proof -
  have "fota_run toy_coap toy_flash [49] [50] [51] [] (replicate 256 0) toy_response
       (toy_state [(100, []), (50, []), (1, []), (3, [0, 0, 9])]) \<noteq> None" by code_simp
  then obtain ok st' where "fota_run toy_coap toy_flash [49] [50] [51] [] (replicate 256 0) toy_response
       (toy_state [(100, []), (50, []), (1, []), (3, [0, 0, 9])]) = Some (ok, st')" by auto
  then show ?thesis using fota_run_closes_sockets by blast
qed


definition toy_blocks :: "exchange list" where
  "toy_blocks = [\<lparr>ex_request = replicate 8 0 @ [102, 119, 0], ex_waits = [4], ex_ready = 5, ex_reply = [1, 3, 7, 8], ex_payload = [7, 8]\<rparr>,
     \<lparr>ex_request = replicate 8 0 @ [102, 119, 1], ex_waits = [], ex_ready = 5, ex_reply = [0, 3, 9], ex_payload = [9]\<rparr>]"

lemma toy_image: "image_of toy_blocks = [7, 8, 9]"
  by (simp add: toy_blocks_def image_of_def)

lemma toy_served: "served toy_coap (coap_token toy_coap i) [102, 119] 3 i \<lparr>total_size = 0, current_block = 0\<rparr> toy_blocks"
proof -
  let ?c0 = "\<lparr>total_size = 0, current_block = 0\<rparr>" and ?c1 = "\<lparr>total_size = 3, current_block = 1\<rparr>"
    and ?c2 = "\<lparr>total_size = 3, current_block = Suc 1\<rparr>"
  have 1: "block_exchange toy_coap (coap_token toy_coap i) [102, 119] i ?c0 (toy_blocks ! 0) True ?c1"
    by (simp add: block_exchange_def toy_coap_def block_request_def MAX_BUFFER_LEN_def toy_blocks_def)
  have 2: "block_exchange toy_coap (coap_token toy_coap i) [102, 119] (i + 1) ?c1 (toy_blocks ! 1) False ?c2"
    by (simp add: block_exchange_def toy_coap_def block_request_def MAX_BUFFER_LEN_def toy_blocks_def)
  have "toy_blocks = [toy_blocks ! 0, toy_blocks ! 1]" by (simp add: toy_blocks_def)
  then show ?thesis
    using served.more_blocks [OF 1 _ served.last_block [OF 2]] by simp
qed

lemma toy_flash_contract: "flash_contract toy_flash fst snd"
  by (simp add: flash_contract_def toy_flash_def)

theorem download_stores_image_witness:
  "\<exists>st'. fota_download_image toy_coap toy_flash toy_response
       (toy_state ((100, []) # (0, []) # concat (map exchange_results toy_blocks))) = Some (True, st') \<and>
     dfu_ctx st' = ([7, 8, 9], True) \<and>
     leads [] (toy_state ((100, []) # (0, []) # concat (map exchange_results toy_blocks))) [] st'"
proof -
  let ?st = "toy_state ((100, []) # (0, []) # concat (map exchange_results toy_blocks))"
  have p: "c_str (path toy_response) = Some [102, 119]" "c_str (host toy_response) = Some []" by (simp_all add: toy_response_def)
  have i: "results ?st = (100, []) # (0, []) # concat (map exchange_results toy_blocks) @ []" by (simp add: toy_state_def)
  have b: "length (image_of toy_blocks) = 3" "length (image_of toy_blocks) \<le> FLASH_BANK_SIZE toy_flash"
    by (simp_all add: toy_image toy_flash_def)
  have v: "served toy_coap (coap_token toy_coap (ids_drawn ?st)) [102, 119] (length (image_of toy_blocks)) (ids_drawn ?st)
      \<lparr>total_size = 0, current_block = 0\<rparr> toy_blocks"
    unfolding b(1) by (rule toy_served)
  obtain st' where "fota_download_image toy_coap toy_flash toy_response ?st = Some (True, st')"
    "fst (dfu_ctx st') = [7, 8, 9]" "snd (dfu_ctx st')" "leads [] ?st [] st'"
    using download_stores_image [OF toy_flash_contract p _ _ v b(2) i] unfolding toy_image by auto
  then show ?thesis by (auto simp: prod_eq_iff)
qed

theorem wait_for_response_polls_witness:
  "\<exists>st'. wait_for_response 100 (toy_state (map (\<lambda>w. (w, [])) [0, 4] @ (5, []) # [])) = (True, st') \<and> results st' = []"
  using wait_for_response_polls [of "[0, 4]" "toy_state (map (\<lambda>w. (w, [])) [0, 4] @ (5, []) # [])" "[]" 5 100]
  by (auto simp: toy_state_def)

text \<open>C39: A response without the field for a scheduled update. The server answers the report with a well-formed message
  that does not say whether an update is scheduled, and would serve the image that it names. What the node then does
  rests on the uninitialised response structure alone: when its flag happens to be set, the run downloads
  the image into the flash, requests the upgrade and restarts; when it is not, the run ends behind the report, with the flash untouched.\<close>
theorem missing_available_keeps_garbage:
  assumes "report_exchange c ver serial token (ids_drawn st) tmp0 x fs" "\<forall>b. Available b \<notin> set fs" "response_wf resp0"
    "length (response_buffer st) = MAX_BUFFER_LEN" "resp = fold apply_field fs resp0" "c_str (host resp) = Some h" "c_str (path resp) = Some pth"
    "flash_contract fl content flushed" "0 \<le> sock" "0 \<le> sock2" "0 \<le> r"
    "served c (coap_token c (ids_drawn st + 1)) pth (length (image_of xs)) (ids_drawn st + 1) \<lparr>total_size = 0, current_block = 0\<rparr> xs"
    "length (image_of xs) \<le> FLASH_BANK_SIZE fl"
    "results st = (sock, []) # exchange_results x @ (sock2, []) # (r, []) # concat (map exchange_results xs) @ (u, []) # rest"
  shows "\<exists>st'. fota_run c fl ver serial server token tmp0 resp0 st = Some (scheduled_update resp0, st') \<and>
     (if scheduled_update resp0
      then content (dfu_ctx st') = image_of xs \<and> flushed (dfu_ctx st') \<and>
        sys_trace st' = sys_trace st @ report_calls sock server x @
          [Opened sock2, Connected sock2 h (unat (ucast (port resp) :: u16)) r] @ concat (map (exchange_calls sock2) xs) @
          [Closed sock2, UpgradeRequested u, SystemReboot]
      else dfu_ctx st' = dfu_ctx st \<and> sys_trace st' = sys_trace st @ report_calls sock server x)"
proof -
  have kept: "scheduled_update resp = scheduled_update resp0" using assms(2,5) scheduled_kept by simp
  show ?thesis
  proof (cases "scheduled_update resp0")
    case True
    then show ?thesis
      using fota_run_ok [OF assms(1,3,4,5) _ assms(6-14)] kept by auto
  next
    case False
    obtain st' where "fota_report_version c ver serial server token tmp0 resp0 st = Some (0, resp, st')"
      "sys_trace st' = sys_trace st @ report_calls sock server x" "dfu_ctx st' = dfu_ctx st"
      using report_version_ok [OF assms(1,3,4,9,14)] assms(5) by blast
    then show ?thesis using kept False by (simp add: fota_run_def)
  qed
qed

lemma toy_packet:
  obtains packet where "report_packet toy_coap [49] [50] (replicate 8 0) 0 (replicate 256 0) = Some (Some packet)"
    "packet \<noteq> []" "length packet \<le> 512"
proof -
  have "case report_packet toy_coap [49] [50] (replicate 8 0) 0 (replicate 256 0) of
      Some (Some packet) \<Rightarrow> packet \<noteq> [] \<and> length packet \<le> 512 | _ \<Rightarrow> False" by code_simp
  then show ?thesis using that by (auto split: option.splits)
qed

text \<open>A reply that names host 3 and a path and leaves out whether an update is scheduled.\<close>
definition silent_fields :: "fota_field list" where
  "silent_fields = [Host [51], Path [102, 119], Port 5683]"

definition silent_report :: "bytes \<Rightarrow> exchange" where
  "silent_report packet = \<lparr>ex_request = packet, ex_waits = [4], ex_ready = 5, ex_reply = [0, 0] @ message_bytes silent_fields,
     ex_payload = message_bytes silent_fields\<rparr>"

theorem missing_available_keeps_garbage_witness:
  "\<exists>packet st1 st2.
     (\<forall>garbage. fota_run toy_coap toy_flash [49] [50] [51] (replicate 8 0) (replicate 256 0) (toy_response\<lparr>scheduled_update := garbage\<rparr>)
        (toy_state ((100, []) # exchange_results (silent_report packet) @ (100, []) # (0, []) # concat (map exchange_results toy_blocks) @ [(0, [])])) =
          Some (garbage, if garbage then st1 else st2)) \<and>
     dfu_ctx st1 = ([7, 8, 9], True) \<and> dfu_ctx st2 = ([1, 2], True)"
proof -
  obtain packet where p: "report_packet toy_coap [49] [50] (replicate 8 0) 0 (replicate 256 0) = Some (Some packet)" by (rule toy_packet)
  let ?x = "silent_report packet" and ?resp = "\<lambda>g. toy_response\<lparr>scheduled_update := g\<rparr>"
  let ?st = "toy_state ((100, []) # exchange_results ?x @ (100, []) # (0, []) # concat (map exchange_results toy_blocks) @ [(0, [])])"
  have len: "length (message_bytes silent_fields) \<le> 100" by code_simp
  have r: "report_exchange toy_coap [49] [50] (replicate 8 0) (ids_drawn ?st) (replicate 256 0) ?x silent_fields"
    using p len by (simp add: report_exchange_def silent_report_def toy_coap_def silent_fields_def MAX_BUFFER_LEN_def toy_state_def)
  have f: "\<forall>b. Available b \<notin> set silent_fields" by (simp add: silent_fields_def)
  have w: "response_wf (?resp g)" for g by (simp add: response_wf_def toy_response_def)
  have b: "length (response_buffer ?st) = MAX_BUFFER_LEN" by (simp add: toy_state_def MAX_BUFFER_LEN_def)
  have s: "c_str (host (fold apply_field silent_fields (?resp g))) = Some [51]"
    "c_str (path (fold apply_field silent_fields (?resp g))) = Some [102, 119]" for g
    by (simp_all add: toy_response_def silent_fields_def store_string_def)
  have im: "length (image_of toy_blocks) = 3" "length (image_of toy_blocks) \<le> FLASH_BANK_SIZE toy_flash"
    by (simp_all add: toy_image toy_flash_def)
  have v: "served toy_coap (coap_token toy_coap (ids_drawn ?st + 1)) [102, 119] (length (image_of toy_blocks)) (ids_drawn ?st + 1)
      \<lparr>total_size = 0, current_block = 0\<rparr> toy_blocks"
    unfolding im(1) by (rule toy_served)
  have rs: "results ?st = (100, []) # exchange_results ?x @ (100, []) # (0, []) # concat (map exchange_results toy_blocks) @ (0, []) # []"
    by (simp add: toy_state_def)
  have run: "\<exists>st'. fota_run toy_coap toy_flash [49] [50] [51] (replicate 8 0) (replicate 256 0) (?resp g) ?st = Some (g, st') \<and>
      dfu_ctx st' = (if g then ([7, 8, 9], True) else ([1, 2], True))" for g
    using missing_available_keeps_garbage [OF r f w b refl s toy_flash_contract _ _ _ v im(2) rs, of "[51]" g] toy_image
    by (auto simp: prod_eq_iff toy_state_def)
  obtain st1 st2 where
    "fota_run toy_coap toy_flash [49] [50] [51] (replicate 8 0) (replicate 256 0) (?resp True) ?st = Some (True, st1)" "dfu_ctx st1 = ([7, 8, 9], True)"
    "fota_run toy_coap toy_flash [49] [50] [51] (replicate 8 0) (replicate 256 0) (?resp False) ?st = Some (False, st2)" "dfu_ctx st2 = ([1, 2], True)"
    using run [of True] run [of False] by auto
  then show ?thesis by (intro exI [of _ packet] exI [of _ st1] exI [of _ st2]) (simp add: all_bool_eq)
qed

end
