(* ===== verification/Main_Loop.thy ===== *)
theory Main_Loop
  imports Messagebuffer Gps N2_Start Fota_Net
begin

text \<open>
  The program as a whole (\<open>main.c\<close>, \<open>init.c\<close>): start-up, the message to the configuration server,
  and the loop that samples the sensors, sends the sample, looks for new firmware and restarts the
  node. The parts are those of the other theories; both SPI devices share one bus. \<open>None\<close> is an
  access outside an array in one of the parts.
\<close>

section \<open>Constants, libraries and state\<close>

definition SEND_INTERVAL_SEC :: int where "SEND_INTERVAL_SEC = 30"
definition FOTA_CHECK_INTERVAL_SEC :: int where "FOTA_CHECK_INTERVAL_SEC = 500"
definition FOTA_COUNTER :: int where "FOTA_COUNTER = FOTA_CHECK_INTERVAL_SEC div SEND_INTERVAL_SEC"
definition MAX_SEND_BUFFER :: nat where "MAX_SEND_BUFFER = 450"
definition MAX_COMMAND_BUFFER :: nat where "MAX_COMMAND_BUFFER = 256"
definition PING_RETRIES :: nat where "PING_RETRIES = 30"
definition PING_RETRY_DELAY_MS :: int where "PING_RETRY_DELAY_MS = 3000"
definition UPTIME_FORCE_REBOOT_LIMIT_SECONDS :: int where "UPTIME_FORCE_REBOOT_LIMIT_SECONDS = 60 * 120"
definition SAMPLE_PORT :: nat where "SAMPLE_PORT = 1234"

text \<open>The parameters of the parts: libraries, and what the build and the modem provide.\<close>
record ('f, 'd, 'p, 'fl, 'fs) libs =
  lib_fpu :: "('f, 'd) fpu"
  lib_to_float :: "u8 \<times> u8 \<times> u8 \<times> u8 \<Rightarrow> 'f"
  lib_to_u32 :: "'f \<Rightarrow> u32"
  lib_pb_sample :: "nat \<Rightarrow> 'f aqpb_Sample \<Rightarrow> bool \<times> bytes"
  lib_pb_config :: "bytes \<Rightarrow> aqconfig_setapn option"
  lib_pb_ping :: "nat \<Rightarrow> aqconfig_ping \<Rightarrow> bytes option"
  lib_coap :: "'p coap"
  lib_flash :: "'fl flash"
  lib_nvs :: "'fs nvs"
  fw_version :: bytes
  fw_name :: bytes
  imei_array :: bytes

text \<open>
  What one round finds: uninitialised local memory, the token, the readings of the clock in ms, and the state of the GPS
  reader, whose thread and interrupts run between the rounds (\<open>Gps_Thread\<close>).
\<close>
record 'f env =
  env_ips :: "bytes \<times> bytes \<times> bytes"
  env_token :: bytes
  env_tmp :: bytes
  env_resp :: simple_fota_response_t
  env_sample_time :: int
  env_end_time :: int
  env_gps :: "'f gps"

record ('f, 'fl, 'fs) node =
  n_opc :: "'f opc"
  n_adc :: adc
  n_spi :: bus
  n_cc2 :: "'f cc2"
  n_gps :: "'f gps"
  n_net :: "'fl fota"
  n_conf :: "'fs config"
  n_buffer :: bytes
  n_fota_interval :: int

datatype ending = Goes_On | Restarts

section \<open>Sampling and sending\<close>

text \<open>All sensors in turn, and the message made of their readings.\<close>
definition sample_sensors ::
  "('f, 'd, 'p, 'fl, 'fs) libs \<Rightarrow> int \<Rightarrow> ('f, 'fl, 'fs) node \<Rightarrow> ('f SENSOR_NODE_MESSAGE \<times> ('f, 'fl, 'fs) node) option" where
  "sample_sensors l now st = do {
     opc \<leftarrow> opc_n3_sample_data (lib_to_float l) ((n_opc st)\<lparr>opc_bus := n_spi st\<rparr>);
     let st = st\<lparr>n_opc := opc, n_spi := opc_bus opc\<rparr>;
     adc \<leftarrow> adc_sample_data ((n_adc st)\<lparr>adc_bus := n_spi st\<rparr>);
     let st = st\<lparr>n_adc := adc, n_spi := adc_bus adc\<rparr>;
     cc2 \<leftarrow> cc2_sample_data (lib_fpu l) (n_cc2 st);
     let st = st\<lparr>n_cc2 := cc2\<rparr>;
     Some (\<lparr>msg_gps_fix = gps_get_sample (n_gps st), cc2_sample = cc2_get_sample cc2, opc_sample = opc_n3_get_sample opc,
       afe3_sample = adc_get_sample adc, msg_uptime = now div 1000\<rparr>, st) }"

text \<open>The counter of rounds, and whether this round looks for new firmware.\<close>
definition fota_due :: "int \<Rightarrow> bool \<times> int" where
  "fota_due fota_interval =
     (let fota_interval = fota_interval + 1
      in if fota_interval > FOTA_COUNTER then (True, 0) else (False, fota_interval))"

text \<open>A configuration message, if one has been received.\<close>
definition receive_config ::
  "('f, 'd, 'p, 'fl, 'fs) libs \<Rightarrow> 'f env \<Rightarrow> int \<Rightarrow> ('f, 'fl, 'fs) node \<Rightarrow> ('f, 'fl, 'fs) node option" where
  "receive_config l e config_sock st =
     (case sys_recv (Received config_sock) MAX_COMMAND_BUFFER (n_net st) of
        (received, bs, net) \<Rightarrow>
          if received > 0 then do {
            (_, conf) \<leftarrow> decode_config_message (lib_pb_config l) (lib_nvs l) (env_ips e) bs (n_conf st);
            Some (st\<lparr>n_net := net, n_conf := conf\<rparr>) }
          else Some (st\<lparr>n_net := net\<rparr>))"

definition restart :: "int \<Rightarrow> ('f, 'fl, 'fs) node \<Rightarrow> ending \<times> ('f, 'fl, 'fs) node" where
  "restart d st = (Restarts, st\<lparr>n_net := note_event SystemReboot (pause d (n_net st))\<rparr>)"

text \<open>The end of a round: the firmware, closing the socket, and the restart after two hours.\<close>
definition finish_round ::
  "('f, 'd, 'p, 'fl, 'fs) libs \<Rightarrow> 'f env \<Rightarrow> int \<Rightarrow> ('f, 'fl, 'fs) node \<Rightarrow> (ending \<times> ('f, 'fl, 'fs) node) option" where
  "finish_round l e sock st = do {
     let (due, interval) = fota_due (n_fota_interval st);
     let st = st\<lparr>n_fota_interval := interval\<rparr>;
     (updated, st) \<leftarrow>
       (if due then do {
          coap_host \<leftarrow> c_str (CURRENT_COAP_BUFFER (n_conf st));
          (updated, net) \<leftarrow> fota_run (lib_coap l) (lib_flash l) (fw_version l) (fw_name l) coap_host (env_token e) (env_tmp e)
            (env_resp e) (n_net st);
          Some (updated, st\<lparr>n_net := net\<rparr>) }
        else Some (False, st));
     if updated then Some (Restarts, st)
     else do {
       let st = st\<lparr>n_net := sys_close sock (n_net st)\<rparr>;
       Some (if env_end_time e div 1000 > UPTIME_FORCE_REBOOT_LIMIT_SECONDS then restart 2000 st else (Goes_On, st)) } }"

definition main_round ::
  "('f, 'd, 'p, 'fl, 'fs) libs \<Rightarrow> int \<Rightarrow> 'f env \<Rightarrow> ('f, 'fl, 'fs) node \<Rightarrow> (ending \<times> ('f, 'fl, 'fs) node) option" where
  "main_round l config_sock e st = do {
     let st = st\<lparr>n_net := note_event Fed (n_net st)\<rparr>;
     st \<leftarrow> receive_config l e config_sock st;
     case sys_socket (n_net st) of
       (sock, _, net) \<Rightarrow> do {
         let st = st\<lparr>n_net := net\<rparr>;
         if sock < 0 then Some (restart 1000 st)
         else do {
           coap_host \<leftarrow> c_str (CURRENT_COAP_BUFFER (n_conf st));
           (last_message, st) \<leftarrow> sample_sensors l (env_sample_time e) st;
           (len, buffer') \<leftarrow> mb_encode (lib_to_u32 l) (lib_pb_sample l) (fw_version l) (imei_array l) last_message
             (n_buffer st) MAX_SEND_BUFFER;
           let st = st\<lparr>n_buffer := buffer'\<rparr>;
           case sys_call (\<lambda>_. SentTo sock (take len buffer') coap_host SAMPLE_PORT) (n_net st) of
             (err, _, net) \<Rightarrow>
               if err < 0 then Some (restart 5000 (st\<lparr>n_net := net\<rparr>))
               else finish_round l e sock (st\<lparr>n_net := pause (SEND_INTERVAL_SEC * 1000) net\<rparr>) } } }"

text \<open>
  The endless loop, over the rounds that there is a description for; it stops at the first restart. Each round
  finds what the GPS reader has made of its state meanwhile.
\<close>
fun main_loop ::
  "('f, 'd, 'p, 'fl, 'fs) libs \<Rightarrow> int \<Rightarrow> 'f env list \<Rightarrow> ('f, 'fl, 'fs) node \<Rightarrow> (ending \<times> ('f, 'fl, 'fs) node) option" where
  "main_loop l config_sock [] st = Some (Goes_On, st)"
| "main_loop l config_sock (e # es) st = do {
     (r, st) \<leftarrow> main_round l config_sock e (st\<lparr>n_gps := env_gps e\<rparr>);
     if r = Restarts then Some (Restarts, st) else main_loop l config_sock es st }"

section \<open>The configuration server\<close>

text \<open>The attempts: a ping, a second, perhaps an answer. An answer that is refused or that changes nothing ends them.\<close>
fun ping_attempts ::
  "('f, 'd, 'p, 'fl, 'fs) libs \<Rightarrow> (nat \<Rightarrow> bytes \<times> bytes \<times> bytes) \<Rightarrow> int \<Rightarrow> bytes \<Rightarrow> bytes \<Rightarrow> nat \<Rightarrow> ('f, 'fl, 'fs) node \<Rightarrow>
     ('f, 'fl, 'fs) node option" where
  "ping_attempts l ips sock ping server 0 st = Some (st\<lparr>n_net := sys_close sock (n_net st)\<rparr>)"
| "ping_attempts l ips sock ping server (Suc n) st =
     (case sys_call (\<lambda>_. SentTo sock ping server SAMPLE_PORT) (n_net st) of
        (err, _, net) \<Rightarrow>
          (case sys_recv (Received sock) MAX_COMMAND_BUFFER (pause 1000 net) of
             (received, bs, net) \<Rightarrow> do {
               (rc, conf) \<leftarrow> (if received > 0
                 then decode_config_message (lib_pb_config l) (lib_nvs l) (ips n) bs (n_conf st)
                 else Some (0, n_conf st));
               let st = st\<lparr>n_conf := conf\<rparr>;
               if rc \<noteq> 0 then Some (st\<lparr>n_net := sys_close sock net\<rparr>)
               else ping_attempts l ips sock ping server n (st\<lparr>n_net := pause PING_RETRY_DELAY_MS net\<rparr>) }))"

definition do_the_hetzner_ping ::
  "('f, 'd, 'p, 'fl, 'fs) libs \<Rightarrow> bytes \<Rightarrow> (nat \<Rightarrow> bytes \<times> bytes \<times> bytes) \<Rightarrow> nat \<Rightarrow> ('f, 'fl, 'fs) node \<Rightarrow>
     (ending \<times> ('f, 'fl, 'fs) node) option" where
  "do_the_hetzner_ping l ip0 ips now st = do {
     (ok, conf) \<leftarrow> select_ping_apn ip0 (n_conf st);
     let st = st\<lparr>n_conf := conf\<rparr>;
     if \<not> ok then Some (Goes_On, st)
     else case sys_socket (n_net st) of
       (sock, _, net) \<Rightarrow> do {
         let st = st\<lparr>n_net := net\<rparr>;
         if sock < 0 then Some (restart 1000 st)
         else do {
           server \<leftarrow> c_str (CURRENT_COAP_BUFFER (n_conf st));
           (ping, conf) \<leftarrow> encode_ping (lib_pb_ping l) now (imei_array l) 128 (n_conf st);
           let st = st\<lparr>n_conf := conf\<rparr>;
           case ping of
             None \<Rightarrow> Some (Goes_On, st)
           | Some p \<Rightarrow> do { st \<leftarrow> ping_attempts l ips sock p server PING_RETRIES st; Some (Goes_On, st) } } } }"


section \<open>Start-up\<close>

text \<open>\<open>None\<close>: a device is missing and the processor is halted.\<close>
definition init_board :: "bool \<Rightarrow> bool \<Rightarrow> bool \<Rightarrow> bool \<Rightarrow> ('f, 'fl, 'fs) node \<Rightarrow> ('f, 'fl, 'fs) node option" where
  "init_board gpio_found i2c_found i2c_configured spi_found st =
     (let (gpio, b) = get_GPIO_device gpio_found False (n_spi st) in
      if \<not> gpio then None
      else if \<not> fst (get_I2C_device i2c_found i2c_configured False) then None
      else if \<not> get_SPI_device spi_found False then None
      else let adc = ADS124S08_begin (ADS124S08_init ((n_adc st)\<lparr>adc_bus := b\<rparr>))
        in Some (st\<lparr>n_adc := adc, n_spi := adc_bus adc\<rparr>))"

text \<open>
  The watchdog: whether its device is there and what installing the timeout (with and, where that is not
  supported, without the callback) and the set-up return. The result is the channel that the loop feeds.
\<close>
datatype wdt_event = Timeout_Installed nat nat bool int | Wdt_Set_Up int

definition watchdog_init :: "int \<Rightarrow> bool \<Rightarrow> int \<Rightarrow> int \<Rightarrow> int \<Rightarrow> int \<times> wdt_event list" where
  "watchdog_init enotsup bound r1 r2 r3 =
     (if \<not> bound then (0, [])
      else let es = [Timeout_Installed 0 7200000 True r1];
             (wdt_channel_id, es) = (if r1 = - enotsup then (r2, es @ [Timeout_Installed 0 7200000 False r2]) else (r1, es))
           in if wdt_channel_id < 0 then (wdt_channel_id, es) else (wdt_channel_id, es @ [Wdt_Set_Up r3]))"

definition wdt_callback :: "('f, 'fl, 'fs) node \<Rightarrow> ending \<times> ('f, 'fl, 'fs) node" where
  "wdt_callback st = restart 1000 st"

text \<open>
  \<open>main\<close> from the pause behind the start of the board to the loop: the configuration socket. The count of the semaphore
  that \<open>n2_init\<close> gives decides whether \<open>wait_for_sockets\<close> returns.
\<close>
definition main_start ::
  "('f, 'd, 'p, 'fl, 'fs) libs \<Rightarrow> nat \<Rightarrow> bytes \<Rightarrow> (nat \<Rightarrow> bytes \<times> bytes \<times> bytes) \<Rightarrow> nat \<Rightarrow> 'f env \<Rightarrow> ('f, 'fl, 'fs) node \<Rightarrow>
     (ending \<times> int \<times> ('f, 'fl, 'fs) node) option" where
  "main_start l sem ip0 ips now e st = do {
     let st = st\<lparr>n_net := pause 1000 (n_net st), n_cc2 := snd (cc2_init (n_cc2 st)), n_opc := opc_init (n_opc st)\<rparr>;
     _ \<leftarrow> wait_for_sockets sem;
     (r, st) \<leftarrow> do_the_hetzner_ping l ip0 ips now st;
     if r = Restarts then Some (Restarts, -1, st)
     else do {
       (found, conf) \<leftarrow> select_active_apn ip0 (n_conf st);
       let st = st\<lparr>n_conf := conf\<rparr>;
       if found = Rebooted then Some (Restarts, -1, st)
       else do {
         let net = snd (fota_init (n_net st));
         coap_host \<leftarrow> c_str (CURRENT_COAP_BUFFER (n_conf st));
         (updated, net) \<leftarrow> fota_run (lib_coap l) (lib_flash l) (fw_version l) (fw_name l) coap_host (env_token e) (env_tmp e)
           (env_resp e) net;
         if updated then Some (Restarts, -1, st\<lparr>n_net := net\<rparr>)
         else case sys_socket net of
           (config_sock, _, net) \<Rightarrow>
             let st = st\<lparr>n_net := net, n_fota_interval := 0\<rparr> in
             if config_sock < 0 then (case restart 1000 st of (r, st) \<Rightarrow> Some (r, -1, st))
             else Some (Goes_On, config_sock, st) } } }"

text \<open>
  What the start finds: which devices are there, whether the bus for the humidity sensor can be configured, what the calls
  that set up the watchdog return, and the count of the semaphore on which the start waits for the socket layer.
\<close>
record board =
  gpio_found :: bool
  i2c_found :: bool
  i2c_configured :: bool
  spi_found :: bool
  wdt_enotsup :: int
  wdt_found :: bool
  wdt_results :: "int \<times> int \<times> int"
  socket_sem :: nat

text \<open>
  The whole program: the board, the watchdog, the start, and the loop. The result has the channel of the watchdog, its calls, and the
  configuration socket (-1 without one). \<open>None\<close>: the processor is halted, the wait for the socket layer
  has no end, or an access leaves an array.
\<close>
definition main ::
  "('f, 'd, 'p, 'fl, 'fs) libs \<Rightarrow> board \<Rightarrow> bytes \<Rightarrow> (nat \<Rightarrow> bytes \<times> bytes \<times> bytes) \<Rightarrow> nat \<Rightarrow> 'f env \<Rightarrow> 'f env list \<Rightarrow> ('f, 'fl, 'fs) node \<Rightarrow>
     (ending \<times> int \<times> (int \<times> wdt_event list) \<times> ('f, 'fl, 'fs) node) option" where
  "main l b ip0 ips now e es st = do {
     st \<leftarrow> init_board (gpio_found b) (i2c_found b) (i2c_configured b) (spi_found b) st;
     let wdt = (case wdt_results b of (r1, r2, r3) \<Rightarrow> watchdog_init (wdt_enotsup b) (wdt_found b) r1 r2 r3);
     (r, config_sock, st) \<leftarrow> main_start l (socket_sem b) ip0 ips now e st;
     if r = Restarts then Some (Restarts, -1, wdt, st)
     else do {
       (r, st) \<leftarrow> main_loop l config_sock es st;
       Some (r, config_sock, wdt, st) } }"

section \<open>One round\<close>

text \<open>The shape of the buffers, and a humidity sensor that delivers at most the bytes asked for.\<close>
definition node_ok :: "('f, 'fl, 'fs) node \<Rightarrow> bool" where
  "node_ok st \<longleftrightarrow> opc_ok (n_opc st) \<and> adc_ok (n_adc st) \<and> (\<forall>(r, bs) \<in> set (cc2_script (n_cc2 st)). length bs \<le> 4)"

text \<open>What a part of a round keeps when it does not touch the sensors.\<close>
definition same_sensors :: "('f, 'fl, 'fs) node \<Rightarrow> ('f, 'fl, 'fs) node \<Rightarrow> bool" where
  "same_sensors a b \<longleftrightarrow> n_opc b = n_opc a \<and> n_adc b = n_adc a \<and> n_spi b = n_spi a \<and> n_cc2 b = n_cc2 a"

lemma sample_sensors_total:
  assumes "node_ok st"
  shows "\<exists>m st'. sample_sensors l now st = Some (m, st') \<and> node_ok st' \<and> drives None (n_spi st) None (n_spi st') \<and>
     spent (n_spi st) + 140100 \<le> spent (n_spi st') \<and> n_net st' = n_net st \<and> n_conf st' = n_conf st \<and>
     n_fota_interval st' = n_fota_interval st"
proof -
  obtain opc where 1: "opc_n3_sample_data (lib_to_float l) ((n_opc st)\<lparr>opc_bus := n_spi st\<rparr>) = Some opc" "opc_ok opc"
    "drives None (n_spi st) None (opc_bus opc)" "spent (n_spi st) + 140100 \<le> spent (opc_bus opc)"
    using opc_on_spi.serves [of "n_opc st" "lib_to_float l" "n_spi st"] assms by (auto simp: node_ok_def)
  obtain adc where 2: "adc_sample_data ((n_adc st)\<lparr>adc_bus := opc_bus opc\<rparr>) = Some adc" "adc_ok adc"
    "drives None (opc_bus opc) None (adc_bus adc)" "spent (opc_bus opc) \<le> spent (adc_bus adc)"
    using adc_on_spi.serves [of "n_adc st" "opc_bus opc"] assms by (auto simp: node_ok_def)
  obtain cc2 where 3: "cc2_sample_data (lib_fpu l) (n_cc2 st) = Some cc2" "\<forall>(r, bs) \<in> set (cc2_script cc2). length bs \<le> 4"
    using cc2_sample_total [of "n_cc2 st" "lib_fpu l"] assms by (auto simp: node_ok_def)
  show ?thesis
    using 1 2 3 drives_trans [OF 1(3) 2(3)] by (simp add: sample_sensors_def node_ok_def Let_def)
qed

lemma receive_config_keeps:
  assumes "receive_config l e s st = Some st'" "s \<in> set fds"
  shows "same_sensors st st' \<and> leads fds (n_net st) fds (n_net st') \<and> n_fota_interval st' = n_fota_interval st"
proof -
  obtain received bs net where c: "sys_recv (Received s) MAX_COMMAND_BUFFER (n_net st) = (received, bs, net)" by (metis prod_cases3)
  have "leads fds (n_net st) fds net" using leads_recv [OF c, of fds] assms(2) by simp
  then show ?thesis
    using assms(1) c by (auto simp: receive_config_def same_sensors_def Option.bind_eq_Some_conv split: if_splits)
qed

lemma restart_keeps:
  "restart d st = (r, st') \<Longrightarrow> r = Restarts \<and> same_sensors st st' \<and> leads fds (n_net st) fds (n_net st') \<and> n_fota_interval st' = n_fota_interval st"
  by (auto simp: restart_def same_sensors_def leads_def)


lemma finish_round_keeps:
  assumes "finish_round l e sock st = Some (r, st')"
  shows "same_sensors st st' \<and> n_fota_interval st' = snd (fota_due (n_fota_interval st)) \<and>
     (if r = Goes_On then leads (sock # fds) (n_net st) fds (n_net st') \<and> env_end_time e div 1000 \<le> UPTIME_FORCE_REBOOT_LIMIT_SECONDS
      else \<exists>fds'. leads (sock # fds) (n_net st) fds' (n_net st'))"
proof -
  obtain due interval where d: "fota_due (n_fota_interval st) = (due, interval)" by fastforce
  let ?st = "st\<lparr>n_fota_interval := interval\<rparr>"
  obtain updated s1 where 1: "(if due then do {
          coap_host \<leftarrow> c_str (CURRENT_COAP_BUFFER (n_conf ?st));
          (updated, net) \<leftarrow> fota_run (lib_coap l) (lib_flash l) (fw_version l) (fw_name l) coap_host (env_token e) (env_tmp e)
            (env_resp e) (n_net ?st);
          Some (updated, ?st\<lparr>n_net := net\<rparr>) }
        else Some (False, ?st)) = Some (updated, s1)"
    using assms d by (auto simp: finish_round_def Let_def Option.bind_eq_Some_conv split: if_splits)
  have s1: "same_sensors st s1" "n_fota_interval s1 = interval" "leads (sock # fds) (n_net st) (sock # fds) (n_net s1)"
    using 1 fota_run_leads by (auto simp: same_sensors_def Option.bind_eq_Some_conv leads_refl split: if_splits)
  have res: "(if updated then Some (Restarts, s1)
     else do {
       let st = s1\<lparr>n_net := sys_close sock (n_net s1)\<rparr>;
       Some (if env_end_time e div 1000 > UPTIME_FORCE_REBOOT_LIMIT_SECONDS then restart 2000 st else (Goes_On, st)) }) = Some (r, st')"
    using assms d 1 unfolding finish_round_def by simp
  show ?thesis
  proof (cases updated)
    case True
    then show ?thesis using res s1 d by auto
  next
    case False
    let ?s2 = "s1\<lparr>n_net := sys_close sock (n_net s1)\<rparr>"
    have l2: "leads (sock # fds) (n_net st) fds (n_net ?s2)" using leads_trans [OF s1(3) leads_close] by simp
    show ?thesis
    proof (cases "env_end_time e div 1000 > UPTIME_FORCE_REBOOT_LIMIT_SECONDS")
      case True
      then have r: "restart 2000 ?s2 = (r, st')" using res False by simp
      show ?thesis using restart_keeps [OF r, of fds] s1 d leads_trans [OF l2] by (auto simp: same_sensors_def)
    next
      case False
      then show ?thesis using res \<open>\<not> updated\<close> l2 s1 d by (auto simp: same_sensors_def)
    qed
  qed
qed

text \<open>The end of a round whose datagram has been sent.\<close>
lemma round_end_keeps:
  assumes "leads fds net (sock # fds) (n_net s)" "node_ok s"
    "finish_round l e sock (s\<lparr>n_net := pause (SEND_INTERVAL_SEC * 1000) (n_net s)\<rparr>) = Some (r, st')"
  shows "node_ok st' \<and> n_spi st' = n_spi s \<and>
     (if r = Goes_On then leads fds net fds (n_net st') \<and> env_end_time e div 1000 \<le> UPTIME_FORCE_REBOOT_LIMIT_SECONDS \<and>
        slept net + 30000 \<le> slept (n_net st') \<and> n_fota_interval st' = snd (fota_due (n_fota_interval s))
      else \<exists>fds'. leads fds net fds' (n_net st'))"
proof -
  let ?s = "s\<lparr>n_net := pause (SEND_INTERVAL_SEC * 1000) (n_net s)\<rparr>"
  note k = finish_round_keeps [OF assms(3), of fds]
  have lp: "leads fds net (sock # fds) (n_net ?s)" using leads_trans [OF assms(1) leads_pause] by simp
  have sl: "slept net + 30000 \<le> slept (n_net ?s)" using leads_slept [OF assms(1)] by (simp add: SEND_INTERVAL_SEC_def)
  have ok: "node_ok st'" "n_spi st' = n_spi s" using k assms(2) by (auto simp: same_sensors_def node_ok_def)
  show ?thesis
  proof (cases "r = Goes_On")
    case True
    then have g: "leads (sock # fds) (n_net ?s) fds (n_net st')" "env_end_time e div 1000 \<le> UPTIME_FORCE_REBOOT_LIMIT_SECONDS"
        "n_fota_interval st' = snd (fota_due (n_fota_interval s))"
      using k by simp_all
    show ?thesis using True ok g leads_trans [OF lp g(1)] leads_slept [OF g(1)] sl by simp
  next
    case r: False
    then obtain fds' where "leads (sock # fds) (n_net ?s) fds' (n_net st')" using k by auto
    then show ?thesis using r ok leads_trans [OF lp] by auto
  qed
qed

text \<open>The whole round.\<close>
lemma main_round_keeps:
  assumes "main_round l s e st = Some (r, st')" "node_ok st" "s \<in> set fds"
  shows "node_ok st' \<and> drives None (n_spi st) None (n_spi st') \<and>
     (if r = Goes_On then leads fds (n_net st) fds (n_net st') \<and> env_end_time e div 1000 \<le> UPTIME_FORCE_REBOOT_LIMIT_SECONDS \<and>
        spent (n_spi st) + slept (n_net st) + 170100 \<le> spent (n_spi st') + slept (n_net st') \<and>
        n_fota_interval st' = snd (fota_due (n_fota_interval st))
      else \<exists>fds'. leads fds (n_net st) fds' (n_net st'))"
proof -
  let ?s0 = "st\<lparr>n_net := note_event Fed (n_net st)\<rparr>"
  have l0: "leads fds (n_net st) fds (n_net ?s0)" by (simp add: leads_event)
  obtain s1 where 1: "receive_config l e s ?s0 = Some s1"
    using assms(1) by (auto simp: main_round_def Option.bind_eq_Some_conv)
  note k1 = receive_config_keeps [OF 1 assms(3)]
  have l1: "leads fds (n_net st) fds (n_net s1)" using leads_trans [OF l0] k1 by simp
  have n1: "node_ok s1" "n_spi s1 = n_spi st" "n_fota_interval s1 = n_fota_interval st"
    using k1 assms(2) by (auto simp: node_ok_def same_sensors_def)
  obtain sock x net where 2: "sys_socket (n_net s1) = (sock, x, net)" by (metis prod_cases3)
  let ?s2 = "s1\<lparr>n_net := net\<rparr>"
  have l2: "leads fds (n_net st) (if sock < 0 then fds else sock # fds) net"
    using leads_trans [OF l1 leads_call [OF 2 [unfolded sys_socket_def], of fds]] by simp
  have n2: "node_ok ?s2" using n1 by (simp add: node_ok_def)
  show ?thesis
  proof (cases "sock < 0")
    case True
    then have r: "restart 1000 ?s2 = (r, st')" using assms(1) 1 2 by (simp add: main_round_def)
    then show ?thesis
      using restart_keeps [OF r, of fds] l2 True leads_trans [of fds "n_net st" fds net] n1 n2
      by (auto simp: same_sensors_def node_ok_def drives_refl)
  next
    case False
    obtain h m s3 len buf where 3: "c_str (CURRENT_COAP_BUFFER (n_conf ?s2)) = Some h"
      "sample_sensors l (env_sample_time e) ?s2 = Some (m, s3)"
      "mb_encode (lib_to_u32 l) (lib_pb_sample l) (fw_version l) (imei_array l) m (n_buffer s3) MAX_SEND_BUFFER = Some (len, buf)"
      using assms(1) 1 2 False by (auto simp: main_round_def Option.bind_eq_Some_conv)
    have k3: "node_ok s3" "drives None (n_spi st) None (n_spi s3)" "spent (n_spi st) + 140100 \<le> spent (n_spi s3)" "n_net s3 = net"
      "n_fota_interval s3 = n_fota_interval st"
      using sample_sensors_total [OF n2, of l "env_sample_time e"] 3(2) n1 by auto
    let ?s3 = "s3\<lparr>n_buffer := buf\<rparr>"
    obtain err y net4 where 4: "sys_call (\<lambda>_. SentTo sock (take len buf) h SAMPLE_PORT) net = (err, y, net4)" by (metis prod_cases3)
    have l4: "leads fds (n_net st) (sock # fds) net4"
      using leads_use [of fds "n_net st" sock net, OF _ 4] l2 False by simp
    show ?thesis
    proof (cases "err < 0")
      case True
      then have r: "restart 5000 (?s3\<lparr>n_net := net4\<rparr>) = (r, st')"
        using assms(1) 1 2 3 4 False k3(4) by (simp add: main_round_def)
      have "leads fds (n_net st) (sock # fds) (n_net st')"
        using restart_keeps [OF r, of "sock # fds"] leads_trans [OF l4] by simp
      then show ?thesis
        using restart_keeps [OF r, of fds] k3 by (auto simp: same_sensors_def node_ok_def)
    next
      case noerr: False
      have "finish_round l e sock (?s3\<lparr>n_net := pause (SEND_INTERVAL_SEC * 1000) net4\<rparr>) = Some (r, st')"
        using assms(1) 1 2 3 4 False noerr k3(4) by (simp add: main_round_def)
      then have "node_ok st' \<and> n_spi st' = n_spi s3 \<and>
         (if r = Goes_On then leads fds (n_net st) fds (n_net st') \<and> env_end_time e div 1000 \<le> UPTIME_FORCE_REBOOT_LIMIT_SECONDS \<and>
            slept (n_net st) + 30000 \<le> slept (n_net st') \<and> n_fota_interval st' = snd (fota_due (n_fota_interval st))
          else \<exists>fds'. leads fds (n_net st) fds' (n_net st'))"
        using round_end_keeps [of fds "n_net st" sock "?s3\<lparr>n_net := net4\<rparr>" l e r st'] l4 k3(1,5) by (simp add: node_ok_def)
      then show ?thesis using k3(2,3) by (cases "r = Goes_On") simp_all
    qed
  qed
qed


section \<open>The rounds together\<close>

text \<open>The GPS reader has no part in what the rounds keep.\<close>
lemma node_ok_gps [simp]: "node_ok (st\<lparr>n_gps := g\<rparr>) = node_ok st"
  by (simp add: node_ok_def)

lemma main_loop_keeps:
  assumes "main_loop l s es st = Some (r, st')" "node_ok st" "s \<in> set fds"
  shows "node_ok st' \<and> drives None (n_spi st) None (n_spi st') \<and>
     (\<exists>fds'. leads fds (n_net st) fds' (n_net st') \<and> (r = Goes_On \<longrightarrow> fds' = fds))"
  using assms(1,2)
proof (induction es arbitrary: st)
  case Nil
  then show ?case by (auto simp: drives_refl leads_refl)
next
  case (Cons e es)
  obtain r1 st1 where 1: "main_round l s e (st\<lparr>n_gps := env_gps e\<rparr>) = Some (r1, st1)"
    using Cons.prems(1) by (auto simp: Option.bind_eq_Some_conv)
  note k = main_round_keeps [OF 1 _ assms(3), unfolded node_ok_gps, OF Cons.prems(2)]
  show ?case
  proof (cases "r1 = Goes_On")
    case True
    then have l: "main_loop l s es st1 = Some (r, st')" using Cons.prems(1) 1 by simp
    obtain fds' where i: "node_ok st'" "drives None (n_spi st1) None (n_spi st')" "leads fds (n_net st1) fds' (n_net st')"
        "r = Goes_On \<longrightarrow> fds' = fds"
      using Cons.IH [OF l] k by blast
    have "drives None (n_spi st) None (n_spi st1)" "leads fds (n_net st) fds (n_net st1)" using k True by auto
    then show ?thesis using i drives_trans leads_trans by blast
  next
    case False
    then have "r1 = Restarts" by (cases r1) auto
    then show ?thesis using Cons.prems(1) 1 k by auto
  qed
qed

text \<open>The clock of the rounds that go on runs at least as fast as their pauses.\<close>
fun clock_ok :: "('f, 'd, 'p, 'fl, 'fs) libs \<Rightarrow> int \<Rightarrow> int \<Rightarrow> 'f env list \<Rightarrow> ('f, 'fl, 'fs) node \<Rightarrow> bool" where
  "clock_ok l s t [] st = True"
| "clock_ok l s t (e # es) st =
     (case main_round l s e (st\<lparr>n_gps := env_gps e\<rparr>) of
        None \<Rightarrow> True
      | Some (r, st') \<Rightarrow> r = Goes_On \<longrightarrow>
          t + (spent (n_spi st') - spent (n_spi st)) + (slept (n_net st') - slept (n_net st)) \<le> env_end_time e \<and>
          clock_ok l s (env_end_time e) es st')"

lemma main_loop_time:
  assumes "main_loop l s es st = Some (Goes_On, st')" "node_ok st" "clock_ok l s t es st"
  shows "es = [] \<or> t + 170100 * int (length es) \<le> 7200999"
  using assms
proof (induction es arbitrary: st t)
  case (Cons e es)
  obtain r1 st1 where 1: "main_round l s e (st\<lparr>n_gps := env_gps e\<rparr>) = Some (r1, st1)"
    using Cons.prems(1) by (auto simp: Option.bind_eq_Some_conv)
  then have g: "r1 = Goes_On" "main_loop l s es st1 = Some (Goes_On, st')"
    using Cons.prems(1) by (cases r1; auto)+
  note k = main_round_keeps [OF 1 _, of "[s]", unfolded node_ok_gps, OF Cons.prems(2)]
  have k: "node_ok st1" "env_end_time e div 1000 \<le> 7200"
    "spent (n_spi st) + slept (n_net st) + 170100 \<le> spent (n_spi st1) + slept (n_net st1)"
    using k g(1) by (auto simp: UPTIME_FORCE_REBOOT_LIMIT_SECONDS_def)
  have c: "t + (spent (n_spi st1) - spent (n_spi st)) + (slept (n_net st1) - slept (n_net st)) \<le> env_end_time e"
    "clock_ok l s (env_end_time e) es st1"
    using Cons.prems(3) 1 g(1) by simp_all
  have e: "env_end_time e \<le> 7200999" using k(2) by linarith
  have "es = [] \<or> env_end_time e + 170100 * int (length es) \<le> 7200999" by (rule Cons.IH [OF g(2) k(1) c(2)])
  then show ?case using c(1) k(3) e by auto
qed simp

lemma fota_due_period:
  assumes "0 \<le> i" "i < 17"
  shows "fst (fota_due i) \<longleftrightarrow> (i + 1) mod 17 = 0" "snd (fota_due i) = (i + 1) mod 17"
proof -
  have "i = 16 \<or> i < 16" using assms(2) by auto
  then show "fst (fota_due i) \<longleftrightarrow> (i + 1) mod 17 = 0" "snd (fota_due i) = (i + 1) mod 17"
    using assms(1) by (auto simp: fota_due_def Let_def FOTA_COUNTER_def FOTA_CHECK_INTERVAL_SEC_def SEND_INTERVAL_SEC_def)
qed

lemma main_loop_interval:
  assumes "main_loop l s es st = Some (Goes_On, st')" "node_ok st" "0 \<le> n_fota_interval st" "n_fota_interval st < 17"
  shows "n_fota_interval st' = (n_fota_interval st + int (length es)) mod 17"
  using assms
proof (induction es arbitrary: st)
  case (Cons e es)
  obtain r1 st1 where 1: "main_round l s e (st\<lparr>n_gps := env_gps e\<rparr>) = Some (r1, st1)"
    using Cons.prems(1) by (auto simp: Option.bind_eq_Some_conv)
  then have g: "r1 = Goes_On" "main_loop l s es st1 = Some (Goes_On, st')"
    using Cons.prems(1) by (cases r1; auto)+
  have k: "node_ok st1" "n_fota_interval st1 = (n_fota_interval st + 1) mod 17"
    using main_round_keeps [OF 1 _, of "[s]", unfolded node_ok_gps, OF Cons.prems(2)] g(1) fota_due_period(2) [OF Cons.prems(3,4)] by auto
  then show ?case using Cons.IH [OF g(2) k(1)] by (simp add: mod_simps algebra_simps)
qed simp


section \<open>A sample on its way\<close>

text \<open>The readings, from the histogram of the particle counter and the answers of the converter.\<close>
definition opc_reading :: "(u8 \<times> u8 \<times> u8 \<times> u8 \<Rightarrow> 'f) \<Rightarrow> bytes \<Rightarrow> 'f OPC_SAMPLE" where
  "opc_reading to_float h = \<lparr>bin = map (\<lambda>k. le16 h (2 * k)) [0 ..< 24],
     period = le16 h 52, flowrate = le16 h 54, opc_temperature = of_int (-45 + 175 * uint (le16 h 56) div 65535),
     opc_humidity = of_int (100 * uint (le16 h 58) div 65535),
     pm_a = to_float (h ! 60, h ! 61, h ! 62, h ! 63), pm_b = to_float (h ! 64, h ! 65, h ! 66, h ! 67),
     pm_c = to_float (h ! 68, h ! 69, h ! 70, h ! 71), fan_rev_count = le16 h 80, laser_status = le16 h 82,
     valid = (le16 h 84 \<noteq> crc16 0xFFFF (take 84 h))\<rparr>"

definition afe_reading :: "bytes option list \<Rightarrow> AFE3_SAMPLE" where
  "afe_reading as = \<lparr>op1 = channel_value as, op2 = channel_value (drop 10 as), op3 = channel_value (drop 20 as),
     op4 = channel_value (drop 30 as), op5 = channel_value (drop 40 as), op6 = channel_value (drop 50 as),
     pt = channel_value (drop 60 as)\<rparr>"

lemma sample_sensors_readings:
  assumes "node_ok st" "sample_answers h as" "answers (n_spi st) = as @ bs" "length h = OPC_HISTOGRAM_SIZE"
    "cc2_script (n_cc2 st) = (0, [c0, c1, c2, c3]) # (q, y) # cs"
  shows "\<exists>st'. sample_sensors l now st = Some (\<lparr>msg_gps_fix = gps_get_sample (n_gps st),
       cc2_sample = cc2_values (lib_fpu l) c0 c1 c2 c3, opc_sample = opc_reading (lib_to_float l) h,
       afe3_sample = afe_reading bs, msg_uptime = now div 1000\<rparr>, st') \<and>
     n_net st' = n_net st \<and> n_conf st' = n_conf st \<and> n_buffer st' = n_buffer st \<and> n_fota_interval st' = n_fota_interval st"
proof -
  let ?o = "(n_opc st)\<lparr>opc_bus := n_spi st\<rparr>"
  have o: "opc_ok ?o" "answers (opc_bus ?o) = as @ bs" using assms(1,3) by (simp_all add: node_ok_def opc_ok_def)
  obtain opc where 1: "opc_n3_sample_data (lib_to_float l) ?o = Some opc" "answers (opc_bus opc) = bs"
    "opc_n3_get_sample opc = opc_reading (lib_to_float l) h"
    using opc_sample_values [OF o(1) assms(2) o(2) assms(4), of "lib_to_float l"] unfolding opc_reading_def by blast
  let ?a = "(n_adc st)\<lparr>adc_bus := opc_bus opc\<rparr>"
  have a: "adc_ok ?a" "answers (adc_bus ?a) = bs" using assms(1) 1(2) by (simp_all add: node_ok_def adc_ok_def)
  obtain adc where 2: "adc_sample_data ?a = Some adc" "adc_get_sample adc = afe_reading bs"
    using adc_sample_data_does [OF a] unfolding adc_get_sample_def afe_reading_def by blast
  obtain cc2 where 3: "cc2_sample_data (lib_fpu l) (n_cc2 st) = Some cc2" "cc2_get_sample cc2 = cc2_values (lib_fpu l) c0 c1 c2 c3"
    using cc2_sample_reading [OF assms(5), of "lib_fpu l"] by (simp add: cc2_get_sample_def)
  show ?thesis using 1 2 3 by (simp add: sample_sensors_def Let_def)
qed

lemma mb_encode_writes:
  assumes "encode_firmware_version ver = Some v" "c_str imei_arr = Some idt"
    "pb mx (sample_message to_u32 v (of_int (atoll idt)) m) = (True, datagram)" "length datagram \<le> mx" "length out = mx"
  shows "\<exists>buf. mb_encode to_u32 pb ver imei_arr m out mx = Some (length datagram, buf) \<and> take (length datagram) buf = datagram \<and> length buf = mx"
  using assms by (simp add: mb_encode_def wr_block_def Let_def)

text \<open>The round behind the configuration message.\<close>
lemma round_behind_config:
  assumes "receive_config l e s (st\<lparr>n_net := note_event Fed (n_net st)\<rparr>) = Some s1"
    "node_ok s1" "sample_answers h as" "answers (n_spi s1) = as @ bs" "length h = OPC_HISTOGRAM_SIZE"
    "cc2_script (n_cc2 s1) = (0, [c0, c1, c2, c3]) # (q, y) # cs"
    "results (n_net s1) = (sock, []) # (ret, []) # rest" "0 \<le> sock" "0 \<le> ret"
    "c_str (CURRENT_COAP_BUFFER (n_conf s1)) = Some server" "encode_firmware_version (fw_version l) = Some v"
    "c_str (imei_array l) = Some idt" "length (n_buffer s1) = MAX_SEND_BUFFER"
    "lib_pb_sample l MAX_SEND_BUFFER (sample_message (lib_to_u32 l) v (of_int (atoll idt))
       \<lparr>msg_gps_fix = gps_get_sample (n_gps s1), cc2_sample = cc2_values (lib_fpu l) c0 c1 c2 c3,
        opc_sample = opc_reading (lib_to_float l) h, afe3_sample = afe_reading bs, msg_uptime = env_sample_time e div 1000\<rparr>) =
       (True, datagram)" "length datagram \<le> MAX_SEND_BUFFER"
    "n_fota_interval s1 < 16" "env_end_time e div 1000 \<le> UPTIME_FORCE_REBOOT_LIMIT_SECONDS"
  shows "\<exists>st'. main_round l s e st = Some (Goes_On, st') \<and> sys_trace (n_net st') = sys_trace (n_net s1) @
       [Opened sock, SentTo sock datagram server SAMPLE_PORT, Slept 30000, Closed sock] \<and>
     results (n_net st') = rest \<and> n_fota_interval st' = n_fota_interval s1 + 1 \<and> n_conf st' = n_conf s1"
proof -
  let ?net2 = "note_event (Opened sock) ((n_net s1)\<lparr>results := (ret, []) # rest\<rparr>)"
  have 2: "sys_socket (n_net s1) = (sock, [], ?net2)" using assms(7) by (simp add: sys_socket_def sys_call_next)
  let ?s2 = "s1\<lparr>n_net := ?net2\<rparr>"
  have s2: "node_ok ?s2" "answers (n_spi ?s2) = as @ bs" "cc2_script (n_cc2 ?s2) = (0, [c0, c1, c2, c3]) # (q, y) # cs"
    "n_gps ?s2 = n_gps s1" "n_conf ?s2 = n_conf s1" using assms(2,4,6) by (simp_all add: node_ok_def)
  let ?m = "\<lparr>msg_gps_fix = gps_get_sample (n_gps s1), cc2_sample = cc2_values (lib_fpu l) c0 c1 c2 c3,
        opc_sample = opc_reading (lib_to_float l) h, afe3_sample = afe_reading bs, msg_uptime = env_sample_time e div 1000\<rparr>"
  obtain s3 where 3: "sample_sensors l (env_sample_time e) ?s2 = Some (?m, s3)" "n_net s3 = ?net2" "n_conf s3 = n_conf s1"
    "n_buffer s3 = n_buffer s1" "n_fota_interval s3 = n_fota_interval s1"
    using sample_sensors_readings [OF s2(1) assms(3) s2(2) assms(5) s2(3), of l "env_sample_time e"] by auto
  obtain buf where 4: "mb_encode (lib_to_u32 l) (lib_pb_sample l) (fw_version l) (imei_array l) ?m (n_buffer s3) MAX_SEND_BUFFER =
      Some (length datagram, buf)" "take (length datagram) buf = datagram"
    using mb_encode_writes [where pb = "lib_pb_sample l" and mx = MAX_SEND_BUFFER and out = "n_buffer s3", OF assms(11,12,14,15)]
      assms(13) 3(4) by auto
  let ?net4 = "note_event (SentTo sock datagram server SAMPLE_PORT) (?net2\<lparr>results := rest\<rparr>)"
  have 5: "sys_call (\<lambda>_. SentTo sock datagram server SAMPLE_PORT) ?net2 = (ret, [], ?net4)" by (simp add: sys_call_next)
  let ?s5 = "s3\<lparr>n_buffer := buf, n_net := pause (SEND_INTERVAL_SEC * 1000) ?net4\<rparr>"
  have "main_round l s e st = finish_round l e sock ?s5"
    using assms(1) 2 3(1-3) 4 5 assms(8-10) by (simp add: main_round_def Let_def)
  moreover have "fota_due (n_fota_interval ?s5) = (False, n_fota_interval s1 + 1)"
    using 3(5) assms(16) by (simp add: fota_due_def FOTA_COUNTER_def FOTA_CHECK_INTERVAL_SEC_def SEND_INTERVAL_SEC_def)
  then have "finish_round l e sock ?s5 = Some (Goes_On, ?s5\<lparr>n_fota_interval := n_fota_interval s1 + 1, n_net := sys_close sock (n_net ?s5)\<rparr>)"
    using assms(17) by (simp add: finish_round_def Let_def)
  ultimately show ?thesis using 3(3) by (simp add: SEND_INTERVAL_SEC_def)
qed

lemma round_sends:
  assumes "node_ok st" "sample_answers h as" "answers (n_spi st) = as @ bs" "length h = OPC_HISTOGRAM_SIZE"
    "cc2_script (n_cc2 st) = (0, [c0, c1, c2, c3]) # (q, y) # cs"
    "results (n_net st) = (0, []) # (sock, []) # (ret, []) # rest" "0 \<le> sock" "0 \<le> ret"
    "c_str (CURRENT_COAP_BUFFER (n_conf st)) = Some server" "encode_firmware_version (fw_version l) = Some v"
    "c_str (imei_array l) = Some idt" "length (n_buffer st) = MAX_SEND_BUFFER"
    "lib_pb_sample l MAX_SEND_BUFFER (sample_message (lib_to_u32 l) v (of_int (atoll idt))
       \<lparr>msg_gps_fix = gps_get_sample (n_gps st), cc2_sample = cc2_values (lib_fpu l) c0 c1 c2 c3,
        opc_sample = opc_reading (lib_to_float l) h, afe3_sample = afe_reading bs, msg_uptime = env_sample_time e div 1000\<rparr>) =
       (True, datagram)" "length datagram \<le> MAX_SEND_BUFFER"
    "n_fota_interval st < 16" "env_end_time e div 1000 \<le> UPTIME_FORCE_REBOOT_LIMIT_SECONDS"
  shows "\<exists>st'. main_round l s e st = Some (Goes_On, st') \<and> sys_trace (n_net st') = sys_trace (n_net st) @
       [Fed, Received s MAX_COMMAND_BUFFER, Opened sock, SentTo sock datagram server SAMPLE_PORT, Slept 30000, Closed sock] \<and>
     results (n_net st') = rest \<and> n_fota_interval st' = n_fota_interval st + 1"
proof -
  let ?net1 = "note_event (Received s MAX_COMMAND_BUFFER) ((note_event Fed (n_net st))\<lparr>results := (sock, []) # (ret, []) # rest\<rparr>)"
  let ?s1 = "(st\<lparr>n_net := note_event Fed (n_net st)\<rparr>)\<lparr>n_net := ?net1\<rparr>"
  have 1: "receive_config l e s (st\<lparr>n_net := note_event Fed (n_net st)\<rparr>) = Some ?s1"
    using assms(6) by (simp add: receive_config_def sys_recv_def sys_call_next)
  have n: "node_ok ?s1" "results (n_net ?s1) = (sock, []) # (ret, []) # rest" using assms(1) by (simp_all add: node_ok_def)
  show ?thesis
    using round_behind_config [OF 1 n(1) assms(2) _ assms(4) _ n(2) assms(7,8) _ assms(10,11) _ _ assms(14) _ assms(16),
      of bs c0 c1 c2 c3 q y cs server] assms(3,5,9,12,13,15) by auto
qed


section \<open>The configuration server and the start of the board\<close>

lemma ping_attempts_close:
  assumes "ping_attempts l ips sock ping server n st = Some st'"
  shows "leads (sock # fds) (n_net st) fds (n_net st')"
  using assms
proof (induction n arbitrary: st)
  case 0
  then show ?case by (auto simp: leads_close)
next
  case (Suc n)
  obtain err x net where 1: "sys_call (\<lambda>_. SentTo sock ping server SAMPLE_PORT) (n_net st) = (err, x, net)" by (metis prod_cases3)
  obtain received bs net2 where 2: "sys_recv (Received sock) MAX_COMMAND_BUFFER (pause 1000 net) = (received, bs, net2)" by (metis prod_cases3)
  have l1: "leads (sock # fds) (n_net st) (sock # fds) net" using leads_call [OF 1, of "sock # fds"] by simp
  have l2: "leads (sock # fds) (pause 1000 net) (sock # fds) net2" using leads_recv [OF 2, of "sock # fds"] by simp
  have l: "leads (sock # fds) (n_net st) (sock # fds) net2" using leads_trans [OF leads_trans [OF l1 leads_pause] l2] .
  obtain rc conf where 3: "(if received > 0 then decode_config_message (lib_pb_config l) (lib_nvs l) (ips n) bs (n_conf st)
      else Some (0, n_conf st)) = Some (rc, conf)"
    using Suc.prems 1 2 by (auto simp: Option.bind_eq_Some_conv split: if_splits)
  show ?case
  proof (cases "rc = 0")
    case True
    then have "ping_attempts l ips sock ping server n ((st\<lparr>n_conf := conf\<rparr>)\<lparr>n_net := pause PING_RETRY_DELAY_MS net2\<rparr>) = Some st'"
      using Suc.prems 1 2 3 by simp
    from Suc.IH [OF this] show ?thesis using leads_trans [OF l leads_trans [OF leads_pause]] by simp
  next
    case False
    then have "st' = (st\<lparr>n_conf := conf\<rparr>)\<lparr>n_net := sys_close sock net2\<rparr>" using Suc.prems 1 2 3 by simp
    then show ?thesis using leads_trans [OF l leads_close] by simp
  qed
qed

text \<open>The search for an access point does not touch the number of the next ping.\<close>
lemma select_ping_id: "select_ping_apn ip0 st = Some (ok, st') \<Longrightarrow> ping_id st' = ping_id st"
  by (auto simp: select_ping_apn_def try_apn_def Option.bind_eq_Some_conv split: prod.splits)

lemma hetzner_ping_sockets:
  assumes "do_the_hetzner_ping l ip0 ips now st = Some (r, st')"
  shows "leads fds (n_net st) fds (n_net st') \<or>
     (\<exists>sock dev. 0 \<le> sock \<and> leads fds (n_net st) (sock # fds) (n_net st') \<and> sys_trace (n_net st') = sys_trace (n_net st) @ [Opened sock] \<and>
        c_str (imei_array l) = Some dev \<and>
        lib_pb_ping l 128 \<lparr>pb_id = of_int (ping_id (n_conf st)), pb_deviceid = of_int (atoll dev), pb_timestamp = of_nat (now div 1000)\<rparr> = None)"
proof -
  obtain ok conf where 1: "select_ping_apn ip0 (n_conf st) = Some (ok, conf)"
    using assms by (auto simp: do_the_hetzner_ping_def Option.bind_eq_Some_conv)
  show ?thesis
  proof (cases ok)
    case False
    then show ?thesis using assms 1 by (auto simp: do_the_hetzner_ping_def leads_refl)
  next
    case ok: True
    obtain sock x net where 2: "sys_socket (n_net st) = (sock, x, net)" by (metis prod_cases3)
    have l2: "leads fds (n_net st) (if sock < 0 then fds else sock # fds) net"
      using leads_call [OF 2 [unfolded sys_socket_def], of fds] by simp
    show ?thesis
    proof (cases "sock < 0")
      case True
      then have "restart 1000 ((st\<lparr>n_conf := conf\<rparr>)\<lparr>n_net := net\<rparr>) = (r, st')"
        using assms 1 2 ok by (simp add: do_the_hetzner_ping_def)
      then show ?thesis using restart_keeps leads_trans [OF l2] True by fastforce
    next
      case False
      obtain server ping conf2 where 3: "c_str (CURRENT_COAP_BUFFER conf) = Some server"
        "encode_ping (lib_pb_ping l) now (imei_array l) 128 conf = Some (ping, conf2)"
        using assms 1 2 ok False by (auto simp: do_the_hetzner_ping_def Option.bind_eq_Some_conv)
      show ?thesis
      proof (cases ping)
        case None
        then have "n_net st' = net" using assms 1 2 3 ok False by (auto simp: do_the_hetzner_ping_def)
        moreover obtain dev where "c_str (imei_array l) = Some dev"
          "lib_pb_ping l 128 \<lparr>pb_id = of_int (ping_id (n_conf st)), pb_deviceid = of_int (atoll dev), pb_timestamp = of_nat (now div 1000)\<rparr> = None"
          using 3(2) None select_ping_id [OF 1] by (auto simp: encode_ping_def Let_def Option.bind_eq_Some_conv)
        moreover have "sys_trace net = sys_trace (n_net st) @ [Opened sock]" using sys_call_trace [OF 2 [unfolded sys_socket_def]] by simp
        ultimately show ?thesis using l2 False by auto
      next
        case (Some p)
        then have "ping_attempts l ips sock p server PING_RETRIES (st\<lparr>n_net := net, n_conf := conf2\<rparr>) = Some st'"
          using assms 1 2 3 ok False by (auto simp: do_the_hetzner_ping_def Option.bind_eq_Some_conv)
        from ping_attempts_close [OF this, of fds] show ?thesis using l2 False leads_trans by fastforce
      qed
    qed
  qed
qed

lemma ping_attempts_sensors: "ping_attempts l ips sock ping server n st = Some st' \<Longrightarrow> same_sensors st st'"
proof (induction n arbitrary: st)
  case 0
  then show ?case by (auto simp: same_sensors_def)
next
  case (Suc n)
  obtain err x net where 1: "sys_call (\<lambda>_. SentTo sock ping server SAMPLE_PORT) (n_net st) = (err, x, net)" by (metis prod_cases3)
  obtain received bs net2 where 2: "sys_recv (Received sock) MAX_COMMAND_BUFFER (pause 1000 net) = (received, bs, net2)" by (metis prod_cases3)
  obtain rc conf where "(if received > 0 then decode_config_message (lib_pb_config l) (lib_nvs l) (ips n) bs (n_conf st)
      else Some (0, n_conf st)) = Some (rc, conf)"
    using Suc.prems 1 2 by (auto simp: Option.bind_eq_Some_conv split: if_splits)
  then consider "st' = (st\<lparr>n_conf := conf\<rparr>)\<lparr>n_net := sys_close sock net2\<rparr>" |
      "ping_attempts l ips sock ping server n ((st\<lparr>n_conf := conf\<rparr>)\<lparr>n_net := pause PING_RETRY_DELAY_MS net2\<rparr>) = Some st'"
    using Suc.prems 1 2 by (cases "rc = 0") auto
  then show ?case
  proof cases
    case 2
    from Suc.IH [OF this] show ?thesis by (simp add: same_sensors_def)
  qed (simp add: same_sensors_def)
qed

lemma hetzner_ping_sensors:
  assumes "do_the_hetzner_ping l ip0 ips now st = Some (r, st')"
  shows "same_sensors st st'"
proof -
  obtain ok conf where 1: "select_ping_apn ip0 (n_conf st) = Some (ok, conf)"
    using assms by (auto simp: do_the_hetzner_ping_def Option.bind_eq_Some_conv)
  obtain sock x net where 2: "sys_socket (n_net st) = (sock, x, net)" by (metis prod_cases3)
  consider "\<not> ok" | "ok" "sock < 0" | "ok" "\<not> sock < 0" by blast
  then show ?thesis
  proof cases
    case 3
    obtain server ping conf2 where 4: "c_str (CURRENT_COAP_BUFFER conf) = Some server"
      "encode_ping (lib_pb_ping l) now (imei_array l) 128 conf = Some (ping, conf2)"
      using assms 1 2 3 by (auto simp: do_the_hetzner_ping_def Option.bind_eq_Some_conv)
    show ?thesis
    proof (cases ping)
      case None
      then show ?thesis using assms 1 2 3 4 by (auto simp: do_the_hetzner_ping_def same_sensors_def)
    next
      case (Some p)
      then have "ping_attempts l ips sock p server PING_RETRIES (st\<lparr>n_net := net, n_conf := conf2\<rparr>) = Some st'"
        using assms 1 2 3 4 by (auto simp: do_the_hetzner_ping_def Option.bind_eq_Some_conv)
      from ping_attempts_sensors [OF this] show ?thesis by (simp add: same_sensors_def)
    qed
  qed (use assms 1 2 in \<open>auto simp: do_the_hetzner_ping_def restart_def same_sensors_def\<close>)
qed

lemma fota_init_leads: "leads fds st fds (snd (fota_init st))"
proof -
  obtain c x net where 1: "sys_call ImageConfirmed st = (c, x, net)" by (metis prod_cases3)
  obtain r y net2 where 2: "sys_call ImageConfirmed net = (r, y, net2)" by (metis prod_cases3)
  have l: "leads fds st fds net" "leads fds net fds net2"
    using leads_call [OF 1, of fds] leads_call [OF 2, of fds] by simp_all
  then show ?thesis using 1 2 leads_trans [OF l] by (simp add: fota_init_def init_image_def)
qed

text \<open>A start that has a result has waited for the socket layer.\<close>
lemma wait_given [simp]: "0 < sem \<Longrightarrow> wait_for_sockets sem = Some (sem - 1)"
  by (simp add: wait_for_sockets_def)

lemma start_waited: "main_start l sem ip0 ips now e st = Some x \<Longrightarrow> 0 < sem"
  by (auto simp: main_start_def wait_for_sockets_def Let_def split: if_splits)

text \<open>The start: the configuration socket is the only one left open.\<close>
lemma main_start_keeps:
  assumes "main_start l sem ip0 ips now e st = Some (Goes_On, s, st')" "node_ok st" "\<forall>p. lib_pb_ping l 128 p \<noteq> None"
  shows "node_ok st' \<and> n_spi st' = n_spi st \<and> n_fota_interval st' = 0 \<and> leads fds (n_net st) (s # fds) (n_net st')"
proof -
  let ?s0 = "st\<lparr>n_net := pause 1000 (n_net st), n_cc2 := snd (cc2_init (n_cc2 st)), n_opc := opc_init (n_opc st)\<rparr>"
  obtain r1 st1 where 1: "do_the_hetzner_ping l ip0 ips now ?s0 = Some (r1, st1)" "r1 \<noteq> Restarts"
    using assms(1) by (auto simp: main_start_def Option.bind_eq_Some_conv Let_def split: if_splits)
  obtain found conf where 2: "select_active_apn ip0 (n_conf st1) = Some (found, conf)" "found \<noteq> Rebooted"
    using assms(1) 1 by (auto simp: main_start_def Option.bind_eq_Some_conv Let_def split: if_splits)
  let ?net1 = "snd (fota_init (n_net st1))"
  obtain h updated net2 where 3: "c_str (CURRENT_COAP_BUFFER conf) = Some h"
    "fota_run (lib_coap l) (lib_flash l) (fw_version l) (fw_name l) h (env_token e) (env_tmp e) (env_resp e) ?net1 = Some (updated, net2)"
    "\<not> updated"
    using assms(1) 1 2 by (auto simp: main_start_def Option.bind_eq_Some_conv Let_def split: if_splits)
  obtain sock x net3 where 4: "sys_socket net2 = (sock, x, net3)" by (metis prod_cases3)
  have e: "\<not> sock < 0" "s = sock" "st' = st1\<lparr>n_conf := conf, n_net := net3, n_fota_interval := 0\<rparr>"
    using assms(1) 1 2 3 4
    by (auto simp: main_start_def Option.bind_eq_Some_conv Let_def restart_def split: if_splits)
  have l0: "leads fds (n_net st) fds (n_net ?s0)" by (simp add: leads_pause)
  have l1: "leads fds (n_net ?s0) fds (n_net st1)" using hetzner_ping_sockets [OF 1(1), of fds] assms(3) by blast
  have l3: "leads fds ?net1 fds net2" by (rule fota_run_leads [OF 3(2)])
  have l4: "leads fds net2 (sock # fds) net3" using leads_call [OF 4 [unfolded sys_socket_def], of fds] e(1) by simp
  have n: "node_ok ?s0" using assms(2)
    by (auto simp: node_ok_def opc_ok_def opc_init_def cc2_init_def cc2_transfer_def Let_def split: list.splits)
  have "same_sensors ?s0 st1" by (rule hetzner_ping_sensors [OF 1(1)])
  then show ?thesis
    using n e leads_trans [OF l0 leads_trans [OF l1 leads_trans [OF fota_init_leads leads_trans [OF l3 l4]]]]
    by (auto simp: same_sensors_def node_ok_def)
qed

text \<open>The start leaves the bus alone, also when it ends with a restart.\<close>
lemma main_start_bus:
  assumes "main_start l sem ip0 ips now e st = Some (r, s, st')" "node_ok st"
  shows "n_spi st' = n_spi st \<and> node_ok st'"
proof -
  note sem = wait_given [OF start_waited [OF assms(1)]]
  let ?s0 = "st\<lparr>n_net := pause 1000 (n_net st), n_cc2 := snd (cc2_init (n_cc2 st)), n_opc := opc_init (n_opc st)\<rparr>"
  obtain r1 st1 where 1: "do_the_hetzner_ping l ip0 ips now ?s0 = Some (r1, st1)"
    using assms(1) by (auto simp: main_start_def Option.bind_eq_Some_conv Let_def)
  have "same_sensors st1 st'"
  proof (cases "r1 = Restarts")
    case True
    then show ?thesis using assms(1) sem 1 by (simp add: main_start_def Let_def same_sensors_def)
  next
    case r1: False
    then obtain found conf where 2: "select_active_apn ip0 (n_conf st1) = Some (found, conf)"
      using assms(1) sem 1 by (auto simp: main_start_def Option.bind_eq_Some_conv Let_def)
    show ?thesis
    proof (cases "found = Rebooted")
      case True
      then show ?thesis using assms(1) sem 1 2 r1 by (auto simp: main_start_def Let_def same_sensors_def)
    next
      case found: False
      let ?net1 = "snd (fota_init (n_net st1))"
      obtain h updated net2 where 3: "c_str (CURRENT_COAP_BUFFER conf) = Some h"
        "fota_run (lib_coap l) (lib_flash l) (fw_version l) (fw_name l) h (env_token e) (env_tmp e) (env_resp e) ?net1 = Some (updated, net2)"
        using assms(1) sem 1 2 r1 found by (auto simp: main_start_def Option.bind_eq_Some_conv Let_def)
      obtain sock x net3 where 4: "sys_socket net2 = (sock, x, net3)" by (metis prod_cases3)
      show ?thesis
        using assms(1) sem 1 2 3 4 r1 found
        by (cases updated; cases "sock < 0") (auto simp: main_start_def Let_def restart_def same_sensors_def)
    qed
  qed
  moreover have "same_sensors ?s0 st1" by (rule hetzner_ping_sensors [OF 1])
  moreover have "node_ok ?s0" using assms(2)
    by (auto simp: node_ok_def opc_ok_def opc_init_def cc2_init_def cc2_transfer_def Let_def split: list.splits)
  ultimately show ?thesis by (auto simp: same_sensors_def node_ok_def)
qed

lemma init_board_frees:
  assumes "init_board g i c sp st = Some st'" "node_ok st" "sel = None \<or> chip (the sel)"
  shows "drives sel (n_spi st) None (n_spi st') \<and> node_ok st' \<and> n_net st' = n_net st"
proof -
  let ?b = "init_GPIO (n_spi st)"
  let ?a = "ADS124S08_begin (ADS124S08_init ((n_adc st)\<lparr>adc_bus := ?b\<rparr>))"
  have st': "st' = st\<lparr>n_adc := ?a, n_spi := adc_bus ?a\<rparr>"
    using assms(1) by (cases g) (auto simp: init_board_def get_GPIO_device_def Let_def split: if_splits)
  have 1: "drives sel (n_spi st) None ?b" by (rule init_GPIO_frees [OF assms(3)])
  have 2: "drives None ?b None (adc_bus ?a)"
    by (simp add: ADS124S08_begin_def ADS124S08_init_def ADS124S08_release_def ADS124S08_stopConversion_def adc_on_bus_def
        ads_constants drives_steps chips drives_refl)
  show ?thesis
    using drives_trans [OF 1 2] assms(2) st'
    by (simp add: node_ok_def adc_ok_def ADS124S08_begin_def ADS124S08_init_def ADS124S08_release_def ADS124S08_stopConversion_def
        adc_on_bus_def)
qed

section \<open>Properties\<close>

text \<open>C4: One round sends one sample. When every sensor answers, the sockets work and no configuration message waits, a round that is not the one that looks for
  new firmware (every 17th) and that ends below the uptime at which the node restarts makes
  exactly these calls, and the datagram that goes to the configured server is the encoding of the
  message with the particle histogram, the seven channel values, humidity and temperature, the
  position of the receiver and the uptime; the socket of the round is closed again.\<close>
theorem round_sends_sample:
  assumes "node_ok st" "sample_answers h as" "answers (n_spi st) = as @ bs" "length h = OPC_HISTOGRAM_SIZE"
    "cc2_script (n_cc2 st) = (0, [c0, c1, c2, c3]) # (q, y) # cs"
    "results (n_net st) = (0, []) # (sock, []) # (ret, []) # rest" "0 \<le> sock" "0 \<le> ret"
    "c_str (CURRENT_COAP_BUFFER (n_conf st)) = Some server" "encode_firmware_version (fw_version l) = Some v"
    "c_str (imei_array l) = Some idt" "length (n_buffer st) = MAX_SEND_BUFFER"
    "lib_pb_sample l MAX_SEND_BUFFER (sample_message (lib_to_u32 l) v (of_int (atoll idt))
       \<lparr>msg_gps_fix = gps_get_sample (n_gps st), cc2_sample = cc2_values (lib_fpu l) c0 c1 c2 c3,
        opc_sample = opc_reading (lib_to_float l) h, afe3_sample = afe_reading bs, msg_uptime = env_sample_time e div 1000\<rparr>) =
       (True, datagram)" "length datagram \<le> MAX_SEND_BUFFER"
    "n_fota_interval st < 16" "env_end_time e div 1000 \<le> UPTIME_FORCE_REBOOT_LIMIT_SECONDS"
  shows "\<exists>st'. main_round l s e st = Some (Goes_On, st') \<and> sys_trace (n_net st') = sys_trace (n_net st) @
       [Fed, Received s MAX_COMMAND_BUFFER, Opened sock, SentTo sock datagram server SAMPLE_PORT, Slept 30000, Closed sock] \<and>
     results (n_net st') = rest \<and> n_fota_interval st' = n_fota_interval st + 1"
  by (rule round_sends [OF assms])

text \<open>C6: The invariant of the main loop. However many rounds there are and whatever the sensors, the server,
  the sockets and the libraries answer, the node keeps the shape of its buffers, the SPI bus
  is free again and was never driven by two chips at once, no socket is used that is not open, and
  rounds that go on leave exactly the sockets open that were open before.\<close>
theorem main_loop_invariant:
  assumes "main_loop l s es st = Some (r, st')" "node_ok st" "s \<in> set fds"
  shows "node_ok st' \<and> drives None (n_spi st) None (n_spi st') \<and>
     (\<exists>fds'. leads fds (n_net st) fds' (n_net st') \<and> (r = Goes_On \<longrightarrow> fds' = fds))"
  by (rule main_loop_keeps [OF assms])

text \<open>The node restarts itself. Under a clock that is at least as fast as the pauses of the
  program, the loop does not get through 43 rounds: a restart is reached, by the limit of two hours at
  the latest.\<close>
theorem node_restarts:
  assumes "main_loop l s es st = Some (r, st')" "node_ok st" "clock_ok l s t es st" "0 \<le> t" "43 \<le> length es"
  shows "r = Restarts"
proof (rule ccontr)
  assume "r \<noteq> Restarts"
  then have "main_loop l s es st = Some (Goes_On, st')" using assms(1) by (cases r) simp_all
  then show False using main_loop_time [OF _ assms(2,3)] assms(4,5) by fastforce
qed

text \<open>The firmware check comes in every 17th round and in no other: after any number of rounds that
  go on, the next one is due exactly when its number is a multiple of 17.\<close>
theorem firmware_check_every_17:
  assumes "main_loop l s es st = Some (Goes_On, st')" "node_ok st" "n_fota_interval st = 0"
  shows "fst (fota_due (n_fota_interval st')) \<longleftrightarrow> 17 dvd length es + 1"
proof -
  have i: "n_fota_interval st' = int (length es) mod 17" using main_loop_interval [OF assms(1,2)] assms(3) by simp
  then have "fst (fota_due (n_fota_interval st')) \<longleftrightarrow> (int (length es) mod 17 + 1) mod 17 = 0"
    using fota_due_period(1) [of "n_fota_interval st'"] by simp
  also have "\<dots> \<longleftrightarrow> int (length es + 1) mod 17 = 0" by (simp add: mod_simps ac_simps)
  also have "\<dots> \<longleftrightarrow> 17 dvd length es + 1" by presburger
  finally show ?thesis .
qed

text \<open>C5: From power-on. However many rounds there are, and whatever the devices, the modem and the servers answer,
  the SPI bus is never driven by two chips at once, whichever chip was selected before, and is free at the end; as long as the
  node goes on, the only socket that is open is the one for configuration messages, provided that the ping can be encoded, and the
  counter for the firmware check is the number of rounds modulo 17.\<close>
theorem power_on_to_loop:
  assumes "main l b ip0 ips now e es st = Some (r, s, wdt, st')" "node_ok st" "sel = None \<or> chip (the sel)"
    "\<forall>p. lib_pb_ping l 128 p \<noteq> None"
  shows "drives sel (n_spi st) None (n_spi st') \<and> node_ok st' \<and>
     (r = Goes_On \<longrightarrow> leads [] (n_net st) [s] (n_net st') \<and> n_fota_interval st' = int (length es) mod 17)"
proof -
  obtain st1 where 1: "init_board (gpio_found b) (i2c_found b) (i2c_configured b) (spi_found b) st = Some st1"
    using assms(1) by (auto simp: main_def Option.bind_eq_Some_conv)
  obtain r2 s2 st2 where 2: "main_start l (socket_sem b) ip0 ips now e st1 = Some (r2, s2, st2)"
    using assms(1) 1 by (auto simp: main_def Let_def Option.bind_eq_Some_conv)
  have b: "drives sel (n_spi st) None (n_spi st1)" "node_ok st1" "n_net st1 = n_net st"
    using init_board_frees [OF 1 assms(2,3)] by simp_all
  have bus: "n_spi st2 = n_spi st1" "node_ok st2" using main_start_bus [OF 2 b(2)] by simp_all
  show ?thesis
  proof (cases "r2 = Restarts")
    case True
    then have "r = Restarts" "st' = st2" using assms(1) 1 2 by (simp_all add: main_def Let_def)
    then show ?thesis using b(1) bus by simp
  next
    case False
    then have g: "r2 = Goes_On" by (cases r2) simp_all
    then have 3: "main_loop l s2 es st2 = Some (r, st')" "s = s2"
      using assms(1) 1 2 by (auto simp: main_def Let_def Option.bind_eq_Some_conv)
    have m: "n_fota_interval st2 = 0" "leads [] (n_net st1) [s] (n_net st2)"
      using main_start_keeps [OF 2 [unfolded g] b(2) assms(4), of "[]"] 3(2) by simp_all
    have k: "node_ok st'" "drives None (n_spi st2) None (n_spi st')" "r = Goes_On \<longrightarrow> leads [s] (n_net st2) [s] (n_net st')"
      using main_loop_keeps [OF 3(1) bus(2), of "[s]"] 3(2) by auto
    have "r = Goes_On \<Longrightarrow> n_fota_interval st' = int (length es) mod 17"
      using main_loop_interval [of l s2 es st2 st'] 3(1) bus(2) m(1) by simp
    then show ?thesis
      using k bus(1) drives_trans [OF b(1), of None "n_spi st'"] leads_trans [OF m(2)] b(3) by auto
  qed
qed

text \<open>C40: The ping at the start. Whatever the answers, it closes the socket that it opens, except when its own message (the number of the ping,
  the identifier of the device and the seconds since the start) is refused by the encoder: then it opens the socket, makes no other call, and leaves the socket open.\<close>
theorem ping_sockets:
  assumes "do_the_hetzner_ping l ip0 ips now st = Some (r, st')" "\<not> leads fds (n_net st) fds (n_net st')"
  shows "\<exists>sock dev. 0 \<le> sock \<and> leads fds (n_net st) (sock # fds) (n_net st') \<and> sys_trace (n_net st') = sys_trace (n_net st) @ [Opened sock] \<and>
     c_str (imei_array l) = Some dev \<and>
     lib_pb_ping l 128 \<lparr>pb_id = of_int (ping_id (n_conf st)), pb_deviceid = of_int (atoll dev), pb_timestamp = of_nat (now div 1000)\<rparr> = None"
  using hetzner_ping_sockets [OF assms(1), of fds] assms(2) by blast


section \<open>A concrete node\<close>

definition demo_libs :: "(rat, rat, bytes, bytes \<times> bool, apn_config option) libs" where
  "demo_libs = \<lparr>lib_fpu = rat_fpu, lib_to_float = (\<lambda>x. 0), lib_to_u32 = (\<lambda>x. 0),
     lib_pb_sample = (\<lambda>n m. (True, [of_int (pb_uptime m)])), lib_pb_config = (\<lambda>bs. None), lib_pb_ping = (\<lambda>n p. if n < 128 then None else Some [1]),
     lib_coap = toy_coap, lib_flash = toy_flash, lib_nvs = cell_nvs, fw_version = [49, 46, 50, 46, 51], fw_name = [65], imei_array = [49, 0]\<rparr>"

definition demo_env :: "rat env" where
  "demo_env = \<lparr>env_ips = (replicate 124 1, replicate 124 1, replicate 124 1), env_token = replicate 8 0, env_tmp = replicate 256 0,
     env_resp = toy_response, env_sample_time = 1000, env_end_time = 200000, env_gps = empty_gps\<rparr>"

definition demo_node :: "bytes option list \<Rightarrow> rx_script \<Rightarrow> (int \<times> bytes) list \<Rightarrow> (rat, bytes \<times> bool, apn_config option) node" where
  "demo_node as rx rs = \<lparr>n_opc = opc_idle [], n_adc = adc_idle [], n_spi = \<lparr>answers = as, events = []\<rparr>,
     n_cc2 = \<lparr>cc2_script = [(0, [1, 2, 3, 4]), (0, [])], cc2_log = [], cc2_current = \<lparr>RH = 0, Temp_C = 0\<rparr>\<rparr>, n_gps = empty_gps,
     n_net = toy_state rs, n_conf = boot_config rx, n_buffer = replicate 450 0, n_fota_interval = 0\<rparr>"

lemma demo_node_ok: "node_ok (demo_node as rx rs)"
  using opc_idle_ok adc_idle_ok by (simp add: node_ok_def demo_node_def)

lemma demo_version: "\<exists>v. encode_firmware_version (fw_version demo_libs) = Some v"
proof -
  have "encode_firmware_version [49, 46, 50, 46, 51] \<noteq> None" by code_simp
  then show ?thesis by (auto simp: demo_libs_def)
qed

abbreviation "demo_calls sock \<equiv> [(0, []), (sock, []), (1, [])] :: (int \<times> bytes) list"

text \<open>What the concrete node and its libraries give for a round in which everything works.\<close>
lemma demo_libs_ready:
  "c_str (imei_array demo_libs) = Some [49]" "lib_pb_sample demo_libs k m = (True, [of_int (pb_uptime m)])"
  "length [of_int (pb_uptime m) :: u8] \<le> MAX_SEND_BUFFER" "env_end_time demo_env div 1000 \<le> UPTIME_FORCE_REBOOT_LIMIT_SECONDS"
  by (simp_all add: demo_libs_def demo_env_def MAX_SEND_BUFFER_def UPTIME_FORCE_REBOOT_LIMIT_SECONDS_def)

lemma demo_round_ready:
  assumes "sample_answers h as"
  shows "node_ok (demo_node as [] (demo_calls sock))" "answers (n_spi (demo_node as [] (demo_calls sock))) = as @ []"
    "cc2_script (n_cc2 (demo_node as [] (demo_calls sock))) = (0, [1, 2, 3, 4]) # (0, []) # []"
    "results (n_net (demo_node as [] (demo_calls sock))) = (0, []) # (sock, []) # (1, []) # []"
    "c_str (CURRENT_COAP_BUFFER (n_conf (demo_node as [] (demo_calls sock)))) = Some []"
    "length (n_buffer (demo_node as [] (demo_calls sock))) = MAX_SEND_BUFFER"
    "n_fota_interval (demo_node as [] (demo_calls sock)) < 16"
  using demo_node_ok by (simp_all add: demo_node_def toy_state_def boot_config_def MAX_SEND_BUFFER_def)

lemma demo_node_gps [simp]: "(demo_node as rx rs)\<lparr>n_gps := env_gps demo_env\<rparr> = demo_node as rx rs"
  by (simp add: demo_node_def demo_env_def)

lemma demo_round:
  assumes "sample_answers (replicate 86 1) as"
  shows "\<exists>st'. main_round demo_libs 7 demo_env (demo_node as [] (demo_calls 8)) = Some (Goes_On, st')"
proof -
  obtain v where v: "encode_firmware_version (fw_version demo_libs) = Some v" using demo_version by blast
  note r = demo_round_ready [OF assms, of 8] and l = demo_libs_ready
  have h: "length (replicate 86 1 :: bytes) = OPC_HISTOGRAM_SIZE" by (simp add: histogram_layout)
  show ?thesis using round_sends [OF r(1) assms r(2) h r(3,4) _ _ r(5) v l(1) r(6) l(2,3) r(7) l(4), of 7] by auto
qed

theorem round_sends_sample_witness:
  "\<exists>as st'. main_round demo_libs 7 demo_env (demo_node as [] (demo_calls 8)) = Some (Goes_On, st') \<and>
     sys_trace (n_net st') = [Fed, Received 7 MAX_COMMAND_BUFFER, Opened 8, SentTo 8 [1] [] 1234, Slept 30000, Closed 8]"
proof -
  obtain as where as: "sample_answers (replicate 86 1) as" using sample_answers_example by blast
  obtain v where v: "encode_firmware_version (fw_version demo_libs) = Some v" using demo_version by blast
  note r = demo_round_ready [OF as, of 8] and l = demo_libs_ready
  have h: "length (replicate 86 1 :: bytes) = OPC_HISTOGRAM_SIZE" by (simp add: histogram_layout)
  have t: "sys_trace (n_net (demo_node as [] (demo_calls 8))) = []" by (simp add: demo_node_def toy_state_def)
  have "pb_uptime (sample_message (lib_to_u32 demo_libs) v i m) = msg_uptime m" for i m
    by (simp add: sample_message_def Let_def)
  then show ?thesis
    using round_sends_sample [OF r(1) as r(2) h r(3,4) _ _ r(5) v l(1) r(6) l(2,3) r(7) l(4), of 7] t
    by (simp add: demo_env_def SAMPLE_PORT_def) blast
qed

theorem main_loop_invariant_witness:
  "\<exists>as st'. main_loop demo_libs 7 [demo_env] (demo_node as [] (demo_calls 8)) = Some (Goes_On, st') \<and>
     drives None (n_spi (demo_node as [] (demo_calls 8))) None (n_spi st') \<and> leads [7] (n_net (demo_node as [] (demo_calls 8))) [7] (n_net st')"
proof -
  obtain as where as: "sample_answers (replicate 86 1) as" using sample_answers_example by blast
  obtain st' where "main_loop demo_libs 7 [demo_env] (demo_node as [] (demo_calls 8)) = Some (Goes_On, st')" using demo_round [OF as] by auto
  then show ?thesis using main_loop_invariant [OF _ demo_node_ok, of demo_libs 7 "[demo_env]" as "[]" "demo_calls 8" Goes_On st' "[7]"] by auto
qed

theorem firmware_check_every_17_witness:
  "\<exists>as st'. main_loop demo_libs 7 [demo_env] (demo_node as [] (demo_calls 8)) = Some (Goes_On, st') \<and> \<not> fst (fota_due (n_fota_interval st'))"
proof -
  obtain as where as: "sample_answers (replicate 86 1) as" using sample_answers_example by blast
  obtain st' where "main_loop demo_libs 7 [demo_env] (demo_node as [] (demo_calls 8)) = Some (Goes_On, st')" using demo_round [OF as] by auto
  moreover have "n_fota_interval (demo_node as [] (demo_calls 8)) = 0" by (simp add: demo_node_def)
  ultimately show ?thesis
    using firmware_check_every_17 [OF _ demo_node_ok, of demo_libs 7 "[demo_env]" as "[]" "demo_calls 8" st']
    by (auto dest: dvd_imp_le)
qed

text \<open>Without an answer from the modem the first socket call fails and the node restarts.\<close>
lemma demo_restart: "\<exists>st'. main_round demo_libs 7 demo_env (demo_node [] [] []) = Some (Restarts, st')"
  by (simp add: main_round_def receive_config_def sys_recv_def sys_call_def sys_socket_def restart_def demo_node_def toy_state_def)

theorem node_restarts_witness:
  "\<exists>r st'. main_loop demo_libs 7 (replicate 43 demo_env) (demo_node [] [] []) = Some (r, st') \<and> r = Restarts"
proof -
  have e: "replicate 43 demo_env = demo_env # replicate 42 demo_env" by (simp add: eval_nat_numeral)
  obtain st' where 1: "main_round demo_libs 7 demo_env (demo_node [] [] []) = Some (Restarts, st')" using demo_restart by blast
  then have m: "main_loop demo_libs 7 (replicate 43 demo_env) (demo_node [] [] []) = Some (Restarts, st')" unfolding e by simp
  have "clock_ok demo_libs 7 0 (replicate 43 demo_env) (demo_node [] [] [])" unfolding e using 1 by simp
  then show ?thesis using node_restarts [OF m demo_node_ok] m by auto
qed

text \<open>A start at which the configuration server cannot be reached, and the first access point can.\<close>
abbreviation "start_radio \<equiv> replicate 35 None @ network_found :: rx_script"
abbreviation "start_calls \<equiv> [(1, []), (-1, []), (100, [])] :: (int \<times> bytes) list"

lemma demo_ping_dead:
  "\<exists>st'. do_the_hetzner_ping demo_libs (replicate 16 0) ips now st = Some (Goes_On, st') \<and>
     config_ok (n_conf st') \<and> holds_config (CURRENT_APN_CONFIG (n_conf st')) default_config \<and> script (radio (n_conf st')) = network_found \<and>
     n_net st' = n_net st"
  if "n_conf st = boot_config start_radio"
proof -
  have h: "str_arr 64 (apn4 (CURRENT_APN_CONFIG (n_conf st))) (apn4 default_config)"
    "str_arr 128 (coap4 (CURRENT_APN_CONFIG (n_conf st))) (coap4 default_config)"
    using boot_config_ok(2) [of start_radio] that by (simp_all add: holds_config_def)
  have "config_ok (n_conf st)" "script (radio (n_conf st)) = replicate 35 None @ network_found"
    using boot_config_ok(1) that by (simp_all add: boot_config_def)
  then obtain c where "select_ping_apn (replicate 16 0) (n_conf st) = Some (False, c)"
    "attempted (n_conf st) (apn4 default_config) (coap4 default_config) 30 network_found c"
    using try_apn_dead [OF _ h _ silent_attempt, where ?ip0.0 = "replicate 16 0" and rx = network_found] by (auto simp: select_ping_apn_def)
  then show ?thesis
    using attempted_ok boot_config_ok(2) that by (fastforce simp: do_the_hetzner_ping_def attempted_def)
qed

lemma demo_select:
  assumes "config_ok c" "holds_config (CURRENT_APN_CONFIG c) default_config" "script (radio c) = network_found"
  shows "\<exists>c' h. select_active_apn (replicate 16 0) c = Some (Selected, c') \<and> c_str (CURRENT_COAP_BUFFER c') = Some h"
proof -
  have h: "str_arr 64 (apn1 (CURRENT_APN_CONFIG c)) (apn1 default_config)" "str_arr 128 (coap1 (CURRENT_APN_CONFIG c)) (coap1 default_config)"
    using assms(2) by (simp_all add: holds_config_def)
  have r: "script (radio c) = network_found @ []" using assms(3) by simp
  obtain c' where c': "try_apn (replicate 16 0) (apn1 (CURRENT_APN_CONFIG c)) (coap1 (CURRENT_APN_CONFIG c)) c = Some (True, c')"
      "attempted c (apn1 default_config) (coap1 default_config) 0 [] c'"
    using try_apn_live [OF assms(1) h _ network_found_live r, where ?ip0.0 = "replicate 16 0"] by auto
  then show ?thesis
    by (auto simp: select_active_apn_def apn_slots_def NVS_APN_COUNT_def attempted_def str_arr_def)
qed

lemma demo_report:
  "case report_packet toy_coap [49, 46, 50, 46, 51] [65] (replicate 8 0) 0 (replicate 256 0) of Some (Some p) \<Rightarrow> True | _ \<Rightarrow> False"
  by code_simp

lemma demo_no_update:
  assumes "results st = (-1, []) # rs" "ids_drawn st = 0"
  shows "\<exists>st'. fota_run (lib_coap demo_libs) (lib_flash demo_libs) (fw_version demo_libs) (fw_name demo_libs) h (env_token demo_env)
     (env_tmp demo_env) (env_resp demo_env) st = Some (False, st') \<and> results st' = rs \<and> sys_trace st' = sys_trace st @ [Opened (-1)]"
proof -
  obtain p where p: "report_packet toy_coap [49, 46, 50, 46, 51] [65] (replicate 8 0) 0 (replicate 256 0) = Some (Some p)"
    using demo_report by (auto split: option.splits)
  show ?thesis
    using assms p by (auto simp: fota_run_def fota_report_version_def demo_libs_def demo_env_def draw_id_def sys_socket_def sys_call_def)
qed

lemma demo_start:
  assumes "n_conf st = boot_config start_radio" "n_net st = toy_state start_calls"
  shows "\<exists>st'. main_start demo_libs 1 (replicate 16 0) ips now demo_env st = Some (Goes_On, 100, st') \<and>
     sys_trace (n_net st') = [Slept 1000, ImageConfirmed 1, Opened (-1), Opened 100] \<and> results (n_net st') = []"
proof -
  let ?s0 = "st\<lparr>n_net := pause 1000 (n_net st), n_cc2 := snd (cc2_init (n_cc2 st)), n_opc := opc_init (n_opc st)\<rparr>"
  have "n_conf ?s0 = boot_config start_radio" using assms(1) by simp
  from demo_ping_dead [OF this, of ips now] obtain s1 where 1: "do_the_hetzner_ping demo_libs (replicate 16 0) ips now ?s0 = Some (Goes_On, s1)"
    "config_ok (n_conf s1)" "holds_config (CURRENT_APN_CONFIG (n_conf s1)) default_config" "script (radio (n_conf s1)) = network_found"
    "n_net s1 = n_net ?s0" by blast
  obtain c h where 2: "select_active_apn (replicate 16 0) (n_conf s1) = Some (Selected, c)" "c_str (CURRENT_COAP_BUFFER c) = Some h"
    using demo_select [OF 1(2-4)] by blast
  let ?net = "snd (fota_init (n_net s1))"
  have "results ?net = (-1, []) # [(100, [])]" "ids_drawn ?net = 0" "sys_trace ?net = [Slept 1000, ImageConfirmed 1]"
    using 1(5) assms(2) by (simp_all add: fota_init_def init_image_def sys_call_def toy_state_def pause_def note_event_def)
  note n = this
  from demo_no_update [OF n(1,2), of h] obtain net where 3: "fota_run (lib_coap demo_libs) (lib_flash demo_libs) (fw_version demo_libs)
      (fw_name demo_libs) h (env_token demo_env) (env_tmp demo_env) (env_resp demo_env) ?net = Some (False, net)" "results net = [(100, [])]"
      "sys_trace net = [Slept 1000, ImageConfirmed 1, Opened (-1)]"
    using n(3) by auto
  have "sys_socket net = (100, [], note_event (Opened 100) (net\<lparr>results := []\<rparr>))" using 3(2) by (simp add: sys_socket_def sys_call_def)
  then show ?thesis using 1(1) 2 3(1,3) by (simp add: main_start_def Let_def)
qed

definition demo_board :: board where
  "demo_board = \<lparr>gpio_found = True, i2c_found = True, i2c_configured = True, spi_found = True, wdt_enotsup = 134, wdt_found = True,
     wdt_results = (0, 0, 0), socket_sem = 1\<rparr>"

lemma demo_main:
  obtains st2 where "main demo_libs demo_board (replicate 16 0) (\<lambda>n. env_ips demo_env) 5000 demo_env [] (demo_node [] start_radio start_calls) =
       Some (Goes_On, 100, (0, [Timeout_Installed 0 7200000 True 0, Wdt_Set_Up 0]), st2)"
    "sys_trace (n_net st2) = [Slept 1000, ImageConfirmed 1, Opened (-1), Opened 100]"
proof -
  let ?n = "demo_node [] start_radio start_calls"
  obtain st1 where 1: "init_board True True True True ?n = Some st1"
    by (simp add: init_board_def get_GPIO_device_def get_I2C_device_def get_SPI_device_def Let_def)
  then have "n_conf st1 = boot_config start_radio" "n_net st1 = toy_state start_calls"
    by (auto simp: init_board_def get_GPIO_device_def get_I2C_device_def get_SPI_device_def Let_def demo_node_def)
  then obtain st2 where 2: "main_start demo_libs 1 (replicate 16 0) (\<lambda>n. env_ips demo_env) 5000 demo_env st1 = Some (Goes_On, 100, st2)"
    "sys_trace (n_net st2) = [Slept 1000, ImageConfirmed 1, Opened (-1), Opened 100]"
    using demo_start by blast
  then show ?thesis using 1 that [of st2] by (simp add: main_def demo_board_def watchdog_init_def Let_def)
qed

theorem power_on_to_loop_witness:
  "\<exists>st2. main demo_libs demo_board (replicate 16 0) (\<lambda>n. env_ips demo_env) 5000 demo_env [] (demo_node [] start_radio start_calls) =
       Some (Goes_On, 100, (0, [Timeout_Installed 0 7200000 True 0, Wdt_Set_Up 0]), st2) \<and>
     drives (Some CS_OPC) (n_spi (demo_node [] start_radio start_calls)) None (n_spi st2) \<and> leads [] (toy_state start_calls) [100] (n_net st2)"
proof -
  obtain st2 where m: "main demo_libs demo_board (replicate 16 0) (\<lambda>n. env_ips demo_env) 5000 demo_env [] (demo_node [] start_radio start_calls) =
      Some (Goes_On, 100, (0, [Timeout_Installed 0 7200000 True 0, Wdt_Set_Up 0]), st2)" by (rule demo_main)
  have "n_net (demo_node [] start_radio start_calls) = toy_state start_calls" by (simp add: demo_node_def)
  then show ?thesis
    using power_on_to_loop [OF m demo_node_ok, of "Some CS_OPC"] m by (auto simp: demo_libs_def chips)
qed

theorem ping_sockets_witness:
  "\<exists>st' sock. do_the_hetzner_ping (demo_libs\<lparr>lib_pb_ping := \<lambda>n p. if pb_timestamp p = 5 then None else Some [1]\<rparr>) (replicate 16 0) (\<lambda>n. env_ips demo_env) 5000
     (demo_node [] network_found [(3, [])]) = Some (Goes_On, st') \<and> leads [] (toy_state [(3, [])]) [sock] (n_net st')"
proof -
  let ?l = "demo_libs\<lparr>lib_pb_ping := \<lambda>n p. if pb_timestamp p = 5 then None else Some [1]\<rparr>" and ?n = "demo_node [] network_found [(3, [])]"
  have h: "str_arr 64 (apn4 (CURRENT_APN_CONFIG (n_conf ?n))) (apn4 default_config)"
    "str_arr 128 (coap4 (CURRENT_APN_CONFIG (n_conf ?n))) (coap4 default_config)"
    using boot_config_ok(2) [of network_found] by (simp_all add: holds_config_def demo_node_def)
  have r: "config_ok (n_conf ?n)" "script (radio (n_conf ?n)) = network_found @ []"
    using boot_config_ok(1) by (simp_all add: boot_config_def demo_node_def)
  obtain c where "select_ping_apn (replicate 16 0) (n_conf ?n) = Some (True, c)"
    "attempted (n_conf ?n) (apn4 default_config) (coap4 default_config) 0 [] c"
    using try_apn_live [OF r(1) h _ network_found_live r(2), where ?ip0.0 = "replicate 16 0"] by (auto simp: select_ping_apn_def)
  then obtain st' where p: "do_the_hetzner_ping ?l (replicate 16 0) (\<lambda>n. env_ips demo_env) 5000 ?n = Some (Goes_On, st')"
    "sys_trace (n_net st') = [Opened 3]"
    by (auto simp: do_the_hetzner_ping_def attempted_def str_arr_def encode_ping_def demo_node_def demo_libs_def toy_state_def
        sys_socket_def sys_call_def Let_def)
  have n: "n_net ?n = toy_state [(3, [])]" by (simp add: demo_node_def)
  have "\<not> leads [] (n_net ?n) [] (n_net st')" using p(2) n by (simp add: leads_def toy_state_def)
  then show ?thesis using ping_sockets [OF p(1)] p(1) n by auto
qed

end
