(* ===== verification/Node_Returns.thy ===== *)
theory Node_Returns
  imports Main_Loop
begin

text \<open>
  Rounds of the main loop always come to an end: none of the accesses that could leave an array does so, as long as
  the answers of the update server fit the fields they are stored in. The theory follows the calls of a
  round from the inside out and shows for each that it gives a result and keeps what the next one needs.
\<close>

section \<open>Configuration messages\<close>

text \<open>The settings and the address of the server are strings, and the buffer for addresses has its size.\<close>
definition settings_ok :: "'fs config \<Rightarrow> bool" where
  "settings_ok c \<longleftrightarrow> (\<exists>v. holds_config (CURRENT_APN_CONFIG c) v) \<and> length (URL_BUF c) = 256 \<and> c_str (CURRENT_COAP_BUFFER c) \<noteq> None"

lemma any_empty_total: "\<forall>a \<in> set as. c_str a \<noteq> None \<Longrightarrow> \<exists>b. any_empty as = Some b"
  by (induction as) auto

lemma any_differs_total: "\<forall>(a, b) \<in> set ps. c_str a \<noteq> None \<and> c_str b \<noteq> None \<Longrightarrow> \<exists>d. any_differs ps = Some d"
  by (induction ps) (auto simp: strcmp_ne_def)

text \<open>
  An address that is not a CoAP address is replaced by what the uninitialised local array happens to hold (\<open>config_message.c\<close>, line 33). That
  leaves no array only when the array holds a terminator.
\<close>
definition url_fits :: "bytes \<Rightarrow> bytes \<Rightarrow> bool" where
  "url_fits ip url \<longleftrightarrow> (\<forall>u. c_str url = Some u \<longrightarrow> coap_url u \<or> c_str ip \<noteq> None)"

lemma rewrite_url_total:
  assumes "str_arr 128 url u" "length ip0 = 124" "url_fits ip0 url" "length (URL_BUF st) = 256"
  shows "\<exists>url' ub y. rewrite_URL_to_IP_only ip0 url st = Some (url', st\<lparr>URL_BUF := ub\<rparr>) \<and> str_arr 128 url' y \<and> length ub = 256"
proof (cases "coap_url u")
  case True
  then show ?thesis using rewrite_url_runs [OF assms(1) True assms(2,4)] by blast
next
  case False
  note u = str_arrD [OF assms(1)]
  obtain x where x0: "str_arr 124 ip0 x" using assms(1-3) False by (auto simp: url_fits_def str_arr_def)
  note x = str_arrD [OF x0]
  obtain ub where ub: "strcpy (URL_BUF st) u = Some ub" "str_arr 256 ub u" using strcpy_arr [OF assms(4), of u] u by auto
  obtain url' where url': "strcpy url x = Some url'" "str_arr 128 url' x" using strcpy_arr [of url 128 x] u x by auto
  have "scan_host ip0 u = Some ip0" using False by (auto simp: scan_host_def coap_url_def Let_def simp flip: url_host_def)
  then show ?thesis
    using ub url' u x str_arrD [OF ub(2)] by (intro exI [of _ url'] exI [of _ ub] exI [of _ x]) (simp add: rewrite_URL_to_IP_only_def)
qed

lemma copy_str_bind:
  assumes "str_arr n a s" "length d = n" "\<And>d'. str_arr n d' s \<Longrightarrow> \<exists>r. f d' = Some r \<and> P r"
  shows "\<exists>r. Option.bind (copy_str d a) f = Some r \<and> P r"
  using copy_str_arr [OF assms(1,2)] assms(3) by fastforce

lemma decode_config_total:
  assumes "\<And>t. pb_decode buf = Some t \<Longrightarrow> \<exists>w. message_holds t w" "settings_ok st"
    "length ip1 = 124" "length ip2 = 124" "length ip3 = 124"
    "\<And>t. pb_decode buf = Some t \<Longrightarrow> url_fits ip1 (set_coap1 t) \<and> url_fits ip2 (set_coap2 t) \<and> url_fits ip3 (set_coap3 t)"
  shows "\<exists>r. decode_config_message pb_decode nv (ip1, ip2, ip3) buf st = Some r \<and> settings_ok (snd r)"
proof (cases "pb_decode buf")
  case None
  then show ?thesis using assms(2) by (simp add: decode_config_message_def)
next
  case (Some t)
  let ?c = "CURRENT_APN_CONFIG st"
  obtain w where w: "message_holds t w" using assms(1) [OF Some] by blast
  then have m: "str_arr 64 (set_apn1 t) (set_apn1 w)" "str_arr 64 (set_apn2 t) (set_apn2 w)" "str_arr 64 (set_apn3 t) (set_apn3 w)"
    "str_arr 128 (set_coap1 t) (set_coap1 w)" "str_arr 128 (set_coap2 t) (set_coap2 w)" "str_arr 128 (set_coap3 t) (set_coap3 w)"
    by (simp_all add: message_holds_def)
  obtain v where v: "holds_config ?c v" "length (URL_BUF st) = 256" using assms(2) by (auto simp: settings_ok_def)
  then have c: "str_arr 64 (apn1 ?c) (apn1 v)" "str_arr 64 (apn2 ?c) (apn2 v)" "str_arr 64 (apn3 ?c) (apn3 v)" "str_arr 64 (apn4 ?c) (apn4 v)"
    "str_arr 128 (coap1 ?c) (coap1 v)" "str_arr 128 (coap2 ?c) (coap2 v)" "str_arr 128 (coap3 ?c) (coap3 v)" "str_arr 128 (coap4 ?c) (coap4 v)"
    by (simp_all add: holds_config_def)
  obtain u1 b1 y1 where r1: "rewrite_URL_to_IP_only ip1 (set_coap1 t) st = Some (u1, st\<lparr>URL_BUF := b1\<rparr>)" "str_arr 128 u1 y1" "length b1 = 256"
    using rewrite_url_total [OF m(4) assms(3) _ v(2)] assms(6) [OF Some] by blast
  obtain u2 b2 y2 where r2: "rewrite_URL_to_IP_only ip2 (set_coap2 t) (st\<lparr>URL_BUF := b1\<rparr>) = Some (u2, st\<lparr>URL_BUF := b2\<rparr>)"
    "str_arr 128 u2 y2" "length b2 = 256"
    using rewrite_url_total [OF m(5) assms(4), of "st\<lparr>URL_BUF := b1\<rparr>"] assms(6) [OF Some] r1(3) by auto
  obtain u3 b3 y3 where r3: "rewrite_URL_to_IP_only ip3 (set_coap3 t) (st\<lparr>URL_BUF := b2\<rparr>) = Some (u3, st\<lparr>URL_BUF := b3\<rparr>)"
    "str_arr 128 u3 y3" "length b3 = 256"
    using rewrite_url_total [OF m(6) assms(5), of "st\<lparr>URL_BUF := b2\<rparr>"] assms(6) [OF Some] r2(3) by auto
  have ok: "settings_ok (st\<lparr>URL_BUF := b3\<rparr>)" using assms(2) r3(3) by (simp add: settings_ok_def)
  obtain empty where e: "any_empty [set_apn1 t, set_apn2 t, set_apn3 t, u1, u2, u3] = Some empty"
    using any_empty_total [of "[set_apn1 t, set_apn2 t, set_apn3 t, u1, u2, u3]"] m r1(2) r2(2) r3(2) by (auto simp: str_arr_def)
  obtain modified where d: "any_differs [(apn1 ?c, set_apn1 t), (apn2 ?c, set_apn2 t), (apn3 ?c, set_apn3 t),
      (coap1 ?c, u1), (coap2 ?c, u2), (coap3 ?c, u3)] = Some modified"
    using any_differs_total [of "[(apn1 ?c, set_apn1 t), (apn2 ?c, set_apn2 t), (apn3 ?c, set_apn3 t), (coap1 ?c, u1), (coap2 ?c, u2), (coap3 ?c, u3)]"]
      m c r1(2) r2(2) r3(2) by (auto simp: str_arr_def)
  note heads = decode_config_message_def Some r1(1) r2(1) r3(1) e d
  show ?thesis
  proof (cases "empty \<or> \<not> modified")
    case True
    then show ?thesis using ok by (auto simp: heads simp del: any_empty.simps any_differs.simps)
  next
    case False
    obtain a1 a2 a3 c1 c2 c3 where n: "copy_str (apn1 ?c) (set_apn1 t) = Some a1" "copy_str (apn2 ?c) (set_apn2 t) = Some a2"
      "copy_str (apn3 ?c) (set_apn3 t) = Some a3" "copy_str (coap1 ?c) u1 = Some c1" "copy_str (coap2 ?c) u2 = Some c2" "copy_str (coap3 ?c) u3 = Some c3"
      "holds_config (?c\<lparr>apn1 := a1, apn2 := a2, apn3 := a3, coap1 := c1, coap2 := c2, coap3 := c3\<rparr>)
         (v\<lparr>apn1 := set_apn1 w, apn2 := set_apn2 w, apn3 := set_apn3 w, coap1 := y1, coap2 := y2, coap3 := y3\<rparr>)"
      using settings_taken [OF m(1-3) r1(2) r2(2) r3(2) v(1)] by blast
    let ?st = "st\<lparr>URL_BUF := b3, CURRENT_APN_CONFIG := ?c\<lparr>apn1 := a1, apn2 := a2, apn3 := a3, coap1 := c1, coap2 := c2, coap3 := c3\<rparr>\<rparr>"
    have "settings_ok ?st" using n(7) ok unfolding settings_ok_def by auto
    moreover have "decode_config_message pb_decode nv (ip1, ip2, ip3) buf st = Some (0, snd (save_apn_config nv ?st))"
      using False by (simp add: heads n(1-6) del: any_empty.simps any_differs.simps)
    ultimately show ?thesis by (simp add: save_apn_config_def settings_ok_def split: prod.split)
  qed
qed

section \<open>The update\<close>

text \<open>
  A received message that fits: if it parses as a reply, its payload decodes into the fields of the response, and gives strings when it
  asks for an update. What the buffer holds behind the message is arbitrary.
\<close>
definition reply_fits :: "'p coap \<Rightarrow> simple_fota_response_t \<Rightarrow> bytes \<Rightarrow> bool" where
  "reply_fits c resp0 d \<longleftrightarrow>
     (\<forall>rest reply. length (d @ rest) = MAX_BUFFER_LEN \<longrightarrow> coap_parse c d = Some reply \<longrightarrow>
        (\<exists>err resp. fota_decode_simple_response resp0 (drop (fst (coap_payload c reply)) (d @ rest)) (snd (coap_payload c reply)) = Some (err, resp) \<and>
           (0 \<le> err \<longrightarrow> scheduled_update resp \<longrightarrow> c_str (host resp) \<noteq> None \<and> c_str (path resp) \<noteq> None)))"

text \<open>A reply made of fields of the protocol that fit, host and path among them or there before, is such a message.\<close>
lemma message_fits:
  assumes "response_wf resp" "\<forall>f \<in> set fs. field_fits f" "coap_parse c d = Some msg"
    "coap_payload c msg = (off, length (message_bytes fs))" "drop off d = message_bytes fs"
    "c_str (host (fold apply_field fs resp)) \<noteq> None" "c_str (path (fold apply_field fs resp)) \<noteq> None"
  shows "reply_fits c resp d"
proof -
  have "\<exists>rest'. drop off (d @ rest) = message_bytes fs @ rest'" for rest using assms(5) by simp
  then show ?thesis
    using fota_decode_prefix [OF assms(1,2)] assms(3-7) unfolding reply_fits_def by fastforce
qed

text \<open>
  All answers still to come fit, and the receive buffer has its size. The script does not say which call an answer goes to, so
  every datagram must fit as a reply of the update server (for all contents \<open>R\<close> of the response structure) and, when it is not empty, as a message to the
  configuration socket, for which \<open>C\<close> says what fits.
\<close>
definition answers_fit :: "'p coap \<Rightarrow> simple_fota_response_t set \<Rightarrow> (bytes \<Rightarrow> bool) \<Rightarrow> 'fl fota \<Rightarrow> bool" where
  "answers_fit c R C st \<longleftrightarrow> length (response_buffer st) = MAX_BUFFER_LEN \<and>
     (\<forall>(r, bs) \<in> set (results st). (0 \<le> r \<longrightarrow> (\<forall>resp \<in> R. reply_fits c resp (take MAX_BUFFER_LEN (take (nat r) bs)))) \<and>
        (0 < r \<longrightarrow> C (take MAX_COMMAND_BUFFER (take (nat r) bs))))"

lemma answers_fit_fields [simp]:
  "answers_fit c R C (note_event e st) = answers_fit c R C st" "answers_fit c R C (pause d st) = answers_fit c R C st"
  "answers_fit c R C (sys_close s st) = answers_fit c R C st" "answers_fit c R C (st\<lparr>dfu_ctx := f\<rparr>) = answers_fit c R C st"
  "answers_fit c R C (st\<lparr>ids_drawn := i\<rparr>) = answers_fit c R C st"
  "length buf = MAX_BUFFER_LEN \<Longrightarrow> answers_fit c R C st \<Longrightarrow> answers_fit c R C (st\<lparr>response_buffer := buf\<rparr>)"
  by (simp_all add: answers_fit_def note_event_def pause_def sys_close_def)

lemma answers_fit_call:
  assumes "sys_call e st = (r, bs, st')" "answers_fit c R C st"
  shows "answers_fit c R C st' \<and> (0 \<le> r \<longrightarrow> resp \<in> R \<longrightarrow> reply_fits c resp (take MAX_BUFFER_LEN (take (nat r) bs))) \<and>
     (0 < r \<longrightarrow> C (take MAX_COMMAND_BUFFER (take (nat r) bs)))"
proof (cases "results st")
  case Nil
  then show ?thesis using assms by (auto simp: sys_call_def answers_fit_def note_event_def)
next
  case (Cons x xs)
  then show ?thesis using assms by (cases x) (auto simp: sys_call_next answers_fit_def note_event_def)
qed

lemma answers_fit_recv:
  assumes "sys_recv e n st = (r, bs, st')" "answers_fit c R C st"
  shows "answers_fit c R C st' \<and> length bs \<le> n \<and>
     (0 \<le> r \<longrightarrow> r = int (length bs) \<and> (n = MAX_BUFFER_LEN \<longrightarrow> resp \<in> R \<longrightarrow> reply_fits c resp bs)) \<and>
     (0 < r \<longrightarrow> n = MAX_COMMAND_BUFFER \<longrightarrow> C bs)"
  using assms(1)
proof (rule sys_recv_call)
  fix r0 bs0
  assume c: "sys_call (\<lambda>_. e n) st = (r0, bs0, st')" and b: "length bs \<le> n" "r < 0 \<and> r = r0 \<and> bs = [] \<or> r = int (length bs)"
    "0 \<le> r \<longrightarrow> 0 \<le> r0 \<and> bs = take n (take (nat r0) bs0)"
  note k = answers_fit_call [OF c assms(2), of resp]
  have "0 < r0" if "0 < r"
  proof (rule ccontr)
    assume "\<not> 0 < r0"
    then have "bs = []" using b(3) that by simp
    then show False using b(2) that by simp
  qed
  then show ?thesis using k b by auto
qed

lemma answers_fit_wait: "wait_loop s w st = (ok, st') \<Longrightarrow> answers_fit c R C st \<Longrightarrow> answers_fit c R C st'"
proof (induction s w st arbitrary: ok rule: wait_loop.induct)
  case (1 s w st)
  obtain r bs st1 where c: "sys_call (\<lambda>_. Polled s POLL_WAIT_MS) st = (r, bs, st1)" by (metis prod_cases3)
  have l: "answers_fit c R C st1" using answers_fit_call [OF c 1(3)] by simp
  then show ?case
    using 1(1) [OF c [symmetric] refl _ _ _ l] 1(2) c by (subst (asm) (2) wait_loop.simps) (auto split: if_splits)
qed

lemma report_reply_total:
  assumes "answers_fit c R C st" "length bs \<le> MAX_BUFFER_LEN" "reply_fits c resp bs"
  shows "\<exists>ret resp' st'. report_reply c resp (int (length bs)) bs st = Some (ret, resp', st') \<and> answers_fit c R C st' \<and>
     (ret = 0 \<longrightarrow> scheduled_update resp' \<longrightarrow> c_str (host resp') \<noteq> None \<and> c_str (path resp') \<noteq> None)"
proof -
  let ?buf = "bs @ drop (length bs) (response_buffer st)"
  have "length (response_buffer st) = MAX_BUFFER_LEN" using assms(1) by (simp add: answers_fit_def)
  then have b: "wr_block (response_buffer st) 0 bs = Some ?buf" "length ?buf = MAX_BUFFER_LEN" using assms(2) by (simp_all add: wr_block_def)
  show ?thesis
  proof (cases "coap_parse c bs")
    case None
    then show ?thesis using assms(1) b by (simp add: report_reply_def)
  next
    case (Some reply)
    obtain off n where p: "coap_payload c reply = (off, n)" by fastforce
    obtain err resp' where "fota_decode_simple_response resp (drop off ?buf) n = Some (err, resp')"
      "0 \<le> err \<longrightarrow> scheduled_update resp' \<longrightarrow> c_str (host resp') \<noteq> None \<and> c_str (path resp') \<noteq> None"
      using assms(3) [unfolded reply_fits_def, rule_format, OF b(2) Some] p by auto
    then show ?thesis using assms(1) b Some p by (simp add: report_reply_def)
  qed
qed

lemma report_version_total:
  assumes "report_packet c ver serial token (ids_drawn st) tmp0 = Some packet" "answers_fit c R C st" "resp \<in> R"
  shows "\<exists>ret resp' st'. fota_report_version c ver serial coap_host token tmp0 resp st = Some (ret, resp', st') \<and> answers_fit c R C st' \<and>
     (ret = 0 \<longrightarrow> scheduled_update resp' \<longrightarrow> c_str (host resp') \<noteq> None \<and> c_str (path resp') \<noteq> None)"
proof -
  let ?st0 = "st\<lparr>ids_drawn := ids_drawn st + 1\<rparr>"
  note head = fota_report_version_def draw_id_def assms(1)
  show ?thesis
  proof (cases packet)
    case None
    then show ?thesis using assms(2) by (simp add: head)
  next
    case (Some pk)
    obtain sock b1 st1 where 1: "sys_socket ?st0 = (sock, b1, st1)" by (metis prod_cases3)
    obtain err b2 st2 where 2: "sys_call (\<lambda>_. SentTo sock pk coap_host DEFAULT_FOTA_COAP_PORT) st1 = (err, b2, st2)" by (metis prod_cases3)
    obtain ok st3 where 3: "wait_for_response sock st2 = (ok, st3)" by fastforce
    obtain received bs st4 where 4: "sys_recv (Received sock) MAX_BUFFER_LEN st3 = (received, bs, st4)" by (metis prod_cases3)
    have f1: "answers_fit c R C st1" using answers_fit_call [OF 1 [unfolded sys_socket_def], of c R C] assms(2) by simp
    have f2: "answers_fit c R C st2" using answers_fit_call [OF 2 f1] by simp
    have f3: "answers_fit c R C st3" by (rule answers_fit_wait [OF 3 [unfolded wait_for_response_def] f2])
    have f4: "answers_fit c R C st4" "length bs \<le> MAX_BUFFER_LEN" "0 \<le> received \<longrightarrow> received = int (length bs) \<and> reply_fits c resp bs"
      using answers_fit_recv [OF 4 f3, of resp] assms(3) by simp_all
    consider "sock < 0" | "\<not> sock < 0" "err < 0" | "\<not> sock < 0" "\<not> err < 0" "\<not> ok" | "\<not> sock < 0" "\<not> err < 0" "ok" "received < 0"
      | "\<not> sock < 0" "\<not> err < 0" "ok" "\<not> received < 0" by blast
    then show ?thesis
    proof cases
      case 5
      then have "received = int (length bs)" "reply_fits c resp bs" using f4(3) by simp_all
      with report_reply_total [OF _ f4(2) this(2), of R C "sys_close sock st4"] show ?thesis using f4(1) 5 Some 1 2 3 4 by (simp add: head)
    qed (use Some 1 2 3 4 f1 f2 f3 f4(1) in \<open>simp_all add: head\<close>)
  qed
qed

lemma store_block_total:
  assumes "answers_fit c R C st" "length bs \<le> MAX_BUFFER_LEN"
  shows "\<exists>t. store_block c fl sock ctx got received bs st = Some t \<and>
     (case t of Failed st' \<Rightarrow> answers_fit c R C st' | Block l ctx' got' st' \<Rightarrow> answers_fit c R C st')"
proof (cases "received \<le> 0")
  case True
  then show ?thesis using assms by (simp add: store_block_def)
next
  case False
  obtain buf where b: "wr_block (replicate MAX_BUFFER_LEN 0) 0 bs = Some buf" "length buf = MAX_BUFFER_LEN"
    using assms(2) by (simp add: wr_block_def)
  show ?thesis
  proof (cases "coap_parse c (take (nat received) buf)")
    case None
    then show ?thesis using assms False b by (simp add: store_block_def)
  next
    case (Some reply)
    show ?thesis
    proof (cases "update_from_block c reply ctx")
      case None
      then show ?thesis using assms False b Some by (simp add: store_block_def)
    next
      case u: (Some ctx1)
      obtain again ctx2 off len where n: "next_block c reply ctx1 = (again, ctx2)" "coap_payload c reply = (off, len)" by fastforce
      obtain ret fs where "write_firmware_block fl (take len (drop off buf)) (got + len = len) (got + len = total_size ctx2)
          (total_size ctx2) (dfu_ctx st) = (ret, fs)" by fastforce
      then show ?thesis using assms False b Some u n by (simp add: store_block_def Let_def)
    qed
  qed
qed

lemma download_block_total:
  assumes "answers_fit c R C st"
  shows "\<exists>t. download_block c fl token sock pth ctx got st = Some t \<and>
     (case t of Failed st' \<Rightarrow> answers_fit c R C st' | Block l ctx' got' st' \<Rightarrow> answers_fit c R C st')"
proof -
  let ?st0 = "st\<lparr>ids_drawn := ids_drawn st + 1\<rparr>"
  note head = download_block_def draw_id_def
  show ?thesis
  proof (cases "block_request c token (ids_drawn st) pth ctx")
    case None
    then show ?thesis using assms by (simp add: head)
  next
    case (Some req)
    obtain sent b1 s1 where 2: "sys_call (\<lambda>_. Sent sock req) ?st0 = (sent, b1, s1)" by (metis prod_cases3)
    obtain ok s2 where 3: "wait_for_response sock s1 = (ok, s2)" by fastforce
    obtain rcv bs s3 where 4: "sys_recv (Received_Now sock) MAX_BUFFER_LEN s2 = (rcv, bs, s3)" by (metis prod_cases3)
    have f1: "answers_fit c R C s1" using answers_fit_call [OF 2, of c R C] assms(1) by simp
    have f2: "answers_fit c R C s2" by (rule answers_fit_wait [OF 3 [unfolded wait_for_response_def] f1])
    have f3: "answers_fit c R C s3" "length bs \<le> MAX_BUFFER_LEN" using answers_fit_recv [OF 4 f2] by simp_all
    consider "sent \<noteq> int (length req)" | "sent = int (length req)" "\<not> ok" | "sent = int (length req)" "ok" by blast
    then show ?thesis
    proof cases
      case 3
      with store_block_total [OF f3, of fl sock ctx got rcv] show ?thesis using Some 2 \<open>wait_for_response sock s1 = (ok, s2)\<close> 4 by (simp add: head)
    qed (use Some 2 3 4 f1 f2 in \<open>simp_all add: head\<close>)
  qed
qed

lemma download_loop_total:
  "answers_fit c R C st \<Longrightarrow> \<exists>ok st'. download_loop c fl token sock pth ctx got st = Some (ok, st') \<and> answers_fit c R C st'"
proof (induction c fl token sock pth ctx got st rule: download_loop.induct)
  case (1 c fl token sock pth ctx got st)
  obtain t where t: "download_block c fl token sock pth ctx got st = Some t"
    "case t of Failed st' \<Rightarrow> answers_fit c R C st' | Block l ctx' got' st' \<Rightarrow> answers_fit c R C st'"
    using download_block_total [OF 1(2), of fl token sock pth ctx got] by blast
  show ?case
  proof (cases t)
    case (Failed st1)
    then show ?thesis using t by (subst download_loop.simps) auto
  next
    case (Block l ctx' got' st1)
    then show ?thesis using t 1(1) [OF t(1) Block] by (cases l; subst download_loop.simps) auto
  qed
qed

lemma download_image_total:
  assumes "answers_fit c R C st" "c_str (host rsp) = Some h" "c_str (path rsp) = Some p"
  shows "\<exists>ok st'. fota_download_image c fl rsp st = Some (ok, st') \<and> answers_fit c R C st'"
proof -
  obtain sock b1 st1 where 1: "sys_socket st = (sock, b1, st1)" by (metis prod_cases3)
  obtain r b2 st2 where 2: "sys_call (Connected sock h (unat (ucast (port rsp) :: u16))) st1 = (r, b2, st2)" by (metis prod_cases3)
  have f1: "answers_fit c R C st1" using answers_fit_call [OF 1 [unfolded sys_socket_def] assms(1)] by simp
  have f2: "answers_fit c R C st2" using answers_fit_call [OF 2 f1] by simp
  show ?thesis
    using 1 2 f1 f2 assms(2,3) download_loop_total [OF f2, of fl "coap_token c (ids_drawn st2)" sock p]
    by (auto simp: fota_download_image_def)
qed

lemma fota_run_total:
  assumes "report_packet c ver serial token (ids_drawn st) tmp0 \<noteq> None" "answers_fit c R C st" "resp \<in> R"
  shows "\<exists>updated st'. fota_run c fl ver serial coap_host token tmp0 resp st = Some (updated, st') \<and> (\<not> updated \<longrightarrow> answers_fit c R C st')"
proof -
  obtain packet where p: "report_packet c ver serial token (ids_drawn st) tmp0 = Some packet" using assms(1) by blast
  obtain ret rsp st1 where 1: "fota_report_version c ver serial coap_host token tmp0 resp st = Some (ret, rsp, st1)" "answers_fit c R C st1"
    "ret = 0 \<longrightarrow> scheduled_update rsp \<longrightarrow> c_str (host rsp) \<noteq> None \<and> c_str (path rsp) \<noteq> None"
    using report_version_total [OF p assms(2,3), of coap_host] by blast
  show ?thesis
  proof (cases "ret = 0 \<and> scheduled_update rsp")
    case False
    then show ?thesis using 1 by (auto simp: fota_run_def)
  next
    case True
    then obtain h q where "c_str (host rsp) = Some h" "c_str (path rsp) = Some q" using 1(3) by blast
    from download_image_total [OF 1(2) this, of fl] obtain ok st2 where
      "fota_download_image c fl rsp st1 = Some (ok, st2)" "answers_fit c R C st2" by blast
    then show ?thesis using True 1(1) by (cases ok) (auto simp: fota_run_def)
  qed
qed

section \<open>A round\<close>

text \<open>What the build and the libraries provide: a version text, the number of the modem as a string, a sample
  within the buffer, and decoded messages whose fields are strings.\<close>
definition libs_ok :: "('f, 'd, 'p, 'fl, 'fs) libs \<Rightarrow> bool" where
  "libs_ok l \<longleftrightarrow> encode_firmware_version (fw_version l) \<noteq> None \<and> length (fw_version l) + length (fw_name l) \<le> 216 \<and>
     c_str (imei_array l) \<noteq> None \<and> (\<forall>n m. length (snd (lib_pb_sample l n m)) \<le> n) \<and>
     (\<forall>bs t. lib_pb_config l bs = Some t \<longrightarrow> (\<exists>w. message_holds t w))"

text \<open>The local arrays have their sizes; their content is arbitrary.\<close>
definition ips_ok :: "bytes \<times> bytes \<times> bytes \<Rightarrow> bool" where
  "ips_ok ips \<longleftrightarrow> (case ips of (a, b, c) \<Rightarrow> length a = 124 \<and> length b = 124 \<and> length c = 124)"

definition env_ok :: "'f env \<Rightarrow> bool" where
  "env_ok e \<longleftrightarrow> length (env_tmp e) = 256 \<and> ips_ok (env_ips e)"

text \<open>
  A configuration message that fits, for the contents \<open>I\<close> that the three local arrays of \<open>rewrite_URL_to_IP_only\<close> may have: each of its addresses
  is a CoAP address, or the array that would be used instead holds a terminator.
\<close>
definition messages_fit :: "('f, 'd, 'p, 'fl, 'fs) libs \<Rightarrow> (bytes \<times> bytes \<times> bytes) set \<Rightarrow> bytes \<Rightarrow> bool" where
  "messages_fit l I bs \<longleftrightarrow> (\<forall>t. lib_pb_config l bs = Some t \<longrightarrow>
     (\<forall>(a, b, c) \<in> I. url_fits a (set_coap1 t) \<and> url_fits b (set_coap2 t) \<and> url_fits c (set_coap3 t)))"

lemma messages_fitD: "messages_fit l I bs \<Longrightarrow> (a, b, c) \<in> I \<Longrightarrow> lib_pb_config l bs = Some t \<Longrightarrow>
    url_fits a (set_coap1 t) \<and> url_fits b (set_coap2 t) \<and> url_fits c (set_coap3 t)"
  by (auto simp: messages_fit_def)

text \<open>A message whose addresses are CoAP addresses fits whatever the arrays hold.\<close>
lemma coap_messages_fit:
  assumes "\<And>t. lib_pb_config l bs = Some t \<Longrightarrow> \<forall>url \<in> {set_coap1 t, set_coap2 t, set_coap3 t}. \<exists>u. c_str url = Some u \<and> coap_url u"
  shows "messages_fit l I bs"
  using assms by (fastforce simp: messages_fit_def url_fits_def)

definition node_live :: "('f, 'd, 'p, 'fl, 'fs) libs \<Rightarrow> simple_fota_response_t set \<Rightarrow> (bytes \<Rightarrow> bool) \<Rightarrow> ('f, 'fl, 'fs) node \<Rightarrow> bool" where
  "node_live l R C st \<longleftrightarrow> settings_ok (n_conf st) \<and> length (n_buffer st) = MAX_SEND_BUFFER \<and> answers_fit (lib_coap l) R C (n_net st)"

lemma report_packet_total:
  assumes "libs_ok l" "env_ok e"
  shows "report_packet c (fw_version l) (fw_name l) token i (env_tmp e) \<noteq> None"
  using assms fota_report_writes [of "fw_version l" "fw_name l" "env_tmp e"]
  by (auto simp: report_packet_def libs_ok_def env_ok_def split: option.split)

lemma mb_encode_total:
  assumes "libs_ok l" "length out = MAX_SEND_BUFFER"
  shows "\<exists>len buf. mb_encode to_u32 (lib_pb_sample l) (fw_version l) (imei_array l) m out MAX_SEND_BUFFER = Some (len, buf) \<and>
     length buf = MAX_SEND_BUFFER"
proof -
  obtain v idt where v: "encode_firmware_version (fw_version l) = Some v" "c_str (imei_array l) = Some idt" using assms(1) by (auto simp: libs_ok_def)
  obtain status bs where p: "lib_pb_sample l MAX_SEND_BUFFER (sample_message to_u32 v (of_int (atoll idt)) m) = (status, bs)" by fastforce
  then have "length bs \<le> MAX_SEND_BUFFER" using assms(1) unfolding libs_ok_def by (metis snd_conv)
  then show ?thesis using assms(2) v p by (simp add: mb_encode_def wr_block_def)
qed

lemma receive_config_total:
  assumes "libs_ok l" "env_ok e" "node_live l R C st" "\<And>bs. C bs \<Longrightarrow> messages_fit l I bs" "env_ips e \<in> I"
  shows "\<exists>st'. receive_config l e s st = Some st' \<and> node_live l R C st'"
proof -
  obtain received bs net where c: "sys_recv (Received s) MAX_COMMAND_BUFFER (n_net st) = (received, bs, net)" by (metis prod_cases3)
  have f: "answers_fit (lib_coap l) R C net" "0 < received \<longrightarrow> C bs"
    using answers_fit_recv [OF c, of "lib_coap l" R C] assms(3) by (simp_all add: node_live_def)
  show ?thesis
  proof (cases "0 < received")
    case False
    then show ?thesis using c f(1) assms(3) by (simp add: receive_config_def node_live_def)
  next
    case True
    obtain ip1 ip2 ip3 where ips: "env_ips e = (ip1, ip2, ip3)" by (metis prod_cases3)
    have x: "length ip1 = 124" "length ip2 = 124" "length ip3 = 124" using assms(2) ips by (auto simp: env_ok_def ips_ok_def)
    have m: "\<exists>w. message_holds t w" if "lib_pb_config l bs = Some t" for t using assms(1) that by (auto simp: libs_ok_def)
    have "messages_fit l I bs" using f(2) assms(4) True by blast
    note u = messages_fitD [OF this assms(5) [unfolded ips]]
    have "settings_ok (n_conf st)" using assms(3) by (simp add: node_live_def)
    from decode_config_total [where pb_decode = "lib_pb_config l" and buf = bs and nv = "lib_nvs l", OF m this x u] obtain rc conf where
      d: "decode_config_message (lib_pb_config l) (lib_nvs l) (env_ips e) bs (n_conf st) = Some (rc, conf)" "settings_ok conf" using ips by auto
    show ?thesis using True c d f(1) assms(3) by (simp add: receive_config_def node_live_def)
  qed
qed

lemma finish_round_total:
  assumes "libs_ok l" "env_ok e" "node_live l R C st" "env_resp e \<in> R"
  shows "\<exists>r st'. finish_round l e sock st = Some (r, st') \<and> (r = Goes_On \<longrightarrow> node_live l R C st')"
proof -
  obtain due interval where d: "fota_due (n_fota_interval st) = (due, interval)" by fastforce
  obtain h where h: "c_str (CURRENT_COAP_BUFFER (n_conf st)) = Some h" using assms(3) by (auto simp: node_live_def settings_ok_def)
  obtain updated net where u: "fota_run (lib_coap l) (lib_flash l) (fw_version l) (fw_name l) h (env_token e) (env_tmp e) (env_resp e) (n_net st) =
      Some (updated, net)" "\<not> updated \<longrightarrow> answers_fit (lib_coap l) R C net"
    using fota_run_total [OF report_packet_total [OF assms(1,2)] _ assms(4)] assms(3) by (simp add: node_live_def) blast
  show ?thesis
    using assms(3) d h u by (cases due; cases updated) (simp_all add: finish_round_def node_live_def restart_def Let_def)
qed

lemma main_round_total:
  assumes "libs_ok l" "env_ok e" "node_live l R C st" "env_resp e \<in> R" "node_ok st" "\<And>bs. C bs \<Longrightarrow> messages_fit l I bs" "env_ips e \<in> I"
  shows "\<exists>r st'. main_round l s e st = Some (r, st') \<and> (r = Goes_On \<longrightarrow> node_live l R C st')"
proof -
  let ?s0 = "st\<lparr>n_net := note_event Fed (n_net st)\<rparr>"
  have "node_live l R C ?s0" using assms(3) by (simp add: node_live_def)
  from receive_config_total [OF assms(1,2) this assms(6,7)] obtain s1 where 1: "receive_config l e s ?s0 = Some s1" "node_live l R C s1" by blast
  have n1: "node_ok s1" using receive_config_keeps [OF 1(1), of "[s]"] assms(5) by (auto simp: node_ok_def same_sensors_def)
  obtain sock x net where 2: "sys_socket (n_net s1) = (sock, x, net)" by (metis prod_cases3)
  let ?s2 = "s1\<lparr>n_net := net\<rparr>"
  have l2: "node_live l R C ?s2" "node_ok ?s2"
    using answers_fit_call [OF 2 [unfolded sys_socket_def], of "lib_coap l" R C] 1(2) n1 by (simp_all add: node_live_def node_ok_def)
  show ?thesis
  proof (cases "sock < 0")
    case True
    then show ?thesis using 1(1) 2 by (simp add: main_round_def restart_def)
  next
    case False
    obtain h where h: "c_str (CURRENT_COAP_BUFFER (n_conf ?s2)) = Some h" using l2(1) by (auto simp: node_live_def settings_ok_def)
    obtain m s3 where 3: "sample_sensors l (env_sample_time e) ?s2 = Some (m, s3)" "n_net s3 = net" "n_conf s3 = n_conf s1"
      using sample_sensors_total [OF l2(2), of l "env_sample_time e"] by auto
    have b: "n_buffer s3 = n_buffer s1"
      using 3(1) by (auto simp: sample_sensors_def Let_def Option.bind_eq_Some_conv)
    obtain len buf where 4: "mb_encode (lib_to_u32 l) (lib_pb_sample l) (fw_version l) (imei_array l) m (n_buffer s3) MAX_SEND_BUFFER = Some (len, buf)"
      "length buf = MAX_SEND_BUFFER"
      using mb_encode_total [OF assms(1), of "n_buffer s3" "lib_to_u32 l" m] l2(1) b by (auto simp: node_live_def)
    obtain err y net4 where 5: "sys_call (\<lambda>_. SentTo sock (take len buf) h SAMPLE_PORT) net = (err, y, net4)" by (metis prod_cases3)
    let ?s5 = "s3\<lparr>n_buffer := buf, n_net := pause (SEND_INTERVAL_SEC * 1000) net4\<rparr>"
    have "node_live l R C ?s5"
      using answers_fit_call [OF 5, of "lib_coap l" R C] l2(1) 3(3) 4(2) by (simp add: node_live_def)
    from finish_round_total [OF assms(1,2) this assms(4)] obtain r st' where
      "finish_round l e sock ?s5 = Some (r, st')" "r = Goes_On \<longrightarrow> node_live l R C st'" by blast
    then show ?thesis using 1(1) 2 h 3(1,2) 4(1) 5 False by (cases "err < 0") (simp_all add: main_round_def restart_def)
  qed
qed

lemma node_live_gps [simp]: "node_live l R C (st\<lparr>n_gps := g\<rparr>) = node_live l R C st"
  by (simp add: node_live_def)

lemma main_loop_total:
  assumes "libs_ok l" "\<And>bs. C bs \<Longrightarrow> messages_fit l I bs" "\<forall>e \<in> set es. env_ok e" "node_live l R C st" "env_resp ` set es \<subseteq> R"
    "env_ips ` set es \<subseteq> I" "node_ok st"
  shows "\<exists>r st'. main_loop l s es st = Some (r, st')"
  using assms(3-7)
proof (induction es arbitrary: st)
  case (Cons e es)
  let ?st = "st\<lparr>n_gps := env_gps e\<rparr>"
  have "env_ok e" "node_live l R C ?st" "env_resp e \<in> R" "node_ok ?st" "env_ips e \<in> I" using Cons.prems by simp_all
  from main_round_total [OF assms(1) this(1-4) assms(2) this(5)] obtain r st1 where
    1: "main_round l s e ?st = Some (r, st1)" "r = Goes_On \<longrightarrow> node_live l R C st1" by blast
  have "node_ok st1" using main_round_keeps [OF 1(1) \<open>node_ok ?st\<close>, of "[s]"] by simp
  then show ?case using Cons 1 by (cases r) auto
qed simp

section \<open>A concrete run\<close>

text \<open>A round in which new firmware is looked for and the server answers that there is none.\<close>
definition live_libs :: "(rat, rat, bytes, bytes \<times> bool, apn_config option) libs" where
  "live_libs = demo_libs\<lparr>lib_pb_sample := \<lambda>n m. (0 < n, take n [of_int (pb_uptime m)])\<rparr>"

definition no_update :: bytes where
  "no_update = [0, 0] @ message_bytes [Available False]"

definition live_node :: "(int \<times> bytes) list \<Rightarrow> (rat, bytes \<times> bool, apn_config option) node" where
  "live_node rs = (demo_node [] [] rs)\<lparr>n_fota_interval := 16\<rparr>"

abbreviation "live_calls \<equiv> [(0, []), (8, []), (1, []), (9, []), (60, []), (5, []), (int (length no_update), no_update)] :: (int \<times> bytes) list"

lemma live_libs_ok: "libs_ok live_libs"
  using demo_version by (auto simp: libs_ok_def live_libs_def demo_libs_def)

lemma demo_env_ok: "env_ok demo_env"
  by (simp add: env_ok_def ips_ok_def demo_env_def)

lemma live_node_ok: "node_ok (live_node rs)"
  using demo_node_ok [of "[]" "[]" rs] by (simp add: live_node_def node_ok_def)

lemma no_update_fits: "reply_fits toy_coap toy_response no_update"
proof -
  have 1: "response_wf toy_response" "\<forall>f \<in> set [Available False]. field_fits f" by (simp_all add: toy_response_def response_wf_def)
  have 2: "coap_parse toy_coap no_update = Some no_update" "coap_payload toy_coap no_update = (2, length (message_bytes [Available False]))"
    by (simp_all add: toy_coap_def no_update_def)
  have 3: "drop 2 no_update = message_bytes [Available False]" by (simp add: no_update_def)
  show ?thesis by (rule message_fits [OF 1 2 3]) (simp_all add: toy_response_def)
qed

lemma no_bytes_fit: "reply_fits toy_coap resp []"
  by (simp add: reply_fits_def toy_coap_def)

lemma live_node_live:
  assumes "rs = [] \<or> rs = live_calls"
  shows "node_live live_libs {toy_response} (messages_fit live_libs I) (live_node rs)"
proof -
  have "settings_ok (n_conf (live_node rs))"
    using boot_config_ok(2) [of "[]"] by (auto simp: settings_ok_def live_node_def demo_node_def boot_config_def)
  moreover have "take MAX_BUFFER_LEN no_update = no_update"
    by (simp add: MAX_BUFFER_LEN_def no_update_def bool_value_def)
  moreover have "messages_fit live_libs I bs" for bs by (simp add: messages_fit_def live_libs_def demo_libs_def)
  ultimately show ?thesis
    using assms no_update_fits
    by (auto simp: node_live_def answers_fit_def live_node_def demo_node_def toy_state_def live_libs_def demo_libs_def MAX_SEND_BUFFER_def
        MAX_BUFFER_LEN_def no_bytes_fit)
qed

section \<open>The rounds return and restart\<close>

text \<open>Under a clock that is at least as fast as the pauses of the
  program, 43 rounds always end with a restart, at the limit of two hours at the latest.\<close>
lemma node_always_restarts:
  assumes "libs_ok l" "\<And>bs. C bs \<Longrightarrow> messages_fit l I bs" "\<forall>e \<in> set es. env_ok e" "node_live l R C st" "env_resp ` set es \<subseteq> R"
    "env_ips ` set es \<subseteq> I" "node_ok st" "clock_ok l s t es st" "0 \<le> t" "43 \<le> length es"
  shows "\<exists>st'. main_loop l s es st = Some (Restarts, st')"
  using main_loop_total [OF assms(1-7), of s] node_restarts [OF _ assms(7-10)] by blast

lemma live_rounds_return: "\<exists>r st'. main_loop live_libs 7 [demo_env, demo_env] (live_node live_calls) = Some (r, st')"
proof -
  let ?C = "messages_fit live_libs {env_ips demo_env}"
  have l: "node_live live_libs {toy_response} ?C (live_node live_calls)" by (rule live_node_live) simp
  have "\<forall>e \<in> set [demo_env, demo_env]. env_ok e" "env_resp ` set [demo_env, demo_env] \<subseteq> {toy_response}"
    "env_ips ` set [demo_env, demo_env] \<subseteq> {env_ips demo_env}" using demo_env_ok by (simp_all add: demo_env_def)
  then show ?thesis using main_loop_total [OF live_libs_ok _ _ l _ _ live_node_ok] by blast
qed

end
