(* ===== verification/Start_Returns.thy ===== *)
theory Start_Returns
  imports Node_Returns
begin

text \<open>
  The start of the program, from the board to the configuration socket, always comes to an end: the ping, the search for an
  access point and the first update have a result, as long as the answers of the modem to the query for its address fit the
  array they are stored in (\<open>at_commands.c\<close>), and the messages of the update server fit their fields.
\<close>

section \<open>The modem\<close>






lemma emit_script [simp]: "script (emit e m) = script m" "script (modem_write cmd m) = script m"
  by (simp_all add: emit_def modem_write_def)




section \<open>The search for an access point\<close>






section \<open>The ping\<close>




section \<open>The start\<close>












section \<open>A concrete start\<close>






section \<open>Properties\<close>







end
