(* ===== verification/Calls_On_Modem.thy ===== *)
theory Calls_On_Modem
  imports N2_Start System_Calls
begin

text \<open>
  The calls of the application (\<open>main.c\<close>, \<open>fota.c\<close>) performed by the operations of \<open>n2_offload.c\<close>, down to
  the commands that the modem receives. The application has a script of results and leaves a trace of
  calls; here every call of the trace is carried out by its operation, and its result in the script
  has to be the one that the operation returns. Notifications of the modem come between the calls.
\<close>

section \<open>Performing calls\<close>

text \<open>A call, or a notification that the thread of \<open>comms.c\<close> hands to the callback between two calls.\<close>
datatype modem_step = Call sys_event | Notified int int

fun calls_of :: "modem_step list \<Rightarrow> sys_event list" where
  "calls_of [] = []"
| "calls_of (Call e # ss) = e # calls_of ss"
| "calls_of (Notified fd n # ss) = calls_of ss"

text \<open>The result of an operation, as the application sees it.\<close>
fun returns :: "n2_error + int \<Rightarrow> int \<Rightarrow> bool" where
  "returns (Inl e) r \<longleftrightarrow> r < 0"
| "returns (Inr n) r \<longleftrightarrow> r = n"

text \<open>The flags of \<open>revents\<close> as the number that the application tests.\<close>
fun flag_bit :: "poll_flag \<Rightarrow> int" where
  "flag_bit POLLIN = 1"
| "flag_bit POLLOUT = 4"
| "flag_bit POLLNVAL = 32"

definition flag_bits :: "poll_flag list \<Rightarrow> int" where
  "flag_bits fs = foldr (\<lambda>f b. flag_bit f OR b) fs 0"

definition next_result :: "(int \<times> bytes) list \<Rightarrow> (int \<times> bytes \<times> (int \<times> bytes) list) option" where
  "next_result rs = (case rs of [] \<Rightarrow> None | (r, bs) # rs \<Rightarrow> Some (r, bs, rs))"

text \<open>A buffer of the application, without the pointers for the sender.\<close>
definition receive_buffer :: "nat \<Rightarrow> recv_out" where
  "receive_buffer n = \<lparr>out_buf = replicate n 0, out_from = None, out_fromlen = None\<rparr>"

type_synonym to_address = "bytes \<Rightarrow> nat \<Rightarrow> sockaddr_in"

definition expect :: "bool \<Rightarrow> 'a \<Rightarrow> 'a option" where
  "expect b x = (if b then Some x else None)"

text \<open>
  One step. \<open>mk\<close> makes an address of a text and a port; \<open>ip0\<close> is the content of the local array of
  the receive. The result are the results that are left, and the state. Calls that do not reach
  the socket layer leave it alone.
\<close>
fun perform :: "net \<Rightarrow> to_address \<Rightarrow> bytes \<Rightarrow> modem_step \<Rightarrow> (int \<times> bytes) list \<times> n2 \<Rightarrow> ((int \<times> bytes) list \<times> n2) option" where
  "perform net mk ip0 (Notified fd n) (rs, m) = Some (rs, receive_cb fd n m)"
| "perform net mk ip0 (Call (Opened s)) (rs, m) = do {
     (r, bs, rs) \<leftarrow> next_result rs;
     (x, m) \<leftarrow> offload_socket AF_INET SOCK_DGRAM IPPROTO_UDP m;
     expect (r = s \<and> returns x r) (rs, m) }"
| "perform net mk ip0 (Call (Connected s h p c)) (rs, m) = do {
     (r, bs, rs) \<leftarrow> next_result rs;
     (x, m) \<leftarrow> offload_connect net s (mk h p) (sizeof_sockaddr_in net) m;
     expect (r = c \<and> returns x r) (rs, m) }"
| "perform net mk ip0 (Call (SentTo s d h p)) (rs, m) = do {
     (r, bs, rs) \<leftarrow> next_result rs;
     (x, m) \<leftarrow> offload_sendto net s d (Some (mk h p)) m;
     expect (returns x r) (rs, m) }"
| "perform net mk ip0 (Call (Sent s d)) (rs, m) = do {
     (r, bs, rs) \<leftarrow> next_result rs;
     (x, m) \<leftarrow> offload_send net s d m;
     expect (returns x r) (rs, m) }"
| "perform net mk ip0 (Call (Polled s ms)) (rs, m) = do {
     (r, bs, rs) \<leftarrow> next_result rs;
     (fds, m) \<leftarrow> offload_poll [\<lparr>poll_fd = s, revents = []\<rparr>] ms m;
     expect (map (flag_bits \<circ> revents) fds = [r]) (rs, m) }"
| "perform net mk ip0 (Call (Received s n)) (rs, m) = do {
     (r, bs, rs) \<leftarrow> next_result rs;
     (x, out, m) \<leftarrow> offload_recvfrom net ip0 s (receive_buffer n) (int n) m;
     expect (returns x r \<and> bs = take (nat r) (out_buf out)) (rs, m) }"
| "perform net mk ip0 (Call (Received_Now s n)) (rs, m) = do {
     (r, bs, rs) \<leftarrow> next_result rs;
     (x, out, m) \<leftarrow> offload_recv net ip0 [] s (receive_buffer n) (int n) True m;
     expect (returns x r \<and> bs = take (nat r) (out_buf out)) (rs, m) }"
| "perform net mk ip0 (Call (Closed s)) (rs, m) = do {
     (x, m) \<leftarrow> offload_close s m;
     Some (rs, m) }"
| "perform net mk ip0 (Call (Slept d)) (rs, m) = Some (rs, m\<lparr>mdm := emit (Sleep d) (mdm m)\<rparr>)"
| "perform net mk ip0 (Call (ImageConfirmed c)) (rs, m) = do {
     (r, bs, rs) \<leftarrow> next_result rs;
     expect (r = c) (rs, m) }"
| "perform net mk ip0 (Call (UpgradeRequested c)) (rs, m) = do {
     (r, bs, rs) \<leftarrow> next_result rs;
     expect (r = c) (rs, m) }"
| "perform net mk ip0 (Call Fed) (rs, m) = Some (rs, m)"
| "perform net mk ip0 (Call SystemReboot) (rs, m) = Some (rs, m)"

fun on_modem :: "net \<Rightarrow> to_address \<Rightarrow> bytes \<Rightarrow> modem_step list \<Rightarrow> (int \<times> bytes) list \<times> n2 \<Rightarrow> ((int \<times> bytes) list \<times> n2) option" where
  "on_modem net mk ip0 [] w = Some w"
| "on_modem net mk ip0 (s # ss) w = do {
     w \<leftarrow> perform net mk ip0 s w;
     on_modem net mk ip0 ss w }"

lemma on_modem_append:
  "on_modem net mk ip0 (ss @ ts) w = Option.bind (on_modem net mk ip0 ss w) (on_modem net mk ip0 ts)"
  by (induction ss arbitrary: w) (auto split: bind_splits)

lemma on_modem_seq:
  "on_modem net mk ip0 ss w = Some w' \<Longrightarrow> on_modem net mk ip0 (ss @ ts) w = on_modem net mk ip0 ts w'"
  by (simp add: on_modem_append)

lemma calls_of_append [simp]: "calls_of (ss @ ts) = calls_of ss @ calls_of ts"
  by (induction ss rule: calls_of.induct) simp_all

lemma calls_of_Calls [simp]: "calls_of (map Call es) = es" "calls_of (replicate k (Call e)) = replicate k e"
  by (induction es, simp_all) (induction k, simp_all)

lemma expect_Some [simp]: "expect b x = Some y \<longleftrightarrow> b \<and> x = y" "expect True x = Some x"
  by (auto simp: expect_def)

lemma next_result_Cons [simp]: "next_result ((r, bs) # rs) = Some (r, bs, rs)" "next_result [] = None"
  by (simp_all add: next_result_def)

text \<open>Every step keeps the discipline of the lock.\<close>
lemma perform_ok:
  assumes "perform net mk ip0 s (rs, m) = Some (rs', m')" "n2_ok False m"
  shows "n2_ok False m'"
proof -
  have st: "n2_step net op m = Some m' \<Longrightarrow> n2_ok False m'" for op using n2_step_ok assms(2) by blast
  show ?thesis
  proof (cases s)
    case (Call e)
    show ?thesis
    proof (cases e)
      case (Opened x1)
      then show ?thesis using assms(1) Call st [of "Op_socket AF_INET SOCK_DGRAM IPPROTO_UDP"] by (auto simp: Option.bind_eq_Some_conv)
    next
      case (Connected x1 h p c)
      then show ?thesis using assms(1) Call st [of "Op_connect x1 (mk h p) (sizeof_sockaddr_in net)"] by (auto simp: Option.bind_eq_Some_conv)
    next
      case (Sent x1 d)
      then show ?thesis using assms(1) Call st [of "Op_send x1 d"] by (auto simp: Option.bind_eq_Some_conv)
    next
      case (SentTo x1 d h p)
      then show ?thesis using assms(1) Call st [of "Op_sendto x1 d (Some (mk h p))"] by (auto simp: Option.bind_eq_Some_conv)
    next
      case (Polled x1 ms)
      then show ?thesis using assms(1) Call st [of "Op_poll [\<lparr>poll_fd = x1, revents = []\<rparr>] ms"] by (auto simp: Option.bind_eq_Some_conv)
    next
      case (Received x1 n)
      then show ?thesis using assms(1) Call st [of "Op_recvfrom ip0 x1 (receive_buffer n) (int n)"] by (auto simp: Option.bind_eq_Some_conv)
    next
      case (Received_Now x1 n)
      then show ?thesis using assms(1) Call st [of "Op_recv ip0 [] x1 (receive_buffer n) (int n) True"] by (auto simp: Option.bind_eq_Some_conv)
    next
      case (Closed x1)
      then show ?thesis using assms(1) Call st [of "Op_close x1"] by (auto simp: Option.bind_eq_Some_conv)
    qed (use assms Call ok_sleep [OF assms(2)] in \<open>auto simp: Option.bind_eq_Some_conv\<close>)
  next
    case (Notified fd n)
    then show ?thesis using assms ok_receive_cb by auto
  qed
qed

lemma on_modem_ok: "on_modem net mk ip0 ss (rs, m) = Some (rs', m') \<Longrightarrow> n2_ok False m \<Longrightarrow> n2_ok False m'"
  by (induction ss arbitrary: rs m) (auto simp: Option.bind_eq_Some_conv dest: perform_ok)

section \<open>What the modem is asked\<close>

text \<open>Between two states the modem has received these bytes, and its answers are used up to \<open>rx\<close>.\<close>
definition asks :: "n2 \<Rightarrow> bytes \<Rightarrow> rx_script \<Rightarrow> n2 \<Rightarrow> bool" where
  "asks m cmd rx m' \<longleftrightarrow> n2_ok False m' \<and> script (mdm m') = rx \<and> (\<exists>es. trace (mdm m') = trace (mdm m) @ es \<and> sent es = cmd)"

lemma asks_trans: "asks a x r b \<Longrightarrow> asks b y r' c \<Longrightarrow> asks a (x @ y) r' c"
  unfolding asks_def by (metis append_assoc sent_simps(6))

lemma asks_nothing: "asks a x r b \<Longrightarrow> asks b [] r' c \<Longrightarrow> asks a x r' c"
  using asks_trans by fastforce

lemma asksD: "asks m cmd rx m' \<Longrightarrow> n2_ok False m'" "asks m cmd rx m' \<Longrightarrow> script (mdm m') = rx"
  by (simp_all add: asks_def)

text \<open>A socket of the application is open, and no other socket has its number at the modem.\<close>
definition slot_open :: "nat \<Rightarrow> nat \<Rightarrow> n2 \<Rightarrow> bool" where
  "slot_open i n m \<longleftrightarrow> i < 7 \<and> n < 10 \<and> in_use (sockets m ! i) \<and> s_id (sockets m ! i) = int n \<and>
     (\<forall>j < 7. j \<noteq> i \<longrightarrow> s_id (sockets m ! j) \<noteq> int n)"

abbreviation descr :: "nat \<Rightarrow> int" where "descr i \<equiv> 100 + int i"

lemma ok_length: "n2_ok h m \<Longrightarrow> length (sockets m) = 7"
  by (simp add: n2_ok_def MDM_MAX_SOCKETS_def)

lemma descr_slot:
  assumes "n2_ok h m" "i < 7"
  shows "VALID_SOCKET (descr i) m = Some (in_use (sockets m ! i))" "rd (sockets m) i = Some (sockets m ! i)"
    "S_TO_I (descr i) = i" "nat (descr i - 100) = i"
  using ok_length [OF assms(1)] assms(2) by (simp_all add: VALID_SOCKET_def MDM_MAX_SOCKETS_def rd_in S_TO_I_def)

lemma slot_openD:
  assumes "slot_open i n m"
  shows "i < 7" "n < 10" "in_use (sockets m ! i)" "s_id (sockets m ! i) = int n" "0 \<le> s_id (sockets m ! i)"
    "s_id (sockets m ! i) < 10 ^ 9"
  using assms by (auto simp: slot_open_def)

text \<open>The state behind an update of the slot that does not touch what makes it open.\<close>
lemma slot_open_update:
  assumes "slot_open i n m" "length (sockets m) = 7" "sockets m' = (sockets m)[i := sk]" "in_use sk" "s_id sk = int n"
  shows "slot_open i n m'"
  using assms by (auto simp: slot_open_def nth_list_update)

lemma slot_open_same: "slot_open i n m \<Longrightarrow> sockets m' = sockets m \<Longrightarrow> slot_open i n m'"
  by (simp add: slot_open_def)

section \<open>What the modem answers\<close>

definition number_answer :: "nat \<Rightarrow> rx_script" where
  "number_answer n = map Some (wire ([[]] @ dec_digits n # [[]])) @ final_bytes AT_OK"

definition receipt :: "nat \<Rightarrow> nat \<Rightarrow> rx_script" where
  "receipt n len = map Some (wire ([[]] @ ((48 + of_nat n) # 44 # dec_digits len) # [[]])) @ final_bytes AT_OK"

text \<open>The line of a notification stands in front of the answer that carries the data.\<close>
definition data_answer :: "nat \<Rightarrow> bytes \<Rightarrow> nat \<Rightarrow> bytes \<Rightarrow> rx_script" where
  "data_answer n addr p d = map Some (wire ([[], nsonmi_line n (length d), []] @ nsorf_line n addr p (length d) d [48] # [[]])) @
     final_bytes AT_OK"

definition nsorf_command :: "nat \<Rightarrow> nat \<Rightarrow> bytes" where
  "nsorf_command n len = cstr ''AT+NSORF='' @ fmt_d (int n) @ [44] @ fmt_d (min 512 (int len)) @ [13, 10]"

definition nsocl_command :: "int \<Rightarrow> bytes" where
  "nsocl_command i = cstr ''AT+NSOCL='' @ fmt_d i @ [13]"

lemma plain_small: "plain_line []" "plain_line [48]" "blank_line []"
  by (simp_all add: plain_line_def blank_line_def)

lemma nsonmi_plain:
  assumes "n < 10" "len \<le> 512"
  shows "plain_line (nsonmi_line n len)" "urc_line (nsonmi_line n len)"
proof -
  have "length (dec_digits n) < 10" "length (dec_digits len) < 10" using dec_digits_line(1) assms by auto
  then show "plain_line (nsonmi_line n len)"
    by (simp add: plain_line_def nsonmi_line_def NSONMI_def not_in_dec_digits isdigit_def)
  show "urc_line (nsonmi_line n len)" by (simp add: urc_line_def nsonmi_line_def NSONMI_def)
qed

section \<open>Single calls\<close>

text \<open>Sending leaves the next local port alone.\<close>
lemma send_cmd_port: "send_cmd c m = Some m' \<Longrightarrow> next_free_port m' = next_free_port m"
  by (auto simp: send_cmd_def Option.bind_eq_Some_conv)

lemma send_hex_port: "send_hex d m = Some m' \<Longrightarrow> next_free_port m' = next_free_port m"
  by (induction d arbitrary: m) (auto simp: Option.bind_eq_Some_conv)

lemma sendto_port: "offload_sendto net s d a m = Some (r, m') \<Longrightarrow> next_free_port m' = next_free_port m"
  by (auto simp: offload_sendto_def Let_def Option.bind_eq_Some_conv dest!: send_cmd_port send_hex_port split: if_splits option.splits)

lemma open_on:
  assumes "n2_ok False m" "first_free 0 (sockets m) = Some i" "0 \<le> next_free_port m" "next_free_port m < 10 ^ 9" "n < 10"
    "\<forall>sk \<in> set (sockets m). s_id sk \<noteq> int n" "script (mdm m) = number_answer n @ rx"
  obtains m' sk where "perform net mk ip0 (Call (Opened (descr i))) ((descr i, bs) # rs, m) = Some (rs, m')"
    "asks m (nsocr_command (next_free_port m)) rx m'" "slot_open i n m'" "sockets m' = (sockets m)[i := sk]"
    "incoming_len sk = incoming_len (sockets m ! i)" "next_free_port m' = next_free_port m + 1"
proof -
  have len: "length (sockets m) = 7" by (rule ok_length [OF assms(1)])
  let ?op = "offload_socket AF_INET SOCK_DGRAM IPPROTO_UDP m"
  have pl: "\<forall>l \<in> set [[]] \<union> set [[]]. plain_line l \<and> (l = [] \<or> urc_line l)" by (simp add: plain_small)
  have scr: "script (mdm m) = map Some (wire ([[]] @ dec_digits n # [[]])) @ final_bytes AT_OK @ rx"
    using assms(7) by (simp add: number_answer_def)
  obtain m2 sk where 2: "?op = Some (Inr (descr i), m2)" "i < 7" "sockets m2 = (sockets m)[i := sk]" "in_use sk" "s_id sk = int n"
    "next_free_port m2 = next_free_port m + 1"
    "trace (mdm m2) = trace (mdm m) @ [Take, Write (nsocr_command (next_free_port m)), Give]" "script (mdm m2) = rx"
    "incoming_len sk = incoming_len (sockets m ! i)"
    using socket_opens_lowest [OF assms(1-4) pl _ _ scr] assms(5) by auto
  have ok: "n2_ok False m2" using n2_step_ok [of net "Op_socket AF_INET SOCK_DGRAM IPPROTO_UDP" m m2] 2(1) assms(1) by simp
  have "slot_open i n m2"
    using 2 len assms(5,6) by (auto simp: slot_open_def nth_list_update)
  then show ?thesis
    using that [of m2 sk] 2 ok by (simp add: asks_def)
qed

lemma close_on:
  assumes "n2_ok False m" "slot_open i n m" "script (mdm m) = final_bytes AT_OK @ rx"
  obtains m' where "perform net mk ip0 (Call (Closed (descr i))) (rs, m) = Some (rs, m')"
    "asks m (nsocl_command (int n)) rx m'" "sockets m' = (sockets m)[i := fresh_socket]" "next_free_port m' = next_free_port m"
proof -
  let ?s = "sockets m ! i"
  note sl = slot_openD [OF assms(2)] and v = descr_slot [OF assms(1) slot_openD(1) [OF assms(2)]]
  define cmd where "cmd = nsocl_command (int n)"
  have "length (fmt_d (int n)) \<le> 9" using sl(2) by (intro length_fmt_d) simp_all
  then have fits: "length cmd < CMD_BUFFER_SIZE" by (simp add: cmd_def nsocl_command_def CMD_BUFFER_SIZE_def)
  have nz: "0 \<notin> set cmd" by (simp add: cmd_def nsocl_command_def not_in_dec_digits isdigit_def)
  obtain m2 where 1: "send_cmd cmd (sem_op Take m) = Some m2" "trace (mdm m2) = trace (mdm m) @ [Take, Write cmd]"
      "script (mdm m2) = final_bytes AT_OK @ rx" "sockets m2 = sockets m" "next_free_port m2 = next_free_port m"
    using send_cmd_fields [OF ok_take [OF assms(1)] fits nz] assms(3) by auto
  have "decode_input no_char no_eol () (final_bytes AT_OK @ rx) = Some (AT_OK, (), rx)"
    using decode_response [of "[]" AT_OK no_char no_eol "()" rx] by (auto simp: wire_def final_chars_def at_results no_char_def)
  then have 2: "await atnsocl_decode (mdm m2) = Some (AT_OK, (mdm m2)\<lparr>script := rx\<rparr>)"
    using 1(3) by (simp add: await_def atnsocl_decode_def at_decode_def)
  have c: "?s\<lparr>s_id := -1, connected := False, in_use := False, local_port := 0, incoming_len := 0,
    remote_len := 0, remote_addr := None\<rparr> = fresh_socket" by (cases ?s) (simp add: fresh_socket_def)
  have 3: "clear_socket i (m2\<lparr>mdm := (mdm m2)\<lparr>script := rx\<rparr>\<rparr>) =
      Some (m2\<lparr>mdm := (mdm m2)\<lparr>script := rx\<rparr>, sockets := (sockets m)[i := fresh_socket]\<rparr>)"
    using v(2) 1(4) ok_length [OF assms(1)] sl(1) by (simp add: clear_socket_def set_socket_def wr_in c)
  let ?m' = "sem_op Give (m2\<lparr>mdm := (mdm m2)\<lparr>script := rx\<rparr>, sockets := (sockets m)[i := fresh_socket]\<rparr>)"
  have op: "offload_close (descr i) m = Some (Inr 0, ?m')"
    using v sl 1 2 3 by (simp add: offload_close_def Let_def cmd_def nsocl_command_def)
  have "n2_ok False ?m'" using n2_step_ok [of net "Op_close (descr i)" m ?m'] op assms(1) by simp
  then show ?thesis
    using that [of ?m'] op 1 by (simp add: asks_def cmd_def exI [of _ "[Take, Write (nsocl_command (int n)), Give]"])
qed

lemma connect_on:
  assumes "n2_ok False m" "slot_open i n m" "malloc_ok net (sizeof_sockaddr_in net)"
  obtains m' sk where "perform net mk ip0 (Call (Connected (descr i) h p 0)) ((0, bs) # rs, m) = Some (rs, m')"
    "asks m [] (script (mdm m)) m'" "sockets m' = (sockets m)[i := sk]" "in_use sk" "s_id sk = int n"
    "connected sk" "remote_addr sk = Some (mk h p)" "incoming_len sk = incoming_len (sockets m ! i)" "next_free_port m' = next_free_port m"
proof -
  note sl = slot_openD [OF assms(2)] and v = descr_slot [OF assms(1) slot_openD(1) [OF assms(2)]] and len = ok_length [OF assms(1)]
  let ?sk = "(sockets m ! i)\<lparr>connected := True, remote_addr := Some (mk h p)\<rparr>"
  let ?m' = "sem_op Give ((sem_op Take m)\<lparr>sockets := (sockets m)[i := ?sk]\<rparr>)"
  have op: "offload_connect net (descr i) (mk h p) (sizeof_sockaddr_in net) m = Some (Inr 0, ?m')"
    using v sl len assms(3) by (simp add: offload_connect_def set_socket_def Let_def rd_in wr_in)
  have "n2_ok False ?m'"
    using n2_step_ok [of net "Op_connect (descr i) (mk h p) (sizeof_sockaddr_in net)" m ?m'] op assms(1) by simp
  then show ?thesis
    using that [of ?m' ?sk] op sl by (simp add: asks_def exI [of _ "[Take, Give]"])
qed

text \<open>What an address is for the modem: its text and its port.\<close>
definition address_text :: "net \<Rightarrow> sockaddr_in \<Rightarrow> bytes \<Rightarrow> nat \<Rightarrow> bool" where
  "address_text net a addr p \<longleftrightarrow> inet_ntop net (sin_addr a) = Some addr \<and> length addr \<le> 15 \<and> 0 \<notin> set addr \<and>
     unat (ntohs net (sin_port a)) = p"

lemma sendto_on:
  assumes "n2_ok False m" "slot_open i n m" "address_text net (mk h q) addr p" "d \<noteq> []" "length d \<le> N2_MAX_PACKET_SIZE"
    "script (mdm m) = receipt n (length d) @ rx"
  obtains m' where "perform net mk ip0 (Call (SentTo (descr i) d h q)) ((int (length d), bs) # rs, m) = Some (rs, m')"
    "asks m (nsost_command (int n) addr p d) rx m'" "sockets m' = sockets m" "next_free_port m' = next_free_port m"
    "offload_sendto net (descr i) d (Some (mk h q)) m = Some (Inr (int (length d)), m')"
proof -
  note sl = slot_openD [OF assms(2)] and v = descr_slot [OF assms(1) slot_openD(1) [OF assms(2)]]
  have c: "atnsost_decode (-1) 0 (script (mdm m)) = Some (AT_OK, \<lparr>nsost_fd = int n, nsost_len = of_nat (length d)\<rparr>, rx)"
    unfolding assms(6) receipt_def append_assoc
    by (rule nsost_answer) (use assms(4,5) sl in \<open>auto simp: plain_small N2_MAX_PACKET_SIZE_def\<close>)
  obtain m' es where 3: "offload_sendto net (descr i) d (Some (mk h q)) m = Some (Inr (int (length d)), m')"
    "trace (mdm m') = trace (mdm m) @ [Take] @ es @ [Give]" "sent es = nsost_command (int n) addr p d"
    "script (mdm m') = rx" "sockets m' = sockets m"
    using sendto_writes [OF assms(1), of "descr i" "sockets m ! i" d net "mk h q" addr AT_OK] assms(3,5) sl v c
    by (auto simp: address_text_def)
  have ok: "n2_ok False m'" using n2_step_ok [of net "Op_sendto (descr i) d (Some (mk h q))" m m'] 3(1) assms(1) by simp
  have port: "next_free_port m' = next_free_port m" by (rule sendto_port [OF 3(1)])
  show ?thesis
    using that [of m'] 3 ok port by (simp add: asks_def exI [of _ "[Take] @ es @ [Give]"])
qed

text \<open>Sending on a connected socket is sending to the address it was connected to.\<close>
lemma send_on:
  assumes "n2_ok False m" "slot_open i n m" "connected (sockets m ! i)" "remote_addr (sockets m ! i) = Some a"
    "address_text net a addr p" "d \<noteq> []" "length d \<le> N2_MAX_PACKET_SIZE" "script (mdm m) = receipt n (length d) @ rx"
  obtains m' where "perform net mk ip0 (Call (Sent (descr i) d)) ((int (length d), bs) # rs, m) = Some (rs, m')"
    "asks m (nsost_command (int n) addr p d) rx m'" "sockets m' = sockets m" "next_free_port m' = next_free_port m"
proof -
  note sl = slot_openD [OF assms(2)] and v = descr_slot [OF assms(1) slot_openD(1) [OF assms(2)]]
  let ?m1 = "sem_op Give (sem_op Take m)"
  have ok1: "n2_ok False ?m1" by (intro ok_give ok_take assms(1))
  have "slot_open i n ?m1" "script (mdm ?m1) = receipt n (length d) @ rx" using slot_open_same [OF assms(2)] assms(8) by simp_all
  then obtain m' where 2: "offload_sendto net (descr i) d (Some a) ?m1 = Some (Inr (int (length d)), m')"
    "asks ?m1 (nsost_command (int n) addr p d) rx m'" "sockets m' = sockets ?m1" "next_free_port m' = next_free_port ?m1"
    using sendto_on [OF ok1, where mk = "\<lambda>h p. a" and net = net and d = d] assms(5-7) by blast
  have a1: "asks m [] (script (mdm m)) ?m1" using ok1 by (simp add: asks_def)
  show ?thesis
    using that [of m'] 2 asks_trans [OF a1 2(2)] v sl assms(3,4) by (simp add: offload_send_def Let_def)
qed

lemma poll_on:
  assumes "n2_ok False m" "slot_open i n m" "0 < ms"
  obtains m' where "perform net mk ip0 (Call (Polled (descr i) ms)) ((if 0 < incoming_len (sockets m ! i) then 5 else 4, bs) # rs, m) = Some (rs, m')"
    "asks m [] (script (mdm m)) m'" "sockets m' = sockets m" "next_free_port m' = next_free_port m"
proof -
  note sl = slot_openD [OF assms(2)]
  let ?m1 = "m\<lparr>mdm := emit (Sleep ms) (mdm m)\<rparr>"
  let ?m' = "sem_op Give (sem_op Take ?m1)"
  have ok: "n2_ok False ?m1" "n2_ok True (sem_op Take ?m1)" "n2_ok False ?m'"
    using ok_sleep [OF assms(1), of ms] by (auto intro: ok_give ok_take)
  note v = descr_slot [OF ok(2) sl(1)]
  have "offload_poll [\<lparr>poll_fd = descr i, revents = []\<rparr>] ms m =
      Some ([\<lparr>poll_fd = descr i, revents = [POLLOUT] @ (if 0 < incoming_len (sockets m ! i) then [POLLIN] else [])\<rparr>], ?m')"
    using v sl assms(3) by (simp add: offload_poll_def Let_def)
  moreover have "flag_bits [POLLOUT] = 4" "flag_bits [POLLOUT, POLLIN] = 5" by (simp_all add: flag_bits_def)
  ultimately show ?thesis
    using that [of ?m'] ok by (simp add: asks_def emit_def exI [of _ "[Sleep ms, Take, Give]"])
qed

text \<open>A run of polls while nothing has arrived.\<close>
lemma polls_on:
  assumes "n2_ok False m" "slot_open i n m" "0 < ms" "incoming_len (sockets m ! i) = 0"
  shows "\<exists>m'. on_modem net mk ip0 (replicate k (Call (Polled (descr i) ms))) (replicate k (4, []) @ rs, m) = Some (rs, m') \<and>
    asks m [] (script (mdm m)) m' \<and> sockets m' = sockets m \<and> next_free_port m' = next_free_port m"
  using assms(1,2,4)
proof (induction k arbitrary: m)
  case 0
  then show ?case by (auto simp: asks_def)
next
  case (Suc k)
  obtain m1 where 1: "perform net mk ip0 (Call (Polled (descr i) ms)) ((4, []) # replicate k (4, []) @ rs, m) = Some (replicate k (4, []) @ rs, m1)"
    "asks m [] (script (mdm m)) m1" "sockets m1 = sockets m" "next_free_port m1 = next_free_port m"
    using poll_on [OF Suc.prems(1,2) assms(3), of net mk ip0 "[]" "replicate k (4, []) @ rs"] Suc.prems(3) by auto
  obtain m' where "on_modem net mk ip0 (replicate k (Call (Polled (descr i) ms))) (replicate k (4, []) @ rs, m1) = Some (rs, m')"
    "asks m1 [] (script (mdm m1)) m'" "sockets m' = sockets m1" "next_free_port m' = next_free_port m1"
    using Suc.IH [of m1] 1 Suc.prems slot_open_same asksD(1) [OF 1(2)] by metis
  then show ?case using 1 asks_trans [OF 1(2)] asksD(2) [OF 1(2)] by (intro exI [of _ m']) auto
qed

text \<open>A notification reaches exactly the socket with its number.\<close>
lemma notify_on:
  assumes "n2_ok False m" "slot_open i n m"
  obtains m' where "perform net mk ip0 (Notified (int n) k) (rs, m) = Some (rs, m')" "asks m [] (script (mdm m)) m'"
    "sockets m' = (sockets m)[i := (sockets m ! i)\<lparr>incoming_len := incoming_len (sockets m ! i) + k\<rparr>]"
    "next_free_port m' = next_free_port m"
proof -
  let ?m' = "receive_cb (int n) k m"
  have "map (\<lambda>s. if s_id s = int n then s\<lparr>incoming_len := incoming_len s + k\<rparr> else s) (sockets m) =
      (sockets m)[i := (sockets m ! i)\<lparr>incoming_len := incoming_len (sockets m ! i) + k\<rparr>]"
    using assms(2) ok_length [OF assms(1)] by (intro nth_equalityI) (auto simp: slot_open_def nth_list_update)
  moreover have "n2_ok False ?m'" by (rule ok_receive_cb [OF assms(1)])
  ultimately show ?thesis
    using that [of ?m'] by (simp add: asks_def receive_cb_def Let_def exI [of _ "[Take, Give]"])
qed

text \<open>A receive on a socket without data does not ask the modem.\<close>
lemma receive_idle_on:
  assumes "n2_ok False m" "slot_open i n m" "incoming_len (sockets m ! i) = 0"
  obtains m' where "perform net mk ip0 (Call (Received (descr i) len)) ((0, []) # rs, m) = Some (rs, m')"
    "asks m [] (script (mdm m)) m'" "sockets m' = sockets m" "next_free_port m' = next_free_port m"
proof -
  note sl = slot_openD [OF assms(2)] and v = descr_slot [OF assms(1) slot_openD(1) [OF assms(2)]]
  let ?m' = "(sem_op Give (sem_op Take m))\<lparr>errno := Some (Errno EWOULDBLOCK)\<rparr>"
  have "offload_recvfrom net ip0 (descr i) (receive_buffer len) (int len) m = Some (Inr 0, receive_buffer len, ?m')"
    using v sl assms(3) by (simp add: offload_recvfrom_def Let_def)
  moreover have "n2_ok False ?m'" using ok_give_errno [OF ok_take [OF assms(1)]] .
  ultimately show ?thesis using that [of ?m'] by (simp add: asks_def)
qed

text \<open>Where the sender of received data is, as text of the modem.\<close>
definition sender_text :: "bytes \<Rightarrow> nat \<Rightarrow> bool" where
  "sender_text addr p \<longleftrightarrow> (\<forall>b \<in> set addr. rf_char b \<and> b \<noteq> 0) \<and> length addr < 16 \<and> p < 10 ^ 9"

lemma recvfrom_on:
  assumes "n2_ok False m" "slot_open i n m" "incoming_len (sockets m ! i) \<noteq> 0" "length ip0 = 16" "sender_text addr p"
    "d \<noteq> []" "length d \<le> len" "length d \<le> 512" "script (mdm m) = data_answer n addr p d @ rx"
  obtains out m' where "offload_recvfrom net ip0 (descr i) (receive_buffer len) (int len) m = Some (Inr (int (length d)), out, m')"
    "take (length d) (out_buf out) = d" "asks m (nsorf_command n len) rx m'"
    "sockets m' = (sockets m)[i := (sockets m ! i)\<lparr>incoming_len := 0\<rparr>]" "next_free_port m' = next_free_port m"
proof -
  note sl = slot_openD [OF assms(2)] and v = descr_slot [OF assms(1) slot_openD(1) [OF assms(2)]]
  have b: "\<forall>l \<in> set [[], nsonmi_line n (length d), []]. plain_line l \<and> (blank_line l \<or> urc_line l)" "\<forall>l \<in> set [[]]. plain_line l"
    using nsonmi_plain [OF sl(2) assms(8)] plain_small by auto
  have scr: "script (mdm m) = map Some (wire ([[], nsonmi_line n (length d), []] @ nsorf_line n addr p (length d) d [48] # [[]])) @
      final_bytes AT_OK @ rx"
    using assms(9) by (simp add: data_answer_def)
  have n: "n < 10 ^ 9" "length d < 10 ^ 9" using sl(2) assms(8) by simp_all
  have a: "p < 10 ^ 9" "\<forall>b \<in> set addr. rf_char b \<and> b \<noteq> 0" "length addr < 16" using assms(5) by (simp_all add: sender_text_def)
  have fit: "length d \<le> length (out_buf (receive_buffer len))" "plain_line [48]" "length [48 :: u8] \<le> 512"
    using assms(7) plain_small by (simp_all add: receive_buffer_def)
  have ge: "100 \<le> descr i" "descr i < 107" "i = nat (descr i - 100)" "0 \<le> int len" using sl(1) by simp_all
  obtain out m' where 1: "offload_recvfrom net ip0 (descr i) (receive_buffer len) (int len) m = Some (Inr (int (length d)), out, m')"
    "out_buf out = d @ drop (length d) (out_buf (receive_buffer len))" "sockets m' = (sockets m)[i := (sockets m ! i)\<lparr>incoming_len := 0\<rparr>]"
    "trace (mdm m') = trace (mdm m) @ [Take, Write (cstr ''AT+NSORF='' @ fmt_d (s_id (sockets m ! i)) @ [44] @ fmt_d (min 512 (int len)) @ [13, 10]), Give]"
    "script (mdm m') = rx" "next_free_port m' = next_free_port m"
    using recvfrom_gives [OF assms(1) ge(1-3) sl(3,5,6) assms(3) ge(4) b n(1) a(1) n(2) a(2,3) assms(4) fit(1) assms(6,8) fit(2,3) scr]
    by blast
  have ok: "n2_ok False m'"
    using n2_step_ok [of net "Op_recvfrom ip0 (descr i) (receive_buffer len) (int len)" m m'] 1(1) assms(1) by simp
  have "asks m (nsorf_command n len) rx m'" using ok 1(4,5) sl(4) by (simp add: asks_def nsorf_command_def)
  then show ?thesis using that [of out m'] 1 by simp
qed

lemma receive_on:
  assumes "n2_ok False m" "slot_open i n m" "incoming_len (sockets m ! i) \<noteq> 0" "length ip0 = 16" "sender_text addr p"
    "d \<noteq> []" "length d \<le> len" "length d \<le> 512" "script (mdm m) = data_answer n addr p d @ rx"
  obtains m' where "perform net mk ip0 (Call (Received (descr i) len)) ((int (length d), d) # rs, m) = Some (rs, m')"
    "asks m (nsorf_command n len) rx m'" "sockets m' = (sockets m)[i := (sockets m ! i)\<lparr>incoming_len := 0\<rparr>]"
    "next_free_port m' = next_free_port m"
  using recvfrom_on [OF assms, of net] that by fastforce

text \<open>Receiving on a connected socket, with data that is already there.\<close>
lemma receive_now_on:
  assumes "n2_ok False m" "slot_open i n m" "incoming_len (sockets m ! i) \<noteq> 0" "connected (sockets m ! i)" "length ip0 = 16"
    "sender_text addr p" "d \<noteq> []" "length d \<le> len" "length d \<le> 512" "len < 2 ^ 15" "script (mdm m) = data_answer n addr p d @ rx"
  obtains m' where "perform net mk ip0 (Call (Received_Now (descr i) len)) ((int (length d), d) # rs, m) = Some (rs, m')"
    "asks m (nsorf_command n len) rx m'" "sockets m' = (sockets m)[i := (sockets m ! i)\<lparr>incoming_len := 0\<rparr>]"
    "next_free_port m' = next_free_port m"
proof -
  note sl = slot_openD [OF assms(2)] and v = descr_slot [OF assms(1) slot_openD(1) [OF assms(2)]]
  let ?m1 = "sem_op Give (sem_op Take m)"
  have ok1: "n2_ok False ?m1" by (intro ok_give ok_take assms(1))
  have s1: "slot_open i n ?m1" "incoming_len (sockets ?m1 ! i) \<noteq> 0" "script (mdm ?m1) = data_answer n addr p d @ rx"
    using slot_open_same [OF assms(2)] assms(3,11) by simp_all
  obtain out m' where 1: "offload_recvfrom net ip0 (descr i) (receive_buffer len) (int len) ?m1 = Some (Inr (int (length d)), out, m')"
    "take (length d) (out_buf out) = d" "asks ?m1 (nsorf_command n len) rx m'"
    "sockets m' = (sockets ?m1)[i := (sockets ?m1 ! i)\<lparr>incoming_len := 0\<rparr>]" "next_free_port m' = next_free_port ?m1"
    using recvfrom_on [OF ok1 s1(1,2) assms(5-9) s1(3), of net] by blast
  have sh: "signed_take_bit 15 (int len) = int len" using assms(10) by (intro signed_take_bit_int_eq_self) simp_all
  have buf: "(receive_buffer len)\<lparr>out_from := None, out_fromlen := None\<rparr> = receive_buffer len" by (simp add: receive_buffer_def)
  have op: "offload_recv net ip0 [] (descr i) (receive_buffer len) (int len) True m = Some (Inr (int (length d)), out, m')"
    using v sl assms(3,4) 1(1) by (simp add: offload_recv_def Let_def sh buf)
  have a1: "asks m [] (script (mdm m)) ?m1" using ok1 by (simp add: asks_def)
  show ?thesis using that [of m'] op 1(2,4,5) asks_trans [OF a1 1(3)] by simp
qed

section \<open>Opening sockets one after the other\<close>

text \<open>A state of the socket layer with a free slot, in which the modem can give out a new number.\<close>
definition can_open :: "nat \<Rightarrow> nat \<Rightarrow> n2 \<Rightarrow> bool" where
  "can_open i n m \<longleftrightarrow> n2_ok False m \<and> first_free 0 (sockets m) = Some i \<and> incoming_len (sockets m ! i) = 0 \<and>
     0 \<le> next_free_port m \<and> next_free_port m < 10 ^ 9 \<and> n < 10 \<and> (\<forall>sk \<in> set (sockets m). s_id sk \<noteq> int n)"

lemma open_socket_on:
  assumes "can_open i n m" "script (mdm m) = number_answer n @ rx"
  obtains m' sk where "perform net mk ip0 (Call (Opened (descr i))) ((descr i, bs) # rs, m) = Some (rs, m')"
    "asks m (nsocr_command (next_free_port m)) rx m'" "slot_open i n m'" "sockets m' = (sockets m)[i := sk]"
    "incoming_len (sockets m' ! i) = 0" "next_free_port m' = next_free_port m + 1"
proof -
  have o: "n2_ok False m" "first_free 0 (sockets m) = Some i" "incoming_len (sockets m ! i) = 0" "0 \<le> next_free_port m"
    "next_free_port m < 10 ^ 9" "n < 10" "\<forall>sk \<in> set (sockets m). s_id sk \<noteq> int n" using assms(1) by (simp_all add: can_open_def)
  obtain m' sk where "perform net mk ip0 (Call (Opened (descr i))) ((descr i, bs) # rs, m) = Some (rs, m')"
    "asks m (nsocr_command (next_free_port m)) rx m'" "slot_open i n m'" "sockets m' = (sockets m)[i := sk]"
    "incoming_len sk = incoming_len (sockets m ! i)" "next_free_port m' = next_free_port m + 1"
    using open_on [OF o(1,2,4,5,6,7) assms(2)] by blast
  then show ?thesis using that [of m' sk] slot_openD(1) ok_length [OF o(1)] o(3) by simp
qed

text \<open>Behind a closed socket the next one can be opened in the same slot.\<close>
lemma first_free_update:
  "first_free k ss = Some i \<Longrightarrow> \<not> in_use sk \<Longrightarrow> first_free k (ss[i - k := sk]) = Some i"
proof (induction k ss rule: first_free.induct)
  case (2 k s ss)
  show ?case
  proof (cases "in_use s")
    case True
    then have ff: "first_free (k + 1) ss = Some i" using 2(2) by simp
    have "i - k = Suc (i - Suc k)" using first_free_Some [OF ff] by (auto simp: Suc_diff_Suc)
    then show ?thesis using 2(1) [OF _ ff 2(3)] True by simp
  qed (use 2 in simp)
qed simp

lemma can_open_again:
  assumes "can_open i n m" "n2_ok False m'" "sockets m' = (sockets m)[i := fresh_socket]" "next_free_port m' = next_free_port m + 1"
    "next_free_port m + 1 < 10 ^ 9" "n' < 10" "\<forall>sk \<in> set (sockets m). s_id sk \<noteq> int n'"
  shows "can_open i n' m'"
proof -
  have ff: "first_free 0 (sockets m) = Some i" and len: "length (sockets m) = 7" using assms(1) ok_length by (auto simp: can_open_def)
  then have i: "i < 7" using first_free_Some [OF ff] by simp
  have "first_free 0 (sockets m') = Some i"
    using first_free_update [OF ff, of fresh_socket] assms(3) by (simp add: fresh_socket_def)
  moreover have "\<forall>sk \<in> set (sockets m'). s_id sk \<noteq> int n'"
    using assms(3,7) set_update_subset_insert [of "sockets m" i fresh_socket] by (auto simp: fresh_socket_def)
  ultimately show ?thesis
    using assms i len by (auto simp: can_open_def fresh_socket_def)
qed

text \<open>A change of another socket in use, which keeps its number, does not touch the free slot.\<close>
lemma first_free_used:
  "first_free k ss = Some i \<Longrightarrow> k \<le> j \<Longrightarrow> j < k + length ss \<Longrightarrow> in_use (ss ! (j - k)) \<Longrightarrow> in_use sk \<Longrightarrow> first_free k (ss[j - k := sk]) = Some i"
proof (induction k ss rule: first_free.induct)
  case (2 k s ss)
  show ?case
  proof (cases "j = k")
    case True
    then show ?thesis using 2 by simp
  next
    case False
    then have "j - k = Suc (j - Suc k)" using 2(3) by simp
    then show ?thesis using 2 False by (cases "in_use s") simp_all
  qed
qed simp

lemma can_open_other:
  assumes "can_open i n m" "n2_ok False m'" "sockets m' = (sockets m)[j := sk]" "next_free_port m' = next_free_port m"
    "slot_open j nc m" "i \<noteq> j" "in_use sk" "s_id sk = s_id (sockets m ! j)"
  shows "can_open i n m'"
proof -
  note sl = slot_openD [OF assms(5)]
  have ff: "first_free 0 (sockets m) = Some i" and len: "length (sockets m) = 7" using assms(1) ok_length by (auto simp: can_open_def)
  have "first_free 0 (sockets m') = Some i"
    using first_free_used [OF ff, of j sk] assms(3,7) sl len by simp
  moreover have "s_id (sockets m ! j) \<noteq> int n" using assms(1) sl(1) len by (simp add: can_open_def)
  then have "\<forall>sk \<in> set (sockets m'). s_id sk \<noteq> int n"
    using assms(1,3,8) set_update_subset_insert [of "sockets m" j sk] by (fastforce simp: can_open_def)
  ultimately show ?thesis using assms by (simp add: can_open_def)
qed

section \<open>A concrete socket layer\<close>

text \<open>A socket layer with the configuration socket only, and addresses that are read as they are.\<close>
definition listening_n2 :: "rx_script \<Rightarrow> n2" where
  "listening_n2 rx = (fresh_n2 rx)\<lparr>sockets := fresh_socket\<lparr>s_id := 3, in_use := True\<rparr> # replicate 6 fresh_socket\<rparr>"

definition plain_address :: "bytes \<Rightarrow> nat \<Rightarrow> sockaddr_in" where
  "plain_address h p = \<lparr>sin_family = AF_INET, sin_port = of_nat p, sin_addr = 9\<rparr>"

lemma listening_n2_ok: "n2_ok False (listening_n2 rx)"
  by (simp add: n2_ok_def fresh_n2_def listening_n2_def held_def MDM_MAX_SOCKETS_def CMD_BUFFER_SIZE_def)

lemma listening_n2_fields [simp]:
  "script (mdm (listening_n2 rx)) = rx" "trace (mdm (listening_n2 rx)) = []" "next_free_port (listening_n2 rx) = 6000"
  by (simp_all add: listening_n2_def fresh_n2_def)

lemma listening_slots:
  "slot_open 0 3 (listening_n2 rx)" "incoming_len (sockets (listening_n2 rx) ! 0) = 0"
  "first_free 0 (sockets (listening_n2 rx)) = Some 1" "incoming_len (sockets (listening_n2 rx) ! 1) = 0"
  "\<forall>sk \<in> set (sockets (listening_n2 rx)). s_id sk \<in> {-1, 3}"
proof -
  have s: "sockets (listening_n2 rx) = fresh_socket\<lparr>s_id := 3, in_use := True\<rparr> # replicate 6 fresh_socket"
    by (simp add: listening_n2_def)
  have "s_id (replicate 6 fresh_socket ! (j - 1)) \<noteq> 3" if "j < 7" "j \<noteq> 0" for j
    using that by (simp add: fresh_socket_def)
  then show "slot_open 0 3 (listening_n2 rx)" unfolding slot_open_def s by (auto simp: nth_Cons')
  show "incoming_len (sockets (listening_n2 rx) ! 0) = 0" "first_free 0 (sockets (listening_n2 rx)) = Some 1"
    "incoming_len (sockets (listening_n2 rx) ! 1) = 0" "\<forall>sk \<in> set (sockets (listening_n2 rx)). s_id sk \<in> {-1, 3}"
    unfolding s by (simp_all add: fresh_socket_def numeral_eq_Suc)
qed

lemma listening_can_open: "n < 10 \<Longrightarrow> n \<noteq> 3 \<Longrightarrow> can_open 1 n (listening_n2 rx)"
  "n \<noteq> 3 \<Longrightarrow> \<forall>sk \<in> set (sockets (listening_n2 rx)). s_id sk \<noteq> int n"
proof -
  show ids: "\<forall>sk \<in> set (sockets (listening_n2 rx)). s_id sk \<noteq> int n" if "n \<noteq> 3" for n
    using that listening_slots(5) [of rx] by fastforce
  show "n < 10 \<Longrightarrow> n \<noteq> 3 \<Longrightarrow> can_open 1 n (listening_n2 rx)"
    using ids listening_slots(3,4) [of rx] listening_n2_ok [of rx] by (simp add: can_open_def)
qed

lemma plain_address_text: "p < 2 ^ 16 \<Longrightarrow> address_text plain_net (plain_address h p) [49, 46, 50] p" "p < 10 ^ 9 \<Longrightarrow> sender_text [49, 46, 50] p"
  by (simp_all add: address_text_def plain_net_def plain_address_def unat_of_nat sender_text_def rf_char_def isspace_def)

end
