(* ===== verification/Round_On_Modem.thy ===== *)
theory Round_On_Modem
  imports Calls_On_Modem Main_Loop
begin

text \<open>
  One round of the main loop (\<open>main.c\<close>) on the socket layer: the calls of the round, performed by the
  operations of \<open>n2_offload.c\<close>, down to the commands that the modem receives.
\<close>

section \<open>The calls of one round\<close>

text \<open>What the modem answers: a socket number, the receipt of a datagram, and OK.\<close>
definition round_answers :: "nat \<Rightarrow> nat \<Rightarrow> rx_script" where
  "round_answers n len = number_answer n @ receipt n len @ final_bytes AT_OK"

definition round_commands :: "int \<Rightarrow> nat \<Rightarrow> bytes \<Rightarrow> nat \<Rightarrow> bytes \<Rightarrow> bytes" where
  "round_commands local n addr p d = nsocr_command local @ nsost_command (int n) addr p d @ nsocl_command (int n)"

text \<open>The part of the round behind the configuration message: one datagram on a socket of its own.\<close>
lemma send_calls:
  assumes "can_open i n m" "address_text net (mk h q) addr p" "d \<noteq> []" "length d \<le> N2_MAX_PACKET_SIZE"
    "script (mdm m) = round_answers n (length d) @ rx"
  obtains m' where "on_modem net mk ip0 (map Call [Opened (descr i), SentTo (descr i) d h q, Slept t, Closed (descr i)])
      ((descr i, []) # (int (length d), []) # rs, m) = Some (rs, m')"
    "asks m (round_commands (next_free_port m) n addr p d) rx m'" "sockets m' = (sockets m)[i := fresh_socket]"
    "next_free_port m' = next_free_port m + 1"
proof -
  let ?rs2 = "(int (length d), []) # rs" and ?rx2 = "receipt n (length d) @ final_bytes AT_OK @ rx"
  have "script (mdm m) = number_answer n @ ?rx2" using assms(5) by (simp add: round_answers_def)
  then obtain m2 s2 where 2: "perform net mk ip0 (Call (Opened (descr i))) ((descr i, []) # ?rs2, m) = Some (?rs2, m2)"
    "asks m (nsocr_command (next_free_port m)) ?rx2 m2" "slot_open i n m2" "sockets m2 = (sockets m)[i := s2]"
    "next_free_port m2 = next_free_port m + 1"
    using open_socket_on [OF assms(1)] by metis
  obtain m3 where 3: "perform net mk ip0 (Call (SentTo (descr i) d h q)) (?rs2, m2) = Some (rs, m3)"
    "asks m2 (nsost_command (int n) addr p d) (final_bytes AT_OK @ rx) m3" "sockets m3 = sockets m2" "next_free_port m3 = next_free_port m2"
    using sendto_on [where mk = mk and h = h and q = q, OF asksD(1) [OF 2(2)] 2(3) assms(2-4) asksD(2) [OF 2(2)]] by blast
  let ?m4 = "m3\<lparr>mdm := emit (Sleep t) (mdm m3)\<rparr>"
  have 4: "asks m3 [] (final_bytes AT_OK @ rx) ?m4" "slot_open i n ?m4" "sockets ?m4 = sockets m3"
    using ok_sleep [OF asksD(1) [OF 3(2)]] asksD(2) [OF 3(2)] slot_open_same [OF 2(3) 3(3)]
    by (simp_all add: asks_def emit_def slot_open_def)
  obtain m5 where 5: "perform net mk ip0 (Call (Closed (descr i))) (rs, ?m4) = Some (rs, m5)" "asks ?m4 (nsocl_command (int n)) rx m5"
    "sockets m5 = (sockets ?m4)[i := fresh_socket]" "next_free_port m5 = next_free_port ?m4"
    using close_on [OF asksD(1) [OF 4(1)] 4(2) asksD(2) [OF 4(1)]] by blast
  have "on_modem net mk ip0 (map Call [Opened (descr i), SentTo (descr i) d h q, Slept t, Closed (descr i)])
      ((descr i, []) # ?rs2, m) = Some (rs, m5)"
    using 2(1) 3(1) 5(1) by simp
  moreover have "asks m (round_commands (next_free_port m) n addr p d) rx m5"
    using asks_trans [OF asks_trans [OF asks_trans [OF 2(2) 3(2)] 4(1)] 5(2)] by (simp add: round_commands_def)
  ultimately show ?thesis using that [of m5] 5(3,4) 4(3) 3(3,4) 2(4,5) by simp
qed

lemma round_calls:
  assumes "can_open i n m" "slot_open j nc m" "incoming_len (sockets m ! j) = 0" "address_text net (mk h q) addr p"
    "d \<noteq> []" "length d \<le> N2_MAX_PACKET_SIZE" "script (mdm m) = round_answers n (length d) @ rx"
  obtains m' where "on_modem net mk ip0 (map Call [Fed, Received (descr j) len, Opened (descr i), SentTo (descr i) d h q, Slept t, Closed (descr i)])
      ((0, []) # (descr i, []) # (int (length d), []) # rs, m) = Some (rs, m')"
    "asks m (round_commands (next_free_port m) n addr p d) rx m'" "sockets m' = (sockets m)[i := fresh_socket]"
    "next_free_port m' = next_free_port m + 1"
proof -
  have ok: "n2_ok False m" using assms(1) by (simp add: can_open_def)
  let ?rs1 = "(descr i, []) # (int (length d), []) # rs"
  obtain m1 where 1: "perform net mk ip0 (Call (Received (descr j) len)) ((0, []) # ?rs1, m) = Some (?rs1, m1)"
    "asks m [] (script (mdm m)) m1" "sockets m1 = sockets m" "next_free_port m1 = next_free_port m"
    using receive_idle_on [OF ok assms(2,3)] by blast
  have c1: "can_open i n m1" using assms(1) 1(3,4) asksD(1) [OF 1(2)] by (simp add: can_open_def)
  have scr: "script (mdm m1) = round_answers n (length d) @ rx" using assms(7) asksD(2) [OF 1(2)] by simp
  obtain m2 where 2: "on_modem net mk ip0 (map Call [Opened (descr i), SentTo (descr i) d h q, Slept t, Closed (descr i)]) (?rs1, m1) = Some (rs, m2)"
    "asks m1 (round_commands (next_free_port m1) n addr p d) rx m2" "sockets m2 = (sockets m1)[i := fresh_socket]"
    "next_free_port m2 = next_free_port m1 + 1"
    using send_calls [where mk = mk and h = h and q = q, OF c1 assms(4-6) scr] by blast
  have "on_modem net mk ip0 (map Call [Fed, Received (descr j) len]) ((0, []) # ?rs1, m) = Some (?rs1, m1)"
    using 1(1) by simp
  from on_modem_seq [OF this, of "map Call [Opened (descr i), SentTo (descr i) d h q, Slept t, Closed (descr i)]"] 2(1)
  have "on_modem net mk ip0 (map Call [Fed, Received (descr j) len, Opened (descr i), SentTo (descr i) d h q, Slept t, Closed (descr i)])
      ((0, []) # ?rs1, m) = Some (rs, m2)"
    by (simp only: list.map append_Cons append_Nil)
  then show ?thesis using that [of m2] 1(3,4) 2(3,4) asks_trans [OF 1(2) 2(2)] by (simp del: perform.simps on_modem.simps)
qed

section \<open>Properties\<close>

text \<open>C1: From the sensors to the modem. One round in which every sensor answers and no configuration message waits, which is not the round
  that looks for new firmware (every 17th) and ends below the uptime at which the node restarts, performed by the socket
  layer in a state with an open configuration socket and a free slot, makes the modem receive exactly
  three commands: one that opens a socket on the next local port, one that carries the encoding of
  the readings of this round to the configured server, and one that closes the socket; the
  slot is free again afterwards, and the answers of the modem are used up.\<close>
theorem round_on_modem:
  assumes "node_ok st" "sample_answers h as" "answers (n_spi st) = as @ bs" "length h = OPC_HISTOGRAM_SIZE"
    "cc2_script (n_cc2 st) = (0, [c0, c1, c2, c3]) # (q, y) # cs"
    "results (n_net st) = (0, []) # (descr i, []) # (int (length datagram), []) # rest"
    "c_str (CURRENT_COAP_BUFFER (n_conf st)) = Some server" "encode_firmware_version (fw_version l) = Some v"
    "c_str (imei_array l) = Some idt" "length (n_buffer st) = MAX_SEND_BUFFER"
    "lib_pb_sample l MAX_SEND_BUFFER (sample_message (lib_to_u32 l) v (of_int (atoll idt))
       \<lparr>msg_gps_fix = gps_get_sample (n_gps st), cc2_sample = cc2_values (lib_fpu l) c0 c1 c2 c3,
        opc_sample = opc_reading (lib_to_float l) h, afe3_sample = afe_reading bs, msg_uptime = env_sample_time e div 1000\<rparr>) =
       (True, datagram)" "length datagram \<le> MAX_SEND_BUFFER" "datagram \<noteq> []"
    "n_fota_interval st < 16" "env_end_time e div 1000 \<le> UPTIME_FORCE_REBOOT_LIMIT_SECONDS"
    "can_open i n m" "slot_open j nc m" "incoming_len (sockets m ! j) = 0" "address_text net (mk server SAMPLE_PORT) addr SAMPLE_PORT"
    "script (mdm m) = round_answers n (length datagram) @ rx"
  shows "\<exists>st' calls m'. main_round l (descr j) e st = Some (Goes_On, st') \<and> sys_trace (n_net st') = sys_trace (n_net st) @ calls \<and>
     on_modem net mk ip0 (map Call calls) (results (n_net st), m) = Some (results (n_net st'), m') \<and>
     asks m (round_commands (next_free_port m) n addr SAMPLE_PORT datagram) rx m' \<and> sockets m' = (sockets m)[i := fresh_socket]"
proof -
  let ?calls = "[Fed, Received (descr j) MAX_COMMAND_BUFFER, Opened (descr i), SentTo (descr i) datagram server SAMPLE_PORT, Slept 30000,
    Closed (descr i)]"
  have "length datagram \<le> N2_MAX_PACKET_SIZE" using assms(12) by (simp add: MAX_SEND_BUFFER_def N2_MAX_PACKET_SIZE_def)
  from round_calls [where mk = mk and h = server and q = SAMPLE_PORT, OF assms(16-19,13) this assms(20)]
  obtain m' where 1: "on_modem net mk ip0 (map Call ?calls) (results (n_net st), m) = Some (rest, m')"
    "asks m (round_commands (next_free_port m) n addr SAMPLE_PORT datagram) rx m'" "sockets m' = (sockets m)[i := fresh_socket]"
    unfolding assms(6) by blast
  obtain st' where 2: "main_round l (descr j) e st = Some (Goes_On, st')" "sys_trace (n_net st') = sys_trace (n_net st) @ ?calls"
    "results (n_net st') = rest"
    using round_sends [OF assms(1-6) _ _ assms(7-12,14,15), of "descr j"] by auto
  show ?thesis
    by (rule exI [of _ st'], rule exI [of _ ?calls], rule exI [of _ m']) (use 1 2 in \<open>simp only: simp_thms\<close>)
qed

theorem round_on_modem_witness:
  "\<exists>as st' calls m'. main_round demo_libs 100 demo_env (demo_node as [] (demo_calls 101)) = Some (Goes_On, st') \<and>
     sys_trace (n_net st') = calls \<and>
     on_modem plain_net plain_address [] (map Call calls) (demo_calls 101, listening_n2 (round_answers 4 1)) = Some (results (n_net st'), m') \<and>
     sent (trace (mdm m')) = round_commands 6000 4 [49, 46, 50] 1234 [1]"
proof -
  obtain as where as: "sample_answers (replicate 86 1) as" using sample_answers_example by blast
  obtain v where v: "encode_firmware_version (fw_version demo_libs) = Some v" using demo_version by blast
  note r = demo_round_ready [OF as, of 101] and l = demo_libs_ready
  have h: "length (replicate 86 1 :: bytes) = OPC_HISTOGRAM_SIZE" by (simp add: histogram_layout)
  have t: "sys_trace (n_net (demo_node as [] (demo_calls 101))) = []" "results (n_net (demo_node as [] (demo_calls 101))) = demo_calls 101"
    by (simp_all add: demo_node_def toy_state_def)
  have u: "pb_uptime (sample_message (lib_to_u32 demo_libs) v i m) = msg_uptime m" for i m
    by (simp add: sample_message_def Let_def)
  let ?m = "listening_n2 (round_answers 4 1)"
  have m: "can_open 1 4 ?m" by (rule listening_can_open) simp_all
  have scr: "script (mdm ?m) = round_answers 4 1 @ []" by simp
  have a: "address_text plain_net (plain_address [] SAMPLE_PORT) [49, 46, 50] SAMPLE_PORT"
    by (rule plain_address_text) (simp add: SAMPLE_PORT_def)
  have rs: "results (n_net (demo_node as [] (demo_calls 101))) =
      (0, []) # (descr 1, []) # (int (length [of_int (pb_uptime (sample_message (lib_to_u32 demo_libs) v i x)) :: u8]), []) # []" for i x
    using r(4) by simp
  show ?thesis
    using round_on_modem [where mk = plain_address and net = plain_net and m = ?m and j = 0 and n = 4 and rx = "[]" and ?ip0.0 = "[]"
        and e = demo_env, OF r(1) as r(2) h r(3) rs r(5) v l(1) r(6) l(2,3) _ r(7) l(4) m listening_slots(1,2) a] scr t u
    by (simp add: demo_env_def SAMPLE_PORT_def asks_def) blast
qed

end
