(* ===== verification/Config_On_Modem.thy ===== *)
theory Config_On_Modem
  imports Round_On_Modem
begin

text \<open>
  Remote configuration from end to end: a configuration message that waits in the modem is fetched by a round of the
  main loop (\<open>main.c\<close>) through the socket layer (\<open>n2_offload.c\<close>), decoded and stored in flash (\<open>config_message.c\<close>,
  \<open>config.c\<close>), and the round still sends its sample.
\<close>

section \<open>A round with a configuration message\<close>



section \<open>Properties\<close>





abbreviation "config_calls \<equiv> [(1, [7]), (101, []), (1, [])] :: (int \<times> bytes) list"
abbreviation "config_script \<equiv> data_answer 3 [49, 46, 50] 5683 [7] @ round_answers 4 1"


end
