(* ===== verification/Update_On_Modem.thy ===== *)
theory Update_On_Modem
  imports Calls_On_Modem Fota_Net
begin

text \<open>
  The firmware update (\<open>fota.c\<close>) on the socket layer: its calls performed by \<open>n2_offload.c\<close>, its requests and the
  replies of the server as commands and answers of the modem. The result is the path of an image from the
  serial line of the modem to the flash.
\<close>

section \<open>Waiting and receiving\<close>

text \<open>Polls without data, the notification, the poll that sees it. Then the data wait at the socket.\<close>
definition wait_steps :: "nat \<Rightarrow> nat \<Rightarrow> nat \<Rightarrow> nat \<Rightarrow> modem_step list" where
  "wait_steps i n k len = replicate k (Call (Polled (descr i) POLL_WAIT_MS)) @
     [Notified (int n) (int len), Call (Polled (descr i) POLL_WAIT_MS)]"

lemma wait_on:
  assumes "n2_ok False m" "slot_open i n m" "incoming_len (sockets m ! i) = 0" "0 < len"
  obtains m' where "on_modem net mk ip0 (wait_steps i n k len) (replicate k (4, []) @ (5, []) # rs, m) = Some (rs, m')"
    "asks m [] (script (mdm m)) m'" "sockets m' = (sockets m)[i := (sockets m ! i)\<lparr>incoming_len := int len\<rparr>]"
    "slot_open i n m'" "next_free_port m' = next_free_port m"
proof -
  have pos: "0 < POLL_WAIT_MS" by (simp add: POLL_WAIT_MS_def)
  note sl = slot_openD [OF assms(2)] and len = ok_length [OF assms(1)]
  obtain m1 where 1: "on_modem net mk ip0 (replicate k (Call (Polled (descr i) POLL_WAIT_MS))) (replicate k (4, []) @ (5, []) # rs, m) =
      Some ((5, []) # rs, m1)"
    "asks m [] (script (mdm m)) m1" "sockets m1 = sockets m" "next_free_port m1 = next_free_port m"
    using polls_on [OF assms(1,2) pos assms(3), of net mk ip0 k "(5, []) # rs"] by blast
  note ok1 = asksD(1) [OF 1(2)] and o1 = slot_open_same [OF assms(2) 1(3)]
  obtain m2 where 2: "perform net mk ip0 (Notified (int n) (int len)) ((5, []) # rs, m1) = Some ((5, []) # rs, m2)"
    "asks m1 [] (script (mdm m1)) m2" "sockets m2 = (sockets m)[i := (sockets m ! i)\<lparr>incoming_len := int len\<rparr>]"
    "next_free_port m2 = next_free_port m"
    using notify_on [OF ok1 o1, of net mk ip0 "int len" "(5, []) # rs"] 1(3,4) assms(3) by auto
  note ok2 = asksD(1) [OF 2(2)]
  have o2: "slot_open i n m2" using slot_open_update [OF assms(2) len 2(3)] sl by simp
  have "incoming_len (sockets m2 ! i) = int len" using 2(3) len sl(1) by simp
  then obtain m3 where 3: "perform net mk ip0 (Call (Polled (descr i) POLL_WAIT_MS)) ((5, []) # rs, m2) = Some (rs, m3)"
    "asks m2 [] (script (mdm m2)) m3" "sockets m3 = sockets m2" "next_free_port m3 = next_free_port m2"
    using poll_on [OF ok2 o2 pos, of net mk ip0 "[]" rs] assms(4) by auto
  have "on_modem net mk ip0 (wait_steps i n k len) (replicate k (4, []) @ (5, []) # rs, m) = Some (rs, m3)"
    unfolding wait_steps_def using on_modem_seq [OF 1(1)] 2(1) 3(1) by simp
  moreover have "asks m [] (script (mdm m)) m3"
    using asks_trans [OF asks_trans [OF 1(2) 2(2)] 3(2)] asksD(2) [OF 1(2)] asksD(2) [OF 2(2)] by simp
  ultimately show ?thesis
    using that [of m3] 2(3,4) 3(3,4) slot_open_same [OF o2 3(3)] by simp
qed

section \<open>One exchange\<close>

text \<open>An exchange as the socket layer gives it: idle polls give 4, the poll with data gives 5.\<close>
definition modem_exchange :: "exchange \<Rightarrow> bool" where
  "modem_exchange x \<longleftrightarrow> ex_request x \<noteq> [] \<and> length (ex_request x) \<le> N2_MAX_PACKET_SIZE \<and>
     ex_reply x \<noteq> [] \<and> length (ex_reply x) \<le> MAX_BUFFER_LEN \<and> set (ex_waits x) \<subseteq> {4} \<and> ex_ready x = 5"

definition exchange_steps :: "nat \<Rightarrow> nat \<Rightarrow> exchange \<Rightarrow> modem_step list" where
  "exchange_steps i n x = Call (Sent (descr i) (ex_request x)) #
     wait_steps i n (length (ex_waits x)) (length (ex_reply x)) @ [Call (Received_Now (descr i) MAX_BUFFER_LEN)]"

lemma exchange_steps_calls: "calls_of (exchange_steps i n x) = exchange_calls (descr i) x"
  by (simp add: exchange_steps_def exchange_calls_def wait_steps_def replicate_append_same)

definition exchange_answers :: "nat \<Rightarrow> bytes \<Rightarrow> nat \<Rightarrow> exchange \<Rightarrow> rx_script" where
  "exchange_answers n addr p x = receipt n (length (ex_request x)) @ data_answer n addr p (ex_reply x)"

definition exchange_commands :: "nat \<Rightarrow> bytes \<Rightarrow> nat \<Rightarrow> exchange \<Rightarrow> bytes" where
  "exchange_commands n addr p x = nsost_command (int n) addr p (ex_request x) @ nsorf_command n MAX_BUFFER_LEN"

definition connected_to :: "net \<Rightarrow> nat \<Rightarrow> bytes \<Rightarrow> nat \<Rightarrow> n2 \<Rightarrow> bool" where
  "connected_to net i addr p m \<longleftrightarrow> connected (sockets m ! i) \<and> incoming_len (sockets m ! i) = 0 \<and>
     (\<exists>a. remote_addr (sockets m ! i) = Some a \<and> address_text net a addr p)"

lemma exchange_on:
  assumes "n2_ok False m" "slot_open i n m" "connected_to net i addr p m" "modem_exchange x" "length ip0 = 16" "sender_text addr p"
    "script (mdm m) = exchange_answers n addr p x @ rx"
  obtains m' where "on_modem net mk ip0 (exchange_steps i n x) (exchange_results x @ rs, m) = Some (rs, m')"
    "asks m (exchange_commands n addr p x) rx m'" "sockets m' = sockets m" "next_free_port m' = next_free_port m"
proof -
  note sl = slot_openD [OF assms(2)] and len = ok_length [OF assms(1)]
  obtain a where a: "connected (sockets m ! i)" "incoming_len (sockets m ! i) = 0" "remote_addr (sockets m ! i) = Some a" "address_text net a addr p"
    using assms(3) by (auto simp: connected_to_def)
  have x: "ex_request x \<noteq> []" "length (ex_request x) \<le> N2_MAX_PACKET_SIZE" "ex_reply x \<noteq> []" "length (ex_reply x) \<le> MAX_BUFFER_LEN"
    "length (ex_reply x) \<le> 512" "0 < length (ex_reply x)" using assms(4) by (simp_all add: modem_exchange_def MAX_BUFFER_LEN_def)
  have "set (ex_waits x) \<subseteq> {4}" "ex_ready x = 5" using assms(4) by (simp_all add: modem_exchange_def)
  then have w: "map (\<lambda>w. (w, [])) (ex_waits x) = replicate (length (ex_waits x)) (4, [])"
    by (intro nth_equalityI) (auto simp: subset_iff)
  define k l where "k = length (ex_waits x)" and "l = length (ex_reply x)"
  let ?rs2 = "(int l, ex_reply x) # rs" and ?ans = "data_answer n addr p (ex_reply x) @ rx"
  let ?rs1 = "replicate k (4, []) @ (5, []) # ?rs2"
  have "script (mdm m) = receipt n (length (ex_request x)) @ ?ans" using assms(7) by (simp add: exchange_answers_def)
  then obtain m1 where 1: "perform net mk ip0 (Call (Sent (descr i) (ex_request x))) ((int (length (ex_request x)), []) # ?rs1, m) = Some (?rs1, m1)"
    "asks m (nsost_command (int n) addr p (ex_request x)) ?ans m1" "sockets m1 = sockets m" "next_free_port m1 = next_free_port m"
    using send_on [OF assms(1,2) a(1,3,4) x(1,2)] by blast
  note o1 = slot_open_same [OF assms(2) 1(3)]
  have i1: "incoming_len (sockets m1 ! i) = 0" "0 < l" using 1(3) a(2) x(6) by (simp_all add: l_def)
  obtain m2 where 2: "on_modem net mk ip0 (wait_steps i n k l) (?rs1, m1) = Some (?rs2, m2)" "asks m1 [] (script (mdm m1)) m2"
    "sockets m2 = (sockets m1)[i := (sockets m1 ! i)\<lparr>incoming_len := int l\<rparr>]" "slot_open i n m2" "next_free_port m2 = next_free_port m1"
    using wait_on [OF asksD(1) [OF 1(2)] o1 i1, of net mk ip0 k ?rs2] by blast
  have s2: "sockets m2 = (sockets m)[i := (sockets m ! i)\<lparr>incoming_len := int l\<rparr>]" "sockets m2 ! i = (sockets m ! i)\<lparr>incoming_len := int l\<rparr>"
    using 2(3) 1(3) len sl(1) by simp_all
  have q2: "incoming_len (sockets m2 ! i) \<noteq> 0" "connected (sockets m2 ! i)" "script (mdm m2) = ?ans"
    using s2 i1 a(1) asksD(2) [OF 2(2)] asksD(2) [OF 1(2)] by simp_all
  have lm: "MAX_BUFFER_LEN < 2 ^ 15" by (simp add: MAX_BUFFER_LEN_def)
  obtain m3 where 3: "perform net mk ip0 (Call (Received_Now (descr i) MAX_BUFFER_LEN)) (?rs2, m2) = Some (rs, m3)"
    "asks m2 (nsorf_command n MAX_BUFFER_LEN) rx m3" "sockets m3 = (sockets m2)[i := (sockets m2 ! i)\<lparr>incoming_len := 0\<rparr>]"
    "next_free_port m3 = next_free_port m2"
    using receive_now_on [OF asksD(1) [OF 2(2)] 2(4) q2(1,2) assms(5,6) x(3,4,5) lm q2(3), of net mk rs] unfolding l_def by blast
  have "exchange_results x @ rs = (int (length (ex_request x)), []) # ?rs1"
    using w \<open>ex_ready x = 5\<close> by (simp add: exchange_results_def k_def l_def)
  then have "on_modem net mk ip0 (exchange_steps i n x) (exchange_results x @ rs, m) = Some (rs, m3)"
    using 1(1) on_modem_seq [OF 2(1)] 3(1) by (simp add: exchange_steps_def k_def l_def)
  moreover have "asks m (exchange_commands n addr p x) rx m3"
    using asks_trans [OF asks_trans [OF 1(2) 2(2)] 3(2)] by (simp add: exchange_commands_def)
  moreover have "sockets m3 = sockets m"
    using 3(3) s2 a(2) by (simp add: list_update_same_conv len sl(1))
  ultimately show ?thesis using that [of m3] 1(4) 2(5) 3(4) by simp
qed

lemma exchanges_on:
  assumes "n2_ok False m" "slot_open i n m" "connected_to net i addr p m" "\<forall>x \<in> set xs. modem_exchange x" "length ip0 = 16"
    "sender_text addr p" "script (mdm m) = concat (map (exchange_answers n addr p) xs) @ rx"
  shows "\<exists>m'. on_modem net mk ip0 (concat (map (exchange_steps i n) xs)) (concat (map exchange_results xs) @ rs, m) = Some (rs, m') \<and>
    asks m (concat (map (exchange_commands n addr p) xs)) rx m' \<and> sockets m' = sockets m \<and> next_free_port m' = next_free_port m"
  using assms(1-4,7)
proof (induction xs arbitrary: m)
  case Nil
  then show ?case by (simp add: asks_def)
next
  case (Cons x xs)
  have x: "modem_exchange x" "script (mdm m) = exchange_answers n addr p x @ concat (map (exchange_answers n addr p) xs) @ rx"
    using Cons.prems by simp_all
  obtain m1 where 1: "on_modem net mk ip0 (exchange_steps i n x) (exchange_results x @ concat (map exchange_results xs) @ rs, m) =
      Some (concat (map exchange_results xs) @ rs, m1)"
    "asks m (exchange_commands n addr p x) (concat (map (exchange_answers n addr p) xs) @ rx) m1" "sockets m1 = sockets m"
    "next_free_port m1 = next_free_port m"
    using exchange_on [OF Cons.prems(1,2,3) x(1) assms(5,6) x(2), of mk "concat (map exchange_results xs) @ rs"] by blast
  have "connected_to net i addr p m1" using Cons.prems(3) 1(3) by (simp add: connected_to_def)
  then obtain m2 where "on_modem net mk ip0 (concat (map (exchange_steps i n) xs)) (concat (map exchange_results xs) @ rs, m1) = Some (rs, m2)"
    "asks m1 (concat (map (exchange_commands n addr p) xs)) rx m2" "sockets m2 = sockets m1" "next_free_port m2 = next_free_port m1"
    using Cons.IH [of m1] slot_open_same [OF Cons.prems(2) 1(3)] asksD [OF 1(2)] Cons.prems(4) by auto
  then show ?case
    using 1 asks_trans [OF 1(2)] on_modem_seq [OF 1(1)] by (intro exI [of _ m2]) simp
qed

section \<open>A download\<close>

definition download_steps :: "nat \<Rightarrow> nat \<Rightarrow> bytes \<Rightarrow> nat \<Rightarrow> exchange list \<Rightarrow> modem_step list" where
  "download_steps i n h q xs = [Call (Opened (descr i)), Call (Connected (descr i) h q 0)] @ concat (map (exchange_steps i n) xs) @
     [Call (Closed (descr i))]"

definition download_results :: "nat \<Rightarrow> exchange list \<Rightarrow> (int \<times> bytes) list" where
  "download_results i xs = (descr i, []) # (0, []) # concat (map exchange_results xs)"

definition download_answers :: "nat \<Rightarrow> bytes \<Rightarrow> nat \<Rightarrow> exchange list \<Rightarrow> rx_script" where
  "download_answers n addr p xs = number_answer n @ concat (map (exchange_answers n addr p) xs) @ final_bytes AT_OK"

definition download_commands :: "int \<Rightarrow> nat \<Rightarrow> bytes \<Rightarrow> nat \<Rightarrow> exchange list \<Rightarrow> bytes" where
  "download_commands local n addr p xs = nsocr_command local @ concat (map (exchange_commands n addr p) xs) @ nsocl_command (int n)"

lemma download_steps_calls:
  "calls_of (download_steps i n h q xs) = [Opened (descr i), Connected (descr i) h q 0] @ concat (map (exchange_calls (descr i)) xs) @ [Closed (descr i)]"
proof -
  have "calls_of (concat (map (exchange_steps i n) xs)) = concat (map (exchange_calls (descr i)) xs)"
    by (induction xs) (simp_all add: exchange_steps_calls)
  then show ?thesis by (simp add: download_steps_def)
qed

lemma download_on:
  assumes "can_open i n m" "malloc_ok net (sizeof_sockaddr_in net)" "address_text net (mk h q) addr p" "sender_text addr p"
    "\<forall>x \<in> set xs. modem_exchange x" "length ip0 = 16" "script (mdm m) = download_answers n addr p xs @ rx"
  obtains m' where "on_modem net mk ip0 (download_steps i n h q xs) (download_results i xs @ rs, m) = Some (rs, m')"
    "asks m (download_commands (next_free_port m) n addr p xs) rx m'" "sockets m' = (sockets m)[i := fresh_socket]"
    "next_free_port m' = next_free_port m + 1"
proof -
  have ok: "n2_ok False m" using assms(1) by (simp add: can_open_def)
  note len = ok_length [OF ok]
  let ?xr = "concat (map exchange_results xs) @ rs" and ?xa = "concat (map (exchange_answers n addr p) xs) @ final_bytes AT_OK @ rx"
  have "script (mdm m) = number_answer n @ ?xa" using assms(7) by (simp add: download_answers_def)
  then obtain m1 s1 where 1: "perform net mk ip0 (Call (Opened (descr i))) ((descr i, []) # (0, []) # ?xr, m) = Some ((0, []) # ?xr, m1)"
    "asks m (nsocr_command (next_free_port m)) ?xa m1" "slot_open i n m1" "sockets m1 = (sockets m)[i := s1]"
    "incoming_len (sockets m1 ! i) = 0" "next_free_port m1 = next_free_port m + 1"
    using open_socket_on [OF assms(1)] by blast
  note len1 = ok_length [OF asksD(1) [OF 1(2)]] and i7 = slot_openD(1) [OF 1(3)]
  obtain m2 s2 where 2: "perform net mk ip0 (Call (Connected (descr i) h q 0)) ((0, []) # ?xr, m1) = Some (?xr, m2)"
    "asks m1 [] (script (mdm m1)) m2" "sockets m2 = (sockets m1)[i := s2]" "in_use s2" "s_id s2 = int n" "connected s2"
    "remote_addr s2 = Some (mk h q)" "incoming_len s2 = incoming_len (sockets m1 ! i)" "next_free_port m2 = next_free_port m1"
    using connect_on [OF asksD(1) [OF 1(2)] 1(3) assms(2)] by blast
  have o2: "slot_open i n m2" by (rule slot_open_update [OF 1(3) len1 2(3,4,5)])
  have c2: "connected_to net i addr p m2" using 2(3,6,7,8) 1(5) assms(3) len1 i7 by (simp add: connected_to_def)
  have q2: "script (mdm m2) = ?xa" using asksD(2) [OF 2(2)] asksD(2) [OF 1(2)] by simp
  obtain m3 where 3: "on_modem net mk ip0 (concat (map (exchange_steps i n) xs)) (?xr, m2) = Some (rs, m3)"
    "asks m2 (concat (map (exchange_commands n addr p) xs)) (final_bytes AT_OK @ rx) m3" "sockets m3 = sockets m2"
    "next_free_port m3 = next_free_port m2"
    using exchanges_on [OF asksD(1) [OF 2(2)] o2 c2 assms(5,6,4) q2] by blast
  obtain m4 where 4: "perform net mk ip0 (Call (Closed (descr i))) (rs, m3) = Some (rs, m4)"
    "asks m3 (nsocl_command (int n)) rx m4" "sockets m4 = (sockets m3)[i := fresh_socket]" "next_free_port m4 = next_free_port m3"
    using close_on [OF asksD(1) [OF 3(2)] slot_open_same [OF o2 3(3)] asksD(2) [OF 3(2)]] by blast
  have "on_modem net mk ip0 (download_steps i n h q xs) (download_results i xs @ rs, m) = Some (rs, m4)"
    using 1(1) 2(1) 4(1) on_modem_seq [OF 3(1)] by (simp add: download_steps_def download_results_def)
  moreover have "asks m (download_commands (next_free_port m) n addr p xs) rx m4"
    using asks_trans [OF asks_trans [OF asks_trans [OF 1(2) 2(2)] 3(2)] 4(2)] by (simp add: download_commands_def)
  moreover have "sockets m4 = (sockets m)[i := fresh_socket]" using 4(3) 3(3) 2(3) 1(4) by simp
  ultimately show ?thesis using that [of m4] 1(6) 2(9) 3(4) 4(4) by simp
qed

section \<open>The report\<close>

definition report_steps :: "nat \<Rightarrow> nat \<Rightarrow> bytes \<Rightarrow> exchange \<Rightarrow> modem_step list" where
  "report_steps i n server x = [Call (Opened (descr i)), Call (SentTo (descr i) (ex_request x) server DEFAULT_FOTA_COAP_PORT)] @
     wait_steps i n (length (ex_waits x)) (length (ex_reply x)) @ [Call (Received (descr i) MAX_BUFFER_LEN), Call (Closed (descr i))]"

lemma report_steps_calls: "calls_of (report_steps i n server x) = report_calls (descr i) server x"
  by (simp add: report_steps_def report_calls_def wait_steps_def replicate_append_same)

definition report_answers :: "nat \<Rightarrow> bytes \<Rightarrow> nat \<Rightarrow> exchange \<Rightarrow> rx_script" where
  "report_answers n addr p x = number_answer n @ exchange_answers n addr p x @ final_bytes AT_OK"

definition report_commands :: "int \<Rightarrow> nat \<Rightarrow> bytes \<Rightarrow> nat \<Rightarrow> exchange \<Rightarrow> bytes" where
  "report_commands local n addr p x = nsocr_command local @ exchange_commands n addr p x @ nsocl_command (int n)"

lemma modem_waits:
  assumes "modem_exchange x"
  shows "exchange_results x = (int (length (ex_request x)), []) # replicate (length (ex_waits x)) (4, []) @
     [(5, []), (int (length (ex_reply x)), ex_reply x)]"
proof -
  have "map (\<lambda>w. (w, [])) (ex_waits x) = replicate (length (ex_waits x)) (4, [])"
    using assms by (intro nth_equalityI) (auto simp: modem_exchange_def subset_iff)
  then show ?thesis using assms by (simp add: exchange_results_def modem_exchange_def)
qed

lemma report_on:
  assumes "can_open i n m" "address_text net (mk server DEFAULT_FOTA_COAP_PORT) addr p" "sender_text addr p" "modem_exchange x"
    "length ip0 = 16" "script (mdm m) = report_answers n addr p x @ rx"
  obtains m' where "on_modem net mk ip0 (report_steps i n server x) ((descr i, []) # exchange_results x @ rs, m) = Some (rs, m')"
    "asks m (report_commands (next_free_port m) n addr p x) rx m'" "sockets m' = (sockets m)[i := fresh_socket]"
    "next_free_port m' = next_free_port m + 1"
proof -
  have ok: "n2_ok False m" using assms(1) by (simp add: can_open_def)
  have x: "ex_request x \<noteq> []" "length (ex_request x) \<le> N2_MAX_PACKET_SIZE" "ex_reply x \<noteq> []" "length (ex_reply x) \<le> MAX_BUFFER_LEN"
    "length (ex_reply x) \<le> 512" "0 < length (ex_reply x)" using assms(4) by (simp_all add: modem_exchange_def MAX_BUFFER_LEN_def)
  define k l where "k = length (ex_waits x)" and "l = length (ex_reply x)"
  let ?rs3 = "(int l, ex_reply x) # rs" and ?rx3 = "data_answer n addr p (ex_reply x) @ final_bytes AT_OK @ rx"
  let ?rs2 = "replicate k (4, []) @ (5, []) # ?rs3" and ?rx2 = "receipt n (length (ex_request x)) @ ?rx3"
  let ?rs1 = "(int (length (ex_request x)), []) # ?rs2"
  have "script (mdm m) = number_answer n @ ?rx2" using assms(6) by (simp add: report_answers_def exchange_answers_def)
  then obtain m1 s1 where 1: "perform net mk ip0 (Call (Opened (descr i))) ((descr i, []) # ?rs1, m) = Some (?rs1, m1)"
    "asks m (nsocr_command (next_free_port m)) ?rx2 m1" "slot_open i n m1" "sockets m1 = (sockets m)[i := s1]"
    "incoming_len (sockets m1 ! i) = 0" "next_free_port m1 = next_free_port m + 1"
    using open_socket_on [OF assms(1)] by blast
  obtain m2 where 2: "perform net mk ip0 (Call (SentTo (descr i) (ex_request x) server DEFAULT_FOTA_COAP_PORT)) (?rs1, m1) = Some (?rs2, m2)"
    "asks m1 (nsost_command (int n) addr p (ex_request x)) ?rx3 m2" "sockets m2 = sockets m1" "next_free_port m2 = next_free_port m1"
    using sendto_on [where mk = mk and h = server and q = DEFAULT_FOTA_COAP_PORT, OF asksD(1) [OF 1(2)] 1(3) assms(2) x(1,2) asksD(2) [OF 1(2)]]
    by blast
  have i2: "incoming_len (sockets m2 ! i) = 0" "0 < l" using 2(3) 1(5) x(6) by (simp_all add: l_def)
  obtain m3 where 3: "on_modem net mk ip0 (wait_steps i n k l) (?rs2, m2) = Some (?rs3, m3)" "asks m2 [] (script (mdm m2)) m3"
    "sockets m3 = (sockets m2)[i := (sockets m2 ! i)\<lparr>incoming_len := int l\<rparr>]" "slot_open i n m3" "next_free_port m3 = next_free_port m2"
    using wait_on [OF asksD(1) [OF 2(2)] slot_open_same [OF 1(3) 2(3)] i2] by blast
  note len2 = ok_length [OF asksD(1) [OF 2(2)]] and i7 = slot_openD(1) [OF 1(3)]
  have q3: "incoming_len (sockets m3 ! i) \<noteq> 0" "script (mdm m3) = ?rx3"
    using 3(3) len2 i7 i2(2) asksD(2) [OF 3(2)] asksD(2) [OF 2(2)] by simp_all
  obtain m4 where 4: "perform net mk ip0 (Call (Received (descr i) MAX_BUFFER_LEN)) (?rs3, m3) = Some (rs, m4)"
    "asks m3 (nsorf_command n MAX_BUFFER_LEN) (final_bytes AT_OK @ rx) m4"
    "sockets m4 = (sockets m3)[i := (sockets m3 ! i)\<lparr>incoming_len := 0\<rparr>]" "next_free_port m4 = next_free_port m3"
    using receive_on [OF asksD(1) [OF 3(2)] 3(4) q3(1) assms(5,3) x(3,4,5) q3(2), of net mk rs] unfolding l_def by blast
  have o4: "slot_open i n m4"
    using slot_open_update [OF 3(4) ok_length [OF asksD(1) [OF 3(2)]] 4(3)] slot_openD [OF 3(4)] by simp
  obtain m5 where 5: "perform net mk ip0 (Call (Closed (descr i))) (rs, m4) = Some (rs, m5)"
    "asks m4 (nsocl_command (int n)) rx m5" "sockets m5 = (sockets m4)[i := fresh_socket]" "next_free_port m5 = next_free_port m4"
    using close_on [OF asksD(1) [OF 4(2)] o4 asksD(2) [OF 4(2)]] by blast
  have r: "exchange_results x @ rs = ?rs1" using modem_waits [OF assms(4)] by (simp add: k_def l_def)
  have "on_modem net mk ip0 (report_steps i n server x) ((descr i, []) # exchange_results x @ rs, m) = Some (rs, m5)"
    unfolding r using 1(1) 2(1) 4(1) 5(1) on_modem_seq [OF 3(1)] by (simp add: report_steps_def k_def l_def)
  moreover have "asks m (report_commands (next_free_port m) n addr p x) rx m5"
    using asks_trans [OF asks_trans [OF asks_trans [OF asks_trans [OF 1(2) 2(2)] 3(2)] 4(2)] 5(2)]
    by (simp add: report_commands_def exchange_commands_def)
  moreover have "sockets m5 = (sockets m)[i := fresh_socket]" using 5(3) 4(3) 3(3) 2(3) 1(4) by simp
  ultimately show ?thesis using that [of m5] 1(6) 2(4) 3(5) 4(4) 5(4) by simp
qed

section \<open>Properties\<close>

text \<open>C2: A whole update, from the report to the restart. When the server answers the report with
  a message that schedules an update, and then serves an image in blocks, and the modem answers every command
  (each reply behind any number of polls that find nothing, and its notification), the run of \<open>fota_run\<close> on the socket layer
  leaves exactly the served image in a flash whose erase and writes succeed, flushed, and ends with the restart; the modem receives exactly the commands of
  one exchange with the update server and of one exchange for each block, on a socket each that is closed again.\<close>
theorem update_on_modem:
  assumes "report_exchange c ver serial token (ids_drawn st) tmp0 x fs" "response_wf resp0" "length (response_buffer st) = MAX_BUFFER_LEN"
    "resp = fold apply_field fs resp0" "scheduled_update resp" "c_str (host resp) = Some h" "c_str (path resp) = Some pth"
    "flash_contract fl content flushed"
    "served c (coap_token c (ids_drawn st + 1)) pth (length (image_of xs)) (ids_drawn st + 1) \<lparr>total_size = 0, current_block = 0\<rparr> xs"
    "length (image_of xs) \<le> FLASH_BANK_SIZE fl"
    "results st = ((descr i, []) # exchange_results x) @ download_results i xs @ (u, []) # rest"
    "modem_exchange x" "\<forall>y \<in> set xs. modem_exchange y" "can_open i n m" "next_free_port m + 1 < 10 ^ 9"
    "n' < 10" "\<forall>sk \<in> set (sockets m). s_id sk \<noteq> int n'" "malloc_ok net (sizeof_sockaddr_in net)"
    "address_text net (mk server DEFAULT_FOTA_COAP_PORT) addr p" "sender_text addr p"
    "address_text net (mk h (unat (ucast (port resp) :: u16))) addr' p'" "sender_text addr' p'" "length ip0 = 16"
    "script (mdm m) = report_answers n addr p x @ download_answers n' addr' p' xs @ rx"
  shows "\<exists>st' steps m'. fota_run c fl ver serial server token tmp0 resp0 st = Some (True, st') \<and>
     content (dfu_ctx st') = image_of xs \<and> flushed (dfu_ctx st') \<and> sys_trace st' = sys_trace st @ calls_of steps \<and>
     on_modem net mk ip0 steps (results st, m) = Some (rest, m') \<and> last (calls_of steps) = SystemReboot \<and>
     asks m (report_commands (next_free_port m) n addr p x @ download_commands (next_free_port m + 1) n' addr' p' xs) rx m' \<and>
     sockets m' = (sockets m)[i := fresh_socket]"
proof -
  let ?q = "unat (ucast (port resp) :: u16)"
  let ?steps = "report_steps i n server x @ download_steps i n' h ?q xs @ [Call (UpgradeRequested u), Call SystemReboot]"
  have rs: "results st = (descr i, []) # exchange_results x @ (descr i, []) # (0, []) # concat (map exchange_results xs) @ (u, []) # rest"
    using assms(11) by (simp add: download_results_def)
  obtain st' where a: "fota_run c fl ver serial server token tmp0 resp0 st = Some (True, st')" "content (dfu_ctx st') = image_of xs"
    "flushed (dfu_ctx st')" "sys_trace st' = sys_trace st @ report_calls (descr i) server x @ [Opened (descr i), Connected (descr i) h ?q 0] @
       concat (map (exchange_calls (descr i)) xs) @ [Closed (descr i), UpgradeRequested u, SystemReboot]"
    using fota_run_ok [OF assms(1-8) _ _ _ assms(9,10) rs] by auto
  obtain m1 where 1: "on_modem net mk ip0 (report_steps i n server x)
      ((descr i, []) # exchange_results x @ download_results i xs @ (u, []) # rest, m) = Some (download_results i xs @ (u, []) # rest, m1)"
    "asks m (report_commands (next_free_port m) n addr p x) (download_answers n' addr' p' xs @ rx) m1"
    "sockets m1 = (sockets m)[i := fresh_socket]" "next_free_port m1 = next_free_port m + 1"
    using report_on [where mk = mk and server = server, OF assms(14,19,20,12,23,24)] by blast
  have o1: "can_open i n' m1" by (rule can_open_again [OF assms(14) asksD(1) [OF 1(2)] 1(3,4) assms(15-17)])
  obtain m2 where 2: "on_modem net mk ip0 (download_steps i n' h ?q xs) (download_results i xs @ (u, []) # rest, m1) = Some ((u, []) # rest, m2)"
    "asks m1 (download_commands (next_free_port m1) n' addr' p' xs) rx m2" "sockets m2 = (sockets m1)[i := fresh_socket]"
    using download_on [where mk = mk and h = h and q = ?q, OF o1 assms(18,21,22,13,23) asksD(2) [OF 1(2)]] by blast
  have "on_modem net mk ip0 ?steps (results st, m) = Some (rest, m2)"
    using assms(11) on_modem_seq [OF 1(1)] on_modem_seq [OF 2(1)] by simp
  moreover have "sys_trace st' = sys_trace st @ calls_of ?steps" using a(4) by (simp add: report_steps_calls download_steps_calls)
  moreover have "sockets m2 = (sockets m)[i := fresh_socket]" using 2(3) 1(3) by simp
  ultimately show ?thesis
    using a(1-3) asks_trans [OF 1(2) 2(2)] 1(4) by (intro exI [of _ st'] exI [of _ ?steps] exI [of _ m2]) simp
qed

text \<open>A small report for the concrete run: the reply schedules an update from host 3.\<close>
definition toy_fields :: "fota_field list" where
  "toy_fields = [Host [51], Path [102, 119], Port 5683, Available True]"

definition toy_report :: "bytes \<Rightarrow> exchange" where
  "toy_report packet = \<lparr>ex_request = packet, ex_waits = [4, 4], ex_ready = 5, ex_reply = [0, 0] @ message_bytes toy_fields,
     ex_payload = message_bytes toy_fields\<rparr>"

lemma toy_message_length: "length (message_bytes toy_fields) \<le> 100"
  by code_simp

lemma toy_report_exchange:
  assumes "report_packet toy_coap [49] [50] (replicate 8 0) 0 (replicate 256 0) = Some (Some packet)"
  shows "report_exchange toy_coap [49] [50] (replicate 8 0) 0 (replicate 256 0) (toy_report packet) toy_fields"
  using assms toy_message_length
  by (simp add: report_exchange_def toy_report_def toy_coap_def toy_fields_def MAX_BUFFER_LEN_def)

lemma toy_resp: "response_wf toy_response" "scheduled_update (fold apply_field toy_fields toy_response)"
  "c_str (host (fold apply_field toy_fields toy_response)) = Some [51]" "c_str (path (fold apply_field toy_fields toy_response)) = Some [102, 119]"
  "port (fold apply_field toy_fields toy_response) = 5683"
  by (simp_all add: response_wf_def toy_response_def toy_fields_def store_string_def)

lemma toy_modem_exchanges: "\<forall>y \<in> set toy_blocks. modem_exchange y"
  by (simp add: toy_blocks_def modem_exchange_def N2_MAX_PACKET_SIZE_def MAX_BUFFER_LEN_def)

theorem update_on_modem_witness:
  "\<exists>packet st' steps m'. fota_run toy_coap toy_flash [49] [50] [51] (replicate 8 0) (replicate 256 0) toy_response
       (toy_state ((101, []) # exchange_results (toy_report packet) @ download_results 1 toy_blocks @ [(0, [])])) = Some (True, st') \<and>
     dfu_ctx st' = ([7, 8, 9], True) \<and> sys_trace st' = calls_of steps \<and>
     on_modem plain_net plain_address (replicate 16 0) steps
       ((101, []) # exchange_results (toy_report packet) @ download_results 1 toy_blocks @ [(0, [])],
        listening_n2 (report_answers 4 [49, 46, 50] 5683 (toy_report packet) @ download_answers 5 [49, 46, 50] 5683 toy_blocks)) = Some ([], m') \<and>
     sent (trace (mdm m')) = report_commands 6000 4 [49, 46, 50] 5683 (toy_report packet) @
       download_commands 6001 5 [49, 46, 50] 5683 toy_blocks"
proof -
  obtain packet where p: "report_packet toy_coap [49] [50] (replicate 8 0) 0 (replicate 256 0) = Some (Some packet)" "packet \<noteq> []"
    "length packet \<le> 512" by (rule toy_packet)
  let ?x = "toy_report packet"
  let ?st = "toy_state ((101, []) # exchange_results ?x @ download_results 1 toy_blocks @ [(0, [])])"
  let ?m = "listening_n2 (report_answers 4 [49, 46, 50] 5683 ?x @ download_answers 5 [49, 46, 50] 5683 toy_blocks @ [])"
  have r: "report_exchange toy_coap [49] [50] (replicate 8 0) (ids_drawn ?st) (replicate 256 0) ?x toy_fields"
    using toy_report_exchange [OF p(1)] by (simp add: toy_state_def)
  have b: "length (response_buffer ?st) = MAX_BUFFER_LEN" by (simp add: toy_state_def MAX_BUFFER_LEN_def)
  have im: "length (image_of toy_blocks) = 3" "length (image_of toy_blocks) \<le> FLASH_BANK_SIZE toy_flash"
    by (simp_all add: toy_image toy_flash_def)
  have v: "served toy_coap (coap_token toy_coap (ids_drawn ?st + 1)) [102, 119] (length (image_of toy_blocks)) (ids_drawn ?st + 1)
      \<lparr>total_size = 0, current_block = 0\<rparr> toy_blocks"
    unfolding im(1) by (rule toy_served)
  have rs: "results ?st = ((descr 1, []) # exchange_results ?x) @ download_results 1 toy_blocks @ (0, []) # []" by (simp add: toy_state_def)
  have mx: "modem_exchange ?x"
    using p(2,3) toy_message_length by (simp add: modem_exchange_def toy_report_def N2_MAX_PACKET_SIZE_def MAX_BUFFER_LEN_def)
  have can: "can_open 1 4 ?m" by (rule listening_can_open) simp_all
  have ids: "\<forall>sk \<in> set (sockets ?m). s_id sk \<noteq> int 5" by (rule listening_can_open) simp
  have port: "next_free_port ?m + 1 < 10 ^ 9" by simp
  have mal: "malloc_ok plain_net (sizeof_sockaddr_in plain_net)" by (simp add: plain_net_def)
  have a1: "address_text plain_net (plain_address [51] DEFAULT_FOTA_COAP_PORT) [49, 46, 50] 5683"
    unfolding DEFAULT_FOTA_COAP_PORT_def by (rule plain_address_text) simp
  have q: "unat (ucast (port (fold apply_field toy_fields toy_response)) :: u16) = 5683" unfolding toy_resp(5) by simp
  have a2: "address_text plain_net (plain_address [51] (unat (ucast (port (fold apply_field toy_fields toy_response)) :: u16))) [49, 46, 50] 5683"
    unfolding q by (rule plain_address_text) simp
  have sd: "sender_text [49, 46, 50] 5683" by (rule plain_address_text) simp
  have scr: "script (mdm ?m) = report_answers 4 [49, 46, 50] 5683 ?x @ download_answers 5 [49, 46, 50] 5683 toy_blocks @ []" by simp
  obtain st' steps m' where 1: "fota_run toy_coap toy_flash [49] [50] [51] (replicate 8 0) (replicate 256 0) toy_response ?st = Some (True, st')"
    "fst (dfu_ctx st') = image_of toy_blocks" "snd (dfu_ctx st')" "sys_trace st' = sys_trace ?st @ calls_of steps"
    "on_modem plain_net plain_address (replicate 16 0) steps (results ?st, ?m) = Some ([], m')"
    "asks ?m (report_commands (next_free_port ?m) 4 [49, 46, 50] 5683 ?x @ download_commands (next_free_port ?m + 1) 5 [49, 46, 50] 5683 toy_blocks) [] m'"
    using update_on_modem [where mk = plain_address and ?ip0.0 = "replicate 16 0", OF r toy_resp(1) b refl toy_resp(2-4) toy_flash_contract v im(2) rs mx toy_modem_exchanges can port _ ids mal
        a1 sd a2 sd _ scr] by auto
  have "dfu_ctx st' = ([7, 8, 9], True)" using 1(2,3) toy_image by (simp add: prod_eq_iff)
  moreover have "sys_trace ?st = []" "results ?st = (101, []) # exchange_results ?x @ download_results 1 toy_blocks @ [(0, [])]"
    by (simp_all add: toy_state_def)
  ultimately show ?thesis
    using 1(1,4,5,6) by (intro exI [of _ packet] exI [of _ st'] exI [of _ steps] exI [of _ m']) (auto simp: asks_def)
qed

end
