(* ===== verification/Modem_Threads.thy ===== *)
theory Modem_Threads
  imports Max14830 N2_Offload
begin

text \<open>
  The threads around the modem, interleaved: the receive thread that hands over one byte after the other
  (\<open>comms_handle_char\<close>, called by \<open>max14830.c\<close>), the thread that looks for notifications (\<open>urc_threadproc\<close> of
  \<open>comms.c\<close>) and calls the callback of the socket layer (\<open>receive_cb\<close> of \<open>n2_offload.c\<close>), and the threads that use
  sockets and read bytes. A schedule is a list of turns. An operation on a socket is not one turn: it takes the lock of the modem, waits for
  the bytes of its answer, which arrive on the same line as the notifications, and gives the lock back;
  every other thread runs in between, and those that need the lock wait for it.
\<close>

section \<open>The critical sections of the socket operations\<close>

text \<open>
  What an operation does between taking and giving the lock. Most operations have one such section (a poll
  sleeps before it, for which the operation itself stands). \<open>recv\<close> and \<open>send\<close> have several: they look at a socket, and \<open>recv\<close> again behind
  each of its pauses, before they go on as \<open>recvfrom\<close> and \<open>sendto\<close>. A look can end with a value for \<open>errno\<close>.
\<close>
datatype lock_section = Whole n2_op | Look nat "errno_value option"

fun one_section :: "n2_op \<Rightarrow> bool" where
  "one_section (Op_recv ip0 arr sfd out len dw) = False"
| "one_section (Op_send sfd buf) = False"
| "one_section (Op_notify fd n) = False"
| "one_section op = True"

definition look :: "nat \<Rightarrow> errno_value option \<Rightarrow> n2 \<Rightarrow> n2 option" where
  "look i e st = do {
     let st = sem_op Take st;
     _ \<leftarrow> rd (sockets st) i;
     let st = sem_op Give st;
     Some (case e of None \<Rightarrow> st | Some x \<Rightarrow> st\<lparr>errno := Some x\<rparr>) }"

text \<open>A pause of a thread outside its sections.\<close>
definition rest_for :: "int \<Rightarrow> n2 \<Rightarrow> n2" where
  "rest_for ms st = st\<lparr>mdm := emit (Sleep ms) (mdm st)\<rparr>"

fun section_step :: "net \<Rightarrow> lock_section \<Rightarrow> n2 \<Rightarrow> n2 option" where
  "section_step net (Whole op) st = (if one_section op then n2_step net op st else None)"
| "section_step net (Look i e) st = look i e st"

lemma section_ok:
  assumes "section_step net sec st = Some st'" "n2_ok False st"
  shows "n2_ok False st'"
proof (cases sec)
  case (Whole op)
  then show ?thesis using assms n2_step_ok by (auto split: if_splits)
next
  case (Look i e)
  then have "st' = sem_op Give (sem_op Take st) \<or> st' = (sem_op Give (sem_op Take st))\<lparr>errno := e\<rparr>"
    using assms(1) by (auto simp: look_def Let_def Option.bind_eq_Some_conv split: option.splits)
  then show ?thesis using ok_give [OF ok_take [OF assms(2)]] ok_give_errno [OF ok_take [OF assms(2)]] by auto
qed

text \<open>Sections, with pauses and the notifications that come between them.\<close>
datatype part = Section lock_section | Pause int | Arrival int int

fun parts :: "net \<Rightarrow> part list \<Rightarrow> n2 \<Rightarrow> n2 option" where
  "parts net [] st = Some st"
| "parts net (Section s # ps) st = do { st \<leftarrow> section_step net s st; parts net ps st }"
| "parts net (Pause ms # ps) st = parts net ps (rest_for ms st)"
| "parts net (Arrival fd n # ps) st = parts net ps (receive_cb fd n st)"

lemma parts_append: "parts net (ps @ qs) st = Option.bind (parts net ps st) (parts net qs)"
  by (induction net ps st rule: parts.induct) (auto split: bind_splits)

lemma parts_arrivals: "parts net (map (\<lambda>(fd, n). Arrival fd n) ns) st = Some (fold (\<lambda>(fd, n). receive_cb fd n) ns st)"
  by (induction ns arbitrary: st) auto

text \<open>The pauses of the wait in \<open>recv\<close>: in each the notifications arrive, and behind it the thread looks again.\<close>
lemma recv_wait_parts:
  "recv_wait i nss k st = Some (c, st') \<Longrightarrow> \<exists>ps. parts net ps st = Some st'"
proof (induction i nss k st rule: recv_wait.induct)
  case (1 i k st)
  then show ?case by (auto split: if_splits intro: exI [of _ "[]"])
next
  case (2 i ns nss k st)
  show ?case
  proof (cases "k \<noteq> 0")
    case True
    then show ?thesis using 2(2) by (auto intro: exI [of _ "[]"])
  next
    case False
    let ?s1 = "fold (\<lambda>(fd, n). receive_cb fd n) ns (rest_for WAIT_SLEEP_FOR_RECV st)"
    obtain s where s: "rd (sockets (sem_op Take ?s1)) i = Some s" "recv_wait i nss (incoming_len s) (sem_op Give (sem_op Take ?s1)) = Some (c, st')"
      using 2(2) False by (auto simp: rest_for_def Let_def Option.bind_eq_Some_conv)
    from 2(1) [OF False refl refl refl s(1) [unfolded rest_for_def] s(2) [unfolded rest_for_def]]
    obtain ps where ps: "parts net ps (sem_op Give (sem_op Take ?s1)) = Some st'" by (auto simp: rest_for_def)
    have "parts net (Pause WAIT_SLEEP_FOR_RECV # map (\<lambda>(fd, n). Arrival fd n) ns @ Section (Look i None) # ps) st = Some st'"
      using s(1) ps by (simp add: parts_append parts_arrivals look_def Let_def)
    then show ?thesis by blast
  qed
qed

text \<open>Every operation is a run of its sections, so schedules of sections leave no operation out.\<close>
lemma operation_parts:
  assumes "n2_step net op st = Some st'"
  shows "\<exists>ps. parts net ps st = Some st'"
proof (cases "one_section op")
  case True
  then have "parts net [Section (Whole op)] st = Some st'" using assms by simp
  then show ?thesis by blast
next
  case False
  have stays: "\<exists>ps. parts net ps st = Some st" by (rule exI [of _ "[]"]) simp
  have looks: "\<exists>ps. parts net ps st = Some ((sem_op Give (sem_op Take st))\<lparr>errno := Some x\<rparr>)"
    "\<exists>ps. parts net ps st = Some (sem_op Give (sem_op Take st))" if "rd (sockets st) i = Some s" for i s x
    using that by (auto intro: exI [of _ "[Section (Look i (Some x))]"] exI [of _ "[Section (Look i None)]"] simp: look_def)
  consider (recv) ip0 arr sfd out len dw where "op = Op_recv ip0 arr sfd out len dw" | (send) sfd buf where "op = Op_send sfd buf"
    | (notify) fd n where "op = Op_notify fd n" using False by (cases op) auto
  then show ?thesis
  proof cases
    case notify
    then show ?thesis using assms by (auto intro: exI [of _ "[Arrival fd n]"])
  next
    case send
    obtain valid where v: "VALID_SOCKET sfd st = Some valid" using assms send by (auto simp: offload_send_def Option.bind_eq_Some_conv)
    show ?thesis
    proof (cases valid)
      case False
      then show ?thesis using assms send v stays by (simp add: offload_send_def)
    next
      case True
      then obtain s where s: "rd (sockets st) (S_TO_I sfd) = Some s"
        using assms send v by (auto simp: offload_send_def Let_def Option.bind_eq_Some_conv)
      show ?thesis
      proof (cases "connected s")
        case False
        then show ?thesis using assms send v True s looks(2) by (simp add: offload_send_def Let_def)
      next
        case c: True
        then have "parts net [Section (Look (S_TO_I sfd) None), Section (Whole (Op_sendto sfd buf (remote_addr s)))] st = Some st'"
          using assms send v True s by (auto simp: offload_send_def Let_def look_def)
        then show ?thesis by blast
      qed
    qed
  next
    case recv
    obtain valid where v: "VALID_SOCKET sfd st = Some valid" using assms recv by (auto simp: offload_recv_def Option.bind_eq_Some_conv)
    show ?thesis
    proof (cases valid)
      case False
      then show ?thesis using assms recv v stays by (simp add: offload_recv_def)
    next
      case True
      then obtain s where s: "rd (sockets st) (S_TO_I sfd) = Some s"
        using assms recv v by (auto simp: offload_recv_def Let_def Option.bind_eq_Some_conv)
      show ?thesis
      proof (cases "\<not> connected s \<or> incoming_len s = 0 \<and> dw")
        case True
        then show ?thesis using assms recv v \<open>valid\<close> s looks by (auto simp: offload_recv_def Let_def split: if_splits)
      next
        case False
        then obtain c s1 where w: "recv_wait (S_TO_I sfd) arr (incoming_len s) (sem_op Give (sem_op Take st)) = Some (c, s1)"
          "n2_step net (Op_recvfrom ip0 sfd (out\<lparr>out_from := None, out_fromlen := None\<rparr>) (signed_take_bit 15 len)) s1 = Some st'"
          using assms recv v \<open>valid\<close> s by (auto simp: offload_recv_def Let_def Option.bind_eq_Some_conv)
        obtain ps where "parts net ps (sem_op Give (sem_op Take st)) = Some s1" using recv_wait_parts [OF w(1)] by blast
        then have "parts net (Section (Look (S_TO_I sfd) None) # ps @
            [Section (Whole (Op_recvfrom ip0 sfd (out\<lparr>out_from := None, out_fromlen := None\<rparr>) (signed_take_bit 15 len)))]) st = Some st'"
          using s w(2) by (auto simp: look_def parts_append)
        then show ?thesis by blast
      qed
    qed
  qed
qed

section \<open>The shared state and the turns\<close>

text \<open>
  The section that a thread is in, with what it has read so far, and the call of the callback that waits for the lock. The
  socket layer changes when a section ends: nothing else changes it while the lock is held.
\<close>
record ('r, 's) threads =
  line :: "('r, 's) comms"
  urc_thread :: urc_state
  recv_cb :: "(int \<Rightarrow> int \<Rightarrow> n2 \<Rightarrow> n2) option"
  layer :: n2
  cb_calls :: "(int \<times> int) list"
  holder :: "lock_section option"
  bytes_read :: rx_script
  blocked :: "(int \<times> int) option"

text \<open>The registration of the callback, which the start of the socket layer does with \<open>receive_cb\<close>.\<close>
definition receive_callback :: "(int \<Rightarrow> int \<Rightarrow> n2 \<Rightarrow> n2) \<Rightarrow> ('r, 's) threads \<Rightarrow> ('r, 's) threads" where
  "receive_callback cb t = t\<lparr>recv_cb := Some cb\<rparr>"

text \<open>The call of the callback: it needs the lock, and waits while a section holds it.\<close>
definition call_callback :: "int \<Rightarrow> int \<Rightarrow> ('r, 's) threads \<Rightarrow> ('r, 's) threads" where
  "call_callback fd n t =
     (case recv_cb t of
        None \<Rightarrow> t
      | Some cb \<Rightarrow>
          if holder t = None then t\<lparr>layer := cb fd n (layer t), cb_calls := cb_calls t @ [(fd, n)], blocked := None\<rparr>
          else t\<lparr>blocked := Some (fd, n)\<rparr>)"

text \<open>
  One turn of the endless loop of \<open>urc_threadproc\<close>: it waits for the semaphore (then the turn changes nothing),
  takes a byte if there is one, and calls the callback at the end of a notification. A thread that waits for the lock tries again.
\<close>
definition urc_turn :: "('r, 's) kernel \<Rightarrow> ('r, 's) threads \<Rightarrow> ('r, 's) threads option" where
  "urc_turn k t =
     (case blocked t of
        Some (fd, n) \<Rightarrow> Some (call_callback fd n t)
      | None \<Rightarrow>
          (let (r, sem) = sem_take k (urc_sem (line t))
           in if r \<noteq> 0 then Some t
              else let (got, rb) = ring_get k (urc_rb (line t));
                       t = t\<lparr>line := (line t)\<lparr>urc_sem := sem, urc_rb := rb\<rparr>\<rparr>
                in case got of
                     None \<Rightarrow> Some t
                   | Some b \<Rightarrow> do {
                       (call, u) \<leftarrow> urc_byte (recv_cb t \<noteq> None) b (urc_thread t);
                       let t = t\<lparr>urc_thread := u\<rparr>;
                       Some (case call of None \<Rightarrow> t | Some (fd, n) \<Rightarrow> call_callback fd n t) }))"

text \<open>The end of a section: the operation has used up exactly the bytes that were read in it.\<close>
definition leave :: "net \<Rightarrow> ('r, 's) threads \<Rightarrow> ('r, 's) threads option" where
  "leave net t =
     (case holder t of
        None \<Rightarrow> Some t
      | Some sec \<Rightarrow> do {
          m \<leftarrow> section_step net sec ((layer t)\<lparr>mdm := (mdm (layer t))\<lparr>script := bytes_read t @ [None]\<rparr>\<rparr>);
          if script (mdm m) = [None]
          then Some (t\<lparr>layer := m\<lparr>mdm := (mdm m)\<lparr>script := []\<rparr>\<rparr>, holder := None, bytes_read := []\<rparr>)
          else None })"

text \<open>
  A byte arrives, the notification thread runs, somebody reads a byte (in a section for its operation), a thread enters a section (or goes
  on waiting for the lock), the section ends, or a thread pauses outside. \<open>None\<close>: a section that is not at its end, or an access outside an array.
\<close>
datatype turn = Byte u8 | Urc_Turn | Read_Turn | Enter lock_section | Leave | Pause_Turn int

fun take_turn :: "('r, 's) kernel \<Rightarrow> net \<Rightarrow> turn \<Rightarrow> ('r, 's) threads \<Rightarrow> ('r, 's) threads option" where
  "take_turn k net (Byte b) t = Some (t\<lparr>line := comms_handle_char k b (line t)\<rparr>)"
| "take_turn k net Urc_Turn t = urc_turn k t"
| "take_turn k net Read_Turn t =
     (case modem_read k (line t) of
        (b, l) \<Rightarrow> Some (t\<lparr>line := l, bytes_read := (if holder t = None then bytes_read t else bytes_read t @ [b])\<rparr>))"
| "take_turn k net (Enter sec) t = Some (if holder t = None then t\<lparr>holder := Some sec, bytes_read := []\<rparr> else t)"
| "take_turn k net Leave t = leave net t"
| "take_turn k net (Pause_Turn ms) t = Some (t\<lparr>layer := rest_for ms (layer t)\<rparr>)"

fun schedule :: "('r, 's) kernel \<Rightarrow> net \<Rightarrow> turn list \<Rightarrow> ('r, 's) threads \<Rightarrow> ('r, 's) threads option" where
  "schedule k net [] t = Some t"
| "schedule k net (x # xs) t = do { t \<leftarrow> take_turn k net x t; schedule k net xs t }"

text \<open>The bytes that arrive in a schedule, and whether both buffers have room for each of them when it arrives.\<close>
fun arriving :: "turn list \<Rightarrow> bytes" where
  "arriving [] = []"
| "arriving (Byte b # xs) = b # arriving xs"
| "arriving (x # xs) = arriving xs"

definition has_room :: "('r \<Rightarrow> bytes) \<Rightarrow> ('r \<Rightarrow> nat) \<Rightarrow> ('r, 's) comms \<Rightarrow> bool" where
  "has_room content cap s \<longleftrightarrow> length (content (rx_rb s)) < cap (rx_rb s) \<and> length (content (urc_rb s)) < cap (urc_rb s)"

fun no_overflow :: "('r, 's) kernel \<Rightarrow> ('r \<Rightarrow> bytes) \<Rightarrow> ('r \<Rightarrow> nat) \<Rightarrow> net \<Rightarrow> turn list \<Rightarrow> ('r, 's) threads \<Rightarrow> bool" where
  "no_overflow k content cap net [] t \<longleftrightarrow> True"
| "no_overflow k content cap net (x # xs) t \<longleftrightarrow>
     (case x of Byte b \<Rightarrow> has_room content cap (line t) | _ \<Rightarrow> True) \<and>
     (case take_turn k net x t of None \<Rightarrow> True | Some t \<Rightarrow> no_overflow k content cap net xs t)"

section \<open>What every turn keeps\<close>

text \<open>The semaphore of the notification thread counts the bytes that are put aside for it.\<close>
definition urc_ok :: "('r \<Rightarrow> bytes) \<Rightarrow> ('r \<Rightarrow> nat) \<Rightarrow> ('s \<Rightarrow> nat) \<Rightarrow> ('s \<Rightarrow> nat) \<Rightarrow> ('r, 's) comms \<Rightarrow> bool" where
  "urc_ok content cap count limit s \<longleftrightarrow>
     count (urc_sem s) = length (content (urc_rb s)) \<and> length (content (urc_rb s)) \<le> cap (urc_rb s) \<and> cap (urc_rb s) \<le> limit (urc_sem s)"

lemma urc_ok_byte:
  assumes "ring_contract k content cap" "sem_contract k count limit" "urc_ok content cap count limit s" "has_room content cap s"
  shows "urc_ok content cap count limit (comms_handle_char k b s)"
proof -
  have "urc_sem (comms_handle_char k b s) = (if urc_now b s then sem_give k (urc_sem s) else urc_sem s)"
    by (auto simp: comms_handle_char_def Let_def urc_now_def)
  moreover have "length (content (urc_rb s)) < cap (urc_rb s)" using assms(4) by (simp add: has_room_def)
  ultimately show ?thesis
    using assms(3) ring_put_room [OF assms(1), of "urc_rb s" b] sem_give_room [OF assms(2), of "urc_sem s"]
      ring_cap [OF assms(1)] sem_limit [OF assms(2)]
    by (auto simp: urc_ok_def handle_char_fields)
qed

lemma modem_read_urc [simp]:
  "urc_rb (snd (modem_read k s)) = urc_rb s" "urc_sem (snd (modem_read k s)) = urc_sem s"
  "prev_char (snd (modem_read k s)) = prev_char s" "in_urc (snd (modem_read k s)) = in_urc s"
  by (simp_all add: modem_read_def Let_def)

text \<open>The state between turns.\<close>
definition threads_ok :: "('r \<Rightarrow> bytes) \<Rightarrow> ('r \<Rightarrow> nat) \<Rightarrow> ('s \<Rightarrow> nat) \<Rightarrow> ('s \<Rightarrow> nat) \<Rightarrow> ('r, 's) threads \<Rightarrow> bool" where
  "threads_ok content cap count limit t \<longleftrightarrow> comms_ok content cap count limit (line t) \<and> urc_ok content cap count limit (line t) \<and>
     n2_ok False (layer t) \<and> recv_cb t = Some receive_cb"

text \<open>The calls that the notification thread has begun and not finished.\<close>
definition pending :: "('r, 's) threads \<Rightarrow> (int \<times> int) list" where
  "pending t = (case blocked t of None \<Rightarrow> [] | Some c \<Rightarrow> [c])"

text \<open>The callback is called now or later, and does not touch the line.\<close>
lemma call_callback_once:
  assumes "threads_ok content cap count limit t"
  shows "threads_ok content cap count limit (call_callback fd n t)" "line (call_callback fd n t) = line t"
    "urc_thread (call_callback fd n t) = urc_thread t"
    "cb_calls (call_callback fd n t) @ pending (call_callback fd n t) = cb_calls t @ [(fd, n)]"
    "\<exists>made. cb_calls (call_callback fd n t) = cb_calls t @ made"
  using assms ok_receive_cb by (auto simp: call_callback_def threads_ok_def pending_def)

text \<open>The thread without a byte waits; with one it makes a step of \<open>urc_threadproc\<close>.\<close>
lemma urc_turn_empty:
  assumes "sem_contract k count limit" "threads_ok content cap count limit t" "content (urc_rb (line t)) = []" "blocked t = None"
  shows "urc_turn k t = Some t"
  using sem_take_none [OF assms(1), of "urc_sem (line t)"] assms(2-4)
  by (auto simp: urc_turn_def threads_ok_def urc_ok_def Let_def split: prod.split)

lemma urc_turn_byte:
  assumes "ring_contract k content cap" "sem_contract k count limit" "threads_ok content cap count limit t" "blocked t = None"
    "content (urc_rb (line t)) = b # bs" "urc_byte True b (urc_thread t) = Some (call, u)"
  obtains t' where "urc_turn k t = Some t'" "threads_ok content cap count limit t'" "content (urc_rb (line t')) = bs" "urc_thread t' = u"
    "cb_calls t' @ pending t' = cb_calls t @ (case call of None \<Rightarrow> [] | Some c \<Rightarrow> [c])" "\<exists>made. cb_calls t' = cb_calls t @ made"
    "prev_char (line t') = prev_char (line t)" "in_urc (line t') = in_urc (line t)"
proof -
  obtain r sem where q: "sem_take k (urc_sem (line t)) = (r, sem)" by fastforce
  obtain got rb where p: "ring_get k (urc_rb (line t)) = (got, rb)" by fastforce
  have s: "r = 0" "count sem = count (urc_sem (line t)) - 1" "limit sem = limit (urc_sem (line t))"
    using sem_take_some [OF assms(2), of "urc_sem (line t)"] sem_limit(2) [OF assms(2), of "urc_sem (line t)"] assms(3,5) q
    by (auto simp: threads_ok_def urc_ok_def)
  have g: "got = Some b" "content rb = bs" "cap rb = cap (urc_rb (line t))"
    using ring_get_head [OF assms(1,5)] ring_cap(2) [OF assms(1), of "urc_rb (line t)"] p by auto
  let ?t1 = "t\<lparr>line := (line t)\<lparr>urc_sem := sem, urc_rb := rb\<rparr>, urc_thread := u\<rparr>"
  have ok: "threads_ok content cap count limit ?t1"
    using assms(3,5) s(2,3) g(2,3) by (auto simp: threads_ok_def comms_ok_def urc_ok_def)
  have cb: "recv_cb t = Some receive_cb" using assms(3) by (simp add: threads_ok_def)
  have turn: "urc_turn k t = Some (case call of None \<Rightarrow> ?t1 | Some (fd, n) \<Rightarrow> call_callback fd n ?t1)"
    using s(1) g(1) p q cb assms(4,6) by (simp add: urc_turn_def Let_def)
  show ?thesis
  proof (cases call)
    case None
    then show ?thesis using that [OF turn] ok g(2) assms(4) by (simp add: pending_def)
  next
    case (Some c)
    obtain fd n where c: "c = (fd, n)" by fastforce
    show ?thesis using that [OF turn] call_callback_once [OF ok, of fd n] g(2) Some c by simp
  qed
qed

text \<open>The end of a section.\<close>
lemma leave_keeps:
  assumes "leave net t = Some t'" "threads_ok content cap count limit t"
  shows "threads_ok content cap count limit t'" "line t' = line t" "urc_thread t' = urc_thread t" "cb_calls t' = cb_calls t" "blocked t' = blocked t"
proof -
  have "threads_ok content cap count limit t' \<and> line t' = line t \<and> urc_thread t' = urc_thread t \<and> cb_calls t' = cb_calls t \<and> blocked t' = blocked t"
  proof (cases "holder t")
    case None
    then show ?thesis using assms by (simp add: leave_def)
  next
    case (Some sec)
    let ?m0 = "(layer t)\<lparr>mdm := (mdm (layer t))\<lparr>script := bytes_read t @ [None]\<rparr>\<rparr>"
    obtain m where m: "section_step net sec ?m0 = Some m"
      "t' = t\<lparr>layer := m\<lparr>mdm := (mdm m)\<lparr>script := []\<rparr>\<rparr>, holder := None, bytes_read := []\<rparr>"
      using assms(1) Some by (auto simp: leave_def Option.bind_eq_Some_conv split: if_splits)
    have "n2_ok False ?m0" using assms(2) ok_script by (simp add: threads_ok_def)
    then have "n2_ok False (m\<lparr>mdm := (mdm m)\<lparr>script := []\<rparr>\<rparr>)" using section_ok [OF m(1)] ok_script by blast
    then show ?thesis using assms(2) m(2) by (simp add: threads_ok_def)
  qed
  then show "threads_ok content cap count limit t'" "line t' = line t" "urc_thread t' = urc_thread t" "cb_calls t' = cb_calls t"
    "blocked t' = blocked t" by simp_all
qed

section \<open>No notification is lost in any schedule\<close>

text \<open>An arriving byte moves from the bytes still to come to the bytes put aside.\<close>
lemma byte_turn:
  assumes "ring_contract k content cap" "sem_contract k count limit" "threads_ok content cap count limit t" "has_room content cap (line t)"
    "t' = t\<lparr>line := comms_handle_char k b (line t)\<rparr>"
  shows "threads_ok content cap count limit t'"
    "content (urc_rb (line t')) @ urc_stream (prev_char (line t')) (in_urc (line t')) bs =
       content (urc_rb (line t)) @ urc_stream (prev_char (line t)) (in_urc (line t)) (b # bs)"
proof -
  have ok: "comms_ok content cap count limit (line t)" "urc_ok content cap count limit (line t)" using assms(3) by (simp_all add: threads_ok_def)
  have rx: "comms_ok content cap count limit (line t')" "prev_char (line t') = b"
    using handle_char_rx [OF assms(1,2) ok(1), of b] assms(4,5) by (simp_all add: has_room_def)
  show "threads_ok content cap count limit t'"
    using rx(1) urc_ok_byte [OF assms(1,2) ok(2) assms(4)] assms(3,5) by (simp add: threads_ok_def)
  show "content (urc_rb (line t')) @ urc_stream (prev_char (line t')) (in_urc (line t')) bs =
      content (urc_rb (line t)) @ urc_stream (prev_char (line t)) (in_urc (line t)) (b # bs)"
    using handle_char_urc [OF assms(1), of "line t" b] assms(4,5) rx(2)
    by (simp add: has_room_def handle_char_fields urc_now_def Let_def)
qed

text \<open>
  The calls still to come: the one that waits for the lock, those of the bytes put aside, and those of the bytes that will arrive. A schedule
  makes a first part of them, and what waits at its end still gives the rest.
\<close>
definition to_come :: "('r \<Rightarrow> bytes) \<Rightarrow> bytes \<Rightarrow> ('r, 's) threads \<Rightarrow> (int \<times> int) list \<Rightarrow> urc_state \<Rightarrow> bool" where
  "to_come content bs t cs u \<longleftrightarrow> (\<exists>rest. cs = pending t @ rest \<and>
     urc_threadproc True (content (urc_rb (line t)) @ urc_stream (prev_char (line t)) (in_urc (line t)) bs) (urc_thread t) = Some (rest, u))"

lemma to_come_same:
  "urc_rb (line t') = urc_rb (line t) \<Longrightarrow> prev_char (line t') = prev_char (line t) \<Longrightarrow> in_urc (line t') = in_urc (line t) \<Longrightarrow>
     urc_thread t' = urc_thread t \<Longrightarrow> blocked t' = blocked t \<Longrightarrow> to_come content bs t' cs u = to_come content bs t cs u"
  by (simp add: to_come_def pending_def)

text \<open>One turn of the notification thread.\<close>
lemma urc_turn_calls:
  assumes "ring_contract k content cap" "sem_contract k count limit" "threads_ok content cap count limit t" "urc_turn k t = Some t'"
    "to_come content bs t cs u"
  shows "\<exists>made cs'. cs = made @ cs' \<and> cb_calls t' = cb_calls t @ made \<and> threads_ok content cap count limit t' \<and> to_come content bs t' cs' u"
proof (cases "blocked t")
  case (Some c)
  obtain fd n where c: "c = (fd, n)" by fastforce
  have t': "t' = call_callback fd n t" using assms(4) Some c by (simp add: urc_turn_def)
  note k = call_callback_once [OF assms(3), of fd n]
  obtain made where made: "cb_calls t' = cb_calls t @ made" using k(5) t' by blast
  then have p: "made @ pending t' = [(fd, n)]" using k(4) t' by simp
  obtain rest where rest: "cs = (fd, n) # rest"
    "urc_threadproc True (content (urc_rb (line t)) @ urc_stream (prev_char (line t)) (in_urc (line t)) bs) (urc_thread t) = Some (rest, u)"
    using assms(5) Some c by (auto simp: to_come_def pending_def)
  have "cs = made @ pending t' @ rest" using p rest(1) by (metis append_assoc append_Cons append_Nil)
  moreover have "to_come content bs t' (pending t' @ rest) u" using rest(2) k(2,3) t' by (simp add: to_come_def)
  ultimately show ?thesis using made k(1) t' by blast
next
  case None
  show ?thesis
  proof (cases "content (urc_rb (line t))")
    case Nil
    then have "t' = t" using urc_turn_empty [OF assms(2,3) Nil None] assms(4) by simp
    then show ?thesis using assms(3,5) by (intro exI [of _ "[]"] exI [of _ cs]) simp
  next
    case c: (Cons b bs')
    let ?more = "urc_stream (prev_char (line t)) (in_urc (line t)) bs"
    obtain call u1 calls where b: "urc_byte True b (urc_thread t) = Some (call, u1)" "urc_threadproc True (bs' @ ?more) u1 = Some (calls, u)"
      "cs = (case call of None \<Rightarrow> calls | Some c \<Rightarrow> c # calls)"
      using assms(5) c None by (auto simp: to_come_def pending_def Option.bind_eq_Some_conv)
    have 1: "threads_ok content cap count limit t'" "content (urc_rb (line t')) = bs'" "urc_thread t' = u1"
      "cb_calls t' @ pending t' = cb_calls t @ (case call of None \<Rightarrow> [] | Some c \<Rightarrow> [c])" "\<exists>made. cb_calls t' = cb_calls t @ made"
      "prev_char (line t') = prev_char (line t)" "in_urc (line t') = in_urc (line t)"
      using urc_turn_byte [OF assms(1-3) None c b(1)] assms(4) by (metis option.inject)+
    obtain made where made: "cb_calls t' = cb_calls t @ made" using 1(5) by blast
    then have "made @ pending t' = (case call of None \<Rightarrow> [] | Some c \<Rightarrow> [c])" using 1(4) by simp
    then have "cs = made @ pending t' @ calls" using b(3) by (cases call) (simp_all flip: append_assoc)
    moreover have "to_come content bs t' (pending t' @ calls) u" using b(2) 1(2,3,6,7) by (simp add: to_come_def)
    ultimately show ?thesis using made 1(1) by blast
  qed
qed

lemma turn_calls:
  assumes "ring_contract k content cap" "sem_contract k count limit" "threads_ok content cap count limit t"
    "case x of Byte b \<Rightarrow> has_room content cap (line t) | _ \<Rightarrow> True" "take_turn k net x t = Some t'"
    "to_come content (arriving (x # xs)) t cs u"
  shows "\<exists>made cs'. cs = made @ cs' \<and> cb_calls t' = cb_calls t @ made \<and> threads_ok content cap count limit t' \<and>
    to_come content (arriving xs) t' cs' u"
proof -
  have ok: "comms_ok content cap count limit (line t)" using assms(3) by (simp add: threads_ok_def)
  have nothing: ?thesis if "cb_calls t' = cb_calls t" "threads_ok content cap count limit t'" "to_come content (arriving xs) t' cs u"
    using that by (intro exI [of _ "[]"] exI [of _ cs]) simp
  show ?thesis
  proof (cases x)
    case (Byte b)
    have t': "t' = t\<lparr>line := comms_handle_char k b (line t)\<rparr>" using assms(5) Byte by simp
    have "has_room content cap (line t)" using assms(4) Byte by simp
    note k = byte_turn [OF assms(1-3) this t']
    show ?thesis using nothing k assms(6) t' Byte by (simp add: to_come_def pending_def)
  next
    case Urc_Turn
    then show ?thesis using urc_turn_calls [OF assms(1-3)] assms(5,6) by simp
  next
    case Read_Turn
    have t': "line t' = snd (modem_read k (line t))" "urc_thread t' = urc_thread t" "cb_calls t' = cb_calls t" "blocked t' = blocked t"
      "layer t' = layer t" "recv_cb t' = recv_cb t"
      using assms(5) Read_Turn by (auto split: prod.splits)
    have "threads_ok content cap count limit t'"
      using assms(3) modem_read_rx(1) [OF assms(1,2) ok] t' by (simp add: threads_ok_def urc_ok_def)
    then show ?thesis using nothing t' assms(6) Read_Turn to_come_same [of t' t content "arriving xs" cs u] by simp
  next
    case (Enter sec)
    then have t': "line t' = line t" "urc_thread t' = urc_thread t" "cb_calls t' = cb_calls t" "blocked t' = blocked t"
      "layer t' = layer t" "recv_cb t' = recv_cb t"
      using assms(5) by (auto split: if_splits)
    then have "threads_ok content cap count limit t'" using assms(3) by (simp add: threads_ok_def)
    then show ?thesis using nothing t' assms(6) Enter to_come_same [of t' t content "arriving xs" cs u] by simp
  next
    case Leave
    then have "leave net t = Some t'" using assms(5) by simp
    note k = leave_keeps [OF this assms(3)]
    show ?thesis using nothing k assms(6) Leave to_come_same [of t' t content "arriving xs" cs u] by simp
  next
    case (Pause_Turn ms)
    have t': "t' = t\<lparr>layer := rest_for ms (layer t)\<rparr>" using assms(5) Pause_Turn by simp
    then have "threads_ok content cap count limit t'" using assms(3) ok_sleep by (simp add: threads_ok_def rest_for_def)
    then show ?thesis using nothing t' assms(6) Pause_Turn to_come_same [of t' t content "arriving xs" cs u] by simp
  qed
qed

lemma schedule_calls:
  assumes "ring_contract k content cap" "sem_contract k count limit" "threads_ok content cap count limit t"
    "no_overflow k content cap net xs t" "schedule k net xs t = Some t'" "to_come content (arriving xs) t cs u"
  shows "\<exists>made cs'. cs = made @ cs' \<and> cb_calls t' = cb_calls t @ made \<and> threads_ok content cap count limit t' \<and> to_come content [] t' cs' u"
  using assms(3-6)
proof (induction xs arbitrary: t cs)
  case Nil
  then show ?case by (intro exI [of _ "[]"] exI [of _ cs]) simp
next
  case (Cons x xs)
  obtain t1 where 1: "take_turn k net x t = Some t1" "schedule k net xs t1 = Some t'" "no_overflow k content cap net xs t1"
    "case x of Byte b \<Rightarrow> has_room content cap (line t) | _ \<Rightarrow> True"
    using Cons.prems(2,3) by (auto simp: Option.bind_eq_Some_conv)
  obtain made cs1 where m: "cs = made @ cs1" "cb_calls t1 = cb_calls t @ made" "threads_ok content cap count limit t1"
    "to_come content (arriving xs) t1 cs1 u"
    using turn_calls [OF assms(1,2) Cons.prems(1) 1(4,1) Cons.prems(4)] by blast
  obtain made' cs' where "cs1 = made' @ cs'" "cb_calls t' = cb_calls t1 @ made'" "threads_ok content cap count limit t'"
    "to_come content [] t' cs' u"
    using Cons.IH [OF m(3) 1(3,2) m(4)] by blast
  then show ?case using m(1,2) by (intro exI [of _ "made @ made'"] exI [of _ cs']) simp
qed

text \<open>There is room whenever the buffers can hold everything that arrives.\<close>
lemma call_callback_line [simp]: "line (call_callback fd n t) = line t"
  by (simp add: call_callback_def split: option.split)

lemma urc_turn_ring:
  assumes "ring_contract k content cap" "urc_turn k t = Some t'"
  shows "rx_rb (line t') = rx_rb (line t) \<and> cap (urc_rb (line t')) = cap (urc_rb (line t)) \<and>
    length (content (urc_rb (line t'))) \<le> length (content (urc_rb (line t)))"
proof (cases "blocked t")
  case (Some c)
  then show ?thesis using assms(2) by (auto simp: urc_turn_def split: prod.splits)
next
  case None
  obtain r sem where s: "sem_take k (urc_sem (line t)) = (r, sem)" by fastforce
  obtain got rb where g: "ring_get k (urc_rb (line t)) = (got, rb)" by fastforce
  have rb: "cap rb = cap (urc_rb (line t))" "length (content rb) \<le> length (content (urc_rb (line t)))"
    using ring_cap(2) [OF assms(1), of "urc_rb (line t)"] ring_get_any [OF assms(1), of "urc_rb (line t)"] g by (auto split: list.splits)
  show ?thesis
    using assms(2) s g rb None
    by (cases got) (auto simp: urc_turn_def Let_def Option.bind_eq_Some_conv split: if_splits option.splits)
qed

lemma leave_line: "leave net t = Some t' \<Longrightarrow> line t' = line t"
  by (auto simp: leave_def Option.bind_eq_Some_conv split: option.splits if_splits)

lemma ring_put_length: "ring_contract k content cap \<Longrightarrow> length (content (snd (ring_put k r b))) \<le> Suc (length (content r))"
  using ring_put_room [of k content cap r b] ring_put_full [of k content cap r b] by (cases "length (content r) < cap r") simp_all

lemma handle_char_length:
  assumes "ring_contract k content cap"
  shows "length (content (rx_rb (comms_handle_char k b s))) \<le> Suc (length (content (rx_rb s)))"
    "length (content (urc_rb (comms_handle_char k b s))) \<le> Suc (length (content (urc_rb s)))"
  using ring_put_length [OF assms] by (simp_all add: handle_char_fields le_SucI)

lemma modem_read_length:
  assumes "ring_contract k content cap"
  shows "cap (rx_rb (snd (modem_read k s))) = cap (rx_rb s)" "length (content (rx_rb (snd (modem_read k s)))) \<le> length (content (rx_rb s))"
  using ring_cap(2) [OF assms, of "rx_rb s"] ring_get_any [OF assms, of "rx_rb s"]
  by (auto simp: modem_read_def Let_def split: list.splits)

definition fits :: "('r \<Rightarrow> bytes) \<Rightarrow> ('r \<Rightarrow> nat) \<Rightarrow> nat \<Rightarrow> ('r, 's) comms \<Rightarrow> bool" where
  "fits content cap n s \<longleftrightarrow> length (content (rx_rb s)) + n \<le> cap (rx_rb s) \<and> length (content (urc_rb s)) + n \<le> cap (urc_rb s)"

lemma no_overflow_fits:
  assumes "ring_contract k content cap" "fits content cap (length (arriving xs)) (line t)"
  shows "no_overflow k content cap net xs t"
  using assms(2)
proof (induction xs arbitrary: t)
  case (Cons x xs)
  show ?case
  proof (cases x)
    case (Byte b)
    have "fits content cap (length (arriving xs)) (comms_handle_char k b (line t))"
      using Cons.prems handle_char_length [OF assms(1), of b "line t"] Byte
      by (simp add: fits_def handle_char_caps [OF assms(1)])
    then show ?thesis
      using Cons.prems Byte Cons.IH [of "t\<lparr>line := comms_handle_char k b (line t)\<rparr>"] by (simp add: has_room_def fits_def)
  next
    case Urc_Turn
    have "fits content cap (length (arriving xs)) (line t')" if "urc_turn k t = Some t'" for t'
      using Cons.prems urc_turn_ring [OF assms(1) that] Urc_Turn by (simp add: fits_def)
    then show ?thesis using Cons.IH Urc_Turn by (simp split: option.split)
  next
    case Read_Turn
    have "fits content cap (length (arriving xs)) (snd (modem_read k (line t)))"
      using Cons.prems modem_read_length [OF assms(1), of "line t"] Read_Turn by (simp add: fits_def)
    moreover obtain b l where "modem_read k (line t) = (b, l)" by fastforce
    ultimately show ?thesis using Read_Turn by (simp add: Cons.IH)
  next
    case (Enter sec)
    then show ?thesis using Cons.prems Cons.IH by simp
  next
    case Leave
    then show ?thesis using Cons.prems Cons.IH leave_line by (fastforce split: option.split)
  next
    case (Pause_Turn ms)
    then show ?thesis using Cons.prems Cons.IH by simp
  qed
qed simp

section \<open>What the sockets see\<close>

text \<open>Without a thread that uses sockets, the sockets change by the calls of the callback only, which never wait.\<close>
definition unused :: "('r, 's) threads \<Rightarrow> bool" where
  "unused t \<longleftrightarrow> recv_cb t = Some receive_cb \<and> holder t = None \<and> blocked t = None"

lemma urc_turn_layer:
  assumes "urc_turn k t = Some t'" "unused t"
  shows "\<exists>made. cb_calls t' = cb_calls t @ made \<and> layer t' = fold (\<lambda>(fd, n). receive_cb fd n) made (layer t) \<and> unused t'"
proof -
  obtain r sem where s: "sem_take k (urc_sem (line t)) = (r, sem)" by fastforce
  obtain got rb where g: "ring_get k (urc_rb (line t)) = (got, rb)" by fastforce
  show ?thesis
  proof (cases "r \<noteq> 0 \<or> got = None")
    case True
    then show ?thesis using assms s g by (auto simp: urc_turn_def unused_def split: if_splits intro: exI [of _ "[]"])
  next
    case False
    then obtain b where b: "r = 0" "got = Some b" by auto
    then obtain call u where "urc_byte True b (urc_thread t) = Some (call, u)"
      using assms s g by (auto simp: urc_turn_def unused_def Option.bind_eq_Some_conv)
    then show ?thesis
      using assms s g b by (cases call) (auto simp: urc_turn_def unused_def call_callback_def Let_def intro: exI [of _ "[]"])
  qed
qed

text \<open>The bytes that notifications announce for one number of the modem.\<close>
definition announced :: "int \<Rightarrow> (int \<times> int) list \<Rightarrow> int" where
  "announced fd cs = sum_list (map snd (filter (\<lambda>c. fst c = fd) cs))"

lemma announced_simps [simp]:
  "announced fd [] = 0" "announced fd (c # cs) = (if fst c = fd then snd c else 0) + announced fd cs"
  by (simp_all add: announced_def)

lemma fold_receive_cb:
  "sockets (fold (\<lambda>(fd, n). receive_cb fd n) cs m) =
     map (\<lambda>s. s\<lparr>incoming_len := incoming_len s + announced (s_id s) cs\<rparr>) (sockets m)"
proof (induction cs arbitrary: m)
  case (Cons c cs)
  obtain fd n where c: "c = (fd, n)" by fastforce
  show ?case
    unfolding c using Cons [of "receive_cb fd n m"] by (simp add: receive_cb_def Let_def o_def add.assoc cong: if_cong)
qed simp

lemma sockets_fold_cong: "sockets a = sockets b \<Longrightarrow>
    sockets (fold (\<lambda>(fd, n). receive_cb fd n) cs a) = sockets (fold (\<lambda>(fd, n). receive_cb fd n) cs b)"
  by (simp add: fold_receive_cb)

lemma schedule_layer:
  assumes "schedule k net xs t = Some t'" "unused t" "\<forall>sec. Enter sec \<notin> set xs"
  shows "\<exists>made. cb_calls t' = cb_calls t @ made \<and> sockets (layer t') = sockets (fold (\<lambda>(fd, n). receive_cb fd n) made (layer t)) \<and> unused t'"
  using assms
proof (induction xs arbitrary: t)
  case (Cons x xs)
  obtain t1 where 1: "take_turn k net x t = Some t1" "schedule k net xs t1 = Some t'"
    using Cons.prems(1) by (auto simp: Option.bind_eq_Some_conv)
  have "\<exists>made. cb_calls t1 = cb_calls t @ made \<and> sockets (layer t1) = sockets (fold (\<lambda>(fd, n). receive_cb fd n) made (layer t)) \<and> unused t1"
  proof (cases "x = Urc_Turn")
    case True
    then show ?thesis using 1(1) urc_turn_layer [of k t t1] Cons.prems(2) by auto
  next
    case False
    then have "cb_calls t1 = cb_calls t \<and> sockets (layer t1) = sockets (layer t) \<and> unused t1"
      using 1(1) Cons.prems(2,3) by (cases x) (auto simp: unused_def leave_def rest_for_def split: prod.splits)
    then show ?thesis by (intro exI [of _ "[]"]) simp
  qed
  then obtain made where m: "cb_calls t1 = cb_calls t @ made" "sockets (layer t1) = sockets (fold (\<lambda>(fd, n). receive_cb fd n) made (layer t))"
    "unused t1" by blast
  obtain made' where "cb_calls t' = cb_calls t1 @ made'" "sockets (layer t') = sockets (fold (\<lambda>(fd, n). receive_cb fd n) made' (layer t1))" "unused t'"
    using Cons.IH [OF 1(2) m(3)] Cons.prems(3) by auto
  then show ?case using m sockets_fold_cong [OF m(2)] by (intro exI [of _ "made @ made'"]) simp
qed simp

section \<open>Properties\<close>

text \<open>The threads before the first byte: nothing waits in the buffers or for the lock, and no section is entered.\<close>
definition threads_idle :: "('r \<Rightarrow> bytes) \<Rightarrow> ('r, 's) threads \<Rightarrow> bool" where
  "threads_idle content t \<longleftrightarrow> prev_char (line t) = 10 \<and> \<not> in_urc (line t) \<and> content (urc_rb (line t)) = [] \<and>
     length (urc_buf (urc_thread t)) = URC_SIZE \<and> urc_index (urc_thread t) = 0 \<and> cb_calls t = [] \<and> holder t = None \<and> blocked t = None"

lemma schedule_lines:
  assumes "ring_contract k content cap" "sem_contract k count limit" "threads_ok content cap count limit t" "threads_idle content t"
    "no_overflow k content cap net xs t" "schedule k net xs t = Some t'" "arriving xs = wire (map line_bytes ls)" "\<forall>l \<in> set ls. line_ok l"
  shows "\<exists>rest. concat (map line_calls ls) = cb_calls t' @ pending t' @ rest \<and> (content (urc_rb (line t')) = [] \<longrightarrow> rest = []) \<and>
    threads_ok content cap count limit t'"
proof -
  obtain u where u: "urc_threadproc True (urc_stream 10 False (arriving xs)) (urc_thread t) = Some (concat (map line_calls ls), u)"
    using urc_stream_calls [of ls "urc_thread t"] assms(4,7,8) by (auto simp: threads_idle_def)
  then have "to_come content (arriving xs) t (concat (map line_calls ls)) u"
    using assms(4) by (simp add: threads_idle_def to_come_def pending_def)
  from schedule_calls [OF assms(1-3,5,6) this] obtain cs where
    "concat (map line_calls ls) = cb_calls t' @ cs" "threads_ok content cap count limit t'" "to_come content [] t' cs u"
    using assms(4) by (auto simp: threads_idle_def)
  then show ?thesis by (auto simp: to_come_def)
qed

text \<open>C20: Notifications in any schedule of the threads. While the lines of the modem arrive, and however the
  notification thread, the readers of bytes and the users of sockets run between and inside them (an operation on a socket holds the lock of the modem from
  one turn to a later one, its answer comes byte by byte on the same line, and the thread that wants to report a notification waits for
  the lock), the calls of the callback are at every moment a first part of the notifications in order: none is lost, doubled or
  reordered; once the thread has caught up and waits for no lock they are all of them; and the discipline of the modem lock holds. The
  buffers must have room for each byte when it arrives, and a line that starts with a plus sign must fit the 64 bytes of the thread and, unless it is
  a well-formed notification, not begin like one; all others, such as the data that answers a command, have any length.\<close>
theorem notifications_any_schedule:
  assumes "ring_contract k content cap" "sem_contract k count limit" "threads_ok content cap count limit t" "threads_idle content t"
    "no_overflow k content cap net xs t" "schedule k net xs t = Some t'" "arriving xs = wire (map line_bytes ls)" "\<forall>l \<in> set ls. line_ok l"
  shows "\<exists>rest. concat (map line_calls ls) = cb_calls t' @ rest \<and>
     (content (urc_rb (line t')) = [] \<and> blocked t' = None \<longrightarrow> rest = []) \<and> n2_ok False (layer t')"
proof -
  obtain rest where r: "concat (map line_calls ls) = cb_calls t' @ pending t' @ rest" "content (urc_rb (line t')) = [] \<longrightarrow> rest = []"
    "threads_ok content cap count limit t'" using schedule_lines [OF assms] by blast
  then show ?thesis by (intro exI [of _ "pending t' @ rest"]) (auto simp: pending_def threads_ok_def)
qed

text \<open>C21: From the serial line to poll. When the lines of the modem have arrived and the notification thread has
  caught up, in any schedule in which no socket is used, every socket has exactly the bytes waiting that the
  notifications for its number announced, on top of those before, and a poll reports an open socket as readable exactly
  when that is more than none.\<close>
theorem arrival_wakes_poll:
  assumes "ring_contract k content cap" "sem_contract k count limit" "threads_ok content cap count limit t" "threads_idle content t"
    "no_overflow k content cap net xs t" "schedule k net xs t = Some t'" "arriving xs = wire (map line_bytes ls)" "\<forall>l \<in> set ls. line_ok l"
    "\<forall>sec. Enter sec \<notin> set xs" "content (urc_rb (line t')) = []" "i < 7" "in_use (sockets (layer t) ! i)"
    "waiting = incoming_len (sockets (layer t) ! i) + announced (s_id (sockets (layer t) ! i)) (concat (map line_calls ls))"
  shows "\<exists>m. offload_poll [\<lparr>poll_fd = 100 + int i, revents = []\<rparr>] ms (layer t') =
      Some ([\<lparr>poll_fd = 100 + int i, revents = POLLOUT # (if 0 < waiting then [POLLIN] else [])\<rparr>], m) \<and>
    incoming_len (sockets m ! i) = waiting"
proof -
  have "unused t" using assms(3,4) by (simp add: unused_def threads_ok_def threads_idle_def)
  from schedule_layer [OF assms(6) this assms(9)] obtain made where m: "cb_calls t' = cb_calls t @ made"
    "sockets (layer t') = sockets (fold (\<lambda>(fd, n). receive_cb fd n) made (layer t))" "unused t'" by blast
  have ok: "threads_ok content cap count limit t'" "concat (map line_calls ls) = cb_calls t'"
    using schedule_lines [OF assms(1-8)] assms(10) m(3) by (auto simp: unused_def pending_def)
  have s: "sockets (layer t') = map (\<lambda>s. s\<lparr>incoming_len := incoming_len s + announced (s_id s) (cb_calls t')\<rparr>) (sockets (layer t))"
    using m(1,2) assms(4) by (simp add: threads_idle_def fold_receive_cb)
  have len: "length (sockets (layer t)) = 7" using assms(3) by (simp add: threads_ok_def n2_ok_def MDM_MAX_SOCKETS_def)
  have i: "incoming_len (sockets (layer t') ! i) = waiting" "in_use (sockets (layer t') ! i)" "length (sockets (layer t')) = 7"
    using s len assms(11-13) ok(2) by simp_all
  let ?m = "sem_op Give (sem_op Take (if 0 < ms then (layer t')\<lparr>mdm := emit (Sleep ms) (mdm (layer t'))\<rparr> else layer t'))"
  have m: "sockets ?m = sockets (layer t')" by simp
  have "offload_poll [\<lparr>poll_fd = 100 + int i, revents = []\<rparr>] ms (layer t') =
      Some ([\<lparr>poll_fd = 100 + int i, revents = POLLOUT # (if 0 < waiting then [POLLIN] else [])\<rparr>], ?m)"
    using i assms(11) by (simp add: offload_poll_def Let_def VALID_SOCKET_def MDM_MAX_SOCKETS_def S_TO_I_def rd_in)
  then show ?thesis using i(1) m by (intro exI [of _ ?m]) simp
qed

text \<open>A concrete schedule: an empty line and a notification, the thread running after each byte, and some reads.\<close>
definition demo_threads :: "(nat \<times> bytes, nat \<times> nat) threads" where
  "demo_threads = receive_callback receive_cb \<lparr>line = idle_comms, urc_thread = \<lparr>urc_buf = replicate 64 0, urc_index = 0\<rparr>, recv_cb = None,
     layer = (fresh_n2 [])\<lparr>sockets := fresh_socket\<lparr>s_id := 3, in_use := True\<rparr> # replicate 6 fresh_socket\<rparr>, cb_calls = [],
     holder = None, bytes_read = [], blocked = None\<rparr>"

definition demo_turns :: "turn list" where
  "demo_turns = concat (map (\<lambda>b. [Byte b, Urc_Turn]) (wire (map line_bytes [Other [], Notify 3 17]))) @ [Read_Turn, Read_Turn]"

lemma demo_threads_ready:
  "threads_ok snd fst snd fst demo_threads" "threads_idle snd demo_threads"
  by (simp_all add: demo_threads_def receive_callback_def threads_ok_def threads_idle_def comms_ok_def urc_ok_def idle_comms_def
      n2_ok_def fresh_n2_def held_def MDM_MAX_SOCKETS_def CMD_BUFFER_SIZE_def URC_SIZE_def)

lemma demo_turns_lines: "arriving demo_turns = wire (map line_bytes [Other [], Notify 3 17])"
  "\<forall>l \<in> set [Other [], Notify 3 17]. line_ok l" "\<forall>sec. Enter sec \<notin> set demo_turns"
proof -
  have a: "arriving (concat (map (\<lambda>b. [Byte b, Urc_Turn]) bs) @ [Read_Turn, Read_Turn]) = bs" for bs by (induction bs) simp_all
  show "arriving demo_turns = wire (map line_bytes [Other [], Notify 3 17])" unfolding demo_turns_def by (rule a)
qed (auto simp: NSONMI_def URC_SIZE_def urc_line_def demo_turns_def)

lemma demo_schedule:
  obtains t' where "schedule list_kernel plain_net demo_turns demo_threads = Some t'" "snd (urc_rb (line t')) = []"
proof -
  have "case schedule list_kernel plain_net demo_turns demo_threads of None \<Rightarrow> False | Some t' \<Rightarrow> snd (urc_rb (line t')) = []" by code_simp
  then show ?thesis using that by (auto split: option.splits)
qed

lemma demo_room: "no_overflow list_kernel snd fst plain_net demo_turns demo_threads"
proof (rule no_overflow_fits [OF list_kernel_contracts(1)])
  have "length (wire (map line_bytes [Other [], Notify 3 17])) \<le> 64" by code_simp
  then show "fits snd fst (length (arriving demo_turns)) (line demo_threads)"
    unfolding demo_turns_lines by (simp add: demo_threads_def receive_callback_def idle_comms_def RB_SIZE_def URC_SIZE_def fits_def)
qed

text \<open>
  A socket is closed while a notification for it arrives: the bytes of both come on one line, the operation
  reads them all, the notification thread waits for the lock, and reports when the operation has given it back. The line of 70 zeros
  is longer than the buffer of the thread.
\<close>
definition closing_lines :: "modem_line list" where
  "closing_lines = [Other (replicate 70 48), Notify 3 17, Other (cstr ''OK'')]"

definition closing_turns :: "turn list" where
  "closing_turns = Enter (Whole (Op_close 100)) # concat (map (\<lambda>b. [Byte b, Urc_Turn, Read_Turn]) (wire (map line_bytes closing_lines))) @ [Leave, Urc_Turn]"

lemma closing_turns_lines: "arriving closing_turns = wire (map line_bytes closing_lines)" "\<forall>l \<in> set closing_lines. line_ok l"
proof -
  have a: "arriving (Enter sec # concat (map (\<lambda>b. [Byte b, Urc_Turn, Read_Turn]) bs) @ [Leave, Urc_Turn]) = bs" for bs sec by (induction bs) simp_all
  show "arriving closing_turns = wire (map line_bytes closing_lines)" unfolding closing_turns_def by (rule a)
qed (auto simp: closing_lines_def NSONMI_def URC_SIZE_def urc_line_def)

lemma closing_schedule:
  obtains t' where "schedule list_kernel plain_net closing_turns demo_threads = Some t'" "snd (urc_rb (line t')) = []" "blocked t' = None"
    "\<not> in_use (sockets (layer t') ! 0)"
proof -
  have "case schedule list_kernel plain_net closing_turns demo_threads of None \<Rightarrow> False
      | Some t' \<Rightarrow> snd (urc_rb (line t')) = [] \<and> Option.is_none (blocked t') \<and> \<not> in_use (sockets (layer t') ! 0)" by code_simp
  then show ?thesis using that by (auto split: option.splits simp: Option.is_none_def)
qed

lemma closing_room: "no_overflow list_kernel snd fst plain_net closing_turns demo_threads"
  by code_simp

theorem notifications_any_schedule_witness:
  "\<exists>t'. schedule list_kernel plain_net closing_turns demo_threads = Some t' \<and> cb_calls t' = [(3, 17)] \<and> \<not> in_use (sockets (layer t') ! 0)"
proof -
  obtain t' where t: "schedule list_kernel plain_net closing_turns demo_threads = Some t'" "snd (urc_rb (line t')) = []" "blocked t' = None"
    "\<not> in_use (sockets (layer t') ! 0)" by (rule closing_schedule)
  have "concat (map line_calls closing_lines) = [(3, 17)]" by (simp add: closing_lines_def)
  then show ?thesis
    using notifications_any_schedule [OF list_kernel_contracts demo_threads_ready closing_room t(1) closing_turns_lines] t by auto
qed

theorem arrival_wakes_poll_witness:
  "\<exists>t' m. schedule list_kernel plain_net demo_turns demo_threads = Some t' \<and>
     offload_poll [\<lparr>poll_fd = 100, revents = []\<rparr>] 500 (layer t') = Some ([\<lparr>poll_fd = 100, revents = [POLLOUT, POLLIN]\<rparr>], m)"
proof -
  obtain t' where t: "schedule list_kernel plain_net demo_turns demo_threads = Some t'" "snd (urc_rb (line t')) = []" by (rule demo_schedule)
  have s: "sockets (layer demo_threads) ! 0 = fresh_socket\<lparr>s_id := 3, in_use := True\<rparr>" by (simp add: demo_threads_def receive_callback_def)
  have "in_use (sockets (layer demo_threads) ! 0)"
    "17 = incoming_len (sockets (layer demo_threads) ! 0) + announced (s_id (sockets (layer demo_threads) ! 0)) (concat (map line_calls [Other [], Notify 3 17]))"
    unfolding s by (simp_all add: fresh_socket_def)
  then show ?thesis
    using arrival_wakes_poll [OF list_kernel_contracts demo_threads_ready demo_room t(1) demo_turns_lines t(2), of 0 17 500] t(1) by auto
qed

end
