(* ===== verification/Descriptors.thy ===== *)
theory Descriptors
  imports Calls_On_Modem Main_Loop
begin

text \<open>
  The descriptors of the application and the slots of the socket layer. The application keeps a discipline
  (\<open>sock_run\<close>: only descriptors that it has opened and not closed); here this discipline meets the table of
  \<open>n2_offload.c\<close>: in every run of the node, on a modem that behaves in any way, a call is made on a descriptor whose slot is
  in use, so the range test that accepts one descriptor too many is never reached.
\<close>

section \<open>Slots in use\<close>

definition use_flags :: "n2 \<Rightarrow> bool list" where
  "use_flags m = map in_use (sockets m)"

lemma use_flags_fields [simp]:
  "use_flags (sem_op e m) = use_flags m" "use_flags (m\<lparr>mdm := x\<rparr>) = use_flags m" "use_flags (m\<lparr>errno := v\<rparr>) = use_flags m"
  "use_flags (m\<lparr>modem_command_buffer := b\<rparr>) = use_flags m" "use_flags (m\<lparr>next_free_port := p\<rparr>) = use_flags m"
  by (simp_all add: use_flags_def)

lemma send_cmd_flags: "send_cmd s m = Some m' \<Longrightarrow> use_flags m' = use_flags m"
  by (auto simp: send_cmd_def use_flags_def Option.bind_eq_Some_conv)

lemma send_hex_flags: "send_hex d m = Some m' \<Longrightarrow> use_flags m' = use_flags m"
  by (induction d arbitrary: m) (auto simp: Option.bind_eq_Some_conv)

lemma set_socket_flags:
  assumes "set_socket i f m = Some m'"
  shows "i < length (sockets m)" "use_flags m' = (use_flags m)[i := in_use (f (sockets m ! i))]"
  using assms by (auto simp: set_socket_def use_flags_def rd_def wr_def Option.bind_eq_Some_conv map_update split: if_splits)

text \<open>A change of a socket that does not touch the flag.\<close>
lemma set_socket_same_flags:
  assumes "set_socket i f m = Some m'" "\<And>s. in_use (f s) = in_use s"
  shows "use_flags m' = use_flags m"
  using set_socket_flags [OF assms(1)] assms(2) by (simp add: use_flags_def list_update_same_conv)

lemma receive_cb_flags [simp]: "use_flags (receive_cb fd n m) = use_flags m"
  by (simp add: receive_cb_def use_flags_def Let_def)

lemma receive_cbs_flags [simp]: "use_flags (fold (\<lambda>(fd, n). receive_cb fd n) ns m) = use_flags m"
  by (induction ns arbitrary: m) auto

section \<open>What the operations do to the flags\<close>

lemma connect_flags: "offload_connect net s a n m = Some (x, m') \<Longrightarrow> use_flags m' = use_flags m"
  by (auto simp: offload_connect_def Let_def Option.bind_eq_Some_conv dest!: set_socket_same_flags split: if_splits)

lemma poll_flags: "offload_poll fds ms m = Some (x, m') \<Longrightarrow> use_flags m' = use_flags m"
  by (auto simp: offload_poll_def Let_def Option.bind_eq_Some_conv)

lemma sendto_flags: "offload_sendto net s d a m = Some (x, m') \<Longrightarrow> use_flags m' = use_flags m"
  by (auto simp: offload_sendto_def Let_def Option.bind_eq_Some_conv dest!: send_cmd_flags send_hex_flags split: if_splits option.splits)

lemma send_flags: "offload_send net s d m = Some (x, m') \<Longrightarrow> use_flags m' = use_flags m"
  by (auto simp: offload_send_def Let_def Option.bind_eq_Some_conv dest: sendto_flags split: if_splits)

lemma recvfrom_flags: "offload_recvfrom net ip0 s out n m = Some (x, out', m') \<Longrightarrow> use_flags m' = use_flags m"
  by (auto simp: offload_recvfrom_def Let_def Option.bind_eq_Some_conv dest!: send_cmd_flags set_socket_same_flags split: if_splits)

lemma recv_wait_flags: "recv_wait i nss c m = Some (c', m') \<Longrightarrow> use_flags m' = use_flags m"
  by (induction nss arbitrary: c m) (auto simp: Let_def Option.bind_eq_Some_conv split: if_splits)

lemma recv_flags: "offload_recv net ip0 nss s out n dw m = Some (x, out', m') \<Longrightarrow> use_flags m' = use_flags m"
  by (auto simp: offload_recv_def Let_def Option.bind_eq_Some_conv dest!: recv_wait_flags recvfrom_flags split: if_splits)

text \<open>Closing frees the slot when the modem confirms it; otherwise the slot stays in use.\<close>
lemma close_flags:
  assumes "offload_close s m = Some (x, m')"
  shows "x = Inr 0 \<and> 100 \<le> s \<and> use_flags m' = (use_flags m)[S_TO_I s := False] \<or> x \<noteq> Inr 0 \<and> use_flags m' = use_flags m"
  using assms
  by (auto simp: offload_close_def clear_socket_def VALID_SOCKET_def Let_def Option.bind_eq_Some_conv dest!: send_cmd_flags set_socket_flags split: if_splits)

text \<open>Opening takes a slot that was free, or none.\<close>
lemma socket_flags:
  assumes "offload_socket f t p m = Some (x, m')"
  shows "(\<exists>i. x = Inr (descr i) \<and> i < length (use_flags m) \<and> \<not> use_flags m ! i \<and> use_flags m' = (use_flags m)[i := True]) \<or>
     (\<exists>e. x = Inl e) \<and> use_flags m' = use_flags m"
proof (cases "f = AF_INET \<and> t = SOCK_DGRAM \<and> p = IPPROTO_UDP")
  case False
  then show ?thesis using assms by (auto simp: offload_socket_def split: if_splits)
next
  case True
  show ?thesis
  proof (cases "first_free 0 (sockets m)")
    case None
    then show ?thesis using assms True by (auto simp: offload_socket_def Let_def)
  next
    case (Some i)
    then have i: "i < length (sockets m)" "\<not> in_use (sockets m ! i)" using first_free_Some [OF Some] by simp_all
    then have n: "i < length (use_flags m)" "\<not> use_flags m ! i" by (simp_all add: use_flags_def)
    have same: "(use_flags m)[i := in_use (sockets m ! i)] = use_flags m" using i by (simp add: use_flags_def list_update_same_conv)
    show ?thesis
      using assms True Some n same
      by (auto simp: offload_socket_def I_TO_S_def Let_def Option.bind_eq_Some_conv
          dest!: send_cmd_flags set_socket_same_flags set_socket_flags split: if_splits)
  qed
qed

text \<open>The descriptors of the slots in use.\<close>
definition used :: "n2 \<Rightarrow> int set" where
  "used m = {d. VALID_SOCKET d m = Some True}"

lemma used_flags:
  assumes "n2_ok h m"
  shows "used m = {descr i | i. i < 7 \<and> use_flags m ! i}"
proof -
  have len: "length (sockets m) = 7" by (rule ok_length [OF assms])
  have "VALID_SOCKET d m = Some True \<longleftrightarrow> (\<exists>i. d = descr i \<and> i < 7 \<and> use_flags m ! i)" for d
  proof
    assume "VALID_SOCKET d m = Some True"
    then have "100 \<le> d" "d < 107" "in_use (sockets m ! nat (d - 100))"
      using len by (auto simp: VALID_SOCKET_def MDM_MAX_SOCKETS_def rd_def split: if_splits)
    then show "\<exists>i. d = descr i \<and> i < 7 \<and> use_flags m ! i"
      using len by (intro exI [of _ "nat (d - 100)"]) (simp add: use_flags_def)
  next
    assume "\<exists>i. d = descr i \<and> i < 7 \<and> use_flags m ! i"
    then obtain i where "d = descr i" "i < 7" "use_flags m ! i" by blast
    then show "VALID_SOCKET d m = Some True" using descr_slot(1) [OF assms, of i] len by (simp add: use_flags_def)
  qed
  then show ?thesis by (auto simp: used_def)
qed

lemma used_cong: "use_flags m' = use_flags m \<Longrightarrow> n2_ok False m \<Longrightarrow> n2_ok False m' \<Longrightarrow> used m' = used m"
  by (simp add: used_flags)

lemma used_take:
  assumes "use_flags m' = (use_flags m)[i := True]" "i < length (use_flags m)" "n2_ok False m" "n2_ok False m'"
  shows "used m' = insert (descr i) (used m)"
proof -
  have "length (use_flags m) = 7" using ok_length [OF assms(3)] by (simp add: use_flags_def)
  then show ?thesis using assms(1,2) by (auto simp: used_flags [OF assms(3)] used_flags [OF assms(4)] nth_list_update)
qed

lemma used_free:
  assumes "use_flags m' = (use_flags m)[i := False]" "n2_ok False m" "n2_ok False m'"
  shows "used m' = used m - {descr i}"
proof -
  have len: "length (use_flags m) = 7" using ok_length [OF assms(2)] by (simp add: use_flags_def)
  have "(use_flags m)[i := False] ! j \<longleftrightarrow> j \<noteq> i \<and> use_flags m ! j" if "j < 7" for j
    using that len by (cases "j = i") simp_all
  then show ?thesis using assms(1) by (auto simp: used_flags [OF assms(2)] used_flags [OF assms(3)])
qed

section \<open>A step and the descriptors\<close>

text \<open>What a step of the application does to the descriptors in use.\<close>
fun turns :: "modem_step \<Rightarrow> int set \<Rightarrow> int set \<Rightarrow> bool" where
  "turns (Call (Opened s)) a b \<longleftrightarrow> (if s < 0 then b = a else s \<notin> a \<and> b = insert s a)"
| "turns (Call (Closed s)) a b \<longleftrightarrow> b = a \<or> b = a - {s}"
| "turns _ a b \<longleftrightarrow> b = a"

lemma perform_turns:
  assumes "perform net mk ip0 s (rs, m) = Some (rs', m')" "n2_ok False m"
  shows "turns s (used m) (used m')"
proof -
  note ok = assms(2) perform_ok [OF assms]
  have same: "use_flags m' = use_flags m \<Longrightarrow> used m' = used m" using used_cong ok by blast
  show ?thesis
  proof (cases s)
    case (Notified fd n)
    then show ?thesis using assms(1) same by auto
  next
    case (Call e)
    show ?thesis
    proof (cases e)
      case (Opened d)
      then obtain x where x: "offload_socket AF_INET SOCK_DGRAM IPPROTO_UDP m = Some (x, m')" "returns x d"
        using assms(1) Call by (auto simp: Option.bind_eq_Some_conv)
      from socket_flags [OF x(1)] show ?thesis
      proof (elim disjE exE conjE)
        fix i
        assume i: "x = Inr (descr i)" "i < length (use_flags m)" "\<not> use_flags m ! i" "use_flags m' = (use_flags m)[i := True]"
        then have "d = descr i" "d \<notin> used m" using x(2) by (auto simp: used_flags [OF ok(1)])
        then show ?thesis using used_take [OF i(4,2) ok] Call Opened by simp
      next
        fix err
        assume "x = Inl err" "use_flags m' = use_flags m"
        then show ?thesis using x(2) same Call Opened by simp
      qed
    next
      case (Closed d)
      then obtain x where x: "offload_close d m = Some (x, m')" using assms(1) Call by (auto simp: Option.bind_eq_Some_conv)
      from close_flags [OF this] show ?thesis
        using used_free [OF _ ok] same Call Closed by (auto simp: S_TO_I_def)
    qed (use assms(1) Call same in \<open>auto simp: Option.bind_eq_Some_conv dest!: connect_flags poll_flags sendto_flags send_flags
        recvfrom_flags recv_flags\<close>)
  qed
qed

text \<open>The descriptor that a call is made on.\<close>
fun event_fd :: "sys_event \<Rightarrow> int option" where
  "event_fd (Connected s h p r) = Some s"
| "event_fd (Sent s d) = Some s"
| "event_fd (SentTo s d h p) = Some s"
| "event_fd (Polled s ms) = Some s"
| "event_fd (Received s n) = Some s"
| "event_fd (Received_Now s n) = Some s"
| "event_fd (Closed s) = Some s"
| "event_fd _ = None"

text \<open>Every call of the steps is made on a descriptor that passes the test of the socket layer with its slot in use.\<close>
fun calls_valid :: "net \<Rightarrow> to_address \<Rightarrow> bytes \<Rightarrow> modem_step list \<Rightarrow> (int \<times> bytes) list \<times> n2 \<Rightarrow> bool" where
  "calls_valid net mk ip0 [] w = True"
| "calls_valid net mk ip0 (s # ss) w =
     ((case s of Call e \<Rightarrow> (case event_fd e of Some d \<Rightarrow> VALID_SOCKET d (snd w) = Some True | None \<Rightarrow> True) | Notified fd n \<Rightarrow> True) \<and>
      (case perform net mk ip0 s w of Some w' \<Rightarrow> calls_valid net mk ip0 ss w' | None \<Rightarrow> True))"

text \<open>The descriptors whose closing the modem has not confirmed: the application forgets them, the socket layer does not.\<close>
fun unconfirmed :: "net \<Rightarrow> to_address \<Rightarrow> bytes \<Rightarrow> modem_step list \<Rightarrow> (int \<times> bytes) list \<times> n2 \<Rightarrow> int list" where
  "unconfirmed net mk ip0 [] w = []"
| "unconfirmed net mk ip0 (s # ss) w =
     (case perform net mk ip0 s w of
        None \<Rightarrow> []
      | Some w' \<Rightarrow> (case s of
            Call (Closed d) \<Rightarrow> (if VALID_SOCKET d (snd w') = Some True then [d] else [])
          | _ \<Rightarrow> []) @ unconfirmed net mk ip0 ss w')"

text \<open>The slots in use are the descriptors that the application has open, and those that are lost.\<close>
definition table_is :: "int list \<Rightarrow> int set \<Rightarrow> n2 \<Rightarrow> bool" where
  "table_is fds lost m \<longleftrightarrow> n2_ok False m \<and> distinct fds \<and> set fds \<inter> lost = {} \<and> used m = set fds \<union> lost"

lemma table_step:
  assumes "table_is fds lost m" "perform net mk ip0 s (rs, m) = Some (rs', m')" "sock_run fds (calls_of [s]) = Some fds'"
  shows "table_is fds' (lost \<union> set (unconfirmed net mk ip0 [s] (rs, m))) m' \<and> calls_valid net mk ip0 [s] (rs, m)"
proof -
  have t: "n2_ok False m" "distinct fds" "set fds \<inter> lost = {}" "used m = set fds \<union> lost" using assms(1) by (simp_all add: table_is_def)
  note ok' = perform_ok [OF assms(2) t(1)] and u = perform_turns [OF assms(2) t(1)]
  have valid: "d \<in> set fds \<Longrightarrow> VALID_SOCKET d m = Some True" for d using t(4) by (auto simp: used_def)
  show ?thesis
  proof (cases s)
    case (Notified fd n)
    then show ?thesis using u t ok' assms(2,3) by (simp add: table_is_def)
  next
    case (Call e)
    show ?thesis
    proof (cases e)
      case (Opened d)
      then show ?thesis using u t ok' assms(2,3) Call by (auto simp: table_is_def split: if_splits)
    next
      case (Closed d)
      then have d: "d \<in> set fds" "fds' = remove1 d fds" using assms(3) Call by (auto split: if_splits)
      have us: "used m' = used m \<or> used m' = used m - {d}" using u Call Closed by simp
      have dl: "d \<notin> lost" using d(1) t(3) by blast
      have r: "set fds' = set fds - {d}" "distinct fds'" using d(2) t(2) by simp_all
      show ?thesis
      proof (cases "d \<in> used m'")
        case True
        then have "used m' = used m" using us by blast
        moreover have "VALID_SOCKET d m' = Some True" using True by (simp add: used_def)
        ultimately show ?thesis using Call Closed assms(2) ok' t r d(1) dl valid by (auto simp: table_is_def)
      next
        case False
        then have "used m' = used m - {d}" using us by blast
        moreover have "VALID_SOCKET d m' \<noteq> Some True" using False by (simp add: used_def)
        ultimately show ?thesis using Call Closed assms(2) ok' t r d(1) dl valid by (auto simp: table_is_def)
      qed
    qed (use u t ok' assms(2,3) Call valid in \<open>auto simp: table_is_def split: if_splits\<close>)
  qed
qed

section \<open>Runs\<close>

lemma calls_of_Cons: "calls_of (s # ss) = calls_of [s] @ calls_of ss"
  by (cases s) simp_all

lemma table_run:
  "table_is fds lost m \<Longrightarrow> on_modem net mk ip0 ss (rs, m) = Some (rs', m') \<Longrightarrow> sock_run fds (calls_of ss) = Some fds' \<Longrightarrow>
     table_is fds' (lost \<union> set (unconfirmed net mk ip0 ss (rs, m))) m' \<and> calls_valid net mk ip0 ss (rs, m)"
proof (induction ss arbitrary: fds lost rs m)
  case (Cons s ss)
  obtain rs1 m1 where 1: "perform net mk ip0 s (rs, m) = Some (rs1, m1)" "on_modem net mk ip0 ss (rs1, m1) = Some (rs', m')"
    using Cons.prems(2) by (auto simp: Option.bind_eq_Some_conv)
  obtain fds1 where 2: "sock_run fds (calls_of [s]) = Some fds1" "sock_run fds1 (calls_of ss) = Some fds'"
    using Cons.prems(3) calls_of_Cons [of s ss] by (auto simp: sock_run_append Option.bind_eq_Some_conv simp del: calls_of.simps)
  note k = table_step [OF Cons.prems(1) 1(1) 2(1)]
  have u: "set (unconfirmed net mk ip0 (s # ss) (rs, m)) = set (unconfirmed net mk ip0 [s] (rs, m)) \<union> set (unconfirmed net mk ip0 ss (rs1, m1))"
    using 1(1) by simp
  have v: "calls_valid net mk ip0 (s # ss) (rs, m) \<longleftrightarrow> calls_valid net mk ip0 [s] (rs, m) \<and> calls_valid net mk ip0 ss (rs1, m1)"
    using 1(1) by simp
  show ?case using Cons.IH [OF conjunct1 [OF k] 1(2) 2(2)] k unfolding u v by (simp only: Un_assoc simp_thms)
qed simp

text \<open>The calls of a part of the application, performed.\<close>
lemma table_leads:
  assumes "table_is fds lost m" "leads fds a fds' b" "sys_trace b = sys_trace a @ calls_of ss"
    "on_modem net mk ip0 ss (rs, m) = Some (rs', m')"
  shows "table_is fds' (lost \<union> set (unconfirmed net mk ip0 ss (rs, m))) m' \<and> calls_valid net mk ip0 ss (rs, m)"
  using table_run [OF assms(1,4)] assms(2,3) by (auto simp: leads_def)

section \<open>The whole node\<close>

lemma start_leads:
  assumes "main_start l sem ip0 ips now e st = Some (r, s, st')"
  shows "\<exists>fds'. leads fds (n_net st) fds' (n_net st') \<and> (r = Goes_On \<longrightarrow> s \<in> set fds')"
proof -
  note sem = wait_given [OF start_waited [OF assms]]
  let ?s0 = "st\<lparr>n_net := pause 1000 (n_net st), n_cc2 := snd (cc2_init (n_cc2 st)), n_opc := opc_init (n_opc st)\<rparr>"
  obtain r1 st1 where 1: "do_the_hetzner_ping l ip0 ips now ?s0 = Some (r1, st1)"
    using assms by (auto simp: main_start_def Option.bind_eq_Some_conv Let_def)
  have "leads fds (n_net st) fds (n_net ?s0)" by (simp add: leads_pause)
  then obtain f1 where l1: "leads fds (n_net st) f1 (n_net st1)"
    using hetzner_ping_sockets [OF 1, of fds] leads_trans by blast
  show ?thesis
  proof (cases "r1 = Restarts")
    case True
    then show ?thesis using assms sem 1 l1 by (auto simp: main_start_def Let_def)
  next
    case r1: False
    then obtain found conf where 2: "select_active_apn ip0 (n_conf st1) = Some (found, conf)"
      using assms sem 1 by (auto simp: main_start_def Option.bind_eq_Some_conv Let_def)
    show ?thesis
    proof (cases "found = Rebooted")
      case True
      then show ?thesis using assms sem 1 2 r1 l1 by (auto simp: main_start_def Let_def)
    next
      case found: False
      let ?net1 = "snd (fota_init (n_net st1))"
      obtain h updated net2 where 3: "c_str (CURRENT_COAP_BUFFER conf) = Some h"
        "fota_run (lib_coap l) (lib_flash l) (fw_version l) (fw_name l) h (env_token e) (env_tmp e) (env_resp e) ?net1 = Some (updated, net2)"
        using assms sem 1 2 r1 found by (auto simp: main_start_def Option.bind_eq_Some_conv Let_def)
      obtain sock x net3 where 4: "sys_socket net2 = (sock, x, net3)" by (metis prod_cases3)
      have l2: "leads fds (n_net st) f1 net2"
        by (rule leads_trans [OF leads_trans [OF l1 fota_init_leads] fota_run_leads [OF 3(2)]])
      have "leads f1 net2 (if sock < 0 then f1 else sock # f1) net3" using leads_call [OF 4 [unfolded sys_socket_def], of f1] by simp
      then have l3: "leads fds (n_net st) (if sock < 0 then f1 else sock # f1) net3" by (rule leads_trans [OF l2])
      show ?thesis
      proof (cases "updated \<or> sock < 0")
        case True
        have "leads f1 net3 f1 (note_event SystemReboot (pause 1000 net3))" by (simp add: leads_def)
        then have "sock < 0 \<Longrightarrow> leads fds (n_net st) f1 (note_event SystemReboot (pause 1000 net3))" using l3 leads_trans by simp
        then show ?thesis
          using True assms sem 1 2 3 4 r1 found l2 by (cases updated) (auto simp: main_start_def Let_def restart_def)
      next
        case False
        then have "r = Goes_On" "s = sock" "n_net st' = net3" using assms sem 1 2 3 4 r1 found by (auto simp: main_start_def Let_def)
        then show ?thesis using l3 False by (intro exI [of _ "sock # f1"]) simp
      qed
    qed
  qed
qed

lemma leads_fun: "leads fds a f1 b \<Longrightarrow> leads fds a f2 b \<Longrightarrow> f1 = f2"
  by (auto simp: leads_def)

text \<open>From power-on, on every path; when the ping can be encoded, the configuration socket alone stays open.\<close>
lemma main_leads:
  assumes "main l b ip0 ips now e es st = Some (r, s, wdt, st')" "node_ok st"
  obtains fds' where "leads [] (n_net st) fds' (n_net st')" "r = Goes_On \<longrightarrow> s \<in> set fds'"
    "r = Goes_On \<and> (\<forall>p. lib_pb_ping l 128 p \<noteq> None) \<longrightarrow> fds' = [s]"
proof -
  obtain st1 where 1: "init_board (gpio_found b) (i2c_found b) (i2c_configured b) (spi_found b) st = Some st1"
    using assms(1) by (auto simp: main_def Option.bind_eq_Some_conv)
  obtain r2 s2 st2 where 2: "main_start l (socket_sem b) ip0 ips now e st1 = Some (r2, s2, st2)"
    using assms(1) 1 by (auto simp: main_def Let_def Option.bind_eq_Some_conv)
  have b: "node_ok st1" "n_net st1 = n_net st" using init_board_frees [OF 1 assms(2), of None] by simp_all
  obtain f2 where f2: "leads [] (n_net st1) f2 (n_net st2)" "r2 = Goes_On \<longrightarrow> s2 \<in> set f2" using start_leads [OF 2, of "[]"] by blast
  have ping: "f2 = [s2]" if "r2 = Goes_On" "\<forall>p. lib_pb_ping l 128 p \<noteq> None"
    using main_start_keeps [OF 2 [unfolded that(1)] b(1) that(2), of "[]"] leads_fun [OF f2(1)] by blast
  show ?thesis
  proof (cases "r2 = Restarts")
    case True
    then have "r = Restarts" "st' = st2" using assms(1) 1 2 by (simp_all add: main_def Let_def)
    then show ?thesis using that [of f2] f2(1) b(2) by simp
  next
    case False
    then have g: "r2 = Goes_On" by (cases r2) simp_all
    then have 3: "main_loop l s2 es st2 = Some (r, st')" "s = s2"
      using assms(1) 1 2 by (auto simp: main_def Let_def Option.bind_eq_Some_conv)
    have "node_ok st2" using main_start_bus [OF 2 b(1)] by simp
    then obtain f3 where f3: "leads f2 (n_net st2) f3 (n_net st')" "r = Goes_On \<longrightarrow> f3 = f2"
      using main_loop_keeps [OF 3(1), of f2] f2(2) g by blast
    show ?thesis using that [of f3] leads_trans [OF f2(1) f3(1)] f3(2) f2(2) g 3(2) b(2) ping by simp
  qed
qed

section \<open>A full table\<close>

definition all_slots :: "int set" where
  "all_slots = {descr i | i. i < 7}"

lemma used_all: "n2_ok False m \<Longrightarrow> used m \<subseteq> all_slots"
  by (auto simp: used_flags all_slots_def)

text \<open>While every slot is in use and none is closed, no socket can be opened.\<close>
lemma full_table_opens_none:
  "on_modem net mk ip0 ss (rs, m) = Some (rs', m') \<Longrightarrow> n2_ok False m \<Longrightarrow> used m = all_slots \<Longrightarrow>
     calls_of ss = es @ Opened s # es' \<Longrightarrow> \<forall>d. Closed d \<notin> set es \<Longrightarrow> s < 0"
proof (induction ss arbitrary: rs m es)
  case (Cons x ss)
  obtain rs1 m1 where 1: "perform net mk ip0 x (rs, m) = Some (rs1, m1)" "on_modem net mk ip0 ss (rs1, m1) = Some (rs', m')"
    using Cons.prems(1) by (auto simp: Option.bind_eq_Some_conv)
  note ok1 = perform_ok [OF 1(1) Cons.prems(2)] and u = perform_turns [OF 1(1) Cons.prems(2)]
  have none: "d < 0" if "turns (Call (Opened d)) (used m) (used m1)" for d
    using that used_all [OF ok1] Cons.prems(3) by (auto split: if_splits)
  show ?case
  proof (cases x)
    case (Notified fd n)
    then have "used m1 = all_slots" "calls_of ss = es @ Opened s # es'" using u Cons.prems(3,4) by simp_all
    then show ?thesis using Cons.IH [OF 1(2) ok1] Cons.prems(5) by blast
  next
    case (Call e)
    show ?thesis
    proof (cases es)
      case Nil
      then have "x = Call (Opened s)" using Cons.prems(4) Call by simp
      then show ?thesis using u by (intro none) simp
    next
      case (Cons y ys)
      have "calls_of (x # ss) = (y # ys) @ Opened s # es'" using Cons.prems(4) unfolding Cons .
      then have e: "e = y" "calls_of ss = ys @ Opened s # es'" unfolding Call by simp_all
      have ne: "\<forall>d. y \<noteq> Closed d" "\<forall>d. Closed d \<notin> set ys" using Cons.prems(5) unfolding Cons by auto
      have "used m1 = used m"
      proof (cases "\<exists>d. y = Opened d")
        case True
        then obtain d where d: "e = Opened d" using e(1) by blast
        then have "turns (Call (Opened d)) (used m) (used m1)" using u Call by simp
        from this none [OF this] show ?thesis by simp
      next
        case False
        then show ?thesis using u ne(1) unfolding Call e(1) by (cases y) simp_all
      qed
      then have "used m1 = all_slots" using Cons.prems(3) by simp
      then show ?thesis by (rule Cons.IH [OF 1(2) ok1 _ e(2) ne(2)])
    qed
  qed
qed simp

text \<open>The first calls of a round.\<close>
lemma round_opens:
  assumes "main_round l c e st = Some (r, st')" "node_ok st"
  obtains sock es where "sys_trace (n_net st') = sys_trace (n_net st) @ [Fed, Received c MAX_COMMAND_BUFFER] @ Opened sock # es"
    "sock < 0 \<longrightarrow> r = Restarts"
proof -
  let ?s0 = "st\<lparr>n_net := note_event Fed (n_net st)\<rparr>"
  obtain s1 where 1: "receive_config l e c ?s0 = Some s1" using assms(1) by (auto simp: main_round_def Option.bind_eq_Some_conv)
  obtain received bs net1 where rc: "sys_recv (Received c) MAX_COMMAND_BUFFER (n_net ?s0) = (received, bs, net1)" by (metis prod_cases3)
  have "n_net s1 = net1" using 1 rc by (auto simp: receive_config_def Option.bind_eq_Some_conv split: if_splits)
  moreover have "sys_trace net1 = sys_trace (n_net ?s0) @ [Received c MAX_COMMAND_BUFFER]"
    using rc by (rule sys_recv_call) (rule sys_call_trace)
  ultimately have t1: "sys_trace (n_net s1) = sys_trace (n_net st) @ [Fed, Received c MAX_COMMAND_BUFFER]" by simp
  obtain sock x net where 2: "sys_socket (n_net s1) = (sock, x, net)" by (metis prod_cases3)
  have t2: "sys_trace net = sys_trace (n_net s1) @ [Opened sock]" using sys_call_trace [OF 2 [unfolded sys_socket_def]] .
  let ?s2 = "s1\<lparr>n_net := net\<rparr>"
  have n2: "node_ok ?s2"
    using receive_config_keeps [OF 1, of "[c]"] assms(2) by (auto simp: node_ok_def same_sensors_def)
  show ?thesis
  proof (cases "sock < 0")
    case True
    then have "(r, st') = restart 1000 ?s2" using assms(1) 1 2 by (simp add: main_round_def)
    then show ?thesis using that [of sock] t1 t2 by (simp add: restart_def)
  next
    case False
    obtain h m s3 len buf where 3: "c_str (CURRENT_COAP_BUFFER (n_conf ?s2)) = Some h"
      "sample_sensors l (env_sample_time e) ?s2 = Some (m, s3)"
      "mb_encode (lib_to_u32 l) (lib_pb_sample l) (fw_version l) (imei_array l) m (n_buffer s3) MAX_SEND_BUFFER = Some (len, buf)"
      using assms(1) 1 2 False by (auto simp: main_round_def Option.bind_eq_Some_conv)
    have k3: "n_net s3 = net" using sample_sensors_total [OF n2, of l "env_sample_time e"] 3(2) by auto
    obtain err y net4 where 4: "sys_call (\<lambda>_. SentTo sock (take len buf) h SAMPLE_PORT) net = (err, y, net4)" by (metis prod_cases3)
    note t4 = sys_call_trace [OF 4]
    show ?thesis
    proof (cases "err < 0")
      case True
      then have "(r, st') = restart 5000 (s3\<lparr>n_buffer := buf, n_net := net4\<rparr>)"
        using assms(1) 1 2 3 4 False k3 by (simp add: main_round_def)
      then show ?thesis using that [of sock] t1 t2 t4 False by (simp add: restart_def)
    next
      case noerr: False
      let ?s4 = "s3\<lparr>n_buffer := buf, n_net := pause (SEND_INTERVAL_SEC * 1000) net4\<rparr>"
      have "finish_round l e sock ?s4 = Some (r, st')"
        using assms(1) 1 2 3 4 False noerr k3 by (simp add: main_round_def)
      then obtain fds' where "leads [sock] (n_net ?s4) fds' (n_net st')"
        using finish_round_keeps [of l e sock ?s4 r st' "[]"] by (auto split: if_splits)
      then obtain es where "sys_trace (n_net st') = sys_trace (n_net ?s4) @ es" by (auto simp: leads_def)
      then show ?thesis using that [of sock] t1 t2 t4 False by simp
    qed
  qed
qed

lemma full_table_round:
  assumes "main_round l c e st = Some (r, st')" "node_ok st" "sys_trace (n_net st') = sys_trace (n_net st) @ calls_of ss"
    "on_modem net mk ip0 ss (results (n_net st), m) = Some (rs', m')" "n2_ok False m" "used m = all_slots"
  shows "r = Restarts"
proof -
  obtain sock es where r: "sys_trace (n_net st') = sys_trace (n_net st) @ [Fed, Received c MAX_COMMAND_BUFFER] @ Opened sock # es"
    "sock < 0 \<longrightarrow> r = Restarts" by (rule round_opens [OF assms(1,2)])
  then have "calls_of ss = [Fed, Received c MAX_COMMAND_BUFFER] @ Opened sock # es" using assms(3) by simp
  from full_table_opens_none [OF assms(4-6) this] r(2) show ?thesis by simp
qed

section \<open>Properties\<close>

text \<open>C9: The calls of the node meet the table of the socket layer. In every run from power-on, whatever the modem answers and
  whenever its notifications come, every call is made on a descriptor that passes the test of the socket layer with its slot in use
  (never on descriptor 107, which leads behind the table), and while the node goes on its configuration socket
  has its slot; the slots in use are then exactly that one and those whose closing the modem has not confirmed, provided that
  the ping can be encoded.\<close>
theorem node_descriptors:
  assumes "main l b ip0 ips now e es st = Some (r, s, wdt, st')" "node_ok st"
    "sys_trace (n_net st') = sys_trace (n_net st) @ calls_of ss"
    "on_modem net mk ip1 ss (results (n_net st), m) = Some (rs', m')" "n2_ok False m" "used m = {}"
  shows "calls_valid net mk ip1 ss (results (n_net st), m) \<and> (r = Goes_On \<longrightarrow> VALID_SOCKET s m' = Some True) \<and>
     (r = Goes_On \<and> (\<forall>p. lib_pb_ping l 128 p \<noteq> None) \<longrightarrow>
        used m' = insert s (set (unconfirmed net mk ip1 ss (results (n_net st), m))))"
proof -
  obtain fds' where f: "leads [] (n_net st) fds' (n_net st')" "r = Goes_On \<longrightarrow> s \<in> set fds'"
    "r = Goes_On \<and> (\<forall>p. lib_pb_ping l 128 p \<noteq> None) \<longrightarrow> fds' = [s]" by (rule main_leads [OF assms(1,2)])
  have "table_is [] {} m" using assms(5,6) by (simp add: table_is_def)
  from table_leads [OF this f(1) assms(3,4)] f(2,3) show ?thesis by (auto simp: table_is_def used_def)
qed

text \<open>C10: A full table ends in a restart. The application does not look at the result of closing a socket, and a slot whose
  closing the modem does not confirm stays in use; when all seven are, the next round fails to open its socket and restarts the node.\<close>
theorem full_table_restarts:
  assumes "main_round l c e st = Some (r, st')" "node_ok st" "sys_trace (n_net st') = sys_trace (n_net st) @ calls_of ss"
    "on_modem net mk ip0 ss (results (n_net st), m) = Some (rs', m')" "n2_ok False m" "\<forall>d. 100 \<le> d \<and> d < 107 \<longrightarrow> VALID_SOCKET d m = Some True"
  shows "r = Restarts"
proof -
  have "all_slots \<subseteq> used m" using assms(6) by (auto simp: all_slots_def used_def)
  then show ?thesis using full_table_round [OF assms(1-5)] used_all [OF assms(5)] by blast
qed

section \<open>Concrete runs\<close>

text \<open>The modem refuses a socket, or does not answer: the call fails, and the slot stays free.\<close>
lemma open_refused_on:
  assumes "n2_ok False m" "first_free 0 (sockets m) = Some i" "0 \<le> next_free_port m" "next_free_port m < 10 ^ 9"
    "r \<in> {AT_ERROR, AT_TIMEOUT}" "script (mdm m) = final_bytes r @ rx"
  obtains m' where "perform net mk ip0 (Call (Opened (-1))) ((-1, bs) # rs, m) = Some (rs, m')" "asks m (nsocr_command (next_free_port m)) rx m'"
    "sockets m' = (sockets m)[i := (sockets m ! i)\<lparr>local_port := next_free_port m\<rparr>]" "next_free_port m' = next_free_port m"
proof -
  let ?p = "next_free_port m"
  have len: "length (sockets m) = 7" by (rule ok_length [OF assms(1)])
  then have i: "i < 7" using first_free_Some [OF assms(2)] by simp
  define cmd where "cmd = nsocr_command ?p"
  have "length (fmt_d ?p) \<le> 9" using assms(3,4) by (intro length_fmt_d) simp_all
  then have fits: "length cmd < CMD_BUFFER_SIZE" "0 \<notin> set cmd"
    by (simp_all add: cmd_def nsocr_command_def CMD_BUFFER_SIZE_def zero_not_in_fmt_d)
  let ?s1 = "(sockets m ! i)\<lparr>local_port := ?p\<rparr>"
  have set1: "set_socket i (\<lambda>s. s\<lparr>local_port := ?p\<rparr>) (sem_op Take m) = Some ((sem_op Take m)\<lparr>sockets := (sockets m)[i := ?s1]\<rparr>)"
    using len i by (simp add: set_socket_def rd_in wr_in)
  obtain m2 where 2: "send_cmd cmd ((sem_op Take m)\<lparr>sockets := (sockets m)[i := ?s1]\<rparr>) = Some m2"
    "trace (mdm m2) = trace (mdm m) @ [Take, Write cmd]" "script (mdm m2) = script (mdm m)" "sockets m2 = (sockets m)[i := ?s1]"
    "next_free_port m2 = ?p"
    using send_cmd_fields [OF ok_set_socket [OF set1 ok_take [OF assms(1)]] fits] by auto
  have "atnsocr_decode (map Some (wire []) @ final_bytes r @ rx) = Some (r, -2, rx)"
    unfolding atnsocr_decode_def using assms(5) nsocr.settled_final by (subst decode_response) auto
  then have d: "atnsocr_decode (script (mdm m2)) = Some (r, -2, rx)" using assms(6) 2(3) by (simp add: wire_def)
  let ?m' = "sem_op Give (m2\<lparr>mdm := (mdm m2)\<lparr>script := rx\<rparr>\<rparr>)"
  have r: "r \<noteq> AT_OK" using assms(5) by (auto simp: at_results)
  have op: "offload_socket AF_INET SOCK_DGRAM IPPROTO_UDP m = Some (Inl ENOMEM, ?m')"
    using assms(2) set1 2(1,4) d r len i by (simp add: offload_socket_def Let_def rd_in cmd_def nsocr_command_def)
  have ok: "n2_ok False ?m'" using n2_step_ok [of plain_net "Op_socket AF_INET SOCK_DGRAM IPPROTO_UDP" m ?m'] op assms(1) by simp
  show ?thesis using that [of ?m'] op ok 2 by (simp add: asks_def cmd_def)
qed

text \<open>The report to the update server gets no socket, the configuration socket is the first one.\<close>
abbreviation "first_answers \<equiv> final_bytes AT_ERROR @ number_answer 3 @ []"
abbreviation "first_steps \<equiv> map Call [Slept 1000, ImageConfirmed 1, Opened (-1), Opened 100]"

lemma fresh_slots: "first_free 0 (sockets (fresh_n2 rx)) = Some 0" "next_free_port (fresh_n2 rx) = 6000" "script (mdm (fresh_n2 rx)) = rx"
  "sockets (fresh_n2 rx) = replicate 7 fresh_socket"
  by (simp_all add: fresh_n2_def fresh_socket_def numeral_eq_Suc)

lemma first_steps_on:
  obtains m' where "on_modem plain_net plain_address (replicate 16 0) first_steps (start_calls, fresh_n2 first_answers) = Some ([], m')"
proof -
  let ?m = "(fresh_n2 first_answers)\<lparr>mdm := emit (Sleep 1000) (mdm (fresh_n2 first_answers))\<rparr>"
  have m: "n2_ok False ?m" "first_free 0 (sockets ?m) = Some 0" "next_free_port ?m = 6000" "script (mdm ?m) = first_answers"
    "sockets ?m = replicate 7 fresh_socket"
    using ok_sleep [OF fresh_n2_ok] fresh_slots by (simp_all add: emit_def)
  obtain m1 where 1: "perform plain_net plain_address (replicate 16 0) (Call (Opened (-1))) ((-1, []) # [(100, [])], ?m) = Some ([(100, [])], m1)"
    "asks ?m (nsocr_command 6000) (number_answer 3 @ []) m1" "sockets m1 = (replicate 7 fresh_socket)[0 := fresh_socket\<lparr>local_port := 6000\<rparr>]"
    "next_free_port m1 = 6000"
    using open_refused_on [OF m(1,2) _ _ _ m(4), of plain_net plain_address "replicate 16 0" "[]" "[(100, [])]"] m(3,5) by auto
  have s: "sockets m1 = fresh_socket\<lparr>local_port := 6000\<rparr> # replicate 6 fresh_socket" unfolding 1(3) by (simp add: numeral_eq_Suc)
  have c: "can_open 0 3 m1" using asksD(1) [OF 1(2)] 1(4) by (simp add: can_open_def s fresh_socket_def)
  obtain m2 where 2: "perform plain_net plain_address (replicate 16 0) (Call (Opened (descr 0))) ((descr 0, []) # [], m1) = Some ([], m2)"
    using open_socket_on [OF c asksD(2) [OF 1(2)]] by metis
  have "on_modem plain_net plain_address (replicate 16 0) first_steps (start_calls, fresh_n2 first_answers) =
      on_modem plain_net plain_address (replicate 16 0) (map Call [Opened (-1), Opened 100]) ([(-1, []), (100, [])], ?m)" by simp
  also have "\<dots> = Some ([], m2)" using 1(1) 2 by (simp del: perform.simps)
  finally show ?thesis by (rule that)
qed

theorem node_descriptors_witness:
  "\<exists>st' m'. main demo_libs demo_board (replicate 16 0) (\<lambda>n. env_ips demo_env) 5000 demo_env [] (demo_node [] start_radio start_calls) =
       Some (Goes_On, 100, (0, [Timeout_Installed 0 7200000 True 0, Wdt_Set_Up 0]), st') \<and> sys_trace (n_net st') = calls_of first_steps \<and>
     on_modem plain_net plain_address (replicate 16 0) first_steps (start_calls, fresh_n2 first_answers) = Some ([], m') \<and> used m' = {100}"
proof -
  obtain st2 where m: "main demo_libs demo_board (replicate 16 0) (\<lambda>n. env_ips demo_env) 5000 demo_env [] (demo_node [] start_radio start_calls) =
      Some (Goes_On, 100, (0, [Timeout_Installed 0 7200000 True 0, Wdt_Set_Up 0]), st2)"
    "sys_trace (n_net st2) = [Slept 1000, ImageConfirmed 1, Opened (-1), Opened 100]" by (rule demo_main)
  obtain m' where o: "on_modem plain_net plain_address (replicate 16 0) first_steps (start_calls, fresh_n2 first_answers) = Some ([], m')"
    by (rule first_steps_on)
  have n: "results (n_net (demo_node [] start_radio start_calls)) = start_calls" "sys_trace (n_net (demo_node [] start_radio start_calls)) = []"
    by (simp_all add: demo_node_def toy_state_def)
  have t: "sys_trace (n_net st2) = sys_trace (n_net (demo_node [] start_radio start_calls)) @ calls_of first_steps" using m(2) n(2) by simp
  have e: "used (fresh_n2 first_answers) = {}" unfolding used_flags [OF fresh_n2_ok] by (auto simp: use_flags_def fresh_slots(4) fresh_socket_def)
  have u: "unconfirmed plain_net plain_address (replicate 16 0) (map Call [Slept d, ImageConfirmed i, Opened a, Opened a']) w = []" for d i a a' w
    by (simp del: perform.simps split: option.split)
  have p: "\<forall>p. lib_pb_ping demo_libs 128 p \<noteq> None" by (simp add: demo_libs_def)
  have "used m' = {100}"
    using node_descriptors [OF m(1) demo_node_ok t _ fresh_n2_ok e, of plain_net plain_address "replicate 16 0" "[]" m'] o n(1) u p by simp
  then show ?thesis using m o by auto
qed

text \<open>Seven slots in use: the round gets no socket.\<close>
definition full_n2 :: n2 where
  "full_n2 = (fresh_n2 [])\<lparr>sockets := replicate 7 (fresh_socket\<lparr>s_id := 3, in_use := True\<rparr>)\<rparr>"

theorem full_table_restarts_witness:
  "\<exists>r st'. main_round demo_libs 100 demo_env (demo_node [] [] [(0, []), (-1, [])]) = Some (r, st') \<and> r = Restarts"
proof -
  let ?st = "demo_node [] [] [(0, []), (-1, [])]"
  let ?ss = "map Call [Fed, Received 100 MAX_COMMAND_BUFFER, Opened (-1), Slept 1000, SystemReboot]"
  obtain st' where r: "main_round demo_libs 100 demo_env ?st = Some (Restarts, st')" "sys_trace (n_net st') = calls_of ?ss"
    by (simp add: main_round_def receive_config_def sys_recv_def sys_call_def sys_socket_def restart_def demo_node_def toy_state_def)
  have n: "results (n_net ?st) = [(0, []), (-1, [])]" "sys_trace (n_net ?st) = []" by (simp_all add: demo_node_def toy_state_def)
  have ok: "n2_ok False full_n2"
    using fresh_n2_ok [of "[]"] by (simp add: full_n2_def n2_ok_def held_def MDM_MAX_SOCKETS_def)
  have v: "\<forall>d. 100 \<le> d \<and> d < 107 \<longrightarrow> VALID_SOCKET d full_n2 = Some True"
    by (auto simp: VALID_SOCKET_def MDM_MAX_SOCKETS_def full_n2_def rd_def)
  have f: "sockets full_n2 = replicate 7 (fresh_socket\<lparr>s_id := 3, in_use := True\<rparr>)" by (simp add: full_n2_def)
  have s0: "rd (sockets full_n2) 0 = Some (fresh_socket\<lparr>s_id := 3, in_use := True\<rparr>)" unfolding f by (simp add: rd_def)
  have ff: "first_free 0 (sockets full_n2) = None" unfolding f by (simp add: numeral_eq_Suc)
  have o: "\<exists>m'. on_modem plain_net plain_address [] ?ss (results (n_net ?st), full_n2) = Some ([], m')"
    using v s0 ff unfolding n(1) by (simp add: offload_recvfrom_def offload_socket_def S_TO_I_def Let_def fresh_socket_def)
  show ?thesis
    using full_table_restarts [OF r(1) demo_node_ok _ _ ok v, of ?ss plain_net plain_address "[]" "[]"] r n(2) o by auto
qed

end
