(* ===== verification/Update_Sound.thy ===== *)
theory Update_Sound
  imports Fota_Net "HOL-Library.Sublist"
begin

text \<open>
  The update against any server (\<open>fota.c\<close>, \<open>flash.c\<close>): the node restarts into new firmware only behind a complete
  download, whatever the server, the modem and the flash answer, and what it has then written is exactly
  the image that the received messages make up. A download that fails leaves no request for an upgrade.
\<close>

section \<open>The image that messages make up\<close>

text \<open>
  The specification of a download: the messages of the server, in order. Each of them has to parse and to fit the block
  transfer, its announced size the flash bank, and its payload must not be empty; only the last one ends the transfer. The result is
  the image, and whether it is flushed, which is when the last block completes the announced size.
\<close>
fun image_from :: "'p coap \<Rightarrow> nat \<Rightarrow> block_ctx \<Rightarrow> nat \<Rightarrow> bytes list \<Rightarrow> (bytes \<times> bool) option" where
  "image_from c bank ctx got [] = None"
| "image_from c bank ctx got (d # ds) = do {
     reply \<leftarrow> (if d = [] then None else coap_parse c d);
     ctx \<leftarrow> update_from_block c reply ctx;
     let (again, ctx) = next_block c reply ctx;
         (off, len) = coap_payload c reply;
         block = take len (drop off (d @ replicate (MAX_BUFFER_LEN - length d) 0))
     in if bank < total_size ctx \<or> block = [] then None
       else if again then map_option (\<lambda>(img, fin). (block @ img, fin)) (image_from c bank ctx (got + len) ds)
       else if ds = [] then Some (block, got + len = total_size ctx)
       else None }"

text \<open>What the flash functions promise when they report success; they may fail at any time, with a negative number.\<close>
definition flash_sound :: "'fl flash \<Rightarrow> ('fl \<Rightarrow> bytes) \<Rightarrow> ('fl \<Rightarrow> bool) \<Rightarrow> bool" where
  "flash_sound fl content flushed \<longleftrightarrow>
     (\<forall>s. fst (boot_erase_img_bank fl s) \<le> 0) \<and>
     (\<forall>s. fst (boot_erase_img_bank fl (flash_img_init fl s)) = 0 \<longrightarrow> content (snd (boot_erase_img_bank fl (flash_img_init fl s))) = []) \<and>
     (\<forall>d l s. 0 \<le> fst (flash_img_buffered_write fl d l s) \<longrightarrow>
        content (snd (flash_img_buffered_write fl d l s)) = content s @ d \<and> (flushed (snd (flash_img_buffered_write fl d l s)) \<longleftrightarrow> l))"

lemma write_block_sound:
  assumes "flash_sound fl content flushed" "write_firmware_block fl d first final n fs = (ret, fs')" "0 \<le> ret"
  shows "n \<le> FLASH_BANK_SIZE fl" "d \<noteq> []" "content fs' = (if first then d else content fs @ d)" "flushed fs' \<longleftrightarrow> final"
proof -
  show n: "n \<le> FLASH_BANK_SIZE fl" "d \<noteq> []"
    using assms(2,3) by (auto simp: write_firmware_block_def EINVAL_NEG_def split: if_splits)
  obtain r fs1 where 1: "(if first then boot_erase_img_bank fl (flash_img_init fl fs) else (0, fs)) = (r, fs1)" by fastforce
  have w: "(if r \<noteq> 0 then (r, fs1) else flash_img_buffered_write fl d final fs1) = (ret, fs')"
    using assms(2) n 1 by (simp add: write_firmware_block_def Let_def split: if_splits)
  have e: "fst (boot_erase_img_bank fl x) \<le> 0" "fst (boot_erase_img_bank fl (flash_img_init fl x)) = 0 \<Longrightarrow>
      content (snd (boot_erase_img_bank fl (flash_img_init fl x))) = []"
    "0 \<le> fst (flash_img_buffered_write fl y z x) \<Longrightarrow> content (snd (flash_img_buffered_write fl y z x)) = content x @ y \<and>
      (flushed (snd (flash_img_buffered_write fl y z x)) \<longleftrightarrow> z)" for x y z
    using assms(1) unfolding flash_sound_def by blast+
  have "r \<le> 0" using 1 e(1) [of "flash_img_init fl fs"] by (cases first) simp_all
  then have r: "r = 0" using w assms(3) by (auto split: if_splits)
  then have "content fs1 = (if first then [] else content fs)" using 1 e(2) [of fs] by (cases first) simp_all
  moreover have "flash_img_buffered_write fl d final fs1 = (ret, fs')" using w r by simp
  then have "content fs' = content fs1 @ d \<and> (flushed fs' \<longleftrightarrow> final)" using e(3) [of d final fs1] assms(3) by simp
  ultimately show "content fs' = (if first then d else content fs @ d)" "flushed fs' \<longleftrightarrow> final" by simp_all
qed

section \<open>Parts of the program that do not restart the node\<close>

definition calm :: "sys_event \<Rightarrow> bool" where
  "calm e \<longleftrightarrow> (case e of UpgradeRequested u \<Rightarrow> False | SystemReboot \<Rightarrow> False | _ \<Rightarrow> True)"

lemma calm_simps [simp]:
  "calm (Opened s)" "calm (Connected s h p r)" "calm (Sent s d)" "calm (SentTo s d h p)" "calm (Polled s ms)" "calm (Received s n)"
  "calm (Received_Now s n)" "calm (Closed s)" "calm (Slept ms)" "calm Fed" "calm (ImageConfirmed i)" "\<not> calm (UpgradeRequested u)"
  "\<not> calm SystemReboot"
  by (simp_all add: calm_def)

text \<open>The script is used up from the front, and only calm events are left.\<close>
definition goes :: "'a sys_scheme \<Rightarrow> 'a sys_scheme \<Rightarrow> bool" where
  "goes a b \<longleftrightarrow> (\<exists>pre. results a = pre @ results b) \<and> (\<exists>es. sys_trace b = sys_trace a @ es \<and> list_all calm es)"

lemma goes_refl: "goes a a"
  by (simp add: goes_def)

lemma goes_trans: "goes a b \<Longrightarrow> goes b c \<Longrightarrow> goes a c"
  unfolding goes_def by (metis append_assoc list_all_append)

lemma goes_call: "sys_call e st = (r, bs, st') \<Longrightarrow> calm (e r) \<Longrightarrow> goes st st'"
  by (auto simp: sys_call_def goes_def split: list.splits)

lemma goes_recv: "sys_recv e n st = (r, bs, st') \<Longrightarrow> calm (e n) \<Longrightarrow> goes st st'"
  by (erule sys_recv_call) (rule goes_call)

lemma goes_fields [simp]:
  "goes st (st'\<lparr>response_buffer := b\<rparr>) = goes st st'" "goes st (st'\<lparr>dfu_ctx := f\<rparr>) = goes st st'"
  "goes st (st'\<lparr>ids_drawn := i\<rparr>) = goes st st'"
  by (simp_all add: goes_def)

lemma goes_cong: "goes st a \<Longrightarrow> sys_trace b = sys_trace a \<and> results b = results a \<Longrightarrow> goes st b"
  by (simp add: goes_def)

lemma goes_close: "goes st st' \<Longrightarrow> goes st (sys_close s st')"
  by (auto simp: goes_def)

lemma goes_wait: "wait_loop s w st = (ok, st') \<Longrightarrow> goes st st'"
proof (induction s w st arbitrary: ok rule: wait_loop.induct)
  case (1 s w st)
  obtain r bs st1 where c: "sys_call (\<lambda>_. Polled s POLL_WAIT_MS) st = (r, bs, st1)" by (metis prod_cases3)
  have l: "goes st st1" using goes_call [OF c] by simp
  then show ?case
    using 1(1) [OF c [symmetric] refl] 1(2) c goes_trans [OF l] by (subst (asm) (2) wait_loop.simps) (auto split: if_splits)
qed

lemma report_goes:
  assumes "fota_report_version c ver serial coap_host token tmp0 resp st = Some (ret, resp', st')"
  shows "goes st st'"
proof -
  obtain i st0 where 0: "draw_id st = (i, st0)" "goes st st0" by (simp add: draw_id_def goes_refl)
  obtain packet where p: "report_packet c ver serial token i tmp0 = Some packet"
    using assms 0 by (auto simp: fota_report_version_def Option.bind_eq_Some_conv)
  show ?thesis
  proof (cases packet)
    case None
    then show ?thesis using assms 0 p by (simp add: fota_report_version_def)
  next
    case (Some pk)
    obtain sock b1 st1 where 1: "sys_socket st0 = (sock, b1, st1)" by (metis prod_cases3)
    obtain err b2 st2 where 2: "sys_call (\<lambda>_. SentTo sock pk coap_host DEFAULT_FOTA_COAP_PORT) st1 = (err, b2, st2)" by (metis prod_cases3)
    obtain ok st3 where 3: "wait_for_response sock st2 = (ok, st3)" by fastforce
    obtain received bs st4 where 4: "sys_recv (Received sock) MAX_BUFFER_LEN st3 = (received, bs, st4)" by (metis prod_cases3)
    have g1: "goes st st1" using goes_trans [OF 0(2) goes_call [OF 1 [unfolded sys_socket_def]]] by simp
    have g2: "goes st st2" using goes_trans [OF g1 goes_call [OF 2]] by simp
    have g3: "goes st st3" by (rule goes_trans [OF g2 goes_wait [OF 3 [unfolded wait_for_response_def]]])
    have g4: "goes st st4" using goes_trans [OF g3 goes_recv [OF 4]] by simp
    have "st' = st1 \<or> st' = sys_close sock st2 \<or> st' = sys_close sock st3 \<or> st' = sys_close sock st4 \<or>
        sys_trace st' = sys_trace (sys_close sock st4) \<and> results st' = results (sys_close sock st4)"
      using assms 0(1) p Some 1 2 3 4 report_reply_trace [of c resp received bs "sys_close sock st4"]
      by (auto simp: fota_report_version_def split: if_splits)
    then show ?thesis
      using g1 goes_close [OF g2, of sock] goes_close [OF g3, of sock] goes_cong [OF goes_close [OF g4, of sock]] goes_close [OF g4, of sock]
      by blast
  qed
qed

section \<open>One block\<close>

text \<open>The messages that receive calls can still deliver.\<close>
definition msgs :: "'a sys_scheme \<Rightarrow> bytes list" where
  "msgs st = map (\<lambda>(r, bs). take MAX_BUFFER_LEN (take (nat r) bs)) (results st)"

lemma goes_msgs: "goes a b \<Longrightarrow> \<exists>pre. msgs a = pre @ msgs b"
  by (auto simp: goes_def msgs_def)

lemma msgs_recv:
  assumes "sys_recv e MAX_BUFFER_LEN st = (r, bs, st')" "0 < r"
  shows "msgs st = bs # msgs st' \<and> bs \<noteq> [] \<and> r = int (length bs) \<and> length bs \<le> MAX_BUFFER_LEN"
proof -
  obtain r0 bs0 where c: "sys_call (\<lambda>_. e MAX_BUFFER_LEN) st = (r0, bs0, st')" "length bs \<le> MAX_BUFFER_LEN" "r < 0 \<and> r = r0 \<and> bs = [] \<or> r = int (length bs)"
    "0 \<le> r \<longrightarrow> 0 \<le> r0 \<and> bs = take MAX_BUFFER_LEN (take (nat r0) bs0)" by (rule sys_recv_call [OF assms(1)])
  then have "bs \<noteq> []" "r = int (length bs)" using assms(2) by auto
  moreover have "msgs st = bs # msgs st'"
    using c(1,4) assms(2) calculation by (auto simp: sys_call_def msgs_def split: list.splits)
  ultimately show ?thesis using c(2) by simp
qed

text \<open>What a message does in the loop: the context behind it, its payload, whether more follow.\<close>
definition takes_block :: "'p coap \<Rightarrow> nat \<Rightarrow> block_ctx \<Rightarrow> nat \<Rightarrow> bytes \<Rightarrow> bool \<Rightarrow> block_ctx \<Rightarrow> nat \<Rightarrow> bytes \<Rightarrow> bool" where
  "takes_block c bank ctx got d again ctx' got' block \<longleftrightarrow> d \<noteq> [] \<and> block \<noteq> [] \<and> total_size ctx' \<le> bank \<and>
     (\<exists>reply ctx1 off len. coap_parse c d = Some reply \<and> update_from_block c reply ctx = Some ctx1 \<and> next_block c reply ctx1 = (again, ctx') \<and>
        coap_payload c reply = (off, len) \<and> got' = got + len \<and> block = take len (drop off (d @ replicate (MAX_BUFFER_LEN - length d) 0)))"

lemma store_block_sound:
  assumes "store_block c fl sock ctx got (int (length d)) d st = Some (Block fin ctx' got' st')" "flash_sound fl content flushed"
    "length d \<le> MAX_BUFFER_LEN"
  shows "\<exists>block. takes_block c (FLASH_BANK_SIZE fl) ctx got d (\<not> fin) ctx' got' block \<and>
     content (dfu_ctx st') = (if got = 0 then block else content (dfu_ctx st) @ block) \<and>
     (flushed (dfu_ctx st') \<longleftrightarrow> got' = total_size ctx') \<and> got < got' \<and> goes st st' \<and> msgs st' = msgs st"
proof -
  have ne: "d \<noteq> []" using assms(1) by (auto simp: store_block_def)
  let ?buf = "d @ replicate (MAX_BUFFER_LEN - length d) 0"
  have buf: "wr_block (replicate MAX_BUFFER_LEN 0) 0 d = Some ?buf" "take (nat (int (length d))) ?buf = d"
    using assms(3) by (simp_all add: wr_block_def)
  obtain reply where p: "coap_parse c d = Some reply"
    using assms(1) ne buf by (cases "coap_parse c d") (simp_all add: store_block_def Let_def)
  obtain ctx1 where u: "update_from_block c reply ctx = Some ctx1"
    using assms(1) ne buf p by (cases "update_from_block c reply ctx") (simp_all add: store_block_def Let_def)
  obtain again ctx2 off len where n: "next_block c reply ctx1 = (again, ctx2)" "coap_payload c reply = (off, len)" by fastforce
  let ?block = "take len (drop off ?buf)"
  obtain ret fs where w: "write_firmware_block fl ?block (got + len = len) (got + len = total_size ctx2) (total_size ctx2) (dfu_ctx st) = (ret, fs)"
    by fastforce
  have r: "0 \<le> ret" "fin = (\<not> again)" "ctx' = ctx2" "got' = got + len" "st' = st\<lparr>response_buffer := ?buf, dfu_ctx := fs\<rparr>"
    using assms(1) ne buf p u n w by (auto simp: store_block_def Let_def split: if_splits)
  note s = write_block_sound [OF assms(2) w r(1)]
  have "0 < len" using s(2) by (cases len) auto
  then show ?thesis
    using s r ne p u n by (intro exI [of _ ?block]) (auto simp: takes_block_def goes_def msgs_def)
qed

lemma store_block_failed:
  "store_block c fl sock ctx got r d st = Some (Failed st') \<Longrightarrow> goes st st'"
  using store_block_keeps [of c fl sock ctx got r d st "Failed st'"] by (auto simp: goes_def)

text \<open>Calls do not touch the flash.\<close>
lemma dfu_call: "sys_call e (st :: 'fl fota) = (r, bs, st') \<Longrightarrow> dfu_ctx st' = dfu_ctx st"
  by (auto simp: sys_call_def note_event_def split: list.splits)

lemma dfu_recv: "sys_recv e n (st :: 'fl fota) = (r, bs, st') \<Longrightarrow> dfu_ctx st' = dfu_ctx st"
  by (erule sys_recv_call) (rule dfu_call)

lemma dfu_wait: "wait_loop s w (st :: 'fl fota) = (ok, st') \<Longrightarrow> dfu_ctx st' = dfu_ctx st"
proof (induction s w st arbitrary: ok rule: wait_loop.induct)
  case (1 s w st)
  obtain r bs st1 where c: "sys_call (\<lambda>_. Polled s POLL_WAIT_MS) st = (r, bs, st1)" by (metis prod_cases3)
  then show ?case
    using 1(1) [OF c [symmetric] refl] 1(2) dfu_call [OF c] by (subst (asm) (2) wait_loop.simps) (auto split: if_splits)
qed

lemma download_block_sound:
  assumes "download_block c fl token sock pth ctx got st = Some t" "flash_sound fl content flushed"
  shows "case t of Failed st' \<Rightarrow> goes st st'
     | Block fin ctx' got' st' \<Rightarrow> goes st st' \<and> (\<exists>pre d block. msgs st = pre @ d # msgs st' \<and>
         takes_block c (FLASH_BANK_SIZE fl) ctx got d (\<not> fin) ctx' got' block \<and> got < got' \<and>
         content (dfu_ctx st') = (if got = 0 then block else content (dfu_ctx st) @ block) \<and> (flushed (dfu_ctx st') \<longleftrightarrow> got' = total_size ctx'))"
proof -
  obtain i s0 where 0: "draw_id st = (i, s0)" "goes st s0" "dfu_ctx s0 = dfu_ctx st" by (simp add: draw_id_def goes_refl)
  show ?thesis
  proof (cases "block_request c token i pth ctx")
    case None
    then show ?thesis using assms(1) 0 goes_close by (auto simp: download_block_def)
  next
    case (Some req)
    obtain sent b1 s1 where 2: "sys_call (\<lambda>_. Sent sock req) s0 = (sent, b1, s1)" by (metis prod_cases3)
    obtain w s2 where 3: "wait_for_response sock s1 = (w, s2)" by fastforce
    obtain rcv bs s3 where 4: "sys_recv (Received_Now sock) MAX_BUFFER_LEN s2 = (rcv, bs, s3)" by (metis prod_cases3)
    have g1: "goes st s1" using goes_trans [OF 0(2) goes_call [OF 2]] by simp
    have g2: "goes st s2" by (rule goes_trans [OF g1 goes_wait [OF 3 [unfolded wait_for_response_def]]])
    have g3: "goes st s3" using goes_trans [OF g2 goes_recv [OF 4]] by simp
    have dfu: "dfu_ctx s3 = dfu_ctx st"
      using dfu_call [OF 2] dfu_wait [OF 3 [unfolded wait_for_response_def]] dfu_recv [OF 4] 0(3) by simp
    have t: "t = Failed (sys_close sock s1) \<or> t = Failed (sys_close sock s2) \<or> store_block c fl sock ctx got rcv bs s3 = Some t"
      using assms(1) 0(1) Some 2 3 4 by (auto simp: download_block_def split: if_splits)
    show ?thesis
    proof (cases t)
      case (Failed st')
      then show ?thesis
        using t goes_close [OF g1, of sock] goes_close [OF g2, of sock] goes_trans [OF g3 store_block_failed] by auto
    next
      case (Block fin ctx' got' st')
      then have s: "store_block c fl sock ctx got rcv bs s3 = Some (Block fin ctx' got' st')" using t by simp
      then have "0 < rcv" by (cases "rcv \<le> 0") (simp_all add: store_block_def)
      from msgs_recv [OF 4 this] have m: "msgs s2 = bs # msgs s3" "rcv = int (length bs)" "length bs \<le> MAX_BUFFER_LEN" by simp_all
      obtain pre where "msgs st = pre @ msgs s2" using goes_msgs [OF g2] by blast
      then have "msgs st = pre @ bs # msgs s3" using m(1) by simp
      then show ?thesis
        using store_block_sound [OF s [unfolded m(2)] assms(2) m(3)] goes_trans [OF g3] Block dfu by fastforce
    qed
  qed
qed

section \<open>The whole download\<close>

lemma image_from_step:
  assumes "takes_block c bank ctx got d again ctx' got' block"
  shows "image_from c bank ctx got (d # ds) =
     (if again then map_option (\<lambda>(img, fin). (block @ img, fin)) (image_from c bank ctx' got' ds)
      else if ds = [] then Some (block, got' = total_size ctx') else None)"
proof -
  from assms have b: "d \<noteq> []" "block \<noteq> []" "\<not> bank < total_size ctx'" unfolding takes_block_def by simp_all
  from assms obtain reply ctx1 off len where a: "coap_parse c d = Some reply" "update_from_block c reply ctx = Some ctx1"
    "next_block c reply ctx1 = (again, ctx')" "coap_payload c reply = (off, len)" "got' = got + len"
    "block = take len (drop off (d @ replicate (MAX_BUFFER_LEN - length d) 0))"
    unfolding takes_block_def by blast
  show ?thesis using b by (simp only: image_from.simps a(1-5) a(6) [symmetric] Let_def prod.case if_False bind.bind_lunit de_Morgan_disj) simp
qed

declare image_from.simps [simp del]

lemma download_loop_sound:
  assumes "flash_sound fl content flushed" "download_loop c fl token sock pth ctx got st = Some (ok, st')"
  shows "goes st st' \<and> (ok \<longrightarrow> (\<exists>ds img fin. subseq ds (msgs st) \<and> image_from c (FLASH_BANK_SIZE fl) ctx got ds = Some (img, fin) \<and>
     content (dfu_ctx st') = (if got = 0 then img else content (dfu_ctx st) @ img) \<and> (flushed (dfu_ctx st') \<longleftrightarrow> fin)))"
  using assms
proof (induction c fl token sock pth ctx got st rule: download_loop.induct [case_names loop])
  case (loop c fl token sock pth ctx got st)
  obtain t where t: "download_block c fl token sock pth ctx got st = Some t"
    using loop(3) by (cases "download_block c fl token sock pth ctx got st") (simp_all add: download_loop.simps [of c])
  note b = download_block_sound [OF t loop(2)]
  show ?case
  proof (cases t)
    case (Failed s1)
    then show ?thesis using b t loop(3) by (simp add: download_loop.simps [of c])
  next
    case (Block fin ctx' got' s1)
    obtain pre d block where g: "goes st s1" and m: "msgs st = pre @ d # msgs s1" and
      tb: "takes_block c (FLASH_BANK_SIZE fl) ctx got d (\<not> fin) ctx' got' block" and got: "got < got'" and
      co: "content (dfu_ctx s1) = (if got = 0 then block else content (dfu_ctx st) @ block)" "flushed (dfu_ctx s1) \<longleftrightarrow> got' = total_size ctx'"
      using b unfolding Block by auto
    show ?thesis
    proof (cases fin)
      case True
      then have e: "ok" "st' = sys_close sock s1" using t Block loop(3) by (simp_all add: download_loop.simps [of c])
      have "image_from c (FLASH_BANK_SIZE fl) ctx got [d] = Some (block, got' = total_size ctx')"
        using image_from_step [OF tb, of "[]"] True by simp
      moreover have "subseq [d] (msgs st)" by (simp add: m subseq_singleton_left)
      moreover have "dfu_ctx st' = dfu_ctx s1" by (simp add: e(2) sys_close_def note_event_def)
      ultimately have "subseq [d] (msgs st) \<and> image_from c (FLASH_BANK_SIZE fl) ctx got [d] = Some (block, got' = total_size ctx') \<and>
          content (dfu_ctx st') = (if got = 0 then block else content (dfu_ctx st) @ block) \<and> (flushed (dfu_ctx st') \<longleftrightarrow> got' = total_size ctx')"
        using co by simp
      then show ?thesis using goes_close [OF g, of sock] unfolding e(2) by blast
    next
      case False
      then have "download_loop c fl token sock pth ctx' got' s1 = Some (ok, st')"
        using t Block loop(3) by (simp add: download_loop.simps [of c fl token sock pth ctx got])
      from loop(1) [OF t Block False loop(2) this]
      have ih: "goes s1 st'" "ok \<Longrightarrow> \<exists>ds img fin. subseq ds (msgs s1) \<and> image_from c (FLASH_BANK_SIZE fl) ctx' got' ds = Some (img, fin) \<and>
          content (dfu_ctx st') = content (dfu_ctx s1) @ img \<and> (flushed (dfu_ctx st') \<longleftrightarrow> fin)"
        using got by simp_all
      have "\<exists>ds img fin. subseq ds (msgs st) \<and> image_from c (FLASH_BANK_SIZE fl) ctx got ds = Some (img, fin) \<and>
          content (dfu_ctx st') = (if got = 0 then img else content (dfu_ctx st) @ img) \<and> (flushed (dfu_ctx st') \<longleftrightarrow> fin)" if ok: ok
      proof -
        obtain ds img fn where i: "subseq ds (msgs s1)" "image_from c (FLASH_BANK_SIZE fl) ctx' got' ds = Some (img, fn)"
          "content (dfu_ctx st') = content (dfu_ctx s1) @ img" "flushed (dfu_ctx st') \<longleftrightarrow> fn" using ih(2) [OF ok] by blast
        have "image_from c (FLASH_BANK_SIZE fl) ctx got (d # ds) = Some (block @ img, fn)"
          using image_from_step [OF tb, of ds] False i(2) by simp
        moreover have "subseq (d # ds) (msgs st)" using i(1) by (simp add: m subseq_drop_many)
        moreover have "content (dfu_ctx st') = (if got = 0 then block @ img else content (dfu_ctx st) @ (block @ img))"
          using i(3) co(1) by simp
        ultimately show ?thesis using i(4) by blast
      qed
      then show ?thesis using goes_trans [OF g ih(1)] by blast
    qed
  qed
qed

lemma download_image_sound:
  assumes "flash_sound fl content flushed" "fota_download_image c fl resp st = Some (ok, st')"
  shows "goes st st' \<and> (ok \<longrightarrow> (\<exists>ds img fin. subseq ds (msgs st) \<and>
     image_from c (FLASH_BANK_SIZE fl) \<lparr>total_size = 0, current_block = 0\<rparr> 0 ds = Some (img, fin) \<and>
     content (dfu_ctx st') = img \<and> (flushed (dfu_ctx st') \<longleftrightarrow> fin)))"
proof -
  obtain sock b1 st1 where 1: "sys_socket st = (sock, b1, st1)" by (metis prod_cases3)
  have g1: "goes st st1" using goes_call [OF 1 [unfolded sys_socket_def]] by simp
  show ?thesis
  proof (cases "sock < 0")
    case True
    then show ?thesis using assms(2) 1 g1 by (simp add: fota_download_image_def)
  next
    case False
    then obtain h where h: "c_str (host resp) = Some h"
      using assms(2) 1 by (auto simp: fota_download_image_def Option.bind_eq_Some_conv)
    obtain r b2 st2 where 2: "sys_call (Connected sock h (unat (ucast (port resp) :: u16))) st1 = (r, b2, st2)" by (metis prod_cases3)
    have g2: "goes st st2" using goes_trans [OF g1 goes_call [OF 2]] by simp
    show ?thesis
    proof (cases "r < 0")
      case True
      then have "ok = False" "st' = sys_close sock st2" using assms(2) 1 2 False h by (simp_all add: fota_download_image_def)
      then show ?thesis using goes_close [OF g2] by simp
    next
      case r: False
      then obtain p where p: "c_str (path resp) = Some p"
        using assms(2) 1 2 False h by (auto simp: fota_download_image_def Option.bind_eq_Some_conv)
      have "download_loop c fl (coap_token c (ids_drawn st2)) sock p \<lparr>total_size = 0, current_block = 0\<rparr> 0 st2 = Some (ok, st')"
        using assms(2) 1 2 False h r p by (simp add: fota_download_image_def)
      from download_loop_sound [OF assms(1) this] have d: "goes st2 st'"
        "ok \<Longrightarrow> \<exists>ds img fin. subseq ds (msgs st2) \<and>
           image_from c (FLASH_BANK_SIZE fl) \<lparr>total_size = 0, current_block = 0\<rparr> 0 ds = Some (img, fin) \<and>
           content (dfu_ctx st') = img \<and> (flushed (dfu_ctx st') \<longleftrightarrow> fin)" by simp_all
      obtain pre where "msgs st = pre @ msgs st2" using goes_msgs [OF g2] by blast
      then show ?thesis using goes_trans [OF g2 d(1)] d(2) subseq_drop_many [of _ "msgs st2" pre] by metis
    qed
  qed
qed

text \<open>C8: Updates are sound, whatever the server, the modem and the flash driver answer. The node requests the upgrade and
  restarts only at the end of a run of the update, and only behind a download in which every message it used
  could be parsed, fitted the block transfer and the flash bank, and was the last one to announce no more. The flash
  then holds exactly the payloads of these messages in the order in which they were received, and it is flushed exactly when the
  last block completed the announced size. A run that ends in any other way leaves no request for an upgrade and no restart.\<close>
theorem update_sound:
  assumes "flash_sound fl content flushed"
    "fota_run c fl ver serial coap_host token tmp0 resp0 st = Some (updated, st')"
  shows "\<exists>es. list_all calm es \<and>
     (if updated
      then (\<exists>u. sys_trace st' = sys_trace st @ es @ [UpgradeRequested u, SystemReboot]) \<and>
        (\<exists>ds img fin. subseq ds (msgs st) \<and>
           image_from c (FLASH_BANK_SIZE fl) \<lparr>total_size = 0, current_block = 0\<rparr> 0 ds = Some (img, fin) \<and>
           content (dfu_ctx st') = img \<and> (flushed (dfu_ctx st') \<longleftrightarrow> fin))
      else sys_trace st' = sys_trace st @ es)"
proof -
  obtain ret resp st1 where 1: "fota_report_version c ver serial coap_host token tmp0 resp0 st = Some (ret, resp, st1)"
    using assms(2) by (auto simp: fota_run_def Option.bind_eq_Some_conv)
  have g1: "goes st st1" by (rule report_goes [OF 1])
  show ?thesis
  proof (cases "ret = 0 \<and> scheduled_update resp")
    case False
    then show ?thesis using assms(2) 1 g1 by (auto simp: fota_run_def goes_def split: if_splits)
  next
    case True
    then obtain ok st2 where 2: "fota_download_image c fl resp st1 = Some (ok, st2)"
      using assms(2) 1 by (auto simp: fota_run_def Option.bind_eq_Some_conv)
    have s: "updated = ok" "st' = (if ok then do_reboot st2 else st2)"
      using assms(2) 1 2 True by (auto simp: fota_run_def split: if_splits)
    note d = download_image_sound [OF assms(1) 2]
    obtain es where es: "list_all calm es" "sys_trace st2 = sys_trace st @ es"
      using goes_trans [OF g1] d unfolding goes_def by blast
    show ?thesis
    proof (cases ok)
      case False
      then show ?thesis using es s by auto
    next
      case True
      obtain u bs st3 where 3: "sys_call UpgradeRequested st2 = (u, bs, st3)" by (metis prod_cases3)
      have r: "st' = note_event SystemReboot st3" using s 3 True by (simp add: do_reboot_def)
      have "sys_trace st' = sys_trace st @ es @ [UpgradeRequested u, SystemReboot]"
        using sys_call_trace [OF 3] es(2) r by (simp add: note_event_def)
      moreover have "dfu_ctx st' = dfu_ctx st2" using dfu_call [OF 3] r by (simp add: note_event_def)
      moreover obtain pre where "msgs st = pre @ msgs st1" using goes_msgs [OF g1] by blast
      ultimately show ?thesis
        using d True s(1) es(1) subseq_drop_many [of _ "msgs st1" pre] by metis
    qed
  qed
qed

lemma toy_flash_sound: "flash_sound toy_flash fst snd"
  by (simp add: flash_sound_def toy_flash_def)

text \<open>The report is answered without a field, with \<open>scheduled_update\<close> set; then come the two blocks of the toy server.\<close>
definition update_script :: "(int \<times> bytes) list" where
  "update_script = [(100, []), (50, []), (1, []), (2, [0, 0]), (100, []), (0, [])] @ concat (map exchange_results toy_blocks) @ [(0, [])]"

lemma update_script_runs:
  "map_option (\<lambda>(u, st'). (u, dfu_ctx st')) (fota_run toy_coap toy_flash [49] [50] [51] [] (replicate 256 0)
     (toy_response\<lparr>scheduled_update := True\<rparr>) (toy_state update_script)) = Some (True, [7, 8, 9], True)"
  by code_simp

theorem update_sound_witness:
  "\<exists>st' es ds fin. fota_run toy_coap toy_flash [49] [50] [51] [] (replicate 256 0) (toy_response\<lparr>scheduled_update := True\<rparr>)
       (toy_state update_script) = Some (True, st') \<and>
     (\<exists>u. sys_trace st' = es @ [UpgradeRequested u, SystemReboot]) \<and> list_all calm es \<and>
     subseq ds (msgs (toy_state update_script)) \<and>
     image_from toy_coap 100 \<lparr>total_size = 0, current_block = 0\<rparr> 0 ds = Some ([7, 8, 9], True)"
proof -
  obtain st' where s: "fota_run toy_coap toy_flash [49] [50] [51] [] (replicate 256 0) (toy_response\<lparr>scheduled_update := True\<rparr>)
       (toy_state update_script) = Some (True, st')" "dfu_ctx st' = ([7, 8, 9], True)"
    using update_script_runs by auto
  have "FLASH_BANK_SIZE toy_flash = 100" "sys_trace (toy_state update_script) = []" by (simp_all add: toy_flash_def toy_state_def)
  then show ?thesis using update_sound [OF toy_flash_sound s(1)] s by auto
qed

text \<open>The same update from a server that announces nine bytes and ends after three: the node restarts with an image that was never flushed.\<close>
lemma update_without_flush:
  "map_option (\<lambda>(u, st'). (u, dfu_ctx st')) (fota_run toy_coap toy_flash [49] [50] [51] [] (replicate 256 0)
     (toy_response\<lparr>scheduled_update := True\<rparr>) (toy_state ([(100, []), (50, []), (1, []), (2, [0, 0]), (100, []), (0, []),
       (11, []), (1, []), (4, [1, 9, 7, 8]), (11, []), (1, []), (3, [0, 9, 9]), (0, [])]))) = Some (True, [7, 8, 9], False)"
  by code_simp

end
