(* ===== verification/Spec2Isabelle.thy ===== *)
theory Spec2Isabelle
  imports Gps_Thread Max14830 Crc_Reference Message_Dump Start_Returns Config_On_Modem Update_On_Modem Modem_Threads
    Descriptors Update_Sound
begin

text \<open>
  Verification of the firmware of the air quality sensor node (\<open>Firmware/src\<close>).

  \<^bold>\<open>The program.\<close> A node samples a particle counter (\<open>opc_n3.c\<close>) and an analogue-digital converter
  (\<open>ads124s08.c\<close>) on one SPI bus, a humidity sensor (\<open>chipcap2.c\<close>) on I2C and a GPS receiver on a serial
  line (\<open>nmealib.c\<close>, \<open>gps_std.c\<close>, \<open>gps_cache.c\<close>, \<open>gps.c\<close>). \<open>main.c\<close> packs the readings into a message
  (\<open>messagebuffer.c\<close>) and sends it in a UDP datagram. Sockets are offloaded to a modem (\<open>n2_offload.c\<close>)
  that is driven with AT commands (\<open>comms.c\<close>, \<open>at_commands.c\<close>) through a UART expander on I2C
  (\<open>max14830.c\<close>). The access point and the server are chosen from settings in flash (\<open>config.c\<close>) that
  the server can replace (\<open>config_message.c\<close>). In every seventeenth round, and at the start, the node reports
  its version and downloads new firmware (\<open>fota.c\<close>, \<open>fota_tlv.c\<close>, \<open>flash.c\<close>).

  \<^bold>\<open>The theories.\<close>
  \<^item> \<open>Prelude\<close>: bytes, checked access to C arrays (\<open>rd\<close>, \<open>wr\<close>, \<open>wr_block\<close>), C strings, the functions of the C
    library that are used, and the interface of the floating-point unit.
  \<^item> \<open>Fota_Tlv\<close>, \<open>Fota_Message\<close>: the tag-length-value codec and the two messages of the update protocol.
  \<^item> \<open>Nmealib\<close>, \<open>Gps_Std\<close>, \<open>Gps_Cache\<close>, \<open>Gps\<close>: from a received byte to the cached position. \<open>Gps_Thread\<close>: the steps of the
    reader thread with the interrupts in any order between them, and the mutex that both take.
  \<^item> \<open>At_Commands\<close>: the line decoder and the decoder of every response of the modem.
  \<^item> \<open>Comms\<close>: the byte path from the interrupt to \<open>modem_read\<close>, the notification thread, and the command sequences.
  \<^item> \<open>Max14830\<close>: register access, baud rate, sending, and the receive thread that feeds \<open>Comms\<close>.
  \<^item> \<open>N2_Offload\<close>, \<open>N2_Start\<close>: the socket operations under their semaphore, and the start of the socket layer.
  \<^item> \<open>Config\<close>: the settings, the search for an access point, and configuration messages.
  \<^item> \<open>Board\<close>: pins, the SPI bus with its chip selects, and the interface of a driver on the bus.
  \<^item> \<open>Opc_N3\<close>, \<open>Ads124s08\<close>, \<open>Chipcap2\<close>: the sensors. \<open>Crc_Reference\<close>: the checksum as a division of polynomials.
  \<^item> \<open>Messagebuffer\<close>: the packed version and the sample message. \<open>Message_Dump\<close>: the functions that print for debugging.
  \<^item> \<open>System_Calls\<close>, \<open>Fota_Net\<close>: the calls that the application makes to the system, and the update over the network.
  \<^item> \<open>Main_Loop\<close>: start-up, one round, the loop, \<open>main\<close>, and the properties of the whole node. \<open>Node_Returns\<close>,
    \<open>Start_Returns\<close>: the start and every run of rounds end with a result, and 43 rounds end with a restart.
  \<^item> \<open>Calls_On_Modem\<close>: the calls of the application performed by the operations of the socket layer. \<open>Round_On_Modem\<close>,
    \<open>Config_On_Modem\<close>, \<open>Update_On_Modem\<close>: a round of the main loop, a round with a configuration message, and a whole
    update, down to the commands of the modem. \<open>Descriptors\<close>: the descriptors of the application against the table of sockets.
  \<^item> \<open>Update_Sound\<close>: the image that a list of messages makes up, and updates against any server, modem and flash.
  \<^item> \<open>Modem_Threads\<close>: the threads around the modem in any schedule: arriving bytes, the notification thread, readers, and operations on
    sockets, each cut into the sections in which it holds the modem lock; a section stays open while its answer arrives byte by byte.

  \<^bold>\<open>Correspondence with the code.\<close> Definitions have the names of the C functions; a loop or a block that needed
  a name of its own has a text that says where it stands. Static variables of a file are fields of a record (\<open>comms\<close>,
  \<open>n2\<close>, \<open>gps\<close>, \<open>config\<close>, \<open>opc\<close>, \<open>adc\<close>, \<open>cc2\<close>, \<open>fota\<close>, \<open>node\<close>). Arrays are lists with checked access; \<open>None\<close> is an
  access outside an array, the use of a string without end, or a wait without end, and is reported where it can happen.
  Machine integers that can wrap are words. The outside world is scripted: bytes of the modem with time-outs,
  transfers on SPI and I2C, results of system calls. A failed or missing answer is an entry of the script, and behind its
  end every call fails (a poll then finds its socket readable, and the receive fails), so statements for all scripts are statements for all behaviours of the devices. What the program
  does outside is a trace, in order. Memory that C leaves uninitialised is a parameter.

  \<^bold>\<open>Interfaces.\<close> The locale \<open>tlv_value\<close> (a decoder of one value of the codec) is interpreted by the decoders of
  strings, numbers and flags, the locale \<open>response_decoder\<close> (callbacks for characters and line ends, and what one answer line does)
  by the decoders of \<open>At_Commands\<close>, and the locale \<open>spi_driver\<close> (a driver gets the bus free, keeps the discipline of
  the chip selects, and gives it back free) by both SPI sensors.

  \<^bold>\<open>What is shown.\<close>
  \<^item> Whole node: one round sends exactly the encoding of the readings of this round to the configured server, as calls to the
    system and as commands to the modem; from power-on
    the bus is never driven by two chips and no socket is leaked or misused; once the socket layer has started, no access leaves an array as long as
    the addresses that the modem reports and the datagrams fit theirs and configuration messages have CoAP addresses, and the node restarts at the two-hour limit at the
    latest; every call is made on a descriptor whose slot is in use, and the slots in use are exactly the configuration socket and
    the sockets whose closing the modem has not confirmed, until a full table leads to a restart; updates are looked for in every seventeenth round.
  \<^item> Update: a complete download stores exactly the served image, flushed at the end; a whole update, from the report to the
    restart, makes the modem receive exactly the commands of its exchanges with the server; every path closes its sockets; against any server
    the node restarts into new firmware only behind a complete sequence of messages, and the flash then holds exactly their payloads;
    the codec round-trips.
  \<^item> Modem: the decoders deliver the values of each response among arbitrary other lines; received bytes come out in order
    (a refinement of a queue); notifications reach their callback
    in order in every schedule of the threads, and wake the poll on their socket; the semaphore of the modem is taken and given in turn in
    every reachable state of the socket layer; the socket commands are exact.
  \<^item> Configuration: the first access point that works is taken; messages are answered by content; a message with new
    settings that waits in the modem is fetched by the next round, takes effect, and survives a restart.
  \<^item> Sensors: every field of a sample is the documented part of what the device sent; every answer leads to an end; the
    checksum is the remainder of a polynomial division; GPS sentences parse and reach the sample in any order of
    interrupts and steps of the thread, unless a line ends while the thread holds the mutex of the cache; sentences with a wrong checksum are ignored.
  \<^item> Errors in the code that the model exhibits have a theorem or a lemma: the overflow of the host array and of the
    address buffer, the descriptor behind the last socket, the field pointers without a bound, the inverted flag of
    the particle counter, the decision to update on uninitialised memory, the socket left open by the ping, the slot kept by a
    close that is not confirmed, the interrupt that waits for a mutex, the restart into an image that was never flushed, the undefined
    output of the message dump.

  \<^bold>\<open>Bounds and termination.\<close> No fuel is used. Loops over indices and retries have measures: 22 polls of the particle counter,
  31 queries for an address, 121 polls for an answer. Loops that only the outside ends consume their script: the waits for the UART
  expander, the download, the receive thread. The endless main loop runs over a list with what each round finds; 43 rounds are enough because each takes 170 seconds of the clock at least and the limit is 7200.

  \<^bold>\<open>Idealisations.\<close> Some values are wider in the model than in the code: the bytes received in a download and the announced size
  (\<open>size_t\<close>; the theorems about stored images bound them by the flash bank), the number of the next ping, the bytes that wait at a socket, and the next local
  port (\<open>int\<close>) do not overflow. The context of a block transfer leaves out the block size, which only the CoAP library uses. \<open>flash_contract\<close>, the contract of
  the theorems that an image is stored, describes a flash whose erase and writes succeed; \<open>flash_sound\<close>, that of the theorem about any update,
  is the documented one, which may fail. A comparison of strings (\<open>strcmp_ne\<close>) has no result for an array without a terminator, although \<open>strcmp\<close> may end earlier: the model is
  stricter there. \<open>modem_write\<close> returns at once, while the code polls the transmitter until it is empty (\<open>wait_for_tx\<close>, modelled in \<open>Max14830\<close>).

  \<^bold>\<open>Not modelled.\<close> Parameters: the CoAP library, the generated protobuf codec, the flash and NVS drivers, floating-point
  arithmetic, heap and address conversion, ring buffers and semaphores of the kernel (with their contract). Left out: log output (but for the functions that dump data);
  creation of threads and registration of devices, with the entry \<open>dummy_offload_get\<close> that only refuses;
  register constants that no function uses; preemption inside an
  operation, except at the semaphores and pauses, where other threads run (a turn of a schedule runs from one blocking call to the next); the commented-out \<open>util.c\<close>; the Go server,
  the schemas and the hardware data of the repository.
\<close>

end
